(* ===== verification/Prelude.thy ===== *)
theory Prelude
  imports Complex_Main "HOL-Library.Char_ord" "HOL-Library.List_Lexorder" "HOL-Library.Product_Lexorder"
begin

text \<open>
  Shared vocabulary of the development: Python values, results that may be an exception,
  the string and dictionary operations of the Python standard library that the modelled
  code calls, and SQLite tables as lists of rows in rowid order.

  Strings are ASCII strings (\<^typ>\<open>string\<close>); on them \<open>str.lower\<close> and \<open>str.casefold\<close>
  are the same function.  A raised exception is an \<open>Inl\<close> value: the caller keeps its old
  state, which is what the rolled back transaction leaves behind.
\<close>

named_theorems str_eval \<open>evaluation of string functions on literals\<close>
named_theorems db_simps \<open>how the table operations act on keys, sums and lookups\<close>

section \<open>Results\<close>

type_synonym ('e, 'a) result = "'e + 'a"

definition bindR :: "('e, 'a) result \<Rightarrow> ('a \<Rightarrow> ('e, 'b) result) \<Rightarrow> ('e, 'b) result" where
  "bindR r f = (case r of Inl e \<Rightarrow> Inl e | Inr a \<Rightarrow> f a)"

lemma bindR_simps [simp]:
  "bindR (Inl e) f = Inl e"
  "bindR (Inr a) f = f a"
  by (simp_all add: bindR_def)

lemma bindR_InrE:
  assumes "bindR r f = Inr b"
  obtains a where "r = Inr a" "f a = Inr b"
  using assms by (cases r) auto

lemma bindR_eq_Inr: "bindR r f = Inr b \<longleftrightarrow> (\<exists>a. r = Inr a \<and> f a = Inr b)"
  by (cases r) auto

text \<open>The loop \<open>for x in xs: s = f(x, s)\<close>, stopped by the first exception.\<close>

fun foldR :: "('x \<Rightarrow> 's \<Rightarrow> ('e, 's) result) \<Rightarrow> 'x list \<Rightarrow> 's \<Rightarrow> ('e, 's) result" where
  "foldR f [] s = Inr s"
| "foldR f (x # xs) s = bindR (f x s) (foldR f xs)"

lemma foldR_append: "foldR f (xs @ ys) s = bindR (foldR f xs s) (foldR f ys)"
proof (induction xs arbitrary: s)
  case (Cons x xs)
  then show ?case by (cases "f x s") simp_all
qed simp

lemma foldR_invariant:
  assumes "foldR f xs s = Inr s'" and "P s"
    and "\<And>x s t. x \<in> set xs \<Longrightarrow> P s \<Longrightarrow> f x s = Inr t \<Longrightarrow> P t"
  shows "P s'"
  using assms
proof (induction xs arbitrary: s)
  case (Cons x xs)
  then obtain t where "f x s = Inr t" "foldR f xs t = Inr s'"
    by (auto elim: bindR_InrE)
  with Cons show ?case by (metis list.set_intros)
qed simp

lemma foldR_total:
  assumes "P s"
    and "\<And>x s. x \<in> set xs \<Longrightarrow> P s \<Longrightarrow> \<exists>t. f x s = Inr t \<and> P t"
  shows "\<exists>s'. foldR f xs s = Inr s' \<and> P s'"
  using assms
proof (induction xs arbitrary: s)
  case (Cons x xs)
  then obtain t where "f x s = Inr t" "P t" by (metis list.set_intros(1))
  with Cons show ?case by simp
qed simp

text \<open>
  A sequence of transactions: one that raises is rolled back and leaves the state as it was,
  the next one runs from there.
\<close>

definition attempt :: "('s \<Rightarrow> ('e, 's) result) \<Rightarrow> 's \<Rightarrow> 's" where
  "attempt f s = (case f s of Inl e \<Rightarrow> s | Inr t \<Rightarrow> t)"

fun run_ops :: "('o \<Rightarrow> 's \<Rightarrow> ('e, 's) result) \<Rightarrow> 'o list \<Rightarrow> 's \<Rightarrow> 's" where
  "run_ops f [] s = s"
| "run_ops f (x # xs) s = run_ops f xs (attempt (f x) s)"

lemma run_ops_append: "run_ops f (xs @ ys) s = run_ops f ys (run_ops f xs s)"
  by (induction xs arbitrary: s) simp_all

lemma run_ops_invariant:
  assumes "P s" and "\<And>x s t. P s \<Longrightarrow> f x s = Inr t \<Longrightarrow> P t"
  shows "P (run_ops f xs s)"
  using assms(1)
proof (induction xs arbitrary: s)
  case (Cons x xs)
  have "P (attempt (f x) s)"
    using Cons.prems assms(2) by (auto simp: attempt_def split: sum.split)
  then show ?case using Cons.IH by simp
qed simp

text \<open>A list comprehension whose element expression may raise.\<close>

fun mapR :: "('x \<Rightarrow> ('e, 'y) result) \<Rightarrow> 'x list \<Rightarrow> ('e, 'y list) result" where
  "mapR f [] = Inr []"
| "mapR f (x # xs) = bindR (f x) (\<lambda>y. bindR (mapR f xs) (\<lambda>ys. Inr (y # ys)))"

lemma mapR_Inr_length: "mapR f xs = Inr ys \<Longrightarrow> length ys = length xs"
  by (induction xs arbitrary: ys) (auto simp: bindR_eq_Inr)

lemma mapR_Inr_in:
  "mapR f xs = Inr ys \<Longrightarrow> y \<in> set ys \<Longrightarrow> \<exists>x\<in>set xs. f x = Inr y"
  by (induction xs arbitrary: ys) (auto simp: bindR_eq_Inr)

lemma mapR_list_all2: "mapR f xs = Inr ys \<Longrightarrow> list_all2 (\<lambda>x y. f x = Inr y) xs ys"
  by (induction xs arbitrary: ys) (auto simp: bindR_eq_Inr)

lemma mapR_Inr_all:
  "mapR f xs = Inr ys \<Longrightarrow> x \<in> set xs \<Longrightarrow> \<exists>y\<in>set ys. f x = Inr y"
  by (induction xs arbitrary: ys) (auto simp: bindR_eq_Inr)

section \<open>Python values\<close>

text \<open>
  The JSON-like values that untyped code inspects.  \<open>PNonFinite\<close> stands for a float that is
  infinite or not a number; finite floats are taken as the rationals they denote.
\<close>

datatype pyval =
    PNone
  | PBool bool
  | PInt int
  | PFloat rat
  | PNonFinite
  | PStr string
  | PList "pyval list"
  | PDict "(string \<times> pyval) list"

text \<open>\<open>json.dumps(v, allow_nan=False)\<close> accepts the value.\<close>

primrec json_finite :: "pyval \<Rightarrow> bool" where
  "json_finite PNone = True"
| "json_finite (PBool b) = True"
| "json_finite (PInt i) = True"
| "json_finite (PFloat q) = True"
| "json_finite PNonFinite = False"
| "json_finite (PStr s) = True"
| "json_finite (PList vs) = list_all id (map json_finite vs)"
| "json_finite (PDict d) = list_all snd (map (map_prod id json_finite) d)"

text \<open>SQLite's \<open>length(trim(s)) = 0\<close>: \<open>trim\<close> removes blanks only.\<close>

definition sql_blank :: "string \<Rightarrow> bool" where
  "sql_blank s \<longleftrightarrow> (\<forall>c\<in>set s. c = CHR '' '')"

definition dict_get :: "('k \<times> 'v) list \<Rightarrow> 'k \<Rightarrow> 'v option" where
  "dict_get d k = map_of d k"

text \<open>Assignment \<open>d[k] = v\<close>: an existing key keeps its position, a new key is appended.\<close>

fun dict_set :: "('k \<times> 'v) list \<Rightarrow> 'k \<Rightarrow> 'v \<Rightarrow> ('k \<times> 'v) list" where
  "dict_set [] k v = [(k, v)]"
| "dict_set ((k', v') # d) k v = (if k' = k then (k, v) # d else (k', v') # dict_set d k v)"

lemma dict_get_set: "dict_get (dict_set d k v) k' = (if k' = k then Some v else dict_get d k')"
  by (induction d) (auto simp: dict_get_def)

lemma keys_dict_set: "fst ` set (dict_set d k v) = insert k (fst ` set d)"
  by (induction d k v rule: dict_set.induct) (simp_all add: insert_commute)

lemma distinct_dict_set: "distinct (map fst d) \<Longrightarrow> distinct (map fst (dict_set d k v))"
proof (induction d)
  case (Cons p d)
  then show ?case
    by (cases p) (metis (no_types, lifting) distinct.simps(2) dict_set.simps(2) fst_conv
        image_set insert_iff keys_dict_set list.simps(9))
qed simp

text \<open>\<open>dict.fromkeys\<close>: the first occurrence of every element, in order.\<close>

fun dedupe_onto :: "'a list \<Rightarrow> 'a list \<Rightarrow> 'a list" where
  "dedupe_onto seen [] = []"
| "dedupe_onto seen (x # xs) =
     (if x \<in> set seen then dedupe_onto seen xs else x # dedupe_onto (x # seen) xs)"

definition dedupe :: "'a list \<Rightarrow> 'a list" where
  "dedupe xs = dedupe_onto [] xs"

lemma set_dedupe_onto: "set (dedupe_onto seen xs) = set xs - set seen"
  by (induction xs arbitrary: seen) auto

lemma distinct_dedupe_onto: "distinct (dedupe_onto seen xs)"
  by (induction xs arbitrary: seen) (auto simp: set_dedupe_onto)

lemma set_dedupe [simp]: "set (dedupe xs) = set xs"
  by (simp add: dedupe_def set_dedupe_onto)

lemma distinct_dedupe [simp]: "distinct (dedupe xs)"
  by (simp add: dedupe_def distinct_dedupe_onto)

lemma dedupe_Nil_iff [simp]: "dedupe xs = [] \<longleftrightarrow> xs = []"
  by (metis set_dedupe set_empty2)

section \<open>Strings\<close>

abbreviation is_upper :: "char \<Rightarrow> bool" where
  "is_upper c \<equiv> 65 \<le> (of_char c :: nat) \<and> of_char c \<le> (90::nat)"

definition lower_char :: "char \<Rightarrow> char" where
  "lower_char c = (if is_upper c then char_of ((of_char c :: nat) + 32) else c)"

definition upper_char :: "char \<Rightarrow> char" where
  "upper_char c = (if 97 \<le> (of_char c :: nat) \<and> of_char c \<le> (122::nat)
     then char_of ((of_char c :: nat) - 32) else c)"

definition lower :: "string \<Rightarrow> string" where
  "lower s = map lower_char s"

definition upper :: "string \<Rightarrow> string" where
  "upper s = map upper_char s"

lemma lower_char_idem [simp]: "lower_char (lower_char c) = lower_char c"
  by (auto simp: lower_char_def)

lemma lower_idem [simp]: "lower (lower s) = lower s"
  by (simp add: lower_def)

lemma upper_char_idem [simp]: "upper_char (upper_char c) = upper_char c"
proof (cases "97 \<le> (of_char c :: nat) \<and> of_char c \<le> (122::nat)")
  case True
  then have "(of_char c :: nat) - 32 < 97" by arith
  with True show ?thesis by (simp add: upper_char_def)
next
  case False
  then have "upper_char c = c" by (simp only: upper_char_def if_False)
  then show ?thesis by simp
qed

lemma upper_idem [simp]: "upper (upper s) = upper s"
  by (simp add: upper_def)

definition is_digit :: "char \<Rightarrow> bool" where
  "is_digit c \<longleftrightarrow> 48 \<le> (of_char c :: nat) \<and> of_char c \<le> (57::nat)"

definition is_lower_alpha :: "char \<Rightarrow> bool" where
  "is_lower_alpha c \<longleftrightarrow> 97 \<le> (of_char c :: nat) \<and> of_char c \<le> (122::nat)"

definition is_alpha :: "char \<Rightarrow> bool" where
  "is_alpha c \<longleftrightarrow> is_lower_alpha c \<or> is_upper c"

definition is_alnum :: "char \<Rightarrow> bool" where
  "is_alnum c \<longleftrightarrow> is_alpha c \<or> is_digit c"

text \<open>ASCII white space as \<open>str.strip\<close> and \<open>str.split\<close> see it.\<close>

definition is_space :: "char \<Rightarrow> bool" where
  "is_space c \<longleftrightarrow> (let n = (of_char c :: nat) in (9 \<le> n \<and> n \<le> 13) \<or> (28 \<le> n \<and> n \<le> 32))"

definition lstrip_by :: "(char \<Rightarrow> bool) \<Rightarrow> string \<Rightarrow> string" where
  "lstrip_by p s = dropWhile p s"

definition rstrip_by :: "(char \<Rightarrow> bool) \<Rightarrow> string \<Rightarrow> string" where
  "rstrip_by p s = rev (dropWhile p (rev s))"

definition strip_by :: "(char \<Rightarrow> bool) \<Rightarrow> string \<Rightarrow> string" where
  "strip_by p s = rstrip_by p (lstrip_by p s)"

definition strip :: "string \<Rightarrow> string" where
  "strip s = strip_by is_space s"

definition is_blank :: "string \<Rightarrow> bool" where
  "is_blank s \<longleftrightarrow> strip s = []"

lemma dropWhile_Nil_iff: "dropWhile p xs = [] \<longleftrightarrow> (\<forall>x\<in>set xs. p x)"
  by (induction xs) auto

lemma rstrip_by_Nil: "rstrip_by p s = [] \<longleftrightarrow> (\<forall>c\<in>set s. p c)"
  by (simp add: rstrip_by_def dropWhile_Nil_iff)

lemma is_blank_iff: "is_blank s \<longleftrightarrow> (\<forall>c\<in>set s. is_space c)"
proof -
  have "(\<forall>c\<in>set (dropWhile is_space s). is_space c) \<longleftrightarrow> (\<forall>c\<in>set s. is_space c)"
    by (induction s) auto
  then show ?thesis
    by (simp add: is_blank_def strip_def strip_by_def lstrip_by_def rstrip_by_Nil)
qed

fun starts_with :: "'a list \<Rightarrow> 'a list \<Rightarrow> bool" where
  "starts_with s [] = True"
| "starts_with [] (p # ps) = False"
| "starts_with (c # s) (p # ps) = (c = p \<and> starts_with s ps)"

lemma starts_with_iff: "starts_with s p \<longleftrightarrow> (\<exists>t. s = p @ t)"
  by (induction s p rule: starts_with.induct) auto

lemma starts_with_append [simp]: "starts_with (p @ t) p"
  by (auto simp: starts_with_iff)

definition ends_with :: "'a list \<Rightarrow> 'a list \<Rightarrow> bool" where
  "ends_with s p \<longleftrightarrow> starts_with (rev s) (rev p)"

lemma ends_with_iff: "ends_with s p \<longleftrightarrow> (\<exists>t. s = t @ p)"
proof
  assume "ends_with s p"
  then obtain t where "rev s = rev p @ t" by (auto simp: ends_with_def starts_with_iff)
  then have "s = rev t @ p" by (metis rev_append rev_rev_ident)
  then show "\<exists>t. s = t @ p" by blast
next
  assume "\<exists>t. s = t @ p"
  then show "ends_with s p" by (auto simp: ends_with_def)
qed

fun contains :: "'a list \<Rightarrow> 'a list \<Rightarrow> bool" where
  "contains [] p = (p = [])"
| "contains (c # s) p = (starts_with (c # s) p \<or> contains s p)"

lemma contains_iff: "contains s p \<longleftrightarrow> (\<exists>u v. s = u @ p @ v)"
proof (induction s)
  case (Cons c s)
  show ?case
  proof
    assume "contains (c # s) p"
    then consider "starts_with (c # s) p" | "contains s p" by auto
    then show "\<exists>u v. c # s = u @ p @ v"
    proof cases
      case 1
      then show ?thesis by (metis append_Nil starts_with_iff)
    next
      case 2
      then show ?thesis by (metis Cons.IH append_Cons)
    qed
  next
    assume "\<exists>u v. c # s = u @ p @ v"
    then obtain u v where uv: "c # s = u @ p @ v" by blast
    show "contains (c # s) p"
    proof (cases u)
      case Nil
      with uv have "starts_with (c # s) p" by simp
      then show ?thesis by simp
    next
      case (Cons d u')
      with uv have "s = u' @ p @ v" by simp
      then have "contains s p" using Cons.IH by blast
      then show ?thesis by simp
    qed
  qed
qed simp

lemma rstrip_by_idem [simp]: "rstrip_by P (rstrip_by P s) = rstrip_by P s"
proof -
  have "dropWhile P (dropWhile P xs) = dropWhile P xs" for xs by (induction xs) auto
  then show ?thesis by (simp add: rstrip_by_def)
qed

lemma rstrip_by_split: "\<exists>t. s = rstrip_by P s @ t \<and> (\<forall>c\<in>set t. P c)"
proof -
  have "rev s = takeWhile P (rev s) @ dropWhile P (rev s)" by simp
  then have "s = rev (dropWhile P (rev s)) @ rev (takeWhile P (rev s))"
    by (metis rev_append rev_rev_ident)
  moreover have "\<forall>c\<in>set (rev (takeWhile P (rev s))). P c" using set_takeWhileD by fastforce
  ultimately show ?thesis unfolding rstrip_by_def by blast
qed

lemma rstrip_by_no_tail:
  assumes "rstrip_by P s = u @ t" and "\<forall>c\<in>set t. P c"
  shows "t = []"
proof (rule ccontr)
  assume "t \<noteq> []"
  then have "rev t \<noteq> []" "P (hd (rev t))" using assms(2) by (simp_all add: hd_rev)
  moreover have "hd (dropWhile P (rev s)) = hd (rev t)" "dropWhile P (rev s) \<noteq> []"
    using assms(1) \<open>t \<noteq> []\<close> unfolding rstrip_by_def by (metis append_is_Nil_conv hd_append2 rev_append rev_is_Nil_conv rev_rev_ident)+
  ultimately show False using hd_dropWhile by metis
qed

lemma ends_with_trans: "ends_with a b \<Longrightarrow> ends_with b c \<Longrightarrow> ends_with a c"
  by (auto simp: ends_with_iff)

lemma ends_with_dot: "ends_with a ([d] @ b) \<Longrightarrow> ends_with b ([d] @ c) \<Longrightarrow> ends_with a ([d] @ c)"
  by (auto simp: ends_with_iff)

definition remove_prefix :: "'a list \<Rightarrow> 'a list \<Rightarrow> 'a list" where
  "remove_prefix s p = (if starts_with s p then drop (length p) s else s)"

text \<open>\<open>s.split(c)\<close> for a one-character separator.\<close>

fun split_on :: "'a \<Rightarrow> 'a list \<Rightarrow> 'a list list" where
  "split_on c [] = [[]]"
| "split_on c (x # xs) =
     (if x = c then [] # split_on c xs
      else (case split_on c xs of [] \<Rightarrow> [[x]] | w # ws \<Rightarrow> (x # w) # ws))"

lemma split_on_nonempty [simp]: "split_on c xs \<noteq> []"
  by (cases xs) (auto split: list.splits)

fun join_with :: "'a list \<Rightarrow> 'a list list \<Rightarrow> 'a list" where
  "join_with sep [] = []"
| "join_with sep [w] = w"
| "join_with sep (w # v # ws) = w @ sep @ join_with sep (v # ws)"

text \<open>\<open>" ".join(s.split())\<close> on ASCII text: runs of white space become one blank.\<close>

fun words_of :: "string \<Rightarrow> string \<Rightarrow> string list" where
  "words_of acc [] = (if acc = [] then [] else [rev acc])"
| "words_of acc (c # s) =
     (if is_space c then (if acc = [] then words_of [] s else rev acc # words_of [] s)
      else words_of (c # acc) s)"

definition squeeze_spaces :: "string \<Rightarrow> string" where
  "squeeze_spaces s = join_with '' '' (words_of [] s)"

lemmas char_eval [str_eval] = char_of_def bit_0 lower_def lower_char_def upper_def upper_char_def
  is_digit_def is_lower_alpha_def is_alpha_def is_alnum_def is_space_def Let_def

section \<open>Tables\<close>

text \<open>
  A table is the list of its rows in rowid order.  \<open>UPDATE ... WHERE p\<close> rewrites the rows
  that satisfy \<open>p\<close>; \<open>rowcount\<close> is their number.
\<close>

definition update_where :: "('r \<Rightarrow> bool) \<Rightarrow> ('r \<Rightarrow> 'r) \<Rightarrow> 'r list \<Rightarrow> 'r list" where
  "update_where p f t = map (\<lambda>r. if p r then f r else r) t"

definition rowcount :: "('r \<Rightarrow> bool) \<Rightarrow> 'r list \<Rightarrow> nat" where
  "rowcount p t = length (filter p t)"

definition find_row :: "('r \<Rightarrow> 'k) \<Rightarrow> 'k \<Rightarrow> 'r list \<Rightarrow> 'r option" where
  "find_row key k t = find (\<lambda>r. key r = k) t"

lemma update_where_Nil [simp]: "update_where p f [] = []"
  by (simp add: update_where_def)

lemma update_where_Cons [simp]:
  "update_where p f (r # t) = (if p r then f r else r) # update_where p f t"
  by (simp add: update_where_def)

lemma update_where_append [simp]:
  "update_where p f (t @ u) = update_where p f t @ update_where p f u"
  by (simp add: update_where_def)

lemma length_update_where [simp]: "length (update_where p f t) = length t"
  by (simp add: update_where_def)

lemma map_update_where:
  assumes "\<And>r. r \<in> set t \<Longrightarrow> p r \<Longrightarrow> g (f r) = g r"
  shows "map g (update_where p f t) = map g t"
  using assms by (simp add: update_where_def)

lemma in_update_where:
  "r \<in> set (update_where p f t) \<longleftrightarrow> (\<exists>r0\<in>set t. r = (if p r0 then f r0 else r0))"
  by (auto simp: update_where_def)

lemma ball_update_where:
  "(\<forall>r\<in>set (update_where p f t). P r) \<longleftrightarrow> (\<forall>r\<in>set t. if p r then P (f r) else P r)"
  by (auto simp: update_where_def)

lemma distinct_map_sort: "distinct (map f xs) \<Longrightarrow> distinct (map f (sort_key k xs))"
  by (simp add: distinct_map)

lemma find_row_Some: "find_row key k t = Some r \<Longrightarrow> r \<in> set t \<and> key r = k"
  by (auto simp: find_row_def find_Some_iff)

lemma find_row_None: "find_row key k t = None \<longleftrightarrow> k \<notin> key ` set t"
  by (auto simp: find_row_def find_None_iff)

lemma find_row_append:
  "find_row key k (t @ u) = (case find_row key k t of None \<Rightarrow> find_row key k u | Some r \<Rightarrow> Some r)"
  by (induction t) (auto simp: find_row_def)

lemma find_row_update_where [db_simps]:
  assumes "\<And>r. key (f r) = key r"
  shows "find_row key k (update_where p f t) =
    map_option (\<lambda>r. if p r then f r else r) (find_row key k t)"
  using assms by (induction t) (auto simp: find_row_def)

lemma find_row_update_key:
  assumes "\<And>r. key (f r) = key r"
  shows "find_row key k' (update_where (\<lambda>r. key r = k) f t) =
    (if k' = k then map_option f (find_row key k t) else find_row key k' t)"
  using assms by (induction t) (auto simp: find_row_def)

lemma find_row_snoc_new:
  "key r \<notin> key ` set t \<Longrightarrow> find_row key k (t @ [r]) = (if k = key r then Some r else find_row key k t)"
  by (induction t) (auto simp: find_row_def)

lemma find_row_unique:
  assumes "distinct (map key t)" and "r \<in> set t"
  shows "find_row key (key r) t = Some r"
  using assms by (induction t) (force simp: find_row_def)+

lemma sum_list_update_where_le:
  fixes g :: "'r \<Rightarrow> 'n::ordered_comm_monoid_add"
  assumes "\<And>r. r \<in> set t \<Longrightarrow> p r \<Longrightarrow> g (f r) \<le> g r"
  shows "sum_list (map g (update_where p f t)) \<le> sum_list (map g t)"
  using assms by (induction t) (auto intro: add_mono)

lemma sum_list_nonneg_filter_le:
  fixes g :: "'r \<Rightarrow> int"
  assumes "\<And>r. r \<in> set t \<Longrightarrow> 0 \<le> g r" and "\<And>r. r \<in> set t \<Longrightarrow> p r \<Longrightarrow> q r"
  shows "sum_list (map g (filter p t)) \<le> sum_list (map g (filter q t))"
  using assms
proof (induction t)
  case (Cons r t)
  have IH: "sum_list (map g (filter p t)) \<le> sum_list (map g (filter q t))"
    by (rule Cons.IH) (use Cons.prems in auto)
  have "0 \<le> g r" and "p r \<Longrightarrow> q r" using Cons.prems by auto
  with IH show ?case by auto
qed simp

end
