(* ===== verification/Interfaces.thy ===== *)
theory Interfaces
  imports Prelude
begin

text \<open>
  The contracts that several components of the pipeline share, as locales.  Each is
  interpreted on the modelled operations in the theory of the component that provides them:
  \<^item> \<open>spend_ledger\<close>: operations that charge a budget and never refund it (request governor,
    approval budget ledger, broker request counter);
  \<^item> \<open>audited_machine\<close>: status changes that are checked against a transition table and
    recorded in an append-only log (task lifecycle, coverage items);
  \<^item> \<open>versioned_store\<close>: optimistic concurrency by a version number (validation cases).
\<close>

section \<open>Budgets that are only ever spent\<close>

locale spend_ledger =
  fixes step :: "'o \<Rightarrow> 's \<Rightarrow> ('e, 's) result"
    and used :: "'s \<Rightarrow> int"
    and cost :: "'o \<Rightarrow> int"
    and cap :: int
  assumes charged: "step x s = Inr t \<Longrightarrow> used t = used s + cost x"
    and capped: "step x s = Inr t \<Longrightarrow> 0 < cost x \<Longrightarrow> used t \<le> cap"
    and no_refund: "step x s = Inr t \<Longrightarrow> 0 \<le> cost x"
begin

lemma step_within_cap: "step x s = Inr t \<Longrightarrow> used s \<le> cap \<Longrightarrow> used t \<le> cap"
  using charged capped no_refund by (metis add.right_neutral antisym_conv1)

lemma run_within_cap: "used s \<le> cap \<Longrightarrow> used (run_ops step xs s) \<le> cap"
  by (rule run_ops_invariant [where P = "\<lambda>s. used s \<le> cap"]) (auto dest: step_within_cap)

lemma run_never_refunds: "used s \<le> used (run_ops step xs s)"
  by (rule run_ops_invariant [where P = "\<lambda>t. used s \<le> used t"])
    (use charged no_refund in fastforce)+

lemma exhausted_rejects: "cap < used s + cost x \<Longrightarrow> 0 < cost x \<Longrightarrow> \<exists>e. step x s = Inl e"
  using charged capped by (metis linorder_not_less obj_sumE)

end

section \<open>Status machines with an append-only event log\<close>

text \<open>
  \<open>status s i\<close> is the stored status of the item \<open>i\<close>, \<open>log s\<close> the recorded events
  \<open>(item, previous, next)\<close>, oldest first.
\<close>

type_synonym ('i, 't) event = "'i \<times> 't \<times> 't"

text \<open>The status an item has after the logged events, starting from a given one.\<close>

fun replay :: "'i \<Rightarrow> 't \<Rightarrow> ('i, 't) event list \<Rightarrow> 't" where
  "replay i x [] = x"
| "replay i x ((j, _, y) # es) = replay i (if j = i then y else x) es"

text \<open>Every event of the item starts where the one before ended.\<close>

fun chained :: "'i \<Rightarrow> 't \<Rightarrow> ('i, 't) event list \<Rightarrow> bool" where
  "chained i x [] = True"
| "chained i x ((j, p, y) # es) =
     (if j = i then p = x \<and> chained i y es else chained i x es)"

lemma replay_append: "replay i x (es @ fs) = replay i (replay i x es) fs"
  by (induction es arbitrary: x) auto

lemma chained_append:
  "chained i x (es @ fs) \<longleftrightarrow> chained i x es \<and> chained i (replay i x es) fs"
  by (induction es arbitrary: x) auto

lemma replay_other: "\<forall>e\<in>set es. fst e \<noteq> i \<Longrightarrow> replay i x es = x"
  by (induction es arbitrary: x) auto

lemma chained_other: "\<forall>e\<in>set es. fst e \<noteq> i \<Longrightarrow> chained i x es"
  by (induction es arbitrary: x) auto

text \<open>\<open>ok\<close> is what the operations keep true of the state and may rely on.\<close>

locale audited_machine =
  fixes step :: "'o \<Rightarrow> 's \<Rightarrow> ('e, 's) result"
    and ok :: "'s \<Rightarrow> bool"
    and status :: "'s \<Rightarrow> 'i \<Rightarrow> 't option"
    and log :: "'s \<Rightarrow> ('i, 't) event list"
    and allowed :: "'i \<Rightarrow> 't \<Rightarrow> 't \<Rightarrow> bool"
  assumes kept: "step x s = Inr t \<Longrightarrow> ok s \<Longrightarrow> ok t"
    and moves: "step x s = Inr t \<Longrightarrow> ok s \<Longrightarrow> \<exists>es. log t = log s @ es
      \<and> (\<forall>(i, p, n)\<in>set es. allowed i p n)
      \<and> (\<forall>i p. status s i = Some p \<longrightarrow> chained i p es \<and> status t i = Some (replay i p es))"
begin

lemma run_ok: "ok s \<Longrightarrow> ok (run_ops step xs s)"
  by (rule run_ops_invariant) (auto dest: kept)

lemma run_moves:
  assumes "ok s"
  shows "\<exists>es. log (run_ops step xs s) = log s @ es
      \<and> (\<forall>(i, p, n)\<in>set es. allowed i p n)
      \<and> (\<forall>i p. status s i = Some p \<longrightarrow>
            chained i p es \<and> status (run_ops step xs s) i = Some (replay i p es))"
  using assms
proof (induction xs arbitrary: s)
  case Nil
  show ?case by (rule exI [of _ "[]"]) simp
next
  case (Cons x xs)
  show ?case
  proof (cases "step x s")
    case (Inl e)
    then show ?thesis using Cons.IH [OF Cons.prems] by (simp add: attempt_def)
  next
    case (Inr t)
    obtain es where es: "log t = log s @ es" "\<forall>(i, p, n)\<in>set es. allowed i p n"
      "\<And>i p. status s i = Some p \<Longrightarrow> chained i p es \<and> status t i = Some (replay i p es)"
      using moves [OF Inr Cons.prems] by blast
    obtain fs where fs: "log (run_ops step xs t) = log t @ fs" "\<forall>(i, p, n)\<in>set fs. allowed i p n"
      "\<And>i p. status t i = Some p \<Longrightarrow>
         chained i p fs \<and> status (run_ops step xs t) i = Some (replay i p fs)"
      using Cons.IH [OF kept [OF Inr Cons.prems]] by blast
    have "log (run_ops step (x # xs) s) = log s @ (es @ fs)"
      using Inr es(1) fs(1) by (simp add: attempt_def)
    moreover have "\<forall>(i, p, n)\<in>set (es @ fs). allowed i p n"
      using es(2) fs(2) by auto
    moreover have "\<forall>i p. status s i = Some p \<longrightarrow> chained i p (es @ fs)
        \<and> status (run_ops step (x # xs) s) i = Some (replay i p (es @ fs))"
      using Inr es(3) fs(3) by (simp add: attempt_def chained_append replay_append)
    ultimately show ?thesis by blast
  qed
qed

text \<open>The log accounts for the status: replaying the new events gives the stored status.\<close>

lemma run_replays:
  assumes "ok s" and "status s i = Some p"
  shows "status (run_ops step xs s) i =
    Some (replay i p (drop (length (log s)) (log (run_ops step xs s))))"
  using run_moves [OF assms(1), of xs] assms(2) by auto

lemma run_allowed:
  assumes "ok s" and "(i, p, n) \<in> set (drop (length (log s)) (log (run_ops step xs s)))"
  shows "allowed i p n"
  using run_moves [OF assms(1), of xs] assms(2) by auto

lemma run_chained:
  assumes "ok s" and "status s i = Some p"
  shows "chained i p (drop (length (log s)) (log (run_ops step xs s)))"
  using run_moves [OF assms(1), of xs] assms(2) by auto

lemma log_append_only: "ok s \<Longrightarrow> take (length (log s)) (log (run_ops step xs s)) = log s"
  using run_moves [of s xs] by auto

text \<open>A status from which nothing is allowed is final.\<close>

lemma final_status:
  assumes "ok s" and "status s i = Some p" and final: "\<And>n. \<not> allowed i p n"
  shows "status (run_ops step xs s) i = Some p"
proof -
  obtain es where allowed: "\<forall>(i, p, n)\<in>set es. allowed i p n" and chain: "chained i p es"
    and st: "status (run_ops step xs s) i = Some (replay i p es)"
    using run_moves [OF assms(1), of xs] assms(2) by auto
  have "replay i p es = p" using allowed chain
  proof (induction es)
    case (Cons e es)
    obtain j q n where e: "e = (j, q, n)" by (cases e)
    with Cons.prems final have "j \<noteq> i" by auto
    with Cons e show ?case by simp
  qed simp
  with st show ?thesis by simp
qed

end

section \<open>Optimistic concurrency\<close>

text \<open>
  \<open>writes x\<close> is the item and the version that the operation \<open>x\<close> says it read, for the operations
  that name one.  Such a write is let through only on the stored version, and moves it up.
\<close>

locale versioned_store =
  fixes step :: "'o \<Rightarrow> 's \<Rightarrow> ('e, 's) result"
    and ok :: "'s \<Rightarrow> bool"
    and version :: "'s \<Rightarrow> 'i \<Rightarrow> nat option"
    and writes :: "'o \<Rightarrow> ('i \<times> nat) option"
  assumes kept: "step x s = Inr t \<Longrightarrow> ok s \<Longrightarrow> ok t"
    and guarded: "step x s = Inr t \<Longrightarrow> ok s \<Longrightarrow> writes x = Some (i, v) \<Longrightarrow> version s i = Some v"
    and bumped: "step x s = Inr t \<Longrightarrow> ok s \<Longrightarrow> writes x = Some (i, v) \<Longrightarrow> \<exists>w>v. version t i = Some w"
    and growing: "step x s = Inr t \<Longrightarrow> version s i = Some v \<Longrightarrow> \<exists>w\<ge>v. version t i = Some w"
begin

lemma run_growing: "version s i = Some v \<Longrightarrow> \<exists>w\<ge>v. version (run_ops step xs s) i = Some w"
  by (rule run_ops_invariant [where P = "\<lambda>t. \<exists>w\<ge>v. version t i = Some w"])
    (auto dest: growing intro: order_trans)

text \<open>Of two writers that read the same version, the second is refused, whatever ran between.\<close>

lemma lost_update_refused:
  assumes "ok s" and first: "step x s = Inr t" and names: "writes x = Some (i, v)" "writes y = Some (i, v)"
  shows "\<exists>e. step y (run_ops step xs t) = Inl e"
proof (cases "step y (run_ops step xs t)")
  case (Inr u)
  have "ok (run_ops step xs t)"
    by (rule run_ops_invariant [where P = ok]) (use kept assms in blast)+
  with Inr have "version (run_ops step xs t) i = Some v" using guarded names(2) by blast
  moreover obtain w where "v < w" "version t i = Some w" using bumped [OF first assms(1) names(1)] by blast
  moreover from this obtain w' where "w \<le> w'" "version (run_ops step xs t) i = Some w'"
    using run_growing by blast
  ultimately show ?thesis by simp
qed blast

end

end
