(* ===== verification/Py_Url.thy ===== *)
theory Py_Url
  imports Prelude
begin

text \<open>
  The part of \<open>urllib.parse\<close> that the request boundary uses: \<open>urlsplit\<close> and the
  \<open>hostname\<close>, \<open>port\<close>, \<open>username\<close> and \<open>password\<close> properties of its result, on ASCII
  URLs (Python 3.13).  The IDNA codec and the \<open>ipaddress\<close> parser are arguments, collected in
  \<^theory_text>\<open>net_env\<close>.
\<close>

record net_env =
  idna_encode :: "string \<Rightarrow> string option" \<comment> \<open>\<open>s.encode('idna')\<close>; None is UnicodeError\<close>
  ip_address :: "string \<Rightarrow> (bool \<times> string) option"
    \<comment> \<open>\<open>ipaddress.ip_address\<close>: is it IPv6, and its canonical text; None is ValueError\<close>

text \<open>An environment for evaluating examples: ASCII names encode to themselves.\<close>

definition plain_env :: net_env where
  "plain_env = \<lparr>idna_encode = (\<lambda>s. Some s), ip_address = (\<lambda>s. None)\<rparr>"

record split_url =
  u_scheme :: string
  u_netloc :: string
  u_path :: string
  u_query :: string
  u_fragment :: string

section \<open>Cutting strings\<close>

text \<open>\<open>s.partition(c)\<close>: text before the first \<open>c\<close>, whether it was found, text after.\<close>

fun partition_at :: "char \<Rightarrow> string \<Rightarrow> string \<times> bool \<times> string" where
  "partition_at c [] = ([], False, [])"
| "partition_at c (x # s) =
     (if x = c then ([], True, s)
      else case partition_at c s of (a, found, b) \<Rightarrow> (x # a, found, b))"

definition rpartition_at :: "char \<Rightarrow> string \<Rightarrow> string \<times> bool \<times> string" where
  "rpartition_at c s =
     (case partition_at c (rev s) of
        (a, True, b) \<Rightarrow> (rev b, True, rev a)
      | (a, False, b) \<Rightarrow> ([], False, s))"

lemma partition_at_no:
  assumes "c \<notin> set s"
  shows "partition_at c s = (s, False, [])"
  using assms by (induction s) auto

lemma partition_at_append:
  assumes "c \<notin> set a"
  shows "partition_at c (a @ c # b) = (a, True, b)"
  using assms by (induction a) auto

lemma rpartition_at_no:
  assumes "c \<notin> set s"
  shows "rpartition_at c s = ([], False, s)"
  using assms by (simp add: rpartition_at_def partition_at_no)

text \<open>Decimal digits to an integer, as \<open>int\<close> reads them.\<close>

definition digit_val :: "char \<Rightarrow> nat" where
  "digit_val c = (of_char c :: nat) - 48"

definition parse_nat :: "string \<Rightarrow> nat" where
  "parse_nat s = foldl (\<lambda>n c. 10 * n + digit_val c) 0 s"

section \<open>urlsplit\<close>

definition is_scheme_char :: "char \<Rightarrow> bool" where
  "is_scheme_char c \<longleftrightarrow> is_alnum c \<or> c \<in> set ''+-.''"

definition is_c0_or_space :: "char \<Rightarrow> bool" where
  "is_c0_or_space c \<longleftrightarrow> (of_char c :: nat) \<le> 32"

definition split_scheme :: "string \<Rightarrow> string \<times> string" where
  "split_scheme url =
     (case partition_at (CHR '':'') url of
        (pre, True, post) \<Rightarrow>
          if pre \<noteq> [] \<and> is_alpha (hd pre) \<and> list_all is_scheme_char pre
          then (lower pre, post) else ([], url)
      | (pre, False, post) \<Rightarrow> ([], url))"

definition split_netloc :: "string \<Rightarrow> string \<times> string" where
  "split_netloc rest =
     (if starts_with rest ''//''
      then let r = drop 2 rest
           in (takeWhile (\<lambda>c. c \<notin> set ''/?#'') r, dropWhile (\<lambda>c. c \<notin> set ''/?#'') r)
      else ([], rest))"

definition host_and_port :: "string \<Rightarrow> string \<times> string" where
  "host_and_port netloc =
     (let hostinfo = snd (snd (rpartition_at (CHR ''@'') netloc))
      in case partition_at (CHR ''['') hostinfo of
           (_, True, bracketed) \<Rightarrow>
             (case partition_at (CHR '']'') bracketed of
                (h, _, after) \<Rightarrow> (h, snd (snd (partition_at (CHR '':'') after))))
         | (_, False, _) \<Rightarrow>
             (case partition_at (CHR '':'') hostinfo of (h, _, p) \<Rightarrow> (h, p)))"

definition is_hex :: "char \<Rightarrow> bool" where
  "is_hex c \<longleftrightarrow> is_digit c \<or> (let n = (of_char c :: nat) in (97 \<le> n \<and> n \<le> 102) \<or> (65 \<le> n \<and> n \<le> 70))"

text \<open>\<open>_check_bracketed_netloc\<close>: an IPvFuture literal or an IPv6 address, nothing else.\<close>

definition bracketed_ok :: "net_env \<Rightarrow> string \<Rightarrow> bool" where
  "bracketed_ok E netloc =
     (let hp = snd (snd (rpartition_at (CHR ''@'') netloc))
      in case partition_at (CHR ''['') hp of
           (before, found, bracketed) \<Rightarrow>
             let (h, p) = (if found then (case partition_at (CHR '']'') bracketed of (h, _, p) \<Rightarrow> (h, p))
                           else (case partition_at (CHR '':'') hp of (h, _, p) \<Rightarrow> (h, [])))
             in (found \<longrightarrow> before = [] \<and> (p = [] \<or> starts_with p '':''))
                \<and> (if starts_with h ''v''
                    then (case partition_at (CHR ''.'') (tl h) of
                            (hex, dot, rest) \<Rightarrow> hex \<noteq> [] \<and> list_all is_hex hex \<and> dot \<and> rest \<noteq> [])
                    else (case ip_address E h of Some (True, _) \<Rightarrow> True | _ \<Rightarrow> False)))"

definition clean_url :: "string \<Rightarrow> string" where
  "clean_url url = filter (\<lambda>c. c \<notin> {CHR 0x09, CHR 0x0A, CHR 0x0D}) (lstrip_by is_c0_or_space url)"

definition urlsplit :: "net_env \<Rightarrow> string \<Rightarrow> split_url option" where
  "urlsplit E url =
     (let (scheme, rest) = split_scheme (clean_url url);
          (netloc, rest) = split_netloc rest;
          open_br = CHR ''['' \<in> set netloc; close_br = CHR '']'' \<in> set netloc
      in if open_br \<noteq> close_br \<or> (open_br \<and> \<not> bracketed_ok E netloc) then None
         else let (rest, _, fragment) = partition_at (CHR ''#'') rest;
                  (path, _, query) = partition_at (CHR ''?'') rest
              in Some \<lparr>u_scheme = scheme, u_netloc = netloc, u_path = path,
                       u_query = query, u_fragment = fragment\<rparr>)"

definition u_hostname :: "split_url \<Rightarrow> string option" where
  "u_hostname u =
     (let h = fst (host_and_port (u_netloc u))
      in if h = [] then None
         else case partition_at (CHR ''%'') h of
                (name, found, zone) \<Rightarrow> Some (lower name @ (if found then ''%'' else []) @ zone))"

text \<open>The outer option is the \<open>ValueError\<close> of the \<open>port\<close> property, the inner one its None.\<close>

definition u_port :: "split_url \<Rightarrow> nat option option" where
  "u_port u =
     (let p = snd (host_and_port (u_netloc u))
      in if p = [] then Some None
         else if list_all is_digit p \<and> parse_nat p \<le> 65535 then Some (Some (parse_nat p))
         else None)"

definition u_username :: "split_url \<Rightarrow> string option" where
  "u_username u =
     (case rpartition_at (CHR ''@'') (u_netloc u) of
        (info, found, _) \<Rightarrow> if found then Some (fst (partition_at (CHR '':'') info)) else None)"

definition u_password :: "split_url \<Rightarrow> string option" where
  "u_password u =
     (case rpartition_at (CHR ''@'') (u_netloc u) of
        (info, True, _) \<Rightarrow> (case partition_at (CHR '':'') info of
            (_, True, pw) \<Rightarrow> Some pw | (_, False, _) \<Rightarrow> None)
      | (_, False, _) \<Rightarrow> None)"

text \<open>Python's \<open>x or y\<close> on an optional string and on an optional port: empty and 0 are false.\<close>

definition or_empty :: "string option \<Rightarrow> string" where
  "or_empty x = (case x of None \<Rightarrow> [] | Some s \<Rightarrow> s)"

definition or_default_port :: "nat option \<Rightarrow> string \<Rightarrow> nat" where
  "or_default_port p scheme =
     (case p of Some n \<Rightarrow> if n \<noteq> 0 then n else (if scheme = ''https'' then 443 else 80)
      | None \<Rightarrow> if scheme = ''https'' then 443 else 80)"

lemma u_port_le: "u_port u = Some (Some n) \<Longrightarrow> n \<le> 65535"
  by (auto simp: u_port_def Let_def split: if_splits)

lemma or_default_port_pos: "0 < or_default_port p scheme"
  by (auto simp: or_default_port_def split: option.splits)

lemmas url_defs [str_eval] = urlsplit_def split_scheme_def split_netloc_def clean_url_def
  lstrip_by_def is_c0_or_space_def is_scheme_char_def host_and_port_def rpartition_at_def
  u_hostname_def u_port_def u_username_def u_password_def or_empty_def or_default_port_def
  parse_nat_def digit_val_def

end
