(* ===== verification/Governor.thy ===== *)
theory Governor
  imports Interfaces Py_Url
begin

text \<open>
  \<open>src/src/aidast/core/request_governor.py\<close>: the durable ledger of outbound requests that
  every transport of a scan shares.  \<^theory_text>\<open>ledger\<close> is the SQLite file (its two tables),
  \<^theory_text>\<open>gov_binding\<close> the frozen configuration of a \<open>RequestGovernor\<close>,
  \<^theory_text>\<open>permit\<close> the \<open>_Permit\<close> object.  Clock readings, fresh identifiers and the
  outcome of taking the file lock are arguments; times and rates are rationals.
\<close>

section \<open>State\<close>

datatype gov_error = GovError string | GovBusy string rat

datatype rule_scope = ScanScope | ProgramScope | TargetScope

record gov_rule =
  r_maximum :: int
  r_period :: "rat option"
  r_scope :: rule_scope
  r_quote :: string

record gov_binding =
  g_ledger_path :: string
  g_scan :: string
  g_program :: string
  g_scan_max :: int
  g_max_seconds :: "rat option"
  g_rate :: rat
  g_concurrency :: int
  g_limits :: "gov_rule list"

datatype req_state = Reserved | Running | Complete

type_synonym origin = "string \<times> string \<times> nat"

record gov_request =
  q_id :: string
  q_program :: string
  q_scan :: string
  q_origin :: origin
  q_units :: int
  q_capacity :: int
  q_charged :: rat
  q_expires :: rat
  q_state :: req_state

record gov_scan =
  s_program :: string
  s_scan :: string
  s_started :: rat
  s_config :: gov_binding
  s_last :: "rat option"

record ledger =
  l_scans :: "gov_scan list"
  l_requests :: "gov_request list"

record permit =
  p_governed :: bool
  p_ident :: string
  p_timeout :: rat
  p_timeout_seconds :: rat
  p_done :: bool
  p_deadline :: "rat option"

section \<open>The constructor: reading an untrusted binding\<close>

text \<open>\<open>_number\<close>; a value that is not a finite positive number within the bound raises.\<close>

definition number_of :: "rat \<Rightarrow> bool \<Rightarrow> string \<Rightarrow> pyval \<Rightarrow> (gov_error, rat) result" where
  "number_of maximum integer name v =
     (let bad = Inl (GovError (''invalid governor '' @ name))
      in case v of
           PInt i \<Rightarrow> if 0 < i \<and> of_int i \<le> maximum then Inr (of_int i) else bad
         | PFloat q \<Rightarrow> if 0 < q \<and> q \<le> maximum \<and> \<not> integer then Inr q else bad
         | _ \<Rightarrow> bad)"

definition gov_identifier :: "pyval \<Rightarrow> (gov_error, string) result" where
  "gov_identifier v =
     (case v of
        PStr s \<Rightarrow>
          if is_blank s \<or> 160 < length s \<or> (\<exists>c\<in>set s. \<not> (is_alnum c \<or> c \<in> set ''_-''))
          then Inl (GovError ''invalid governor identifier'') else Inr s
      | _ \<Rightarrow> Inl (GovError ''invalid governor identifier''))"

text \<open>An absolute POSIX path with no \<open>..\<close> part and no NUL.\<close>

definition gov_path :: "pyval \<Rightarrow> (gov_error, string) result" where
  "gov_path v =
     (case v of
        PStr s \<Rightarrow>
          if starts_with s ''/'' \<and> CHR 0x00 \<notin> set s \<and> ''..'' \<notin> set (split_on (CHR ''/'') s)
          then Inr s else Inl (GovError ''invalid governor ledger path'')
      | _ \<Rightarrow> Inl (GovError ''invalid governor ledger path''))"

definition dict_field :: "(string \<times> pyval) list \<Rightarrow> string \<Rightarrow> pyval" where
  "dict_field d k = (case dict_get d k of None \<Rightarrow> PNone | Some v \<Rightarrow> v)"

definition optional_number ::
  "rat \<Rightarrow> string \<Rightarrow> pyval \<Rightarrow> (gov_error, rat option) result" where
  "optional_number maximum name v =
     (case v of PNone \<Rightarrow> Inr None
      | _ \<Rightarrow> bindR (number_of maximum False name v) (\<lambda>q. Inr (Some q)))"

definition scope_of :: "string \<Rightarrow> rule_scope option" where
  "scope_of s =
     (if s = ''scan'' then Some ScanScope else if s = ''program'' then Some ProgramScope
      else if s = ''target'' then Some TargetScope else None)"

definition quota_evidence :: "pyval \<Rightarrow> pyval \<Rightarrow> (rule_scope \<times> string) option" where
  "quota_evidence scope quote =
     (case (scope, quote) of
        (PStr s, PStr q) \<Rightarrow> if is_blank q then None else map_option (\<lambda>sc. (sc, q)) (scope_of s)
      | _ \<Rightarrow> None)"

definition gov_quota :: "pyval \<Rightarrow> (gov_error, gov_rule) result" where
  "gov_quota v =
     (case v of
        PDict d \<Rightarrow>
          if set (map fst d) \<noteq> {''maximum'', ''period_seconds'', ''scope'', ''source_quote''}
          then Inl (GovError ''invalid governor quota'')
          else bindR (number_of 100000000 True ''quota'' (dict_field d ''maximum'')) (\<lambda>m.
               bindR (optional_number 315360000 ''period'' (dict_field d ''period_seconds'')) (\<lambda>p.
               case quota_evidence (dict_field d ''scope'') (dict_field d ''source_quote'') of
                 None \<Rightarrow> Inl (GovError ''invalid governor quota scope/evidence'')
               | Some (sc, q) \<Rightarrow>
                   Inr \<lparr>r_maximum = \<lfloor>m\<rfloor>, r_period = p, r_scope = sc, r_quote = q\<rparr>))
      | _ \<Rightarrow> Inl (GovError ''invalid governor quota''))"

definition gov_required_fields :: "string set" where
  "gov_required_fields = {''ledger_path'', ''scan_id'', ''program_id'', ''scan_max_requests'',
     ''scan_max_seconds'', ''requests_per_second'', ''concurrency'', ''request_limits''}"

text \<open>\<open>RequestGovernor.__init__\<close>: None is the ungoverned instance.\<close>

definition make_governor :: "pyval \<Rightarrow> (gov_error, gov_binding option) result" where
  "make_governor v =
     (case v of
        PNone \<Rightarrow> Inr None
      | PDict d \<Rightarrow>
          if set (map fst d) \<noteq> gov_required_fields
          then Inl (GovError ''invalid governor binding fields'')
          else bindR (gov_identifier (dict_field d ''scan_id'')) (\<lambda>scan.
               bindR (gov_identifier (dict_field d ''program_id'')) (\<lambda>program.
               bindR (gov_path (dict_field d ''ledger_path'')) (\<lambda>path.
               bindR (number_of 100000 True ''budget'' (dict_field d ''scan_max_requests'')) (\<lambda>budget.
               bindR (number_of 20 True ''concurrency'' (dict_field d ''concurrency'')) (\<lambda>conc.
               bindR (number_of 50 False ''rate'' (dict_field d ''requests_per_second'')) (\<lambda>rate.
               bindR (optional_number 86400 ''deadline'' (dict_field d ''scan_max_seconds'')) (\<lambda>secs.
               case dict_field d ''request_limits'' of
                 PList rules \<Rightarrow>
                   if 64 < length rules then Inl (GovError ''invalid governor request limits'')
                   else bindR (mapR gov_quota rules) (\<lambda>limits.
                     Inr (Some \<lparr>g_ledger_path = path, g_scan = scan, g_program = program,
                       g_scan_max = \<lfloor>budget\<rfloor>, g_max_seconds = secs, g_rate = rate,
                       g_concurrency = \<lfloor>conc\<rfloor>, g_limits = limits\<rparr>))
               | _ \<Rightarrow> Inl (GovError ''invalid governor request limits''))))))))
      | _ \<Rightarrow> Inl (GovError ''invalid governor binding''))"

definition gov_origin :: "net_env \<Rightarrow> string \<Rightarrow> (gov_error, origin) result" where
  "gov_origin E url =
     (let bad = Inl (GovError ''invalid governor destination'')
      in case urlsplit E url of
           None \<Rightarrow> bad
         | Some p \<Rightarrow>
             (case u_hostname p of
                None \<Rightarrow> bad
              | Some host \<Rightarrow>
                  if u_scheme p \<notin> {''http'', ''https'', ''ws'', ''wss''}
                     \<or> u_username p \<noteq> None \<or> u_password p \<noteq> None then bad
                  else let scheme = (if u_scheme p = ''ws'' then ''http''
                                     else if u_scheme p = ''wss'' then ''https'' else u_scheme p)
                       in case idna_encode E (rstrip_by (\<lambda>c. c = CHR ''.'') (lower host)) of
                            None \<Rightarrow> bad
                          | Some h \<Rightarrow>
                              (case u_port p of None \<Rightarrow> bad
                               | Some port \<Rightarrow> Inr (scheme, h, or_default_port port scheme))))"

section \<open>Ledger operations\<close>

text \<open>\<open>json.dumps\<close> of the binding without its path identifies the configuration.\<close>

definition config_of :: "gov_binding \<Rightarrow> gov_binding" where
  "config_of b = b\<lparr>g_ledger_path := []\<rparr>"

definition units_where :: "(gov_request \<Rightarrow> bool) \<Rightarrow> gov_request list \<Rightarrow> int" where
  "units_where p rows = sum_list (map q_units (filter p rows))"

definition in_scan :: "gov_binding \<Rightarrow> gov_request \<Rightarrow> bool" where
  "in_scan b r \<longleftrightarrow> q_program r = g_program b \<and> q_scan r = g_scan b"

definition scan_units :: "gov_binding \<Rightarrow> ledger \<Rightarrow> int" where
  "scan_units b L = units_where (in_scan b) (l_requests L)"

text \<open>The lock of the SQLite file: free, held by somebody else, or the file is unusable.\<close>

datatype lock_outcome = LockFree | LockHeld | LockBroken

definition transaction ::
  "bool \<Rightarrow> lock_outcome \<Rightarrow> (gov_error, 'a) result \<Rightarrow> (gov_error, 'a) result" where
  "transaction nonblocking lk body =
     (case lk of
        LockFree \<Rightarrow> body
      | LockHeld \<Rightarrow> if nonblocking then Inl (GovBusy ''shared request ledger busy'' (2/100))
                   else Inl (GovError ''shared governor ledger unavailable or invalid'')
      | LockBroken \<Rightarrow> Inl (GovError ''shared governor ledger unavailable or invalid''))"

definition remaining_scan_requests :: "gov_binding option \<Rightarrow> ledger option \<Rightarrow> (gov_error, int) result" where
  "remaining_scan_requests g file =
     (case g of
        None \<Rightarrow> Inl (GovError ''shared governor required'')
      | Some b \<Rightarrow> (case file of None \<Rightarrow> Inr (g_scan_max b)
                   | Some L \<Rightarrow> Inr (max 0 (g_scan_max b - scan_units b L))))"

text \<open>
  \<open>_scan\<close>: register the scan on first use, refuse a changed configuration and a passed
  deadline.  The deadline is None where the code has infinity.
\<close>

definition scan_key :: "gov_binding \<Rightarrow> gov_scan \<Rightarrow> bool" where
  "scan_key b s \<longleftrightarrow> s_program s = g_program b \<and> s_scan s = g_scan b"

definition register_scan :: "gov_binding \<Rightarrow> rat \<Rightarrow> ledger \<Rightarrow> ledger" where
  "register_scan b now L =
     (if \<exists>s\<in>set (l_scans L). scan_key b s then L
      else L\<lparr>l_scans := l_scans L @ [\<lparr>s_program = g_program b, s_scan = g_scan b, s_started = now,
               s_config = config_of b, s_last = None\<rparr>]\<rparr>)"

definition scan_deadline :: "gov_binding \<Rightarrow> gov_scan \<Rightarrow> rat option" where
  "scan_deadline b s = map_option (\<lambda>m. s_started s + m) (g_max_seconds b)"

definition before :: "rat \<Rightarrow> rat option \<Rightarrow> bool" where
  "before t d \<longleftrightarrow> (case d of None \<Rightarrow> True | Some x \<Rightarrow> t < x)"

definition min_deadline :: "rat \<Rightarrow> rat option \<Rightarrow> rat" where
  "min_deadline t d = (case d of None \<Rightarrow> t | Some x \<Rightarrow> min t x)"

definition gov_scan_row ::
  "gov_binding \<Rightarrow> rat \<Rightarrow> ledger \<Rightarrow> (gov_error, ledger \<times> rat option \<times> rat option) result" where
  "gov_scan_row b now L =
     (let L' = register_scan b now L
      in case find (scan_key b) (l_scans L') of
           None \<Rightarrow> Inl (GovError ''shared governor ledger unavailable or invalid'')
         | Some s \<Rightarrow>
             if s_config s \<noteq> config_of b then Inl (GovError ''shared governor scan binding changed'')
             else if \<not> before now (scan_deadline b s) then Inl (GovError ''shared scan deadline exhausted'')
             else Inr (L', scan_deadline b s, s_last s))"

text \<open>\<open>_quotas\<close>: the rows a rule counts, and the check of one rule.\<close>

definition counts_for ::
  "gov_binding \<Rightarrow> origin \<Rightarrow> rat \<Rightarrow> string option \<Rightarrow> gov_rule \<Rightarrow> gov_request \<Rightarrow> bool" where
  "counts_for b origin now exclude rule r \<longleftrightarrow>
     q_program r = g_program b \<and> exclude \<noteq> Some (q_id r)
     \<and> (r_scope rule = ScanScope \<or> (r_scope rule = TargetScope \<and> r_period rule = None)
          \<longrightarrow> q_scan r = g_scan b)
     \<and> (r_scope rule = TargetScope \<longrightarrow> q_origin r = origin)
     \<and> (case r_period rule of None \<Rightarrow> True | Some p \<Rightarrow> now - p < q_charged r)"

fun min_charged :: "gov_request list \<Rightarrow> rat option" where
  "min_charged [] = None"
| "min_charged (r # rs) =
     (case min_charged rs of None \<Rightarrow> Some (q_charged r) | Some m \<Rightarrow> Some (min (q_charged r) m))"

definition quota_check ::
  "gov_binding \<Rightarrow> origin \<Rightarrow> int \<Rightarrow> rat \<Rightarrow> string option \<Rightarrow> ledger \<Rightarrow> gov_rule
     \<Rightarrow> (gov_error, unit) result" where
  "quota_check b origin units now exclude L rule =
     (let rows = filter (counts_for b origin now exclude rule) (l_requests L);
          message = ''shared policy request quota exhausted''
      in if sum_list (map q_units rows) + units \<le> r_maximum rule then Inr ()
         else case r_period rule of
                Some p \<Rightarrow>
                  if units \<le> r_maximum rule
                  then Inl (GovBusy message
                         (case min_charged rows of None \<Rightarrow> 2/100
                          | Some oldest \<Rightarrow> max (1/100) (oldest + p - now)))
                  else Inl (GovError message)
              | None \<Rightarrow> Inl (GovError message))"

fun quotas ::
  "gov_binding \<Rightarrow> origin \<Rightarrow> int \<Rightarrow> rat \<Rightarrow> string option \<Rightarrow> ledger \<Rightarrow> gov_rule list
     \<Rightarrow> (gov_error, unit) result" where
  "quotas b origin units now exclude L [] = Inr ()"
| "quotas b origin units now exclude L (rule # rules) =
     bindR (quota_check b origin units now exclude L rule)
       (\<lambda>_. quotas b origin units now exclude L rules)"

definition leased :: "rat \<Rightarrow> gov_request \<Rightarrow> bool" where
  "leased now r \<longleftrightarrow> q_state r \<in> {Reserved, Running} \<and> now < q_expires r"

definition active_capacity :: "gov_binding \<Rightarrow> rat \<Rightarrow> ledger \<Rightarrow> int" where
  "active_capacity b now L =
     sum_list (map q_capacity (filter (\<lambda>r. in_scan b r \<and> leased now r) (l_requests L)))"

definition new_permit :: "bool \<Rightarrow> string \<Rightarrow> rat \<Rightarrow> permit" where
  "new_permit governed ident timeout =
     \<lparr>p_governed = governed, p_ident = ident, p_timeout = timeout, p_timeout_seconds = timeout,
      p_done = False, p_deadline = None\<rparr>"

text \<open>The body of \<open>reserve\<close> inside its transaction.\<close>

definition reserve_row ::
  "gov_binding \<Rightarrow> rat \<Rightarrow> string \<Rightarrow> origin \<Rightarrow> int \<Rightarrow> int \<Rightarrow> rat \<Rightarrow> ledger \<Rightarrow> (gov_error, ledger) result" where
  "reserve_row b now ident origin units conc timeout L =
     bindR (gov_scan_row b now L) (\<lambda>(L1, deadline, _).
       if g_scan_max b < scan_units b L1 + units
       then Inl (GovError ''shared scan request budget exhausted'')
       else if g_concurrency b < active_capacity b now L1 + conc
       then Inl (GovBusy ''shared request concurrency limit reached'' (2/100))
       else bindR (quotas b origin units now None L1 (g_limits b)) (\<lambda>_.
         if ident \<in> q_id ` set (l_requests L1)
         then Inl (GovError ''shared governor ledger unavailable or invalid'')
         else Inr (L1\<lparr>l_requests := l_requests L1 @ [\<lparr>q_id = ident, q_program = g_program b,
                q_scan = g_scan b, q_origin = origin, q_units = units, q_capacity = conc,
                q_charged = now, q_expires = min_deadline (now + timeout + 30) deadline,
                q_state = Reserved\<rparr>]\<rparr>)))"

definition reserve ::
  "net_env \<Rightarrow> gov_binding option \<Rightarrow> string \<Rightarrow> int \<Rightarrow> rat \<Rightarrow> int \<Rightarrow> bool \<Rightarrow> lock_outcome \<Rightarrow> rat
     \<Rightarrow> string \<Rightarrow> ledger \<Rightarrow> (gov_error, ledger \<times> permit) result" where
  "reserve E g url units timeout conc nonblocking lk now ident L =
     (case g of
        None \<Rightarrow> Inr (L, new_permit False [] timeout)
      | Some b \<Rightarrow>
          bindR (number_of 1000000000000 True ''request units'' (PInt units)) (\<lambda>_.
          if conc \<notin> {0, 1} then Inl (GovError ''invalid governor concurrency units'')
          else bindR (number_of 86400 False ''request timeout'' (PFloat timeout)) (\<lambda>_.
          bindR (gov_origin E url) (\<lambda>origin.
          bindR (transaction nonblocking lk (reserve_row b now ident origin units conc timeout L)) (\<lambda>L'.
          Inr (L', new_permit True ident timeout))))))"

text \<open>
  \<open>_dispatch_delay\<close>: two clock readings, one before the ledger is read and one after.  The
  result is the ledger, the permit and the delay to wait (None when it was dispatched).
\<close>

definition due_time :: "gov_binding \<Rightarrow> rat option \<Rightarrow> gov_request \<Rightarrow> rat \<Rightarrow> rat" where
  "due_time b previous r now =
     max now (case previous of
                Some t \<Rightarrow> t + of_int (q_units r) / g_rate b
              | None \<Rightarrow> q_charged r + (of_int (q_units r) - 1) / g_rate b)"

definition set_running :: "string \<Rightarrow> rat \<Rightarrow> rat \<Rightarrow> gov_request list \<Rightarrow> gov_request list" where
  "set_running ident now expires rows =
     update_where (\<lambda>r. q_id r = ident)
       (\<lambda>r. r\<lparr>q_state := Running, q_charged := now, q_expires := expires\<rparr>) rows"

definition set_last :: "gov_binding \<Rightarrow> rat \<Rightarrow> gov_scan list \<Rightarrow> gov_scan list" where
  "set_last b now scans = update_where (scan_key b) (\<lambda>s. s\<lparr>s_last := Some now\<rparr>) scans"

definition dispatch_row ::
  "gov_binding \<Rightarrow> rat \<Rightarrow> rat \<Rightarrow> permit \<Rightarrow> ledger \<Rightarrow> (gov_error, ledger \<times> permit \<times> rat option) result" where
  "dispatch_row b now0 now p L =
     bindR (gov_scan_row b now0 L) (\<lambda>(L1, deadline, previous).
       if \<not> before now deadline then Inl (GovError ''shared scan deadline exhausted'')
       else if \<not> before now (p_deadline p)
       then Inl (GovError ''shared request deadline exhausted while waiting'')
       else case find_row q_id (p_ident p) (l_requests L1) of
              None \<Rightarrow> Inl (GovError ''request permit expired or already dispatched'')
            | Some r \<Rightarrow>
                if p_done p \<or> q_state r \<noteq> Reserved \<or> q_expires r \<le> now
                then Inl (GovError ''request permit expired or already dispatched'')
                else let due = due_time b previous r now
                     in if \<not> before due deadline \<or> q_expires r \<le> due \<or> \<not> before due (p_deadline p)
                        then Inl (GovError ''shared request deadline exhausted while pacing'')
                        else if due \<le> now
                        then bindR (quotas b (q_origin r) (q_units r) now (Some (p_ident p)) L1 (g_limits b)) (\<lambda>_.
                          Inr (L1\<lparr>l_requests := set_running (p_ident p) now
                                    (min_deadline (now + p_timeout p + 30) deadline) (l_requests L1),
                                 l_scans := set_last b now (l_scans L1)\<rparr>,
                               p\<lparr>p_timeout_seconds := min_deadline (p_timeout p) (map_option (\<lambda>d. d - now) deadline)\<rparr>,
                               None))
                        else Inr (L1, p, Some (due - now)))"

definition complete_row :: "string \<Rightarrow> ledger \<Rightarrow> ledger" where
  "complete_row ident L =
     L\<lparr>l_requests := update_where (\<lambda>r. q_id r = ident) (\<lambda>r. r\<lparr>q_state := Complete\<rparr>) (l_requests L)\<rparr>"

definition complete ::
  "bool \<Rightarrow> lock_outcome \<Rightarrow> permit \<Rightarrow> ledger \<Rightarrow> (gov_error, ledger \<times> permit) result" where
  "complete nonblocking lk p L =
     (if \<not> p_governed p \<or> p_done p then Inr (L, p)
      else bindR (transaction nonblocking lk (Inr (complete_row (p_ident p) L))) (\<lambda>L'.
        Inr (L', p\<lparr>p_done := True\<rparr>)))"

text \<open>
  \<open>acquire\<close>: the admission loop.  Time is explicit: the clock stands at \<open>t\<close> when a round
  begins, \<open>lag k\<close> passes before its reading number \<open>k\<close> (two readings a round: what is left of the
  waiting time, and the time inside the transaction), and the call \<open>sleeper(delay)\<close> of round \<open>i\<close>
  moves it on by \<open>slept i delay\<close>.  In round \<open>i\<close> the file lock is \<open>lk i\<close>, and before it
  other processes have done \<open>other i\<close> to the ledger.  A round ends with a permit or with the delay it
  asks for; None is a loop still waiting when the rounds are used up.
\<close>

definition acquire_round ::
  "net_env \<Rightarrow> gov_binding option \<Rightarrow> string \<Rightarrow> int \<Rightarrow> int \<Rightarrow> rat \<Rightarrow> rat \<Rightarrow> rat \<Rightarrow> lock_outcome
     \<Rightarrow> string \<Rightarrow> ledger \<Rightarrow> (gov_error, (ledger \<times> permit) + rat) result" where
  "acquire_round E g url units conc end t0 t1 lk ident L =
     (if end - t0 \<le> 0 then Inl (GovError ''shared request deadline exhausted while waiting'')
      else case reserve E g url units (end - t0) conc True lk t1 ident L of
             Inr (L', p) \<Rightarrow> Inr (Inl (L', p))
           | Inl (GovBusy _ retry) \<Rightarrow>
               let delay = min retry (end - t0)
               in if delay \<le> 0 then Inl (GovError ''shared request deadline exhausted while waiting'')
                  else Inr (Inr delay)
           | Inl (GovError e) \<Rightarrow> Inl (GovError e))"

fun acquire_loop ::
  "nat \<Rightarrow> nat \<Rightarrow> net_env \<Rightarrow> gov_binding option \<Rightarrow> string \<Rightarrow> int \<Rightarrow> int \<Rightarrow> rat \<Rightarrow> rat \<Rightarrow> rat
     \<Rightarrow> (nat \<Rightarrow> rat) \<Rightarrow> (nat \<Rightarrow> rat \<Rightarrow> rat) \<Rightarrow> (nat \<Rightarrow> lock_outcome) \<Rightarrow> (nat \<Rightarrow> ledger \<Rightarrow> ledger)
     \<Rightarrow> (nat \<Rightarrow> string) \<Rightarrow> ledger \<Rightarrow> (gov_error, ledger \<times> permit) result option" where
  "acquire_loop 0 i E g url units conc timeout end t lag slept lk other fresh L = None"
| "acquire_loop (Suc n) i E g url units conc timeout end t lag slept lk other fresh L =
     (let t0 = t + lag (2 * i); t1 = t0 + lag (2 * i + 1)
      in case acquire_round E g url units conc end t0 t1 (lk i) (fresh i) (other i L) of
           Inl e \<Rightarrow> Some (Inl e)
         | Inr (Inl (L', p)) \<Rightarrow>
             Some (Inr (L', p\<lparr>p_timeout := timeout, p_timeout_seconds := timeout, p_deadline := Some end\<rparr>))
         | Inr (Inr delay) \<Rightarrow>
             acquire_loop n (Suc i) E g url units conc timeout end (t1 + slept i delay) lag slept lk other fresh
               (other i L))"

definition acquire ::
  "nat \<Rightarrow> net_env \<Rightarrow> gov_binding option \<Rightarrow> string \<Rightarrow> int \<Rightarrow> rat \<Rightarrow> int \<Rightarrow> rat option \<Rightarrow> rat
     \<Rightarrow> (nat \<Rightarrow> rat) \<Rightarrow> (nat \<Rightarrow> rat \<Rightarrow> rat) \<Rightarrow> (nat \<Rightarrow> lock_outcome) \<Rightarrow> (nat \<Rightarrow> ledger \<Rightarrow> ledger)
     \<Rightarrow> (nat \<Rightarrow> string) \<Rightarrow> ledger \<Rightarrow> (gov_error, ledger \<times> permit) result option" where
  "acquire rounds E g url units timeout conc wait t lag slept lk other fresh L =
     (case bindR (number_of 86400 False ''request timeout'' (PFloat timeout)) (\<lambda>_.
           number_of 86400 False ''request admission timeout''
             (PFloat (case wait of None \<Rightarrow> timeout | Some w \<Rightarrow> w))) of
        Inl e \<Rightarrow> Some (Inl e)
      | Inr w \<Rightarrow> acquire_loop rounds 0 E g url units conc timeout (t + w) t lag slept lk other fresh L)"

text \<open>\<open>_Permit.wait\<close>: dispatch attempts separated by the pacing delay, on the same clock.\<close>

fun permit_wait ::
  "nat \<Rightarrow> nat \<Rightarrow> gov_binding option \<Rightarrow> rat \<Rightarrow> (nat \<Rightarrow> rat) \<Rightarrow> (nat \<Rightarrow> rat \<Rightarrow> rat) \<Rightarrow> (nat \<Rightarrow> lock_outcome)
     \<Rightarrow> (nat \<Rightarrow> ledger \<Rightarrow> ledger) \<Rightarrow> permit \<Rightarrow> ledger \<Rightarrow> (gov_error, ledger \<times> permit) result option" where
  "permit_wait 0 i g t lag slept lk other p L = None"
| "permit_wait (Suc n) i g t lag slept lk other p L =
     (case g of
        None \<Rightarrow> Some (Inr (L, p))
      | Some b \<Rightarrow>
          (let now0 = t + lag (2 * i); now = now0 + lag (2 * i + 1)
           in case transaction False (lk i) (dispatch_row b now0 now p (other i L)) of
                Inl e \<Rightarrow> Some (Inl e)
              | Inr (L', p', None) \<Rightarrow> Some (Inr (L', p'))
              | Inr (L', p', Some delay) \<Rightarrow>
                  permit_wait n (Suc i) g (now + slept i delay) lag slept lk other p' L'))"

section \<open>The ledger as a machine\<close>

text \<open>
  The transactions that all processes of a scan run on the shared file, in the order in which
  they obtain the lock.
\<close>

datatype gov_op =
    OpReserve rat string origin int int rat
  | OpDispatch rat rat permit
  | OpComplete string

fun gov_step :: "gov_binding \<Rightarrow> gov_op \<Rightarrow> ledger \<Rightarrow> (gov_error, ledger) result" where
  "gov_step b (OpReserve now ident origin units conc timeout) L =
     bindR (number_of 1000000000000 True ''request units'' (PInt units)) (\<lambda>_.
       if conc \<notin> {0, 1} then Inl (GovError ''invalid governor concurrency units'')
       else reserve_row b now ident origin units conc timeout L)"
| "gov_step b (OpDispatch now0 now p) L =
     bindR (dispatch_row b now0 now p L) (\<lambda>(L', _, _). Inr L')"
| "gov_step b (OpComplete ident) L = Inr (complete_row ident L)"

fun gov_cost :: "gov_op \<Rightarrow> int" where
  "gov_cost (OpReserve now ident origin units conc timeout) = units"
| "gov_cost (OpDispatch now0 now p) = 0"
| "gov_cost (OpComplete ident) = 0"

fun op_clocks :: "gov_op \<Rightarrow> rat list" where
  "op_clocks (OpReserve now ident origin units conc timeout) = [now]"
| "op_clocks (OpDispatch now0 now p) = [now0, now]"
| "op_clocks (OpComplete ident) = []"

definition empty_ledger :: ledger where
  "empty_ledger = \<lparr>l_scans = [], l_requests = []\<rparr>"

named_theorems gov_elims \<open>what a ledger operation that goes through has checked\<close>

lemma number_of_int_pos: "number_of m b name (PInt i) = Inr q \<Longrightarrow> 0 < i"
  by (auto simp: number_of_def Let_def split: if_splits)

lemma register_scan_requests [simp]: "l_requests (register_scan b now L) = l_requests L"
  by (simp add: register_scan_def)

lemma gov_scan_row_Inr [gov_elims]:
  assumes "gov_scan_row b now L = Inr (L', d, prev)"
  shows "L' = register_scan b now L" and "l_requests L' = l_requests L" and "before now d"
    and "\<exists>s. find (scan_key b) (l_scans L') = Some s \<and> d = scan_deadline b s \<and> prev = s_last s"
  using assms by (auto simp: gov_scan_row_def Let_def split: option.splits if_splits)

lemma reserve_row_Inr [gov_elims]:
  assumes "reserve_row b now ident origin units conc timeout L = Inr L'"
  obtains r where "l_requests L' = l_requests L @ [r]"
    "q_id r = ident" "q_program r = g_program b" "q_scan r = g_scan b" "q_origin r = origin"
    "q_units r = units" "q_capacity r = conc" "q_charged r = now" "q_state r = Reserved"
    "scan_units b L + units \<le> g_scan_max b"
    "active_capacity b now L + conc \<le> g_concurrency b"
    "quotas b origin units now None L (g_limits b) = Inr ()"
    "ident \<notin> q_id ` set (l_requests L)"
proof -
  from assms obtain L1 d prev where sr: "gov_scan_row b now L = Inr (L1, d, prev)"
    and body: "(if g_scan_max b < scan_units b L1 + units
       then Inl (GovError ''shared scan request budget exhausted'')
       else if g_concurrency b < active_capacity b now L1 + conc
       then Inl (GovBusy ''shared request concurrency limit reached'' (2/100))
       else bindR (quotas b origin units now None L1 (g_limits b)) (\<lambda>_.
         if ident \<in> q_id ` set (l_requests L1)
         then Inl (GovError ''shared governor ledger unavailable or invalid'')
         else Inr (L1\<lparr>l_requests := l_requests L1 @ [\<lparr>q_id = ident, q_program = g_program b,
                q_scan = g_scan b, q_origin = origin, q_units = units, q_capacity = conc,
                q_charged = now, q_expires = min_deadline (now + timeout + 30) d,
                q_state = Reserved\<rparr>]\<rparr>))) = Inr L'"
    by (auto simp: reserve_row_def elim!: bindR_InrE)
  note same = gov_scan_row_Inr(2) [OF sr]
  have qL: "quotas b origin units now None L1 rs = quotas b origin units now None L rs" for rs
    by (induction rs) (simp_all add: quota_check_def same)
  let ?r = "\<lparr>q_id = ident, q_program = g_program b, q_scan = g_scan b,
      q_origin = origin, q_units = units, q_capacity = conc, q_charged = now,
      q_expires = min_deadline (now + timeout + 30) d, q_state = Reserved\<rparr>"
  from body show thesis
    by (intro that [of ?r])
      (auto simp: same scan_units_def active_capacity_def qL bindR_eq_Inr split: if_splits)
qed

lemma dispatch_row_Inr [gov_elims]:
  assumes "dispatch_row b now0 now p L = Inr (L', p', None)"
  obtains L1 r d prev e where "gov_scan_row b now0 L = Inr (L1, d, prev)"
    "before now d" "before now (p_deadline p)"
    "find_row q_id (p_ident p) (l_requests L) = Some r"
    "q_state r = Reserved" "now < q_expires r" "\<not> p_done p" "due_time b prev r now \<le> now"
    "quotas b (q_origin r) (q_units r) now (Some (p_ident p)) L (g_limits b) = Inr ()"
    "e = min_deadline (now + p_timeout p + 30) d"
    "l_requests L' = set_running (p_ident p) now e (l_requests L)"
    "l_scans L' = set_last b now (l_scans L1)"
proof -
  from assms obtain L1 d prev where sr: "gov_scan_row b now0 L = Inr (L1, d, prev)"
    by (auto simp: dispatch_row_def elim!: bindR_InrE)
  note same = gov_scan_row_Inr(2) [OF sr]
  have qL: "quotas b og units t x L1 rs = quotas b og units t x L rs" for og units t x rs
    by (induction rs) (simp_all add: quota_check_def same)
  obtain r where r: "find_row q_id (p_ident p) (l_requests L) = Some r"
    using assms sr by (cases "find_row q_id (p_ident p) (l_requests L)")
      (auto simp: dispatch_row_def same split: if_splits)
  from assms sr r show thesis
    by (intro that [OF sr _ _ r])
      (auto simp: dispatch_row_def same qL Let_def bindR_eq_Inr split: if_splits)
qed

lemma dispatch_row_waits:
  assumes "dispatch_row b now0 now p L = Inr (L', p', Some delay)"
  shows "l_requests L' = l_requests L" and "0 < delay"
proof -
  from assms obtain L1 d prev where sr: "gov_scan_row b now0 L = Inr (L1, d, prev)"
    by (auto simp: dispatch_row_def elim!: bindR_InrE)
  from assms sr gov_scan_row_Inr(2) [OF sr] show "l_requests L' = l_requests L" and "0 < delay"
    by (auto simp: dispatch_row_def Let_def bindR_eq_Inr split: if_splits option.splits)
qed

text \<open>
  What every operation does to the rows: append one, rewrite the state, charge and lease of
  the rows of one identifier, or nothing.
\<close>

lemma gov_step_rows:
  assumes "gov_step b x L = Inr L'"
  obtains (reserve) now ident origin units conc timeout r where
      "x = OpReserve now ident origin units conc timeout"
      "0 < units" "conc \<in> {0, 1}" "l_requests L' = l_requests L @ [r]"
      "q_id r = ident" "q_program r = g_program b" "q_scan r = g_scan b" "q_origin r = origin"
      "q_units r = units" "q_capacity r = conc" "q_charged r = now" "q_state r = Reserved"
      "scan_units b L + units \<le> g_scan_max b"
      "active_capacity b now L + conc \<le> g_concurrency b"
      "quotas b origin units now None L (g_limits b) = Inr ()"
      "ident \<notin> q_id ` set (l_requests L)"
    | (dispatch) now0 now p e r where "x = OpDispatch now0 now p"
      "l_requests L' = set_running (p_ident p) now e (l_requests L)"
      "find_row q_id (p_ident p) (l_requests L) = Some r"
      "q_state r = Reserved" "now < q_expires r"
      "quotas b (q_origin r) (q_units r) now (Some (p_ident p)) L (g_limits b) = Inr ()"
    | (wait) now0 now p where "x = OpDispatch now0 now p" "l_requests L' = l_requests L"
    | (complete) ident where "x = OpComplete ident" "L' = complete_row ident L"
proof (cases x)
  case (OpReserve now ident origin units conc timeout)
  with assms have pos: "0 < units" and conc: "conc \<in> {0, 1}"
    and row: "reserve_row b now ident origin units conc timeout L = Inr L'"
    by (auto simp: bindR_eq_Inr split: if_splits dest: number_of_int_pos)
  show ?thesis
    by (rule reserve_row_Inr [OF row], rule reserve [OF OpReserve pos conc]) simp_all
next
  case (OpDispatch now0 now p)
  with assms obtain p' o' where row: "dispatch_row b now0 now p L = Inr (L', p', o')"
    by (auto simp: bindR_eq_Inr)
  show ?thesis
  proof (cases o')
    case None
    with row have row: "dispatch_row b now0 now p L = Inr (L', p', None)" by simp
    show ?thesis by (rule dispatch_row_Inr [OF row], rule dispatch [OF OpDispatch]) assumption+
  next
    case (Some delay)
    with row have "l_requests L' = l_requests L" using dispatch_row_waits by simp
    with OpDispatch show ?thesis by (rule wait)
  qed
next
  case (OpComplete ident)
  with assms show ?thesis by (intro complete) auto
qed

lemma set_running_keeps:
  assumes "\<And>r t e. g (r\<lparr>q_state := Running, q_charged := t, q_expires := e\<rparr>) = g r"
  shows "map g (set_running ident t e rows) = map g rows"
  by (simp add: set_running_def map_update_where assms)

lemma units_where_cong:
  "map (\<lambda>r. (p r, q_units r)) rows = map (\<lambda>r. (p r, q_units r)) rows'
     \<Longrightarrow> units_where p rows = units_where p rows'"
proof (induction rows arbitrary: rows')
  case (Cons r rows)
  then obtain r' rs where "rows' = r' # rs" by (cases rows') auto
  with Cons show ?case by (simp add: units_where_def)
qed (simp add: units_where_def)

lemma scan_units_set_running [simp]:
  "units_where (in_scan b) (set_running ident t e rows) = units_where (in_scan b) rows"
  by (rule units_where_cong, rule set_running_keeps) (simp add: in_scan_def)

lemma scan_units_complete [simp]: "scan_units b (complete_row ident L) = scan_units b L"
  unfolding scan_units_def complete_row_def
  by (simp, rule units_where_cong, rule map_update_where) (simp add: in_scan_def)

lemma scan_units_step:
  assumes "gov_step b x L = Inr L'"
  shows "scan_units b L' = scan_units b L + gov_cost x"
  using assms
proof (cases rule: gov_step_rows)
  case reserve
  then show ?thesis by (simp add: scan_units_def units_where_def in_scan_def)
next
  case dispatch
  then show ?thesis by (simp add: scan_units_def)
next
  case wait
  then show ?thesis by (simp add: scan_units_def)
next
  case complete
  then show ?thesis by simp
qed

lemma scan_units_capped:
  assumes "gov_step b x L = Inr L'" and "0 < gov_cost x"
  shows "scan_units b L' \<le> g_scan_max b"
  using assms(1)
proof (cases rule: gov_step_rows)
  case reserve
  then show ?thesis using scan_units_step [OF assms(1)] by simp
qed (use assms(2) in auto)

lemma gov_cost_nonneg: "gov_step b x L = Inr L' \<Longrightarrow> 0 \<le> gov_cost x"
  by (erule gov_step_rows) auto

interpretation gov: spend_ledger "gov_step b" "scan_units b" gov_cost "g_scan_max b"
  by unfold_locales (erule scan_units_step, erule (1) scan_units_capped, erule gov_cost_nonneg)

section \<open>What holds of the ledger at every moment\<close>

text \<open>
  The invariant at time \<open>t\<close>: identifiers are unique and the leases that are alive fit the
  concurrency limit.
\<close>

definition gov_inv :: "gov_binding \<Rightarrow> rat \<Rightarrow> ledger \<Rightarrow> bool" where
  "gov_inv b t L \<longleftrightarrow>
     distinct (map q_id (l_requests L))
     \<and> (\<forall>r\<in>set (l_requests L). 0 < q_units r \<and> 0 \<le> q_capacity r)
     \<and> active_capacity b t L \<le> g_concurrency b"

definition sane_binding :: "gov_binding \<Rightarrow> bool" where
  "sane_binding b \<longleftrightarrow> 0 < g_scan_max b \<and> 0 < g_concurrency b \<and> 0 < g_rate b
     \<and> (\<forall>rule\<in>set (g_limits b). 0 < r_maximum rule \<and> (\<forall>p. r_period rule = Some p \<longrightarrow> 0 < p))"

lemma number_of_ge_1: "number_of m True name v = Inr q \<Longrightarrow> 1 \<le> q"
  by (cases v) (auto simp: number_of_def split: if_splits)

lemma number_of_pos: "number_of m i name v = Inr q \<Longrightarrow> 0 < q"
  by (cases v) (auto simp: number_of_def split: if_splits)

lemma optional_number_pos: "optional_number m name v = Inr (Some q) \<Longrightarrow> 0 < q"
  by (cases v) (auto simp: optional_number_def bindR_eq_Inr dest: number_of_pos)

lemma gov_quota_fields:
  assumes "gov_quota v = Inr rule"
  obtains d m p where "v = PDict d"
    "number_of 100000000 True ''quota'' (dict_field d ''maximum'') = Inr m"
    "optional_number 315360000 ''period'' (dict_field d ''period_seconds'') = Inr p"
    "r_maximum rule = \<lfloor>m\<rfloor>" "r_period rule = p"
proof -
  from assms obtain d where v: "v = PDict d" by (cases v) (auto simp: gov_quota_def)
  let ?rest = "\<lambda>m p. case quota_evidence (dict_field d ''scope'') (dict_field d ''source_quote'') of
      None \<Rightarrow> Inl (GovError ''invalid governor quota scope/evidence'')
    | Some (sc, q) \<Rightarrow> Inr \<lparr>r_maximum = \<lfloor>m\<rfloor>, r_period = p, r_scope = sc, r_quote = q\<rparr>"
  from assms have "bindR (number_of 100000000 True ''quota'' (dict_field d ''maximum'')) (\<lambda>m.
      bindR (optional_number 315360000 ''period'' (dict_field d ''period_seconds'')) (?rest m)) = Inr rule"
    by (simp only: gov_quota_def v pyval.case split: if_splits) simp
  then obtain m p where m: "number_of 100000000 True ''quota'' (dict_field d ''maximum'') = Inr m"
    and p: "optional_number 315360000 ''period'' (dict_field d ''period_seconds'') = Inr p"
    and rest: "?rest m p = Inr rule"
    by (blast elim: bindR_InrE)
  from rest have "r_maximum rule = \<lfloor>m\<rfloor>" and "r_period rule = p"
    by (cases "quota_evidence (dict_field d ''scope'') (dict_field d ''source_quote'')"; clarsimp)+
  with v m p show thesis by (rule that)
qed

lemma gov_quota_sane:
  assumes "gov_quota v = Inr rule"
  shows "0 < r_maximum rule" and "r_period rule = Some p \<Longrightarrow> 0 < p"
  by (rule gov_quota_fields [OF assms], auto dest: number_of_ge_1 optional_number_pos)+

lemma gov_limits_sane:
  assumes "mapR gov_quota rules = Inr limits" and "rule \<in> set limits"
  shows "0 < r_maximum rule \<and> (\<forall>p. r_period rule = Some p \<longrightarrow> 0 < p)"
  using mapR_Inr_in [OF assms] gov_quota_sane by blast

lemma make_governor_sane:
  assumes "make_governor v = Inr (Some b)"
  shows "sane_binding b"
proof -
  from assms obtain d where v: "v = PDict d" by (cases v) (auto simp: make_governor_def)
  show ?thesis
    using assms unfolding make_governor_def v
    by (cases "dict_field d ''request_limits''")
      (auto simp: bindR_eq_Inr sane_binding_def split: if_splits
        intro: number_of_ge_1 number_of_pos dest: gov_limits_sane)
qed

lemma gov_inv_empty: "sane_binding b \<Longrightarrow> gov_inv b t empty_ledger"
  by (auto simp: gov_inv_def sane_binding_def empty_ledger_def active_capacity_def
      intro: less_imp_le)

text \<open>Time passing only lets leases expire.\<close>

lemma gov_inv_later:
  assumes "gov_inv b t L" and "t \<le> t'"
  shows "gov_inv b t' L"
proof -
  have "active_capacity b t' L \<le> active_capacity b t L"
    unfolding active_capacity_def
    by (rule sum_list_nonneg_filter_le) (use assms in \<open>auto simp: gov_inv_def leased_def\<close>)
  then show ?thesis
    using assms(1) unfolding gov_inv_def by (meson order_trans)
qed

lemma units_where_append [simp]:
  "units_where p (rows @ rows') = units_where p rows + units_where p rows'"
  by (simp add: units_where_def)

lemma gov_inv_reserve:
  assumes inv: "gov_inv b now L" and "0 < units" "conc \<in> {0, 1}" "q_id r \<notin> q_id ` set (l_requests L)"
    and r: "q_program r = g_program b" "q_scan r = g_scan b" "q_origin r = origin"
      "q_units r = units" "q_capacity r = conc"
    and slots: "active_capacity b now L + conc \<le> g_concurrency b"
    and L': "l_requests L' = l_requests L @ [r]"
  shows "gov_inv b now L'"
proof -
  have "active_capacity b now L' \<le> g_concurrency b"
    using slots L' r \<open>conc \<in> {0, 1}\<close> inv by (auto simp: active_capacity_def gov_inv_def)
  then show ?thesis
    using assms by (auto simp: gov_inv_def)
qed

lemma leases_set_running:
  assumes "distinct (map q_id rows)" and "find_row q_id i rows = Some r"
    and "q_state r = Reserved" "now < q_expires r" and "\<forall>s\<in>set rows. 0 \<le> q_capacity s"
  shows "sum_list (map q_capacity (filter (\<lambda>r. in_scan b r \<and> leased now r) (set_running i now e rows)))
     \<le> sum_list (map q_capacity (filter (\<lambda>r. in_scan b r \<and> leased now r) rows))"
  using assms
proof (induction rows)
  case (Cons s rows)
  show ?case
  proof (cases "q_id s = i")
    case True
    with Cons.prems have "s = r" and notin: "i \<notin> q_id ` set rows"
      by (auto simp: find_row_def)
    have "set_running i now e rows = rows"
      using notin by (induction rows) (auto simp: set_running_def)
    then show ?thesis
      using True \<open>s = r\<close> Cons.prems by (auto simp: set_running_def leased_def in_scan_def)
  next
    case False
    with Cons.prems have "find_row q_id i rows = Some r" by (simp add: find_row_def)
    with Cons False show ?thesis by (auto simp: set_running_def)
  qed
qed (simp add: find_row_def)

lemma gov_inv_dispatch:
  assumes inv: "gov_inv b now L"
    and row: "find_row q_id i (l_requests L) = Some r" "q_state r = Reserved" "now < q_expires r"
    and L': "l_requests L' = set_running i now e (l_requests L)"
  shows "gov_inv b now L'"
proof -
  have dist: "distinct (map q_id (l_requests L))" using inv by (simp add: gov_inv_def)
  have ids: "map q_id (l_requests L') = map q_id (l_requests L)"
    unfolding L' by (rule set_running_keeps) simp
  have keeps: "\<forall>s\<in>set (l_requests L'). 0 < q_units s \<and> 0 \<le> q_capacity s"
    using inv by (auto simp: L' set_running_def in_update_where gov_inv_def)
  have "active_capacity b now L' \<le> active_capacity b now L"
    unfolding active_capacity_def L'
    by (rule leases_set_running [OF dist row]) (use inv in \<open>auto simp: gov_inv_def\<close>)
  then show ?thesis
    using inv dist ids keeps unfolding gov_inv_def by (metis order_trans)
qed

lemma gov_inv_complete:
  assumes "gov_inv b t L"
  shows "gov_inv b t (complete_row ident L)"
proof -
  have cap: "active_capacity b t (complete_row ident L) \<le> active_capacity b t L"
  proof -
    have "sum_list (map q_capacity (filter (\<lambda>r. in_scan b r \<and> leased t r)
          (update_where (\<lambda>r. q_id r = ident) (\<lambda>r. r\<lparr>q_state := Complete\<rparr>) rows)))
        \<le> sum_list (map q_capacity (filter (\<lambda>r. in_scan b r \<and> leased t r) rows))"
      if "\<forall>r\<in>set rows. 0 \<le> q_capacity r" for rows
      using that by (induction rows) (auto simp: leased_def in_scan_def)
    with assms show ?thesis by (simp add: active_capacity_def complete_row_def gov_inv_def)
  qed
  have ids: "map q_id (l_requests (complete_row ident L)) = map q_id (l_requests L)"
    unfolding complete_row_def by (simp add: map_update_where)
  from assms cap ids show ?thesis
    unfolding gov_inv_def by (auto simp: complete_row_def in_update_where)
qed

text \<open>Clock readings only move forward.\<close>

lemma gov_inv_step:
  assumes "gov_inv b t L" and "sorted (t # op_clocks x)" and "gov_step b x L = Inr L'"
  shows "gov_inv b (List.last (t # op_clocks x)) L'"
proof -
  have later: "gov_inv b (List.last (t # op_clocks x)) L"
    by (rule gov_inv_later [OF assms(1)]) (use assms(2) in \<open>cases x; simp\<close>)
  from assms(3) show ?thesis
  proof (cases rule: gov_step_rows)
    case (reserve now ident origin units conc timeout r)
    then have "gov_inv b now L" and "q_id r \<notin> q_id ` set (l_requests L)"
      using later by simp_all
    then have "gov_inv b now L'"
      by (rule gov_inv_reserve [OF _ reserve(2,3) _ reserve(6-10) reserve(14) reserve(4)])
    with reserve(1) show ?thesis by simp
  next
    case (dispatch now0 now p e r)
    then have "gov_inv b now L" using later by simp
    then have "gov_inv b now L'" by (rule gov_inv_dispatch [OF _ dispatch(3-5) dispatch(2)])
    with dispatch(1) show ?thesis by simp
  next
    case (wait now0 now p)
    with later show ?thesis
      by (simp add: gov_inv_def active_capacity_def)
  next
    case (complete ident)
    with later gov_inv_complete show ?thesis by simp
  qed
qed

lemma gov_inv_run:
  assumes "gov_inv b t L" and "sorted (t # concat (map op_clocks xs) @ [t'])"
  shows "gov_inv b t' (run_ops (gov_step b) xs L)"
  using assms
proof (induction xs arbitrary: t L)
  case Nil
  then show ?case by (auto intro: gov_inv_later)
next
  case (Cons x xs)
  let ?m = "List.last (t # op_clocks x)"
  have mid: "sorted (t # op_clocks x)" "sorted (?m # concat (map op_clocks xs) @ [t'])" "t \<le> ?m"
    using Cons.prems(2) by (cases x; simp)+
  have "gov_inv b ?m (attempt (gov_step b x) L)"
  proof (cases "gov_step b x L")
    case (Inl e)
    with gov_inv_later [OF Cons.prems(1) mid(3)] show ?thesis by (simp add: attempt_def)
  next
    case (Inr L')
    with gov_inv_step [OF Cons.prems(1) mid(1)] show ?thesis by (simp add: attempt_def)
  qed
  from Cons.IH [OF this mid(2)] show ?case by simp
qed

lemma sorted_hd: "sorted xs \<Longrightarrow> xs \<noteq> [] \<Longrightarrow> sorted (hd xs # xs)"
  by (cases xs) auto

lemma gov_inv_from_empty:
  assumes "sane_binding b" and "sorted (concat (map op_clocks xs) @ [now])"
  shows "gov_inv b now (run_ops (gov_step b) xs empty_ledger)"
proof (rule gov_inv_run)
  let ?t = "hd (concat (map op_clocks xs) @ [now])"
  show "gov_inv b ?t empty_ledger" by (rule gov_inv_empty [OF assms(1)])
  show "sorted (?t # concat (map op_clocks xs) @ [now])"
    using assms(2) by (rule sorted_hd) simp
qed

section \<open>Pacing, and permits that are used once\<close>

lemma gov_step_scans:
  assumes "gov_step b x L = Inr L'"
  shows "l_scans L' = l_scans L
    \<or> (\<exists>n\<in>set (op_clocks x). l_scans L' = l_scans (register_scan b n L))
    \<or> (\<exists>n\<in>set (op_clocks x). \<exists>m. l_scans L' = set_last b n (l_scans (register_scan b m L)))"
proof (cases x)
  case (OpReserve now ident origin units conc timeout)
  with assms have "reserve_row b now ident origin units conc timeout L = Inr L'"
    by (auto simp: bindR_eq_Inr split: if_splits)
  then obtain L1 d prev where "gov_scan_row b now L = Inr (L1, d, prev)" and "l_scans L' = l_scans L1"
    by (auto simp: reserve_row_def bindR_eq_Inr split: if_splits)
  with OpReserve show ?thesis by (auto dest: gov_scan_row_Inr(1))
next
  case (OpDispatch now0 now p)
  with assms obtain p' o' where row: "dispatch_row b now0 now p L = Inr (L', p', o')"
    by (auto simp: bindR_eq_Inr)
  then obtain L1 d prev where sr: "gov_scan_row b now0 L = Inr (L1, d, prev)"
    by (auto simp: dispatch_row_def elim!: bindR_InrE)
  with row have "l_scans L' = l_scans L1 \<or> l_scans L' = set_last b now (l_scans L1)"
    by (auto simp: dispatch_row_def Let_def bindR_eq_Inr split: if_splits option.splits)
  with OpDispatch gov_scan_row_Inr(1) [OF sr] show ?thesis by auto
next
  case (OpComplete ident)
  with assms show ?thesis by (auto simp: complete_row_def)
qed

definition last_sent :: "gov_binding \<Rightarrow> ledger \<Rightarrow> rat option" where
  "last_sent b L = (case find (scan_key b) (l_scans L) of None \<Rightarrow> None | Some s \<Rightarrow> s_last s)"

lemma find_scan_register:
  "find (scan_key b) (l_scans L) = Some s \<Longrightarrow> register_scan b n L = L"
  by (auto simp: register_scan_def find_Some_iff)

lemma find_scan_set_last:
  "find (scan_key b) (set_last b n rows) = map_option (\<lambda>s. s\<lparr>s_last := Some n\<rparr>) (find (scan_key b) rows)"
  unfolding set_last_def by (induction rows) (auto simp: scan_key_def)

lemma last_sent_Some: "last_sent b L = Some t \<Longrightarrow> \<exists>s. find (scan_key b) (l_scans L) = Some s \<and> s_last s = Some t"
  by (auto simp: last_sent_def split: option.splits)

lemma last_sent_step:
  assumes "gov_step b x L = Inr L'" and "last_sent b L = Some u" and "t \<le> u"
    and "\<forall>n\<in>set (op_clocks x). t \<le> n"
  shows "\<exists>u'\<ge>t. last_sent b L' = Some u'"
proof -
  obtain s where s: "find (scan_key b) (l_scans L) = Some s" "s_last s = Some u"
    using last_sent_Some [OF assms(2)] by blast
  from gov_step_scans [OF assms(1)] s assms(3,4) show ?thesis
    by (auto simp: last_sent_def find_scan_register find_scan_set_last)
qed

lemma last_sent_run:
  assumes "last_sent b L = Some u" and "t \<le> u" and "\<forall>n\<in>set (concat (map op_clocks xs)). t \<le> n"
  shows "\<exists>u'\<ge>t. last_sent b (run_ops (gov_step b) xs L) = Some u'"
  using assms
proof (induction xs arbitrary: L u)
  case (Cons x xs)
  have "\<exists>u'\<ge>t. last_sent b (attempt (gov_step b x) L) = Some u'"
  proof (cases "gov_step b x L")
    case (Inr L')
    with last_sent_step [OF Inr Cons.prems(1,2)] Cons.prems(3) show ?thesis
      by (auto simp: attempt_def)
  qed (use Cons.prems in \<open>auto simp: attempt_def\<close>)
  then obtain v where "t \<le> v" "last_sent b (attempt (gov_step b x) L) = Some v" by blast
  with Cons.IH Cons.prems(3) show ?case by auto
qed auto

lemma dispatch_sets_last:
  assumes "dispatch_row b now0 now p L = Inr (L', p', None)"
  shows "last_sent b L' = Some now"
  by (rule dispatch_row_Inr [OF assms])
    (auto dest!: gov_scan_row_Inr(4) simp: last_sent_def find_scan_set_last)

lemma dispatch_after_last:
  assumes "dispatch_row b now0 now p L = Inr (L', p', None)" and "last_sent b L = Some t"
    and r: "find_row q_id (p_ident p) (l_requests L) = Some r"
  shows "t + of_int (q_units r) / g_rate b \<le> now"
proof -
  obtain s where s: "find (scan_key b) (l_scans L) = Some s" "s_last s = Some t"
    using last_sent_Some [OF assms(2)] by blast
  show ?thesis
  proof (rule dispatch_row_Inr [OF assms(1)])
    fix L1 r' d prev
    assume sr: "gov_scan_row b now0 L = Inr (L1, d, prev)"
      and r': "find_row q_id (p_ident p) (l_requests L) = Some r'" and due: "due_time b prev r' now \<le> now"
    from gov_scan_row_Inr(1,4) [OF sr] s have "prev = Some t" by (auto simp: find_scan_register)
    with due r r' show ?thesis by (simp add: due_time_def)
  qed
qed

lemma find_row_set_running:
  "find_row q_id i (set_running j t e rows) =
     map_option (\<lambda>r. if q_id r = j then r\<lparr>q_state := Running, q_charged := t, q_expires := e\<rparr> else r)
       (find_row q_id i rows)"
  by (simp add: set_running_def find_row_update_where)

definition spent :: "string \<Rightarrow> ledger \<Rightarrow> bool" where
  "spent i L \<longleftrightarrow>
     (case find_row q_id i (l_requests L) of None \<Rightarrow> False | Some r \<Rightarrow> q_state r \<noteq> Reserved)"

lemma spent_step: "gov_step b x L = Inr L' \<Longrightarrow> spent i L \<Longrightarrow> spent i L'"
  by (erule gov_step_rows)
    (auto simp: spent_def find_row_append find_row_set_running complete_row_def find_row_update_where
      split: option.splits)

lemma spent_after_dispatch:
  assumes "dispatch_row b now0 now p L = Inr (L', p', None)"
  shows "spent (p_ident p) L'"
  by (rule dispatch_row_Inr [OF assms])
    (auto simp: spent_def find_row_set_running dest: find_row_Some)

lemma spent_refuses:
  assumes "spent (p_ident p) L"
  shows "dispatch_row b now0 now p L \<noteq> Inr (L', p', None)"
  using assms by (auto simp: spent_def elim!: dispatch_row_Inr split: option.splits)

section \<open>The admission loop ends\<close>

text \<open>Every refusal that may be retried asks for a wait of at least a hundredth of a second.\<close>

lemma quotas_retry: "quotas b origin units now x L rules = Inl (GovBusy m retry) \<Longrightarrow> 1/100 \<le> retry"
proof (induction rules)
  case (Cons rule rules)
  show ?case
  proof (cases "quota_check b origin units now x L rule")
    case (Inl e)
    with Cons.prems have "quota_check b origin units now x L rule = Inl (GovBusy m retry)" by simp
    then show ?thesis
      by (auto simp: quota_check_def Let_def max_def split: if_splits option.splits)
  qed (use Cons in simp)
qed simp

lemma reserve_retry:
  assumes "reserve_row b now ident origin units conc timeout L = Inl (GovBusy m retry)"
  shows "1/100 \<le> retry"
  using assms by (auto simp: reserve_row_def gov_scan_row_def Let_def bindR_def
      split: if_splits sum.splits option.splits dest!: quotas_retry)

lemma reserve_busy:
  assumes "reserve E g url units timeout conc nonblocking lk now ident L = Inl (GovBusy m retry)"
  shows "1/100 \<le> retry"
  using assms
  by (auto simp: reserve_def transaction_def gov_origin_def number_of_def bindR_def Let_def
      split: option.splits if_splits sum.splits lock_outcome.splits dest: reserve_retry)

lemma acquire_round_delay:
  assumes "acquire_round E g url units conc end t0 t1 lk ident L = Inr (Inr delay)"
  shows "t0 < end \<and> min (1/100) (end - t0) \<le> delay"
proof -
  from assms have before: "t0 < end" by (auto simp: acquire_round_def split: if_splits)
  with assms obtain m retry where "reserve E g url units (end - t0) conc True lk t1 ident L = Inl (GovBusy m retry)"
    and "delay = min retry (end - t0)"
    by (auto simp: acquire_round_def Let_def split: sum.splits gov_error.splits if_splits)
  with before reserve_busy show ?thesis by (fastforce simp: min_def)
qed

lemma round_left:
  fixes stop :: rat
  assumes "stop - x \<le> stop - t - 1/100 \<or> stop - x \<le> 0" and "100 * (stop - t) \<le> m" and "1 \<le> m"
  shows "100 * (stop - x) + 1 \<le> m"
  using assms by auto

text \<open>Every round brings the clock at least the smaller of 1/100 second and the remaining time closer to the end.\<close>

lemma acquire_loop_ends:
  assumes "0 < n" and "of_nat n \<ge> 100 * (end - t) + 1"
    and lag: "\<And>k. 0 \<le> lag k" and slept: "\<And>i d. d \<le> slept i d"
  shows "acquire_loop n i E g url units conc timeout end t lag slept lk other fresh L \<noteq> None"
  using assms(1,2)
proof (induction n arbitrary: i t L)
  case (Suc n)
  let ?early = "t + lag (2 * i)" let ?late = "?early + lag (2 * i + 1)"
  let ?r = "acquire_round E g url units conc end ?early ?late (lk i) (fresh i) (other i L)"
  show ?case
  proof (cases "\<exists>delay. ?r = Inr (Inr delay)")
    case False
    then show ?thesis by (auto simp: Let_def split: sum.splits simp del: mult_Suc_right)
  next
    case True
    then obtain delay where r: "?r = Inr (Inr delay)" by blast
    let ?next = "?late + slept i delay"
    have later: "t \<le> ?early" "?early \<le> ?late" using lag [of "2 * i"] lag [of "2 * i + 1"] by simp_all
    have soon: "?early < end" and long: "min (1/100) (end - ?early) \<le> slept i delay"
      using acquire_round_delay [OF r] slept [of delay i] by (auto intro: order_trans)
    have "t < end" using later soon by linarith
    moreover have "end - ?next \<le> end - t - 1/100 \<or> end - ?next \<le> 0"
    proof (cases "1/100 \<le> end - ?early")
      case True
      then have "1/100 \<le> slept i delay" using long by (simp add: min_absorb1)
      then show ?thesis using later by linarith
    next
      case False
      then have "end - ?early \<le> slept i delay" using long by (simp add: min_absorb2)
      then show ?thesis using later by linarith
    qed
    moreover have "0 < n" using Suc.prems(2) \<open>t < end\<close> by (cases n) auto
    moreover have "of_nat n \<ge> 100 * (end - t)" using Suc.prems(2) by simp
    moreover have "1 \<le> (of_nat n :: rat)" using \<open>0 < n\<close> by (simp add: Suc_leI)
    ultimately have "of_nat n \<ge> 100 * (end - ?next) + 1"
      by (intro round_left)
    from Suc.IH [OF \<open>0 < n\<close> this] r show ?thesis
      by (simp add: Let_def del: mult_Suc_right)
  qed
qed simp

section \<open>Properties\<close>

lemma sane_scan_max: "make_governor v = Inr (Some b) \<Longrightarrow> 0 \<le> g_scan_max b"
  by (drule make_governor_sane) (simp add: sane_binding_def)

definition sample_binding :: pyval where
  "sample_binding = PDict
     [(''ledger_path'', PStr ''/l''), (''scan_id'', PStr ''s1''), (''program_id'', PStr ''p1''),
      (''scan_max_requests'', PInt 3), (''scan_max_seconds'', PInt 600),
      (''requests_per_second'', PFloat (1/2)), (''concurrency'', PInt 2),
      (''request_limits'', PList [PDict
         [(''maximum'', PInt 2), (''period_seconds'', PInt 60), (''scope'', PStr ''target''),
          (''source_quote'', PStr ''q'')]])]"

definition sample_gov :: gov_binding where
  "sample_gov = \<lparr>g_ledger_path = ''/l'', g_scan = ''s1'', g_program = ''p1'', g_scan_max = 3,
     g_max_seconds = Some 600, g_rate = 1/2, g_concurrency = 2,
     g_limits = [\<lparr>r_maximum = 2, r_period = Some 60, r_scope = TargetScope, r_quote = ''q''\<rparr>]\<rparr>"

lemma make_sample: "make_governor sample_binding = Inr (Some sample_gov)"
  by (simp add: sample_binding_def sample_gov_def make_governor_def gov_required_fields_def
      gov_identifier_def gov_path_def number_of_def optional_number_def dict_field_def dict_get_def
      gov_quota_def quota_evidence_def scope_of_def is_blank_iff str_eval insert_commute)

definition sample_ops :: "gov_op list" where
  "sample_ops = [OpReserve 10 ''a'' (''https'', ''h'', 443) 1 1 30,
                 OpReserve 11 ''b'' (''https'', ''h'', 443) 1 1 30,
                 OpDispatch 12 12 (new_permit True ''a'' 30)]"

text \<open>
  C4: a scan never spends more request units than the budget of its binding.  Whatever
  reservations, dispatches and completions run on the shared ledger of an accepted binding,
  in whatever order and at whatever times, the units booked for the scan stay within
  \<open>scan_max_requests\<close>: no operation refunds units and every reservation checks the total.
\<close>

theorem scan_budget_never_exceeded:
  assumes "make_governor v = Inr (Some b)"
  shows "scan_units b (run_ops (gov_step b) ops empty_ledger) \<le> g_scan_max b"
  by (rule gov.run_within_cap)
    (simp add: scan_units_def units_where_def empty_ledger_def sane_scan_max [OF assms])

lemma scan_budget_never_exceeded_witness:
  "scan_units sample_gov (run_ops (gov_step sample_gov) sample_ops empty_ledger) \<le> 3"
  using scan_budget_never_exceeded [OF make_sample, of sample_ops] by (simp add: sample_gov_def)

text \<open>
  C8: at every moment the leases that are alive fit the concurrency limit.  With clock
  readings that do not run backwards, after any sequence of ledger transactions the capacity
  of the reserved or running requests whose lease has not expired is at most \<open>concurrency\<close>.
\<close>

theorem live_leases_fit_concurrency:
  assumes "make_governor v = Inr (Some b)" and "sorted (concat (map op_clocks ops) @ [now])"
  shows "active_capacity b now (run_ops (gov_step b) ops empty_ledger) \<le> g_concurrency b"
  using gov_inv_from_empty [OF make_governor_sane [OF assms(1)] assms(2)] by (simp add: gov_inv_def)

lemma live_leases_fit_concurrency_witness:
  "active_capacity sample_gov 12 (run_ops (gov_step sample_gov) sample_ops empty_ledger) \<le> 2"
  using live_leases_fit_concurrency [OF make_sample, of sample_ops 12]
  by (simp add: sample_gov_def sample_ops_def)

text \<open>
  C28: the request rate of a scan is bounded.  After a request was dispatched at time \<open>t\<close>,
  whatever runs on the ledger in between, the next dispatch of a request of \<open>u\<close> units goes
  through no earlier than \<open>t + u / requests_per_second\<close>.
\<close>

theorem dispatches_are_paced:
  assumes "dispatch_row b t0 t p L = Inr (L1, p1, None)"
    and "sorted (t # concat (map op_clocks ops))"
    and "dispatch_row b now0 now q (run_ops (gov_step b) ops L1) = Inr (L2, q2, None)"
    and "find_row q_id (p_ident q) (l_requests (run_ops (gov_step b) ops L1)) = Some r"
  shows "t + of_int (q_units r) / g_rate b \<le> now"
proof -
  obtain u where "t \<le> u" "last_sent b (run_ops (gov_step b) ops L1) = Some u"
    using last_sent_run [OF dispatch_sets_last [OF assms(1)] order_refl, of ops] assms(2) by auto
  with dispatch_after_last [OF assms(3) _ assms(4)] show ?thesis by fastforce
qed

definition sample_request :: "string \<Rightarrow> gov_request" where
  "sample_request i = \<lparr>q_id = i, q_program = ''p1'', q_scan = ''s1'', q_origin = (''https'', ''h'', 443),
     q_units = 1, q_capacity = 1, q_charged = 10, q_expires = 70, q_state = Reserved\<rparr>"

definition sample_ledger :: ledger where
  "sample_ledger = \<lparr>l_scans = [\<lparr>s_program = ''p1'', s_scan = ''s1'', s_started = 10,
       s_config = config_of sample_gov, s_last = None\<rparr>],
     l_requests = [sample_request ''a'', sample_request ''b'']\<rparr>"

definition sent_ledger :: "rat \<Rightarrow> gov_request list \<Rightarrow> ledger" where
  "sent_ledger t rows = \<lparr>l_scans = [\<lparr>s_program = ''p1'', s_scan = ''s1'', s_started = 10,
       s_config = config_of sample_gov, s_last = Some t\<rparr>], l_requests = rows\<rparr>"

definition sent_a :: ledger where
  "sent_a = sent_ledger 12
     [sample_request ''a''\<lparr>q_state := Running, q_charged := 12, q_expires := 72\<rparr>, sample_request ''b'']"

lemmas sample_defs = sample_ledger_def sample_request_def sent_ledger_def sent_a_def sample_gov_def
  config_of_def dispatch_row_def gov_scan_row_def register_scan_def scan_key_def
  scan_deadline_def before_def min_deadline_def due_time_def find_row_def set_running_def
  set_last_def quota_check_def counts_for_def update_where_def new_permit_def

lemma sample_first:
  "dispatch_row sample_gov 11 12 (new_permit True ''a'' 30) sample_ledger
     = Inr (sent_a, new_permit True ''a'' 30, None)"
  by (simp add: sample_defs)

lemma sample_second:
  "dispatch_row sample_gov 14 14 (new_permit True ''b'' 30) sent_a
     = Inr (sent_ledger 14
         [sample_request ''a''\<lparr>q_state := Running, q_charged := 12, q_expires := 72\<rparr>,
          sample_request ''b''\<lparr>q_state := Running, q_charged := 14, q_expires := 74\<rparr>],
         new_permit True ''b'' 30, None)"
  by (simp add: sample_defs)

lemma dispatches_are_paced_witness: "(12::rat) + 1 / g_rate sample_gov \<le> 14"
  using dispatches_are_paced [OF sample_first, of "[]", simplified, OF sample_second,
      of "sample_request ''b''"]
  by (simp add: sent_a_def sent_ledger_def find_row_def sample_request_def new_permit_def)

text \<open>
  A permit sends at most one request.  Once a permit was dispatched, no later dispatch
  with its identifier goes through, whatever other transactions run in between, its own
  completion included.
\<close>

theorem permit_dispatches_once:
  assumes "dispatch_row b t0 t p L = Inr (L1, p1, None)" and "p_ident q = p_ident p"
  shows "dispatch_row b now0 now q (run_ops (gov_step b) ops L1) \<noteq> Inr (L2, q2, None)"
proof -
  have "spent (p_ident p) (run_ops (gov_step b) ops L1)"
    by (rule run_ops_invariant) (use spent_after_dispatch [OF assms(1)] spent_step in auto)
  with assms(2) spent_refuses show ?thesis by metis
qed

lemma permit_dispatches_once_witness:
  "\<nexists>L p. dispatch_row sample_gov 20 20 (new_permit True ''a'' 30)
     (run_ops (gov_step sample_gov) [OpComplete ''a''] sent_a) = Inr (L, p, None)"
  using permit_dispatches_once [OF sample_first, of "new_permit True ''a'' 30" 20 20 "[OpComplete ''a'']"]
  by (simp add: new_permit_def)

text \<open>
  C29: \<open>acquire\<close> returns.  Time passes only because the loop sleeps: when no clock reading runs
  backwards and \<open>time.sleep\<close> sleeps at least as long as it is asked to (both documented of Python), the
  admission loop of a wait of \<open>w\<close> seconds ends within \<open>100 * w + 1\<close> rounds, with a permit or an
  error, whatever the other users of the ledger and the file lock do, because every retry it accepts
  asks for 1/100 second or for the rest of the waiting time.
\<close>

theorem acquire_returns:
  assumes "\<And>k. 0 \<le> lag k" and "\<And>i d. d \<le> slept i d"
    and "100 * w + 1 \<le> of_nat rounds" and "0 < rounds"
  shows "acquire rounds E g url units timeout conc (Some w) t lag slept lk other fresh L \<noteq> None"
proof -
  have "acquire_loop rounds 0 E g url units conc timeout (t + w) t lag slept lk other fresh L \<noteq> None"
    by (rule acquire_loop_ends) (use assms in auto)
  moreover have "r = w" if "number_of 86400 False n (PFloat w) = Inr r" for n r
    using that by (auto simp: number_of_def Let_def split: if_splits)
  ultimately show ?thesis
    unfolding acquire_def by (fastforce split: sum.split elim!: bindR_InrE)
qed

text \<open>A clock that stands still but for the sleeps themselves, and a lock that is never free.\<close>

lemma acquire_returns_witness:
  "acquire 201 plain_env (Some sample_gov) ''https://h/'' 1 30 1 (Some 2) 0
     (\<lambda>_. 0) (\<lambda>_ d. d) (\<lambda>_. LockHeld) (\<lambda>_ L. L) (\<lambda>_. ''a'') sample_ledger \<noteq> None"
  by (rule acquire_returns) simp_all

end
