(* ===== verification/Shared_Ledger.thy ===== *)
theory Shared_Ledger
  imports Governor
begin

text \<open>
  The ledger of \<open>src/src/aidast/core/request_governor.py\<close> as the processes of several scans share it:
  program and target quotas count the requests of every scan of the program, so here every operation
  comes with the binding of the governor that runs it.  \<^theory_text>\<open>in_quota\<close> says, scope by scope and
  independently of the query of \<open>_quotas\<close>, which requests a quota is about.
\<close>

section \<open>Operations of many governors\<close>

definition shared_run :: "(gov_binding \<times> gov_op) list \<Rightarrow> ledger \<Rightarrow> ledger" where
  "shared_run ops L = run_ops (\<lambda>(b, x). gov_step b x) ops L"

definition accepted_binding :: "gov_binding \<Rightarrow> bool" where
  "accepted_binding b \<longleftrightarrow> (\<exists>v. make_governor v = Inr (Some b))"

text \<open>The scan for which a governor reserved the identifier of a permit.\<close>

fun issues :: "gov_binding \<times> gov_op \<Rightarrow> (string \<times> string \<times> string) option" where
  "issues (b, OpReserve now ident origin units conc timeout) = Some (ident, g_program b, g_scan b)"
| "issues (b, x) = None"

text \<open>A permit holds on to the governor that issued it: nobody else dispatches it.\<close>

fun dispatches_own :: "(gov_binding \<times> gov_op) list \<Rightarrow> gov_binding \<times> gov_op \<Rightarrow> bool" where
  "dispatches_own ops (b, OpDispatch now0 now p) =
     list_all (\<lambda>y. case issues y of None \<Rightarrow> True
        | Some (i, program, scan) \<Rightarrow> i = p_ident p \<longrightarrow> program = g_program b \<and> scan = g_scan b) ops"
| "dispatches_own ops (b, x) = True"

definition own_permits :: "(gov_binding \<times> gov_op) list \<Rightarrow> bool" where
  "own_permits ops \<longleftrightarrow> list_all (dispatches_own ops) ops"

section \<open>What a quota is about\<close>

text \<open>
  A quota of the scan counts the requests of the scan, a quota of the program those of all scans of
  the program, a quota of a target those of the program to one origin, over all scans when it has a
  period and within the scan when it is a total.  A quota with a period counts what was charged
  within the period that ends now.
\<close>

definition in_quota :: "gov_scan \<Rightarrow> gov_rule \<Rightarrow> origin \<Rightarrow> rat \<Rightarrow> gov_request \<Rightarrow> bool" where
  "in_quota s rule og now r \<longleftrightarrow>
     q_program r = s_program s
     \<and> (case (r_scope rule, r_period rule) of
          (ScanScope, _) \<Rightarrow> q_scan r = s_scan s
        | (ProgramScope, _) \<Rightarrow> True
        | (TargetScope, Some _) \<Rightarrow> q_origin r = og
        | (TargetScope, None) \<Rightarrow> q_origin r = og \<and> q_scan r = s_scan s)
     \<and> (case r_period rule of Some p \<Rightarrow> now < q_charged r + p | None \<Rightarrow> True)"

definition within_scan :: "gov_rule \<Rightarrow> bool" where
  "within_scan rule \<longleftrightarrow> r_scope rule = ScanScope \<or> r_scope rule = TargetScope \<and> r_period rule = None"

lemma in_quota_counts:
  assumes "g_program b = s_program s" and "g_scan b = s_scan s"
  shows "in_quota s rule og now = counts_for b og now None rule"
  using assms by (auto simp: in_quota_def counts_for_def fun_eq_iff split: rule_scope.splits option.splits)

section \<open>Room in a window\<close>

lemma quotas_Inr:
  "quotas b origin units now x L rules = Inr () \<Longrightarrow> rule \<in> set rules \<Longrightarrow>
     units_where (counts_for b origin now x rule) (l_requests L) + units \<le> r_maximum rule"
  by (induction rules)
    (auto simp: bindR_eq_Inr quota_check_def units_where_def Let_def split: if_splits option.splits)

lemma quota_room:
  assumes "quotas b origin units now x L (g_limits b) = Inr ()" and "rule \<in> set (g_limits b)"
    and "r_scope rule = TargetScope \<longrightarrow> og = origin"
  shows "units_where (counts_for b og now x rule) (l_requests L) + units \<le> r_maximum rule"
proof -
  have "counts_for b og now x rule = counts_for b origin now x rule"
    using assms(3) by (cases "r_scope rule = TargetScope") (auto simp: counts_for_def fun_eq_iff)
  then show ?thesis using quotas_Inr [OF assms(1,2)] by simp
qed

lemma sum_running_split:
  assumes "distinct (map q_id rows)" and "find_row q_id i rows = Some r"
    and "\<forall>s\<in>set rows. 0 < q_units s"
  shows "units_where (counts_for b og now None rule) (set_running i now e rows) \<le>
     units_where (counts_for b og now (Some i) rule) rows
     + (if counts_for b og now None rule (r\<lparr>q_charged := now\<rparr>) then q_units r else 0)"
  using assms
proof (induction rows)
  case (Cons s rows)
  show ?case
  proof (cases "q_id s = i")
    case True
    with Cons.prems have "s = r" and notin: "i \<notin> q_id ` set rows"
      by (auto simp: find_row_def)
    have "set_running i now e rows = rows"
      using notin by (induction rows) (auto simp: set_running_def)
    moreover have "units_where (counts_for b og now None rule) rows =
        units_where (counts_for b og now (Some i) rule) rows"
      using notin by (induction rows) (auto simp: units_where_def counts_for_def)
    ultimately show ?thesis
      using True \<open>s = r\<close> Cons.prems(3)
      by (simp add: set_running_def units_where_def) (simp add: counts_for_def split: option.splits)
  next
    case False
    with Cons.prems have "find_row q_id i rows = Some r" by (simp add: find_row_def)
    with Cons have IH: "units_where (counts_for b og now None rule) (set_running i now e rows) \<le>
        units_where (counts_for b og now (Some i) rule) rows
        + (if counts_for b og now None rule (r\<lparr>q_charged := now\<rparr>) then q_units r else 0)"
      by simp
    have "counts_for b og now (Some i) rule s = counts_for b og now None rule s"
      using False by (simp add: counts_for_def)
    with IH False show ?thesis by (simp add: set_running_def units_where_def split: if_splits)
  qed
qed (simp add: find_row_def)


text \<open>
  Which governors watch the same window: those of the scan for a quota within the scan, those of
  the program otherwise.
\<close>

lemma counts_for_same:
  assumes "g_program c = g_program b" and "within_scan rule \<Longrightarrow> g_scan c = g_scan b"
  shows "counts_for c og now x rule = counts_for b og now x rule"
  using assms by (auto simp: counts_for_def within_scan_def fun_eq_iff)

section \<open>The windows of all registered scans\<close>

definition agreed :: "gov_binding list \<Rightarrow> gov_binding \<Rightarrow> gov_rule \<Rightarrow> bool" where
  "agreed C c rule \<longleftrightarrow> within_scan rule \<or> (\<forall>d\<in>set C. g_program d = g_program c \<longrightarrow> rule \<in> set (g_limits d))"

text \<open>
  \<open>C\<close> are the configurations of the registered scans.  The requests belong to registered scans
  and to the governors that reserved them, and every agreed quota window that ends at \<open>t\<close> holds.
\<close>

definition windows_hold :: "rat \<Rightarrow> gov_binding list \<Rightarrow> gov_request list \<Rightarrow> bool" where
  "windows_hold t C rows \<longleftrightarrow> (\<forall>c\<in>set C. \<forall>rule\<in>set (g_limits c). agreed C c rule \<longrightarrow>
     (\<forall>og. units_where (counts_for c og t None rule) rows \<le> r_maximum rule))"

definition rows_ok :: "(gov_binding \<times> gov_op) list \<Rightarrow> gov_binding list \<Rightarrow> gov_request list \<Rightarrow> bool" where
  "rows_ok ops C rows \<longleftrightarrow> distinct (map q_id rows)
     \<and> (\<forall>r\<in>set rows. 0 < q_units r \<and> (\<exists>c\<in>set C. g_program c = q_program r \<and> g_scan c = q_scan r)
          \<and> Some (q_id r, q_program r, q_scan r) \<in> issues ` set ops)"

definition configs_ok :: "gov_binding list \<Rightarrow> bool" where
  "configs_ok C \<longleftrightarrow> distinct (map (\<lambda>c. (g_program c, g_scan c)) C)
     \<and> (\<forall>c\<in>set C. \<forall>rule\<in>set (g_limits c). 0 < r_maximum rule)"

definition scans_ok :: "ledger \<Rightarrow> bool" where
  "scans_ok L \<longleftrightarrow> (\<forall>s\<in>set (l_scans L). g_program (s_config s) = s_program s \<and> g_scan (s_config s) = s_scan s)"

definition shared_inv :: "(gov_binding \<times> gov_op) list \<Rightarrow> rat \<Rightarrow> ledger \<Rightarrow> bool" where
  "shared_inv ops t L \<longleftrightarrow> scans_ok L \<and> configs_ok (map s_config (l_scans L))
     \<and> rows_ok ops (map s_config (l_scans L)) (l_requests L)
     \<and> windows_hold t (map s_config (l_scans L)) (l_requests L)"

lemma config_of_simps [simp]:
  "g_program (config_of b) = g_program b" "g_scan (config_of b) = g_scan b" "g_limits (config_of b) = g_limits b"
  by (simp_all add: config_of_def)

lemma units_where_mono:
  assumes "\<And>r. r \<in> set rows \<Longrightarrow> 0 \<le> q_units r" and "\<And>r. r \<in> set rows \<Longrightarrow> p r \<Longrightarrow> q r"
  shows "units_where p rows \<le> units_where q rows"
  unfolding units_where_def by (rule sum_list_nonneg_filter_le) (use assms in auto)

lemma units_where_none: "(\<And>r. r \<in> set rows \<Longrightarrow> \<not> p r) \<Longrightarrow> units_where p rows = 0"
  by (simp add: units_where_def filter_empty_conv)

lemma rows_positive: "rows_ok ops C rows \<Longrightarrow> r \<in> set rows \<Longrightarrow> 0 < q_units r"
  by (simp add: rows_ok_def)

text \<open>Time passing only lets requests leave the windows.\<close>

lemma windows_later:
  assumes "windows_hold t C rows" and "rows_ok ops C rows" and "t \<le> t'"
  shows "windows_hold t' C rows"
proof -
  have "units_where (counts_for c og t' None rule) rows \<le> units_where (counts_for c og t None rule) rows" for c og rule
    by (rule units_where_mono)
      (use assms(2,3) in \<open>auto simp: counts_for_def split: option.splits dest: rows_positive intro: less_imp_le\<close>)
  with assms(1) show ?thesis unfolding windows_hold_def by (meson order_trans)
qed

lemma shared_inv_later: "shared_inv ops t L \<Longrightarrow> t \<le> t' \<Longrightarrow> shared_inv ops t' L"
  unfolding shared_inv_def using windows_later by blast

text \<open>A new scan has no requests of its own, and it joins the quotas of its program only if it has them.\<close>

lemma windows_register:
  assumes "windows_hold t C rows" and "rows_ok ops C rows"
    and new: "\<forall>c\<in>set C. (g_program c, g_scan c) \<noteq> (g_program b, g_scan b)"
    and pos: "\<forall>rule\<in>set (g_limits b). 0 < r_maximum rule"
  shows "windows_hold t (C @ [b]) rows"
  unfolding windows_hold_def
proof (intro ballI impI allI)
  fix c rule og
  assume c: "c \<in> set (C @ [b])" and rule: "rule \<in> set (g_limits c)" and ag: "agreed (C @ [b]) c rule"
  have old: "units_where (counts_for d og t None rule) rows \<le> r_maximum rule"
    if "d \<in> set C" "rule \<in> set (g_limits d)" "agreed (C @ [b]) d rule" for d
  proof -
    have "agreed C d rule" using that(3) by (auto simp: agreed_def)
    with assms(1) that(1,2) show ?thesis unfolding windows_hold_def by blast
  qed
  show "units_where (counts_for c og t None rule) rows \<le> r_maximum rule"
  proof (cases "c \<in> set C")
    case True
    with old rule ag show ?thesis by blast
  next
    case False
    with c have b: "c = b" by simp
    show ?thesis
    proof (cases "\<not> within_scan rule \<and> (\<exists>d\<in>set C. g_program d = g_program b)")
      case True
      then obtain d where d: "d \<in> set C" "g_program d = g_program b" by blast
      with True ag b have "rule \<in> set (g_limits d)" "agreed (C @ [b]) d rule" by (auto simp: agreed_def)
      from old [OF d(1) this] counts_for_same [of d b rule] d(2) True show ?thesis by (simp add: b)
    next
      case False
      then have "\<not> counts_for b og t None rule r" if "r \<in> set rows" for r
        using assms(2) new that by (fastforce simp: rows_ok_def counts_for_def within_scan_def)
      then have "units_where (counts_for b og t None rule) rows = 0" by (rule units_where_none)
      with pos rule b show ?thesis by (auto intro: less_imp_le)
    qed
  qed
qed

lemma rows_ok_more: "rows_ok ops C rows \<Longrightarrow> rows_ok ops (C @ [b]) rows"
  by (auto simp: rows_ok_def)

lemma accepted_limits: "accepted_binding b \<Longrightarrow> rule \<in> set (g_limits b) \<Longrightarrow> 0 < r_maximum rule"
  using make_governor_sane by (auto simp: accepted_binding_def sane_binding_def)

lemma shared_inv_register:
  assumes "shared_inv ops t L" and "accepted_binding b"
  shows "shared_inv ops t (register_scan b now L)"
proof (cases "\<exists>s\<in>set (l_scans L). scan_key b s")
  case True
  with assms(1) show ?thesis by (simp add: register_scan_def)
next
  case False
  let ?C = "map s_config (l_scans L)"
  have new: "\<forall>c\<in>set ?C. (g_program c, g_scan c) \<noteq> (g_program (config_of b), g_scan (config_of b))"
    using False assms(1) by (fastforce simp: shared_inv_def scans_ok_def scan_key_def)
  have pos: "\<forall>rule\<in>set (g_limits (config_of b)). 0 < r_maximum rule" using accepted_limits [OF assms(2)] by simp
  have inv: "configs_ok ?C" "rows_ok ops ?C (l_requests L)" "windows_hold t ?C (l_requests L)"
    using assms(1) by (simp_all add: shared_inv_def)
  have "configs_ok (?C @ [config_of b])" using inv(1) new pos by (auto simp: configs_ok_def)
  with windows_register [OF inv(3,2) new pos] rows_ok_more [OF inv(2)] False assms(1) show ?thesis
    by (simp add: register_scan_def shared_inv_def scans_ok_def)
qed

lemma set_last_configs [simp]: "map s_config (set_last b now scans) = map s_config scans"
  by (simp add: set_last_def map_update_where)

lemma shared_inv_scans:
  assumes "shared_inv ops t L" and "l_requests L' = l_requests L"
    and "l_scans L' = l_scans L \<or> l_scans L' = set_last b now (l_scans L)"
  shows "shared_inv ops t L'"
proof -
  have "scans_ok L'" using assms(1,3) by (auto simp: shared_inv_def scans_ok_def set_last_def in_update_where)
  with assms show ?thesis by (auto simp: shared_inv_def)
qed

section \<open>Every operation keeps the windows\<close>

lemma find_SomeD: "find P xs = Some x \<Longrightarrow> x \<in> set xs \<and> P x"
  by (auto simp: find_Some_iff)

lemma gov_scan_row_config:
  assumes "gov_scan_row b now L = Inr (L1, d, prev)"
  shows "config_of b \<in> set (map s_config (l_scans L1))"
  using assms
  by (auto simp: gov_scan_row_def Let_def split: option.splits if_splits
      dest!: find_SomeD intro!: image_eqI [OF sym])

text \<open>A request counts for a quota of another scan only if its own governor checks that quota, too.\<close>

lemma counted_elsewhere:
  assumes "configs_ok C" and "config_of b \<in> set C" and "c \<in> set C" and "rule \<in> set (g_limits c)"
    and "agreed C c rule" and r: "q_program r = g_program b" "q_scan r = g_scan b"
    and "counts_for c og t x rule r"
  shows "rule \<in> set (g_limits b)" and "counts_for c og t y rule = counts_for b og t y rule"
    and "r_scope rule = TargetScope \<longrightarrow> og = q_origin r"
proof -
  have program: "g_program c = g_program b" using assms(8) r by (simp add: counts_for_def)
  have scan: "g_scan c = g_scan b" if "within_scan rule" using assms(8) r that by (auto simp: counts_for_def within_scan_def)
  show "counts_for c og t y rule = counts_for b og t y rule" by (rule counts_for_same [OF program scan])
  show "r_scope rule = TargetScope \<longrightarrow> og = q_origin r" using assms(8) by (auto simp: counts_for_def)
  show "rule \<in> set (g_limits b)"
  proof (cases "within_scan rule")
    case True
    have "inj_on (\<lambda>c. (g_program c, g_scan c)) (set C)" using assms(1) by (simp add: configs_ok_def distinct_map)
    then have "c = config_of b" by (rule inj_onD) (use program scan True assms(2,3) in auto)
    with assms(4) show ?thesis by simp
  next
    case False
    with assms(2,5) program show ?thesis by (fastforce simp: agreed_def)
  qed
qed

lemma windows_append:
  assumes "windows_hold now C (l_requests L)" and "configs_ok C" and "config_of b \<in> set C"
    and room: "quotas b (q_origin r) (q_units r) now None L (g_limits b) = Inr ()"
    and r: "q_program r = g_program b" "q_scan r = g_scan b"
  shows "windows_hold now C (l_requests L @ [r])"
  unfolding windows_hold_def
proof (intro ballI impI allI)
  fix c rule og
  assume c: "c \<in> set C" "rule \<in> set (g_limits c)" "agreed C c rule"
  show "units_where (counts_for c og now None rule) (l_requests L @ [r]) \<le> r_maximum rule"
  proof (cases "counts_for c og now None rule r")
    case True
    note other = counted_elsewhere [OF assms(2,3) c r True]
    from quota_room [OF room other(1,3)] True show ?thesis
      unfolding other(2) by (simp add: units_where_def [of _ "[r]"])
  next
    case False
    then have "units_where (counts_for c og now None rule) (l_requests L @ [r]) = units_where (counts_for c og now None rule) (l_requests L)"
      by (simp add: units_where_def)
    with assms(1) c show ?thesis unfolding windows_hold_def by metis
  qed
qed

lemma windows_running:
  assumes "windows_hold now C (l_requests L)" and "configs_ok C" and "config_of b \<in> set C"
    and ok: "rows_ok ops C (l_requests L)" and row: "find_row q_id i (l_requests L) = Some r"
    and room: "quotas b (q_origin r) (q_units r) now (Some i) L (g_limits b) = Inr ()"
    and r: "q_program r = g_program b" "q_scan r = g_scan b"
  shows "windows_hold now C (set_running i now e (l_requests L))"
  unfolding windows_hold_def
proof (intro ballI impI allI)
  fix c rule og
  assume c: "c \<in> set C" "rule \<in> set (g_limits c)" "agreed C c rule"
  let ?r = "r\<lparr>q_charged := now\<rparr>"
  have split: "units_where (counts_for c og now None rule) (set_running i now e (l_requests L))
      \<le> units_where (counts_for c og now (Some i) rule) (l_requests L)
        + (if counts_for c og now None rule ?r then q_units r else 0)"
    by (rule sum_running_split [OF _ row]) (use ok in \<open>auto simp: rows_ok_def\<close>)
  show "units_where (counts_for c og now None rule) (set_running i now e (l_requests L)) \<le> r_maximum rule"
  proof (cases "counts_for c og now None rule ?r")
    case True
    have r': "q_program ?r = g_program b" "q_scan ?r = g_scan b" using r by simp_all
    note other = counted_elsewhere [OF assms(2,3) c r' True]
    from other(3) have "r_scope rule = TargetScope \<longrightarrow> og = q_origin r" by simp
    from quota_room [OF room other(1) this] split True show ?thesis unfolding other(2) by simp
  next
    case False
    have "units_where (counts_for c og now (Some i) rule) (l_requests L) \<le> units_where (counts_for c og now None rule) (l_requests L)"
      by (rule units_where_mono) (use rows_positive [OF ok] in \<open>auto simp: counts_for_def intro: less_imp_le\<close>)
    also have "\<dots> \<le> r_maximum rule" using assms(1) c unfolding windows_hold_def by metis
    finally show ?thesis using split False by simp
  qed
qed

lemma windows_complete:
  assumes "windows_hold t C (l_requests L)"
  shows "windows_hold t C (l_requests (complete_row ident L))"
proof -
  have "units_where (counts_for c og t None rule) (l_requests (complete_row ident L))
      = units_where (counts_for c og t None rule) (l_requests L)" for c og rule
    unfolding complete_row_def
    by (simp, rule units_where_cong, rule map_update_where) (simp add: counts_for_def split: option.splits)
  with assms show ?thesis by (simp add: windows_hold_def)
qed

lemma rows_ok_view:
  assumes "rows_ok ops C rows"
    and "map (\<lambda>r. (q_id r, q_program r, q_scan r, q_units r)) rows' = map (\<lambda>r. (q_id r, q_program r, q_scan r, q_units r)) rows"
  shows "rows_ok ops C rows'"
proof -
  have "map q_id rows' = map q_id rows"
    using arg_cong [OF assms(2), of "map fst"] by (simp add: comp_def)
  moreover have "\<exists>r0\<in>set rows. q_id r = q_id r0 \<and> q_program r = q_program r0 \<and> q_scan r = q_scan r0 \<and> q_units r = q_units r0"
    if "r \<in> set rows'" for r
  proof -
    have "(q_id r, q_program r, q_scan r, q_units r) \<in> set (map (\<lambda>r. (q_id r, q_program r, q_scan r, q_units r)) rows)"
      unfolding assms(2) [symmetric] using that by auto
    then show ?thesis by auto
  qed
  ultimately show ?thesis using assms(1) unfolding rows_ok_def by metis
qed

lemma shared_reserve:
  assumes inv: "shared_inv ops now L" and b: "accepted_binding b"
    and x: "(b, OpReserve now ident origin units conc timeout) \<in> set ops" and "0 < units"
    and row: "reserve_row b now ident origin units conc timeout L = Inr L'"
  shows "shared_inv ops now L'"
proof -
  obtain L1 d prev where sr: "gov_scan_row b now L = Inr (L1, d, prev)" and scans: "l_scans L' = l_scans L1"
    using row by (auto simp: reserve_row_def bindR_eq_Inr split: if_splits)
  have inv1: "shared_inv ops now L1" using shared_inv_register [OF inv b] gov_scan_row_Inr(1) [OF sr] by simp
  let ?C = "map s_config (l_scans L1)"
  show ?thesis
  proof (rule reserve_row_Inr [OF row])
    fix r
    assume L': "l_requests L' = l_requests L @ [r]" and r: "q_id r = ident" "q_program r = g_program b"
      "q_scan r = g_scan b" "q_origin r = origin" "q_units r = units" "q_charged r = now"
      and room: "quotas b origin units now None L (g_limits b) = Inr ()" and new: "ident \<notin> q_id ` set (l_requests L)"
    have same: "l_requests L1 = l_requests L" by (rule gov_scan_row_Inr(2) [OF sr])
    have "Some (ident, g_program b, g_scan b) \<in> issues ` set ops" using x by force
    moreover obtain c where "c \<in> set ?C" "g_program c = g_program b" "g_scan c = g_scan b"
      using gov_scan_row_config [OF sr] by (metis config_of_simps(1,2))
    moreover have "rows_ok ops ?C (l_requests L)" using inv1 same by (simp add: shared_inv_def)
    ultimately have "rows_ok ops ?C (l_requests L @ [r])"
      using r new \<open>0 < units\<close> unfolding rows_ok_def by auto
    moreover have "windows_hold now ?C (l_requests L @ [r])"
      by (rule windows_append) (use inv1 r room same gov_scan_row_config [OF sr] in \<open>simp_all add: shared_inv_def\<close>)
    ultimately show ?thesis using inv1 L' scans by (simp add: shared_inv_def scans_ok_def)
  qed
qed

lemma shared_dispatch:
  assumes inv: "shared_inv ops now L" and b: "accepted_binding b" and own: "own_permits ops"
    and x: "(b, OpDispatch now0 now p) \<in> set ops"
    and row: "dispatch_row b now0 now p L = Inr (L', p', None)"
  shows "shared_inv ops now L'"
proof (rule dispatch_row_Inr [OF row])
  fix L1 r d prev e
  assume sr: "gov_scan_row b now0 L = Inr (L1, d, prev)" and r: "find_row q_id (p_ident p) (l_requests L) = Some r"
    and room: "quotas b (q_origin r) (q_units r) now (Some (p_ident p)) L (g_limits b) = Inr ()"
    and L': "l_requests L' = set_running (p_ident p) now e (l_requests L)" "l_scans L' = set_last b now (l_scans L1)"
  have inv1: "shared_inv ops now L1" using shared_inv_register [OF inv b] gov_scan_row_Inr(1) [OF sr] by simp
  have same: "l_requests L1 = l_requests L" by (rule gov_scan_row_Inr(2) [OF sr])
  let ?C = "map s_config (l_scans L1)"
  have "r \<in> set (l_requests L)" "q_id r = p_ident p" using find_row_Some [OF r] by simp_all
  with inv obtain y where y: "y \<in> set ops" "issues y = Some (p_ident p, q_program r, q_scan r)"
    by (force simp: shared_inv_def rows_ok_def)
  then have owner: "q_program r = g_program b" "q_scan r = g_scan b"
    using own x by (force simp: own_permits_def list_all_iff)+
  have "rows_ok ops ?C (l_requests L')"
    unfolding L'(1) by (rule rows_ok_view [of ops ?C "l_requests L"]) (use inv1 same in \<open>simp_all add: shared_inv_def set_running_keeps\<close>)
  moreover have "windows_hold now ?C (l_requests L')"
    unfolding L'(1) by (rule windows_running [where ops = ops, OF _ _ _ _ r room owner])
      (use inv1 same gov_scan_row_config [OF sr] in \<open>simp_all add: shared_inv_def\<close>)
  moreover have "scans_ok L'" using inv1 L'(2) by (auto simp: shared_inv_def scans_ok_def set_last_def in_update_where)
  ultimately show ?thesis using inv1 L'(2) by (simp add: shared_inv_def)
qed

lemma shared_complete: "shared_inv ops t L \<Longrightarrow> shared_inv ops t (complete_row ident L)"
  using windows_complete rows_ok_view [of ops "map s_config (l_scans L)" "l_requests L" "l_requests (complete_row ident L)"]
  by (simp add: shared_inv_def scans_ok_def complete_row_def map_update_where)

lemma shared_wait:
  assumes "shared_inv ops t L" and "accepted_binding b" and "dispatch_row b now0 now p L = Inr (L', p', Some delay)"
  shows "shared_inv ops t L'"
proof -
  obtain L1 d prev where sr: "gov_scan_row b now0 L = Inr (L1, d, prev)"
    using assms(3) by (auto simp: dispatch_row_def elim!: bindR_InrE)
  with assms(3) have "L' = L1" by (auto simp: dispatch_row_def Let_def bindR_eq_Inr split: if_splits option.splits)
  with shared_inv_register [OF assms(1,2)] gov_scan_row_Inr(1) [OF sr] show ?thesis by simp
qed

lemma shared_step:
  assumes inv: "shared_inv ops t L" and b: "accepted_binding b" and own: "own_permits ops" and x: "(b, x) \<in> set ops"
    and clock: "sorted (t # op_clocks x)" and step: "gov_step b x L = Inr L'"
  shows "shared_inv ops (List.last (t # op_clocks x)) L'"
proof (cases x)
  case (OpReserve now ident origin units conc timeout)
  with step have "0 < units" "reserve_row b now ident origin units conc timeout L = Inr L'"
    by (auto simp: bindR_eq_Inr split: if_splits dest: number_of_int_pos)
  moreover have "shared_inv ops now L" by (rule shared_inv_later [OF inv]) (use clock OpReserve in simp)
  ultimately show ?thesis using shared_reserve [OF _ b] x OpReserve by simp
next
  case (OpDispatch now0 now p)
  with step obtain p' o' where row: "dispatch_row b now0 now p L = Inr (L', p', o')" by (auto simp: bindR_eq_Inr)
  have now: "shared_inv ops now L" by (rule shared_inv_later [OF inv]) (use clock OpDispatch in simp)
  show ?thesis
  proof (cases o')
    case None
    with row shared_dispatch [OF now b own] x OpDispatch show ?thesis by simp
  next
    case (Some delay)
    with row shared_wait [OF now b] OpDispatch show ?thesis by simp
  qed
next
  case (OpComplete ident)
  with step shared_complete [OF inv] show ?thesis by auto
qed

lemma clock_split:
  "sorted (t # op_clocks x @ r) \<Longrightarrow>
     sorted (t # op_clocks x) \<and> sorted (List.last (t # op_clocks x) # r) \<and> t \<le> List.last (t # op_clocks x)"
  by (cases x) auto

lemma windows_holdD:
  "windows_hold t C rows \<Longrightarrow> c \<in> set C \<Longrightarrow> rule \<in> set (g_limits c) \<Longrightarrow> agreed C c rule
     \<Longrightarrow> units_where (counts_for c og t None rule) rows \<le> r_maximum rule"
  unfolding windows_hold_def by blast

lemma shared_inv_run:
  assumes "shared_inv ops t L" and "own_permits ops" and "\<forall>(b, x)\<in>set ops. accepted_binding b"
    and "set xs \<subseteq> set ops" and "sorted (t # concat (map (op_clocks \<circ> snd) xs) @ [t'])"
  shows "shared_inv ops t' (shared_run xs L)"
  using assms(1,4,5)
proof (induction xs arbitrary: t L)
  case Nil
  then show ?case by (auto simp: shared_run_def intro: shared_inv_later)
next
  case (Cons y xs)
  obtain b x where y: "y = (b, x)" by (cases y)
  let ?m = "List.last (t # op_clocks x)"
  have "concat (map (op_clocks \<circ> snd) (y # xs)) @ [t'] = op_clocks x @ concat (map (op_clocks \<circ> snd) xs) @ [t']"
    by (simp add: y)
  then have mid: "sorted (t # op_clocks x)" "sorted (?m # concat (map (op_clocks \<circ> snd) xs) @ [t'])" "t \<le> ?m"
    using clock_split Cons.prems(3) by metis+
  have b: "accepted_binding b" "(b, x) \<in> set ops" using assms(3) Cons.prems(2) y by auto
  have "shared_inv ops ?m (attempt (gov_step b x) L)"
  proof (cases "gov_step b x L")
    case (Inl e)
    with shared_inv_later [OF Cons.prems(1) mid(3)] show ?thesis by (simp add: attempt_def)
  next
    case (Inr L')
    with shared_step [OF Cons.prems(1) b(1) assms(2) b(2) mid(1)] show ?thesis by (simp add: attempt_def)
  qed
  with Cons.IH [OF _ _ mid(2)] Cons.prems(2) show ?case by (simp add: shared_run_def y)
qed

lemma shared_inv_empty: "shared_inv ops t empty_ledger"
  by (simp add: shared_inv_def scans_ok_def configs_ok_def rows_ok_def windows_hold_def empty_ledger_def)

lemma shared_inv_from_empty:
  assumes "own_permits ops" and "\<forall>(b, x)\<in>set ops. accepted_binding b"
    and "sorted (concat (map (op_clocks \<circ> snd) ops) @ [now])"
  shows "shared_inv ops now (shared_run ops empty_ledger)"
proof (rule shared_inv_run [OF shared_inv_empty assms(1,2) subset_refl])
  show "sorted (hd (concat (map (op_clocks \<circ> snd) ops) @ [now]) # concat (map (op_clocks \<circ> snd) ops) @ [now])"
    using assms(3) by (rule sorted_hd) simp
qed

section \<open>Properties\<close>

text \<open>
  C7: no quota window is ever overfull, whoever shares the ledger.  Let the processes of any number of
  scans, each with a binding that the governor accepts, run any sequence of reservations, dispatches and
  completions on one ledger that was empty at first, with clock readings that do not run backwards in
  the order of the transactions, and let no governor dispatch a permit that another one issued.  Then at
  every later time and for every registered scan, each of its quotas holds in the window that ends
  now: what was charged to the scan, to the program over all its scans, or to any one origin is at most
  the maximum, reservations that still wait included.  A quota that reaches beyond the scan (of the
  program, or of a target with a period) is only as good as the other scans of the program: it is
  claimed when all of them that are registered carry it.
\<close>

theorem quota_windows_never_overfull:
  assumes "\<forall>(b, x)\<in>set ops. accepted_binding b" and "own_permits ops"
    and "sorted (concat (map (op_clocks \<circ> snd) ops) @ [now])"
    and L: "L = shared_run ops empty_ledger"
    and s: "s \<in> set (l_scans L)" and rule: "rule \<in> set (g_limits (s_config s))"
    and shared: "r_scope rule = ScanScope \<or> r_scope rule = TargetScope \<and> r_period rule = None
      \<or> (\<forall>s'\<in>set (l_scans L). s_program s' = s_program s \<longrightarrow> rule \<in> set (g_limits (s_config s')))"
  shows "sum_list (map q_units (filter (in_quota s rule origin now) (l_requests L))) \<le> r_maximum rule"
proof -
  have inv: "shared_inv ops now L" unfolding L by (rule shared_inv_from_empty [OF assms(2,1,3)])
  then have key: "g_program (s_config s') = s_program s'" "g_scan (s_config s') = s_scan s'" if "s' \<in> set (l_scans L)" for s'
    using that by (simp_all add: shared_inv_def scans_ok_def)
  have "agreed (map s_config (l_scans L)) (s_config s) rule"
    using shared key s by (auto simp: agreed_def within_scan_def)
  with inv s rule have "units_where (counts_for (s_config s) origin now None rule) (l_requests L) \<le> r_maximum rule"
    unfolding shared_inv_def by (intro windows_holdD [where C = "map s_config (l_scans L)"]) simp_all
  then show ?thesis by (simp add: in_quota_counts [OF key [OF s]] units_where_def)
qed

text \<open>Two scans of one program that both carry its quota, served in turn.\<close>

definition program_rule :: gov_rule where
  "program_rule = \<lparr>r_maximum = 2, r_period = Some 60, r_scope = ProgramScope, r_quote = ''q''\<rparr>"

definition scan_binding :: "string \<Rightarrow> gov_binding" where
  "scan_binding i = \<lparr>g_ledger_path = ''/l'', g_scan = i, g_program = ''p1'', g_scan_max = 3,
     g_max_seconds = Some 600, g_rate = 1/2, g_concurrency = 2, g_limits = [program_rule]\<rparr>"

definition scan_document :: "string \<Rightarrow> pyval" where
  "scan_document i = PDict
     [(''ledger_path'', PStr ''/l''), (''scan_id'', PStr i), (''program_id'', PStr ''p1''),
      (''scan_max_requests'', PInt 3), (''scan_max_seconds'', PInt 600),
      (''requests_per_second'', PFloat (1/2)), (''concurrency'', PInt 2),
      (''request_limits'', PList [PDict
         [(''maximum'', PInt 2), (''period_seconds'', PInt 60), (''scope'', PStr ''program''),
          (''source_quote'', PStr ''q'')]])]"

lemma scan_binding_accepted: "i \<in> {''s1'', ''s2''} \<Longrightarrow> make_governor (scan_document i) = Inr (Some (scan_binding i))"
  by (auto simp: scan_document_def scan_binding_def program_rule_def make_governor_def gov_required_fields_def
      gov_identifier_def gov_path_def number_of_def optional_number_def dict_field_def dict_get_def
      gov_quota_def quota_evidence_def scope_of_def is_blank_iff str_eval insert_commute)

definition two_scans :: "(gov_binding \<times> gov_op) list" where
  "two_scans =
     [(scan_binding ''s1'', OpReserve 10 ''a'' (''https'', ''h'', 443) 1 1 30),
      (scan_binding ''s2'', OpReserve 11 ''b'' (''https'', ''k'', 443) 1 1 30),
      (scan_binding ''s1'', OpReserve 12 ''c'' (''https'', ''h'', 443) 1 1 30),
      (scan_binding ''s2'', OpDispatch 13 13 (new_permit True ''b'' 30))]"

definition two_scan_rows :: "gov_request list" where
  "two_scan_rows =
     [\<lparr>q_id = ''a'', q_program = ''p1'', q_scan = ''s1'', q_origin = (''https'', ''h'', 443), q_units = 1,
       q_capacity = 1, q_charged = 10, q_expires = 70, q_state = Reserved\<rparr>,
      \<lparr>q_id = ''b'', q_program = ''p1'', q_scan = ''s2'', q_origin = (''https'', ''k'', 443), q_units = 1,
       q_capacity = 1, q_charged = 13, q_expires = 73, q_state = Running\<rparr>]"

definition two_scan_ledger :: ledger where
  "two_scan_ledger = \<lparr>
     l_scans = [\<lparr>s_program = ''p1'', s_scan = ''s1'', s_started = 10, s_config = config_of (scan_binding ''s1''), s_last = None\<rparr>,
                \<lparr>s_program = ''p1'', s_scan = ''s2'', s_started = 11, s_config = config_of (scan_binding ''s2''), s_last = Some 13\<rparr>],
     l_requests = two_scan_rows\<rparr>"

lemma two_scans_run: "shared_run two_scans empty_ledger = two_scan_ledger"
  by (simp add: shared_run_def two_scans_def empty_ledger_def attempt_def two_scan_ledger_def two_scan_rows_def reserve_row_def
      number_of_def Let_def scan_units_def units_where_def in_scan_def active_capacity_def leased_def
      dispatch_row_def gov_scan_row_def register_scan_def scan_key_def scan_deadline_def before_def min_deadline_def
      due_time_def find_row_def set_running_def set_last_def quota_check_def counts_for_def update_where_def
      new_permit_def scan_binding_def program_rule_def config_of_def)

lemma quota_windows_never_overfull_witness:
  "sum_list (map q_units (filter (in_quota (hd (l_scans two_scan_ledger)) program_rule (''https'', ''h'', 443) 13)
     two_scan_rows)) \<le> 2
   \<and> filter (in_quota (hd (l_scans two_scan_ledger)) program_rule (''https'', ''h'', 443) 13) two_scan_rows = two_scan_rows"
proof -
  have acc: "\<forall>(b, x)\<in>set two_scans. accepted_binding b"
    using scan_binding_accepted unfolding two_scans_def accepted_binding_def by auto
  have own: "own_permits two_scans"
    by (simp add: own_permits_def two_scans_def new_permit_def scan_binding_def)
  have clock: "sorted (concat (map (op_clocks \<circ> snd) two_scans) @ [13])" by (simp add: two_scans_def)
  have s: "hd (l_scans two_scan_ledger) \<in> set (l_scans two_scan_ledger)" by (simp add: two_scan_ledger_def)
  have rule: "program_rule \<in> set (g_limits (s_config s'))" if "s' \<in> set (l_scans two_scan_ledger)" for s'
    using that by (auto simp: two_scan_ledger_def config_of_def scan_binding_def)
  have rows: "l_requests two_scan_ledger = two_scan_rows" by (simp add: two_scan_ledger_def)
  have "sum_list (map q_units (filter (in_quota (hd (l_scans two_scan_ledger)) program_rule (''https'', ''h'', 443) 13)
      (l_requests two_scan_ledger))) \<le> r_maximum program_rule"
    by (rule quota_windows_never_overfull [OF acc own clock two_scans_run [symmetric] s rule [OF s]]) (use rule in blast)
  then show ?thesis
    unfolding rows by (simp add: program_rule_def two_scan_rows_def two_scan_ledger_def in_quota_def)
qed

end
