(* ===== verification/Lifecycle.thy ===== *)
theory Lifecycle
  imports Interfaces
begin

text \<open>
  \<open>src/src/aidast/pipeline/lifecycle.py\<close>: stage runs, their tasks and the append-only audit
  trail.  \<^theory_text>\<open>pipe_db\<close> holds the tables these transactions touch, with the CHECK,
  UNIQUE and FOREIGN KEY constraints of \<open>pipeline/schema.py\<close> that can refuse a statement.
  Fresh identifiers and timestamps are arguments.  The stored event type of an audit row is
  \<^theory_text>\<open>audit_name\<close> of its kind.
\<close>

section \<open>Tables\<close>

datatype db_error = ValueErr string | IntegrityErr string

datatype job_status = JPending | JRunning | JCompleted | JFailed | JCancelled | JSkipped

fun job_name :: "job_status \<Rightarrow> string" where
  "job_name JPending = ''pending''"
| "job_name JRunning = ''running''"
| "job_name JCompleted = ''completed''"
| "job_name JFailed = ''failed''"
| "job_name JCancelled = ''cancelled''"
| "job_name JSkipped = ''skipped''"

definition terminal_statuses :: "job_status set" where
  "terminal_statuses = {JCompleted, JFailed, JCancelled, JSkipped}"

fun task_transitions :: "job_status \<Rightarrow> job_status set" where
  "task_transitions JPending = {JRunning, JCancelled, JSkipped}"
| "task_transitions JRunning = {JCompleted, JFailed, JCancelled}"
| "task_transitions _ = {}"

record stage_run =
  sr_id :: string
  sr_scan :: string
  sr_stage :: string
  sr_status :: job_status
  sr_manifest :: "string option"
  sr_error :: "string option"
  sr_started :: "string option"
  sr_finished :: "string option"

record attack_task =
  at_id :: string
  at_run :: string
  at_scan :: string
  at_skill :: string
  at_endpoint :: "string option"
  at_payload :: "(string \<times> pyval) list"
  at_status :: job_status
  at_error :: "string option"
  at_started :: "string option"
  at_finished :: "string option"

datatype audit_kind =
    StageStarted
  | StageMoved job_status
  | StageResumed
  | TaskCreated
  | TaskMoved job_status
  | CredentialCreated
  | OtherEvent string

fun audit_name :: "audit_kind \<Rightarrow> string" where
  "audit_name StageStarted = ''stage.started''"
| "audit_name (StageMoved s) = ''stage.'' @ job_name s"
| "audit_name StageResumed = ''stage.resumed''"
| "audit_name TaskCreated = ''task.created''"
| "audit_name (TaskMoved s) = ''task.'' @ job_name s"
| "audit_name CredentialCreated = ''credential_reference.created''"
| "audit_name (OtherEvent e) = e"

record audit_row =
  au_scan :: string
  au_run :: "string option"
  au_task :: "string option"
  au_kind :: audit_kind
  au_details :: "(string \<times> pyval) list"

record credential_ref =
  cr_id :: string
  cr_scan :: string
  cr_session :: "string option"
  cr_label :: string
  cr_uri :: string
  cr_role :: string

datatype case_phase = PhQueued | PhBlindReplay | PhDeveloping | PhUnblinding | PhCompleted | PhInterrupted

record vcase =
  vc_id :: string
  vc_latest_run :: string
  vc_decision_run :: "string option"
  vc_phase :: case_phase
  vc_status :: "string option"
  vc_updated :: string

datatype work_state = WPlanned | WReserved | WRunning | WSucceeded | WFailed | WOutcomeUnknown

record vattempt =
  va_run :: string
  va_outcome :: string
  va_finished :: "string option"

record vwork =
  vw_run :: string
  vw_state :: work_state
  vw_finished :: "string option"

record vtransport =
  vt_run :: string
  vt_state :: work_state
  vt_dispatched :: "rat option"
  vt_error :: "string option"
  vt_finished :: "rat option"

record pipe_db =
  d_scans :: "string list"
  d_endpoints :: "(string \<times> string) list"
  d_sessions :: "(string \<times> string) list"
  d_stages :: "stage_run list"
  d_tasks :: "attack_task list"
  d_audit :: "audit_row list"
  d_credentials :: "credential_ref list"
  d_cases :: "vcase list"
  d_attempts :: "vattempt list"
  d_actions :: "vwork list"
  d_http :: "vwork list"
  d_transport :: "vtransport list"

section \<open>Operations\<close>

definition fk_stage :: "pipe_db \<Rightarrow> string \<Rightarrow> string option \<Rightarrow> bool" where
  "fk_stage D scan run \<longleftrightarrow>
     (case run of None \<Rightarrow> True | Some i \<Rightarrow> \<exists>r\<in>set (d_stages D). sr_id r = i \<and> sr_scan r = scan)"

definition fk_task :: "pipe_db \<Rightarrow> string \<Rightarrow> string option \<Rightarrow> bool" where
  "fk_task D scan task \<longleftrightarrow>
     (case task of None \<Rightarrow> True | Some i \<Rightarrow> \<exists>t\<in>set (d_tasks D). at_id t = i \<and> at_scan t = scan)"

text \<open>\<open>_audit\<close>; \<open>audit_event\<close> is the same in a transaction of its own.\<close>

definition audit ::
  "string \<Rightarrow> audit_kind \<Rightarrow> (string \<times> pyval) list \<Rightarrow> string option \<Rightarrow> string option
     \<Rightarrow> pipe_db \<Rightarrow> (db_error, pipe_db) result" where
  "audit scan kind details run task D =
     (if \<not> json_finite (PDict details) then Inl (ValueErr ''Out of range float values'')
      else if scan \<notin> set (d_scans D) \<or> \<not> fk_stage D scan run \<or> \<not> fk_task D scan task
        then Inl (IntegrityErr ''FOREIGN KEY constraint failed'')
      else if sql_blank (audit_name kind) then Inl (IntegrityErr ''CHECK constraint failed'')
      else Inr (D\<lparr>d_audit := d_audit D @
             [\<lparr>au_scan = scan, au_run = run, au_task = task, au_kind = kind, au_details = details\<rparr>]\<rparr>))"

definition start_stage_run ::
  "string \<Rightarrow> string \<Rightarrow> string \<Rightarrow> string \<Rightarrow> string option \<Rightarrow> string \<Rightarrow> pipe_db
     \<Rightarrow> (db_error, pipe_db) result" where
  "start_stage_run fresh given scan stage manifest ts D =
     (let ident = (if given = [] then fresh else given)
      in if sql_blank stage then Inl (IntegrityErr ''CHECK constraint failed'')
         else if ident \<in> sr_id ` set (d_stages D) then Inl (IntegrityErr ''UNIQUE constraint failed'')
         else if scan \<notin> set (d_scans D) then Inl (IntegrityErr ''FOREIGN KEY constraint failed'')
         else audit scan StageStarted [(''stage'', PStr stage)] (Some ident) None
           (D\<lparr>d_stages := d_stages D @ [\<lparr>sr_id = ident, sr_scan = scan, sr_stage = stage,
                sr_status = JRunning, sr_manifest = manifest, sr_error = None,
                sr_started = Some ts, sr_finished = None\<rparr>]\<rparr>))"

definition create_task ::
  "string \<Rightarrow> string \<Rightarrow> string \<Rightarrow> string \<Rightarrow> string option \<Rightarrow> (string \<times> pyval) list \<Rightarrow> pipe_db
     \<Rightarrow> (db_error, pipe_db) result" where
  "create_task fresh given run skill endpoint payload D =
     (let ident = (if given = [] then fresh else given)
      in case find_row sr_id run (d_stages D) of
           None \<Rightarrow> Inl (ValueErr ''tasks require a running stage'')
         | Some stage \<Rightarrow>
             if sr_status stage \<noteq> JRunning then Inl (ValueErr ''tasks require a running stage'')
             else if \<not> json_finite (PDict payload) then Inl (ValueErr ''Out of range float values'')
             else if (case endpoint of None \<Rightarrow> False
                      | Some e \<Rightarrow> (e, sr_scan stage) \<notin> set (d_endpoints D))
               then Inl (IntegrityErr ''reference does not belong to scan'')
             else if sql_blank skill then Inl (IntegrityErr ''CHECK constraint failed'')
             else if ident \<in> at_id ` set (d_tasks D) then Inl (IntegrityErr ''UNIQUE constraint failed'')
             else audit (sr_scan stage) TaskCreated [] (Some run) (Some ident)
               (D\<lparr>d_tasks := d_tasks D @ [\<lparr>at_id = ident, at_run = run, at_scan = sr_scan stage,
                    at_skill = skill, at_endpoint = endpoint, at_payload = payload,
                    at_status = JPending, at_error = None, at_started = None, at_finished = None\<rparr>]\<rparr>))"

text \<open>A \<open>status\<close> argument outside the six names raises like a forbidden transition.\<close>

definition transition_task ::
  "string \<Rightarrow> job_status \<Rightarrow> string option \<Rightarrow> string \<Rightarrow> pipe_db \<Rightarrow> (db_error, pipe_db) result" where
  "transition_task task status err ts D =
     (case find_row at_id task (d_tasks D) of
        None \<Rightarrow> Inl (ValueErr ''unknown task'')
      | Some t \<Rightarrow>
          (case find_row sr_id (at_run t) (d_stages D) of
             None \<Rightarrow> Inl (ValueErr ''unknown task'')
           | Some s \<Rightarrow>
               if sr_status s \<noteq> JRunning \<or> status \<notin> task_transitions (at_status t)
               then Inl (ValueErr ''invalid task transition'')
               else audit (at_scan t) (TaskMoved status)
                 [(''previous_status'', PStr (job_name (at_status t)))] (Some (at_run t)) (Some task)
                 (D\<lparr>d_tasks := update_where (\<lambda>r. at_id r = task)
                      (\<lambda>r. r\<lparr>at_status := status, at_error := err,
                         at_started := (if status = JRunning then Some ts else at_started r),
                         at_finished := (if status \<in> terminal_statuses then Some ts else at_finished r)\<rparr>)
                      (d_tasks D)\<rparr>)))"

definition stage_tasks :: "string \<Rightarrow> pipe_db \<Rightarrow> attack_task list" where
  "stage_tasks run D = filter (\<lambda>t. at_run t = run) (d_tasks D)"

text \<open>The cases that keep a Validation stage from completing (SQL's NULL comparison is not true).\<close>

definition case_incomplete :: "string \<Rightarrow> vcase \<Rightarrow> bool" where
  "case_incomplete run c \<longleftrightarrow> vc_latest_run c = run \<and>
     (vc_phase c \<noteq> PhCompleted \<or> vc_status c = None
      \<or> (case vc_decision_run c of None \<Rightarrow> False | Some d \<Rightarrow> d \<noteq> vc_latest_run c))"

definition may_complete :: "string \<Rightarrow> bool \<Rightarrow> stage_run \<Rightarrow> pipe_db \<Rightarrow> (db_error, unit) result" where
  "may_complete run allow_errors s D =
     (if allow_errors \<and> sr_stage s \<noteq> ''attack''
      then Inl (ValueErr ''terminal task errors may only complete a reconciled Attack stage'')
      else if \<exists>t\<in>set (stage_tasks run D).
                at_status t \<notin> (if allow_errors then terminal_statuses else {JCompleted, JSkipped})
      then Inl (ValueErr (if allow_errors then ''completed stages require terminal tasks''
                          else ''completed stages require completed or skipped tasks''))
      else if sr_stage s = ''validation'' \<and> (\<exists>c\<in>set (d_cases D). case_incomplete run c)
      then Inl (ValueErr ''completed Validation stages require terminal current case decisions'')
      else Inr ())"

definition cancel_open_task ::
  "string \<Rightarrow> string \<Rightarrow> string \<Rightarrow> attack_task \<Rightarrow> pipe_db \<Rightarrow> (db_error, pipe_db) result" where
  "cancel_open_task scan run ts t D =
     (if at_status t \<in> terminal_statuses then Inr D
      else audit scan (TaskMoved JCancelled) [(''reason'', PStr ''stage finished'')] (Some run) (Some (at_id t))
        (D\<lparr>d_tasks := update_where (\<lambda>r. at_id r = at_id t)
             (\<lambda>r. r\<lparr>at_status := JCancelled, at_finished := Some ts\<rparr>) (d_tasks D)\<rparr>))"

text \<open>A failed or cancelled Validation stage closes everything that was in flight.\<close>

definition close_validation :: "string \<Rightarrow> string \<Rightarrow> rat option \<Rightarrow> pipe_db \<Rightarrow> pipe_db" where
  "close_validation run ts epoch D =
     D\<lparr>d_attempts := update_where (\<lambda>a. va_run a = run \<and> va_finished a = None)
         (\<lambda>a. a\<lparr>va_outcome := ''outcome_unknown'', va_finished := Some ts\<rparr>) (d_attempts D),
       d_actions := update_where (\<lambda>a. vw_run a = run \<and> vw_state a \<in> {WPlanned, WRunning})
         (\<lambda>a. a\<lparr>vw_state := WOutcomeUnknown, vw_finished := Some ts\<rparr>) (d_actions D),
       d_http := update_where (\<lambda>a. vw_run a = run \<and> vw_state a \<in> {WReserved, WRunning})
         (\<lambda>a. a\<lparr>vw_state := WOutcomeUnknown, vw_finished := Some ts\<rparr>) (d_http D),
       d_transport := update_where (\<lambda>a. vt_run a = run \<and> vt_state a \<in> {WReserved, WRunning})
         (\<lambda>a. let unsent = (vt_state a = WReserved \<and> vt_dispatched a = None)
              in a\<lparr>vt_state := (if unsent then WFailed else WOutcomeUnknown),
                   vt_error := Some (if unsent then ''UndispatchedReservationAbandoned''
                                     else ''InterruptedTransportOperation''),
                   vt_finished := epoch\<rparr>) (d_transport D),
       d_cases := update_where (\<lambda>c. vc_latest_run c = run \<and> vc_phase c \<notin> {PhCompleted, PhQueued})
         (\<lambda>c. c\<lparr>vc_phase := PhInterrupted, vc_updated := ts\<rparr>) (d_cases D)\<rparr>"

definition finish_stage_run ::
  "string \<Rightarrow> job_status \<Rightarrow> string option \<Rightarrow> bool \<Rightarrow> string \<Rightarrow> rat option \<Rightarrow> pipe_db
     \<Rightarrow> (db_error, pipe_db) result" where
  "finish_stage_run run status err allow_errors ts epoch D =
     (if status \<notin> terminal_statuses then Inl (ValueErr ''stage final status must be terminal'')
      else case find_row sr_id run (d_stages D) of
             None \<Rightarrow> Inl (ValueErr ''unknown stage run'')
           | Some s \<Rightarrow>
               if sr_status s \<noteq> JRunning then Inl (ValueErr ''only a running stage may finish'')
               else bindR (if status = JCompleted then may_complete run allow_errors s D else Inr ()) (\<lambda>_.
                    bindR (foldR (cancel_open_task (sr_scan s) run ts) (stage_tasks run D) D) (\<lambda>D1.
                    let D2 = (if status \<in> {JFailed, JCancelled} \<and> sr_stage s = ''validation''
                              then close_validation run ts epoch D1 else D1)
                    in audit (sr_scan s) (StageMoved status) [] (Some run) None
                      (D2\<lparr>d_stages := update_where (\<lambda>r. sr_id r = run)
                           (\<lambda>r. r\<lparr>sr_status := status, sr_finished := Some ts, sr_error := err\<rparr>)
                           (d_stages D2)\<rparr>))))"

definition resume_validation_stage_run :: "string \<Rightarrow> pipe_db \<Rightarrow> (db_error, pipe_db) result" where
  "resume_validation_stage_run run D =
     (case find_row sr_id run (d_stages D) of
        None \<Rightarrow> Inl (ValueErr ''resume requires a failed Validation stage'')
      | Some s \<Rightarrow>
          if sr_stage s \<noteq> ''validation'' \<or> sr_status s \<noteq> JFailed
          then Inl (ValueErr ''resume requires a failed Validation stage'')
          else if \<exists>o'\<in>set (d_stages D). sr_scan o' = sr_scan s \<and> sr_stage o' = ''validation''
                   \<and> sr_status o' \<in> {JPending, JRunning} \<and> sr_id o' \<noteq> run
          then Inl (ValueErr ''another Validation stage is active for this scan'')
          else if \<not> (\<exists>c\<in>set (d_cases D). vc_latest_run c = run \<and> vc_phase c \<in> {PhQueued, PhInterrupted})
          then Inl (ValueErr ''failed Validation stage has no resumable cases'')
          else audit (sr_scan s) StageResumed
            [(''previous_error'', case sr_error s of None \<Rightarrow> PNone | Some e \<Rightarrow> PStr e)] (Some run) None
            (D\<lparr>d_stages := update_where (\<lambda>r. sr_id r = run)
                 (\<lambda>r. r\<lparr>sr_status := JRunning, sr_finished := None, sr_error := None\<rparr>) (d_stages D)\<rparr>))"

definition opaque_uri :: "string \<Rightarrow> bool" where
  "opaque_uri u \<longleftrightarrow> (\<exists>p\<in>{''env://'', ''keyring://'', ''vault://''}. starts_with u p \<and> length p < length u)"

definition register_credential_reference ::
  "string \<Rightarrow> string \<Rightarrow> string \<Rightarrow> string \<Rightarrow> string \<Rightarrow> string option \<Rightarrow> pipe_db
     \<Rightarrow> (db_error, pipe_db) result" where
  "register_credential_reference ident scan label uri role session D =
     (if (case session of None \<Rightarrow> False | Some x \<Rightarrow> (x, scan) \<notin> set (d_sessions D))
      then Inl (IntegrityErr ''reference does not belong to scan'')
      else if sql_blank label \<or> \<not> opaque_uri uri then Inl (IntegrityErr ''CHECK constraint failed'')
      else if \<exists>c\<in>set (d_credentials D). cr_id c = ident \<or> (cr_scan c = scan \<and> cr_label c = label)
      then Inl (IntegrityErr ''UNIQUE constraint failed'')
      else if scan \<notin> set (d_scans D) then Inl (IntegrityErr ''FOREIGN KEY constraint failed'')
      else audit scan CredentialCreated
        [(''credential_reference_id'', PStr ident), (''label'', PStr label)] None None
        (D\<lparr>d_credentials := d_credentials D @ [\<lparr>cr_id = ident, cr_scan = scan, cr_session = session,
             cr_label = label, cr_uri = uri, cr_role = role\<rparr>]\<rparr>))"

section \<open>The tables as a machine\<close>

datatype life_op =
    OpAudit string string "(string \<times> pyval) list" "string option" "string option"
  | OpStart string string string string "string option" string
  | OpCreate string string string string "string option" "(string \<times> pyval) list"
  | OpTransition string job_status "string option" string
  | OpFinish string job_status "string option" bool string "rat option"
  | OpResume string
  | OpCredential string string string string string "string option"

fun life_step :: "life_op \<Rightarrow> pipe_db \<Rightarrow> (db_error, pipe_db) result" where
  "life_step (OpAudit scan event details run task) = audit scan (OtherEvent event) details run task"
| "life_step (OpStart fresh given scan stage manifest ts) = start_stage_run fresh given scan stage manifest ts"
| "life_step (OpCreate fresh given run skill endpoint payload) =
     create_task fresh given run skill endpoint payload"
| "life_step (OpTransition task status err ts) = transition_task task status err ts"
| "life_step (OpFinish run status err allow ts epoch) = finish_stage_run run status err allow ts epoch"
| "life_step (OpResume run) = resume_validation_stage_run run"
| "life_step (OpCredential ident scan label uri role session) =
     register_credential_reference ident scan label uri role session"

section \<open>The audit trail as a status log\<close>

text \<open>Items are tasks (\<open>Inl\<close>) and stage runs (\<open>Inr\<close>).\<close>

type_synonym item = "string + string"

definition item_status :: "pipe_db \<Rightarrow> item \<Rightarrow> job_status option" where
  "item_status D i =
     (case i of Inl t \<Rightarrow> map_option at_status (find_row at_id t (d_tasks D))
              | Inr r \<Rightarrow> map_option sr_status (find_row sr_id r (d_stages D)))"

text \<open>What an audit row says: an item was created with a status, or moved to one.\<close>

datatype audit_fact = Silent | Created item job_status | Moved item job_status

definition audit_fact_of :: "audit_row \<Rightarrow> audit_fact" where
  "audit_fact_of a =
     (case (au_kind a, au_run a, au_task a) of
        (StageStarted, Some r, _) \<Rightarrow> Created (Inr r) JRunning
      | (StageMoved s, Some r, _) \<Rightarrow> Moved (Inr r) s
      | (StageResumed, Some r, _) \<Rightarrow> Moved (Inr r) JRunning
      | (TaskCreated, _, Some t) \<Rightarrow> Created (Inl t) JPending
      | (TaskMoved s, _, Some t) \<Rightarrow> Moved (Inl t) s
      | _ \<Rightarrow> Silent)"

fun told :: "(item \<Rightarrow> job_status) \<Rightarrow> audit_row list \<Rightarrow> item \<Rightarrow> job_status" where
  "told cur [] = cur"
| "told cur (a # as) =
     (case audit_fact_of a of Silent \<Rightarrow> told cur as
      | Created i n \<Rightarrow> told (cur(i := n)) as
      | Moved i n \<Rightarrow> told (cur(i := n)) as)"

fun told_moves :: "(item \<Rightarrow> job_status) \<Rightarrow> audit_row list \<Rightarrow> (item, job_status) event list" where
  "told_moves cur [] = []"
| "told_moves cur (a # as) =
     (case audit_fact_of a of Silent \<Rightarrow> told_moves cur as
      | Created i n \<Rightarrow> told_moves (cur(i := n)) as
      | Moved i n \<Rightarrow> (i, cur i, n) # told_moves (cur(i := n)) as)"

definition told_status :: "pipe_db \<Rightarrow> item \<Rightarrow> job_status" where
  "told_status D = told (\<lambda>_. JPending) (d_audit D)"

definition life_log :: "pipe_db \<Rightarrow> (item, job_status) event list" where
  "life_log D = told_moves (\<lambda>_. JPending) (d_audit D)"

fun life_allowed :: "item \<Rightarrow> job_status \<Rightarrow> job_status \<Rightarrow> bool" where
  "life_allowed (Inl t) p n \<longleftrightarrow> n \<in> task_transitions p"
| "life_allowed (Inr r) p n \<longleftrightarrow> (p = JRunning \<and> n \<in> terminal_statuses) \<or> (p = JFailed \<and> n = JRunning)"

definition audit_agrees :: "pipe_db \<Rightarrow> bool" where
  "audit_agrees D \<longleftrightarrow> (\<forall>i p. item_status D i = Some p \<longrightarrow> told_status D i = p)"

lemma told_append: "told cur (xs @ ys) = told (told cur xs) ys"
  by (induction xs arbitrary: cur) (auto split: audit_fact.split)

lemma told_moves_append:
  "told_moves cur (xs @ ys) = told_moves cur xs @ told_moves (told cur xs) ys"
  by (induction xs arbitrary: cur) (auto split: audit_fact.split)

text \<open>\<open>moved D D'\<close>: the new audit rows account for every change of status.\<close>

definition moved :: "pipe_db \<Rightarrow> pipe_db \<Rightarrow> bool" where
  "moved D D' \<longleftrightarrow> audit_agrees D' \<and> (\<exists>es. life_log D' = life_log D @ es
      \<and> (\<forall>(i, p, n)\<in>set es. life_allowed i p n)
      \<and> (\<forall>i p. item_status D i = Some p \<longrightarrow>
            chained i p es \<and> item_status D' i = Some (replay i p es)))"

lemma moved_refl: "audit_agrees D \<Longrightarrow> moved D D"
  unfolding moved_def by (intro conjI exI [of _ "[]"]) auto

lemma moved_trans:
  assumes "moved D1 D2" and "moved D2 D3"
  shows "moved D1 D3"
proof -
  obtain es fs where es: "life_log D2 = life_log D1 @ es" "\<forall>(i, p, n)\<in>set es. life_allowed i p n"
    "\<And>i p. item_status D1 i = Some p \<Longrightarrow> chained i p es \<and> item_status D2 i = Some (replay i p es)"
    and fs: "life_log D3 = life_log D2 @ fs" "\<forall>(i, p, n)\<in>set fs. life_allowed i p n"
    "\<And>i p. item_status D2 i = Some p \<Longrightarrow> chained i p fs \<and> item_status D3 i = Some (replay i p fs)"
    using assms unfolding moved_def by metis
  have "\<forall>(i, p, n)\<in>set (es @ fs). life_allowed i p n" using es(2) fs(2) by auto
  with es(1,3) fs(1,3) have "\<exists>gs. life_log D3 = life_log D1 @ gs
      \<and> (\<forall>(i, p, n)\<in>set gs. life_allowed i p n)
      \<and> (\<forall>i p. item_status D1 i = Some p \<longrightarrow>
            chained i p gs \<and> item_status D3 i = Some (replay i p gs))"
    by (intro exI [of _ "es @ fs"]) (simp add: chained_append replay_append)
  with assms(2) show ?thesis unfolding moved_def by blast
qed

lemma moved_silent:
  assumes "audit_agrees D" and "d_audit D' = d_audit D @ as" and "\<forall>a\<in>set as. audit_fact_of a = Silent"
    and "item_status D' = item_status D"
  shows "moved D D'"
proof -
  have "told cur as = cur \<and> told_moves cur as = []" for cur
    using assms(3) by (induction as arbitrary: cur) auto
  with assms show ?thesis
    unfolding moved_def audit_agrees_def life_log_def told_status_def
    by (intro conjI exI [of _ "[]"]) (simp_all add: told_append told_moves_append)
qed

lemma moved_created:
  assumes "audit_agrees D" and "d_audit D' = d_audit D @ [a]" and "audit_fact_of a = Created i n"
    and "item_status D' = (item_status D)(i \<mapsto> n)" and "item_status D i = None"
  shows "moved D D'"
  using assms unfolding moved_def audit_agrees_def life_log_def told_status_def
  by (intro conjI exI [of _ "[]"]) (auto simp: told_append told_moves_append)

lemma moved_once:
  assumes "audit_agrees D" and "d_audit D' = d_audit D @ [a]" and "audit_fact_of a = Moved i n"
    and "item_status D' = (item_status D)(i \<mapsto> n)" and "item_status D i = Some p"
    and "life_allowed i p n"
  shows "moved D D'"
proof -
  have "told (\<lambda>_. JPending) (d_audit D) i = p"
    using assms(1,5) by (simp add: audit_agrees_def told_status_def)
  with assms show ?thesis
    unfolding moved_def audit_agrees_def life_log_def told_status_def
    by (intro conjI exI [of _ "[(i, p, n)]"]) (auto simp: told_append told_moves_append)
qed

lemma audit_Inr:
  assumes "audit scan kind details run task D = Inr D'"
  shows "D' = D\<lparr>d_audit := d_audit D @
    [\<lparr>au_scan = scan, au_run = run, au_task = task, au_kind = kind, au_details = details\<rparr>]\<rparr>"
  using assms by (auto simp: audit_def split: if_splits)

lemma task_moved:
  assumes "audit_agrees D" and row: "find_row at_id t (d_tasks D) = Some r"
    and f: "\<And>r. at_id (f r) = at_id r" "\<And>r. at_status (f r) = n"
    and "n \<in> task_transitions (at_status r)"
    and au: "audit scan (TaskMoved n) details run (Some t)
      (D\<lparr>d_tasks := update_where (\<lambda>r. at_id r = t) f (d_tasks D)\<rparr>) = Inr D'"
  shows "moved D D'"
proof (rule moved_once [OF assms(1)])
  let ?a = "\<lparr>au_scan = scan, au_run = run, au_task = Some t, au_kind = TaskMoved n, au_details = details\<rparr>"
  note D' = audit_Inr [OF au]
  show "d_audit D' = d_audit D @ [?a]" by (simp add: D')
  show "audit_fact_of ?a = Moved (Inl t) n" by (simp add: audit_fact_of_def)
  show "item_status D' = (item_status D)(Inl t \<mapsto> n)"
    using row by (auto simp: fun_eq_iff item_status_def D' find_row_update_key f split: sum.split)
  show "item_status D (Inl t) = Some (at_status r)" by (simp add: item_status_def row)
  show "life_allowed (Inl t) (at_status r) n" using assms(5) by simp
qed

lemma stage_moved:
  assumes "audit_agrees D" and row: "find_row sr_id t (d_stages D) = Some r"
    and f: "\<And>r. sr_id (f r) = sr_id r" "\<And>r. sr_status (f r) = n"
    and "life_allowed (Inr t) (sr_status r) n"
    and kind: "kind = StageMoved n \<or> (kind = StageResumed \<and> n = JRunning)"
    and au: "audit scan kind details (Some t) None
      (D\<lparr>d_stages := update_where (\<lambda>r. sr_id r = t) f (d_stages D)\<rparr>) = Inr D'"
  shows "moved D D'"
proof (rule moved_once [OF assms(1)])
  let ?a = "\<lparr>au_scan = scan, au_run = Some t, au_task = None, au_kind = kind, au_details = details\<rparr>"
  note D' = audit_Inr [OF au]
  show "d_audit D' = d_audit D @ [?a]" by (simp add: D')
  show "audit_fact_of ?a = Moved (Inr t) n" using kind by (auto simp: audit_fact_of_def)
  show "item_status D' = (item_status D)(Inr t \<mapsto> n)"
    using row by (auto simp: fun_eq_iff item_status_def D' find_row_update_key f split: sum.split)
  show "item_status D (Inr t) = Some (sr_status r)" by (simp add: item_status_def row)
qed (rule assms(5))

lemma start_stage_run_Inr:
  assumes "start_stage_run fresh given scan stage manifest ts D = Inr D'"
  obtains i r where "i = (if given = [] then fresh else given)" "i \<notin> sr_id ` set (d_stages D)"
    "sr_id r = i" "sr_status r = JRunning"
    "audit scan StageStarted [(''stage'', PStr stage)] (Some i) None
      (D\<lparr>d_stages := d_stages D @ [r]\<rparr>) = Inr D'"
proof -
  let ?i = "if given = [] then fresh else given"
  let ?r = "\<lparr>sr_id = ?i, sr_scan = scan, sr_stage = stage, sr_status = JRunning, sr_manifest = manifest,
      sr_error = None, sr_started = Some ts, sr_finished = None\<rparr>"
  from assms have new: "?i \<notin> sr_id ` set (d_stages D)"
    and au: "audit scan StageStarted [(''stage'', PStr stage)] (Some ?i) None
      (D\<lparr>d_stages := d_stages D @ [?r]\<rparr>) = Inr D'"
    unfolding start_stage_run_def Let_def by (simp_all only: split: if_splits) simp_all
  from new au show thesis by (intro that [of ?i ?r]) simp_all
qed

lemma start_moved:
  assumes "audit_agrees D" and op: "start_stage_run fresh given scan stage manifest ts D = Inr D'"
  shows "moved D D'"
  using op
proof (rule start_stage_run_Inr)
  fix i r
  let ?a = "\<lparr>au_scan = scan, au_run = Some i, au_task = None, au_kind = StageStarted,
      au_details = [(''stage'', PStr stage)]\<rparr>"
  assume new: "i \<notin> sr_id ` set (d_stages D)" and r: "sr_id r = i" "sr_status r = JRunning"
    and au: "audit scan StageStarted [(''stage'', PStr stage)] (Some i) None
      (D\<lparr>d_stages := d_stages D @ [r]\<rparr>) = Inr D'"
  note D' = audit_Inr [OF au]
  show ?thesis
  proof (rule moved_created [OF assms(1)])
    show "d_audit D' = d_audit D @ [?a]" by (simp add: D')
    show "audit_fact_of ?a = Created (Inr i) JRunning" by (simp add: audit_fact_of_def)
    show "item_status D' = (item_status D)(Inr i \<mapsto> JRunning)"
      using new r by (auto simp: fun_eq_iff item_status_def D' find_row_snoc_new split: sum.split)
    show "item_status D (Inr i) = None"
      using new [THEN find_row_None [THEN iffD2]] by (simp only: item_status_def sum.case option.map)
  qed
qed

lemma create_task_Inr:
  assumes "create_task fresh given run skill endpoint payload D = Inr D'"
  obtains ident stage where "ident = (if given = [] then fresh else given)"
    "find_row sr_id run (d_stages D) = Some stage" "sr_status stage = JRunning"
    "ident \<notin> at_id ` set (d_tasks D)"
    "audit (sr_scan stage) TaskCreated [] (Some run) (Some ident)
       (D\<lparr>d_tasks := d_tasks D @ [\<lparr>at_id = ident, at_run = run, at_scan = sr_scan stage,
          at_skill = skill, at_endpoint = endpoint, at_payload = payload, at_status = JPending,
          at_error = None, at_started = None, at_finished = None\<rparr>]\<rparr>) = Inr D'"
proof (cases "find_row sr_id run (d_stages D)")
  case None
  with assms show ?thesis by (simp add: create_task_def)
next
  case (Some stage)
  with assms show ?thesis
    by (intro that [OF refl Some])
      (simp_all only: create_task_def Let_def option.case split: if_splits, simp_all)
qed

lemma create_moved:
  assumes "audit_agrees D" and op: "create_task fresh given run skill endpoint payload D = Inr D'"
  shows "moved D D'"
  using op
proof (rule create_task_Inr)
  fix ident stage
  let ?r = "\<lparr>at_id = ident, at_run = run, at_scan = sr_scan stage,
          at_skill = skill, at_endpoint = endpoint, at_payload = payload, at_status = JPending,
          at_error = None, at_started = None, at_finished = None\<rparr>"
  let ?a = "\<lparr>au_scan = sr_scan stage, au_run = Some run, au_task = Some ident, au_kind = TaskCreated,
      au_details = []\<rparr>"
  assume new: "ident \<notin> at_id ` set (d_tasks D)"
    and au: "audit (sr_scan stage) TaskCreated [] (Some run) (Some ident)
       (D\<lparr>d_tasks := d_tasks D @ [?r]\<rparr>) = Inr D'"
  note D' = audit_Inr [OF au]
  show ?thesis
  proof (rule moved_created [OF assms(1)])
    show "d_audit D' = d_audit D @ [?a]" by (simp add: D')
    show "audit_fact_of ?a = Created (Inl ident) JPending" by (simp add: audit_fact_of_def)
    show "item_status D' = (item_status D)(Inl ident \<mapsto> JPending)"
      using new by (auto simp: fun_eq_iff item_status_def D' find_row_snoc_new split: sum.split)
    show "item_status D (Inl ident) = None"
      using new [THEN find_row_None [THEN iffD2]] by (simp only: item_status_def sum.case option.map)
  qed
qed

lemma transition_task_Inr:
  assumes "transition_task task status err ts D = Inr D'"
  obtains r s f where "find_row at_id task (d_tasks D) = Some r"
    "find_row sr_id (at_run r) (d_stages D) = Some s" "sr_status s = JRunning"
    "status \<in> task_transitions (at_status r)"
    "f = (\<lambda>r. r\<lparr>at_status := status, at_error := err,
       at_started := (if status = JRunning then Some ts else at_started r),
       at_finished := (if status \<in> terminal_statuses then Some ts else at_finished r)\<rparr>)"
    "audit (at_scan r) (TaskMoved status) [(''previous_status'', PStr (job_name (at_status r)))]
       (Some (at_run r)) (Some task)
       (D\<lparr>d_tasks := update_where (\<lambda>r. at_id r = task) f (d_tasks D)\<rparr>) = Inr D'"
  using assms unfolding transition_task_def by (auto split: option.splits if_splits)

lemma cancel_moved:
  assumes "audit_agrees D" and row: "find_row at_id (at_id t) (d_tasks D) = Some r"
    and "at_status r = at_status t"
    and "cancel_open_task scan run ts t D = Inr D'"
  shows "moved D D'"
proof (cases "at_status t \<in> terminal_statuses")
  case True
  with assms moved_refl show ?thesis by (simp add: cancel_open_task_def)
next
  case False
  then have "JCancelled \<in> task_transitions (at_status r)"
    using assms(3) by (cases "at_status t") (auto simp: terminal_statuses_def)
  with False assms(4) show ?thesis
    by (intro task_moved [OF assms(1) row _ _ _]) (simp_all add: cancel_open_task_def)
qed

lemma cancel_others:
  assumes "cancel_open_task scan run ts t D = Inr D'" and "t' \<noteq> at_id t"
  shows "find_row at_id t' (d_tasks D') = find_row at_id t' (d_tasks D)"
  using assms by (auto simp: cancel_open_task_def find_row_update_key dest!: audit_Inr split: if_splits)

lemma cancel_stages: "cancel_open_task scan run ts t D = Inr D' \<Longrightarrow> d_stages D' = d_stages D"
  by (auto simp: cancel_open_task_def dest!: audit_Inr split: if_splits)

lemma cancel_all_moved:
  assumes "audit_agrees D" and "distinct (map at_id rows)"
    and "\<forall>t\<in>set rows. find_row at_id (at_id t) (d_tasks D) = Some t"
    and "foldR (cancel_open_task scan run ts) rows D = Inr D'"
  shows "moved D D' \<and> d_stages D' = d_stages D"
  using assms
proof (induction rows arbitrary: D)
  case Nil
  then show ?case by (simp add: moved_refl)
next
  case (Cons t rows)
  then obtain D1 where one: "cancel_open_task scan run ts t D = Inr D1"
    and rest: "foldR (cancel_open_task scan run ts) rows D1 = Inr D'"
    by (auto elim: bindR_InrE)
  have m: "moved D D1" by (rule cancel_moved [OF Cons.prems(1) _ refl one]) (use Cons.prems(3) in simp)
  have "find_row at_id (at_id t') (d_tasks D1) = Some t'" if "t' \<in> set rows" for t'
  proof -
    have "at_id t \<notin> at_id ` set rows" using Cons.prems(2) by simp
    with that have "at_id t' \<noteq> at_id t" by (metis image_eqI)
    with cancel_others [OF one this] Cons.prems(3) that show ?thesis by simp
  qed
  with Cons.IH [OF _ _ _ rest] m Cons.prems(2) have "moved D1 D' \<and> d_stages D' = d_stages D1"
    by (auto simp: moved_def)
  with m cancel_stages [OF one] moved_trans show ?case by auto
qed

lemma may_complete_tasks:
  "may_complete run allow s D = Inr () \<Longrightarrow> t \<in> set (stage_tasks run D) \<Longrightarrow> at_status t \<in> terminal_statuses"
  by (auto simp: may_complete_def terminal_statuses_def split: if_splits)

lemma finish_stage_run_Inr:
  assumes "finish_stage_run run status err allow ts epoch D = Inr D'"
  obtains s D1 D2 f where "status \<in> terminal_statuses"
    "find_row sr_id run (d_stages D) = Some s" "sr_status s = JRunning"
    "status = JCompleted \<Longrightarrow> may_complete run allow s D = Inr ()"
    "foldR (cancel_open_task (sr_scan s) run ts) (stage_tasks run D) D = Inr D1"
    "D2 = (if status \<in> {JFailed, JCancelled} \<and> sr_stage s = ''validation''
           then close_validation run ts epoch D1 else D1)"
    "f = (\<lambda>r. r\<lparr>sr_status := status, sr_finished := Some ts, sr_error := err\<rparr>)"
    "audit (sr_scan s) (StageMoved status) [] (Some run) None
       (D2\<lparr>d_stages := update_where (\<lambda>r. sr_id r = run) f (d_stages D2)\<rparr>) = Inr D'"
proof -
  from assms obtain s where s: "find_row sr_id run (d_stages D) = Some s"
    and basic: "status \<in> terminal_statuses" "sr_status s = JRunning"
    by (auto simp: finish_stage_run_def split: option.splits if_splits)
  with assms obtain D1 where ok: "(if status = JCompleted then may_complete run allow s D else Inr ()) = Inr ()"
    and fold: "foldR (cancel_open_task (sr_scan s) run ts) (stage_tasks run D) D = Inr D1"
    and au: "(let D2 = (if status \<in> {JFailed, JCancelled} \<and> sr_stage s = ''validation''
                       then close_validation run ts epoch D1 else D1)
             in audit (sr_scan s) (StageMoved status) [] (Some run) None
                  (D2\<lparr>d_stages := update_where (\<lambda>r. sr_id r = run)
                     (\<lambda>r. r\<lparr>sr_status := status, sr_finished := Some ts, sr_error := err\<rparr>)
                     (d_stages D2)\<rparr>)) = Inr D'"
    unfolding finish_stage_run_def by (simp only: option.case if_False simp_thms refl) (elim bindR_InrE, simp)
  show thesis
    by (rule that [OF basic(1) s basic(2) _ fold refl refl])
      (use ok in \<open>simp split: if_splits\<close>, rule au [unfolded Let_def])
qed

lemma close_validation_keeps [simp]:
  "d_stages (close_validation run ts epoch D) = d_stages D"
  "d_tasks (close_validation run ts epoch D) = d_tasks D"
  "d_audit (close_validation run ts epoch D) = d_audit D"
  "d_scans (close_validation run ts epoch D) = d_scans D"
  by (simp_all add: close_validation_def)

lemma moved_same_tables:
  assumes "moved D D1" and "d_stages D2 = d_stages D1" "d_tasks D2 = d_tasks D1" "d_audit D2 = d_audit D1"
  shows "moved D D2"
proof -
  have "item_status D2 = item_status D1" by (auto simp: fun_eq_iff item_status_def assms split: sum.split)
  with assms show ?thesis by (simp add: moved_def audit_agrees_def told_status_def life_log_def)
qed

lemma distinct_stage_tasks:
  "distinct (map at_id (d_tasks D)) \<Longrightarrow> distinct (map at_id (stage_tasks run D))"
  by (simp add: stage_tasks_def distinct_map_filter)

lemma finish_moved:
  assumes "audit_agrees D" and dist: "distinct (map at_id (d_tasks D))"
    and op: "finish_stage_run run status err allow ts epoch D = Inr D'"
  shows "moved D D'"
  using op
proof (rule finish_stage_run_Inr)
  fix s D1 D2 f
  assume final: "status \<in> terminal_statuses" and s: "find_row sr_id run (d_stages D) = Some s"
    and run: "sr_status s = JRunning"
    and fold: "foldR (cancel_open_task (sr_scan s) run ts) (stage_tasks run D) D = Inr D1"
    and D2: "D2 = (if status \<in> {JFailed, JCancelled} \<and> sr_stage s = ''validation''
           then close_validation run ts epoch D1 else D1)"
    and f: "f = (\<lambda>r. r\<lparr>sr_status := status, sr_finished := Some ts, sr_error := err\<rparr>)"
    and au: "audit (sr_scan s) (StageMoved status) [] (Some run) None
       (D2\<lparr>d_stages := update_where (\<lambda>r. sr_id r = run) f (d_stages D2)\<rparr>) = Inr D'"
  have "\<forall>t\<in>set (stage_tasks run D). find_row at_id (at_id t) (d_tasks D) = Some t"
    using find_row_unique [OF dist] by (auto simp: stage_tasks_def)
  with cancel_all_moved [OF assms(1) distinct_stage_tasks [OF dist] _ fold]
  have D1: "moved D D1" "d_stages D1 = d_stages D" by blast+
  then have D2m: "moved D D2" and st: "d_stages D2 = d_stages D"
    by (auto simp: D2 intro: moved_same_tables)
  then have "moved D2 D'"
    by (intro stage_moved [OF _ _ _ _ _ _ au])
      (use s run final in \<open>auto simp: moved_def st f\<close>)
  with D2m moved_trans show ?thesis by blast
qed

section \<open>Work in progress belongs to a running stage\<close>

definition open_work_runs :: "pipe_db \<Rightarrow> bool" where
  "open_work_runs D \<longleftrightarrow> (\<forall>t\<in>set (d_tasks D). at_status t \<notin> terminal_statuses \<longrightarrow>
     map_option sr_status (find_row sr_id (at_run t) (d_stages D)) = Some JRunning)"

definition life_ok :: "pipe_db \<Rightarrow> bool" where
  "life_ok D \<longleftrightarrow> audit_agrees D \<and> distinct (map at_id (d_tasks D)) \<and> open_work_runs D"

lemma cancel_all_tasks:
  assumes "foldR (cancel_open_task scan run ts) rows D = Inr D'"
  shows "d_tasks D' = update_where
     (\<lambda>r. \<exists>t\<in>set rows. at_id t = at_id r \<and> at_status t \<notin> terminal_statuses)
     (\<lambda>r. r\<lparr>at_status := JCancelled, at_finished := Some ts\<rparr>) (d_tasks D)"
  using assms
proof (induction rows arbitrary: D)
  case Nil
  then show ?case by (simp add: update_where_def)
next
  case (Cons t rows)
  then obtain D1 where one: "cancel_open_task scan run ts t D = Inr D1"
    and rest: "foldR (cancel_open_task scan run ts) rows D1 = Inr D'"
    by (auto elim: bindR_InrE)
  have "d_tasks D1 = update_where (\<lambda>r. at_id r = at_id t \<and> at_status t \<notin> terminal_statuses)
      (\<lambda>r. r\<lparr>at_status := JCancelled, at_finished := Some ts\<rparr>) (d_tasks D)"
    using one by (auto simp: cancel_open_task_def update_where_def dest!: audit_Inr split: if_splits)
  with Cons.IH [OF rest] show ?case by (auto simp: update_where_def)
qed

lemma close_if_keeps:
  assumes "D2 = (if c then close_validation run ts epoch D1 else D1)"
  shows "d_tasks D2 = d_tasks D1" "d_stages D2 = d_stages D1" "d_audit D2 = d_audit D1"
  by (simp_all add: assms)

lemma cancelled_final [simp]: "JCancelled \<in> terminal_statuses"
  by (simp add: terminal_statuses_def)

lemma finish_tables:
  assumes op: "finish_stage_run run status err allow ts epoch D = Inr D'"
    and dist: "distinct (map at_id (d_tasks D))"
  shows "(\<forall>t\<in>set (d_tasks D'). at_run t = run \<longrightarrow> at_status t \<in> terminal_statuses)
    \<and> (\<forall>t\<in>set (d_tasks D'). at_status t \<notin> terminal_statuses \<longrightarrow> t \<in> set (d_tasks D))
    \<and> map at_id (d_tasks D') = map at_id (d_tasks D)
    \<and> (\<forall>r. r \<noteq> run \<longrightarrow> find_row sr_id r (d_stages D') = find_row sr_id r (d_stages D))"
  using op
proof (rule finish_stage_run_Inr)
  fix s D1 D2 f
  assume fold: "foldR (cancel_open_task (sr_scan s) run ts) (stage_tasks run D) D = Inr D1"
    and D2: "D2 = (if status \<in> {JFailed, JCancelled} \<and> sr_stage s = ''validation''
           then close_validation run ts epoch D1 else D1)"
    and f: "f = (\<lambda>r. r\<lparr>sr_status := status, sr_finished := Some ts, sr_error := err\<rparr>)"
    and au: "audit (sr_scan s) (StageMoved status) [] (Some run) None
       (D2\<lparr>d_stages := update_where (\<lambda>r. sr_id r = run) f (d_stages D2)\<rparr>) = Inr D'"
  note D' = audit_Inr [OF au]
  have "d_stages D1 = d_stages D"
    by (rule foldR_invariant [OF fold, where P = "\<lambda>X. d_stages X = d_stages D"]) (auto dest: cancel_stages)
  then have st: "d_stages D' = update_where (\<lambda>r. sr_id r = run) f (d_stages D)"
    by (simp add: D' close_if_keeps [OF D2])
  have ts: "d_tasks D' = update_where
     (\<lambda>r. \<exists>t\<in>set (stage_tasks run D). at_id t = at_id r \<and> at_status t \<notin> terminal_statuses)
     (\<lambda>r. r\<lparr>at_status := JCancelled, at_finished := Some ts\<rparr>) (d_tasks D)"
    using cancel_all_tasks [OF fold] by (simp add: D' close_if_keeps [OF D2])
  let ?p = "\<lambda>r. \<exists>t\<in>set (stage_tasks run D). at_id t = at_id r \<and> at_status t \<notin> terminal_statuses"
  have origin: "\<exists>r\<in>set (d_tasks D). (?p r \<and> at_status t = JCancelled) \<or> (\<not> ?p r \<and> t = r)"
    if "t \<in> set (d_tasks D')" for t
    using that unfolding ts in_update_where by (metis (no_types, lifting) attack_task.select_convs(7)
        attack_task.surjective attack_task.update_convs(7) attack_task.update_convs(10))
  have "at_status t \<in> terminal_statuses" if new: "t \<in> set (d_tasks D')" and own: "at_run t = run" for t
  proof -
    obtain r where r: "r \<in> set (d_tasks D)" "(?p r \<and> at_status t = JCancelled) \<or> (\<not> ?p r \<and> t = r)"
      using origin [OF new] by blast
    show ?thesis
    proof (cases "?p r")
      case False
      with r have "t = r" by blast
      with r(1) own have "t \<in> set (stage_tasks run D)" by (simp add: stage_tasks_def)
      note this \<open>t = r\<close>
      with False show ?thesis by blast
    qed (use r in simp)
  qed
  moreover have "\<forall>t\<in>set (d_tasks D'). at_status t \<notin> terminal_statuses \<longrightarrow> t \<in> set (d_tasks D)"
    using origin by fastforce
  moreover have "map at_id (d_tasks D') = map at_id (d_tasks D)"
    unfolding ts by (rule map_update_where) simp
  moreover have "\<forall>r. r \<noteq> run \<longrightarrow> find_row sr_id r (d_stages D') = find_row sr_id r (d_stages D)"
    by (simp add: st f find_row_update_key)
  ultimately show ?thesis by blast
qed

lemma finish_ok:
  assumes "finish_stage_run run status err allow ts epoch D = Inr D'" and "life_ok D"
  shows "life_ok D'"
proof -
  have dist: "distinct (map at_id (d_tasks D))" using assms(2) by (simp add: life_ok_def)
  have "map_option sr_status (find_row sr_id (at_run t) (d_stages D')) = Some JRunning"
    if "t \<in> set (d_tasks D')" "at_status t \<notin> terminal_statuses" for t
  proof -
    have "at_run t \<noteq> run" "t \<in> set (d_tasks D)"
      using finish_tables [OF assms(1) dist] that by blast+
    with finish_tables [OF assms(1) dist] that(2) assms(2) show ?thesis
      by (simp add: life_ok_def open_work_runs_def)
  qed
  with finish_moved [OF _ dist assms(1)] finish_tables [OF assms(1) dist] assms(2) show ?thesis
    by (simp add: life_ok_def open_work_runs_def moved_def)
qed

lemma credential_Inr:
  assumes "register_credential_reference ident scan label uri role session D = Inr D'"
  obtains D1 details where "audit scan CredentialCreated details None None D1 = Inr D'" "opaque_uri uri"
    "d_tasks D1 = d_tasks D" "d_stages D1 = d_stages D" "d_audit D1 = d_audit D"
  using assms unfolding register_credential_reference_def by (auto split: if_splits)

lemma resume_Inr:
  assumes "resume_validation_stage_run run D = Inr D'"
  obtains s details f where "find_row sr_id run (d_stages D) = Some s" "sr_status s = JFailed"
    "f = (\<lambda>r. r\<lparr>sr_status := JRunning, sr_finished := None, sr_error := None\<rparr>)"
    "audit (sr_scan s) StageResumed details (Some run) None
       (D\<lparr>d_stages := update_where (\<lambda>r. sr_id r = run) f (d_stages D)\<rparr>) = Inr D'"
  using assms unfolding resume_validation_stage_run_def by (auto split: option.splits if_splits)

lemma life_moved:
  assumes "life_step x D = Inr D'" and "life_ok D"
  shows "moved D D'"
proof -
  have agree: "audit_agrees D" and dist: "distinct (map at_id (d_tasks D))"
    using assms(2) by (simp_all add: life_ok_def)
  show ?thesis
  proof (cases x)
    case (OpAudit scan event details run task)
    with assms(1) have "audit scan (OtherEvent event) details run task D = Inr D'" by simp
    note D' = audit_Inr [OF this]
    show ?thesis
      by (rule moved_silent [OF agree]) (auto simp: D' audit_fact_of_def item_status_def fun_eq_iff split: sum.split)
  next
    case (OpStart fresh given scan stage manifest ts)
    with assms(1) start_moved [OF agree] show ?thesis by simp
  next
    case (OpCreate fresh given run skill endpoint payload)
    with assms(1) create_moved [OF agree] show ?thesis by simp
  next
    case (OpTransition task status err ts)
    with assms(1) have "transition_task task status err ts D = Inr D'" by simp
    then show ?thesis
      by (rule transition_task_Inr) (rule task_moved [OF agree], assumption, simp_all)
  next
    case (OpFinish run status err allow ts epoch)
    with assms(1) finish_moved [OF agree dist] show ?thesis by simp
  next
    case (OpResume run)
    with assms(1) have "resume_validation_stage_run run D = Inr D'" by simp
    then show ?thesis
      by (rule resume_Inr) (rule stage_moved [OF agree], assumption, simp_all)
  next
    case (OpCredential ident scan label uri role session)
    with assms(1) have "register_credential_reference ident scan label uri role session D = Inr D'" by simp
    then show ?thesis
      by (rule credential_Inr)
        (rule moved_silent [OF agree],
          auto dest!: audit_Inr simp: audit_fact_of_def item_status_def fun_eq_iff split: sum.split)
  qed
qed

lemma life_kept:
  assumes "life_step x D = Inr D'" and ok: "life_ok D"
  shows "life_ok D'"
proof -
  have agree: "audit_agrees D'" using life_moved [OF assms] by (simp add: moved_def)
  have same: "life_ok D'" if "d_tasks D' = d_tasks D" "d_stages D' = d_stages D"
    using agree ok that by (simp add: life_ok_def open_work_runs_def)
  show ?thesis
  proof (cases x)
    case (OpAudit scan event details run task)
    with assms(1) same show ?thesis by (auto dest: audit_Inr)
  next
    case (OpStart fresh given scan stage manifest ts)
    with assms(1) have "start_stage_run fresh given scan stage manifest ts D = Inr D'" by simp
    then show ?thesis
    proof (rule start_stage_run_Inr)
      fix i r
      assume new: "i \<notin> sr_id ` set (d_stages D)" "sr_id r = i"
        and au: "audit scan StageStarted [(''stage'', PStr stage)] (Some i) None
          (D\<lparr>d_stages := d_stages D @ [r]\<rparr>) = Inr D'"
      have "find_row sr_id k (d_stages D') = find_row sr_id k (d_stages D)"
        if "map_option sr_status (find_row sr_id k (d_stages D)) = Some JRunning" for k
        using that new by (auto simp: audit_Inr [OF au] find_row_append split: option.split)
      with agree ok show ?thesis
        unfolding life_ok_def open_work_runs_def by (simp add: audit_Inr [OF au])
    qed
  next
    case (OpCreate fresh given run skill endpoint payload)
    with assms(1) have "create_task fresh given run skill endpoint payload D = Inr D'" by simp
    then show ?thesis
      by (rule create_task_Inr)
        (use agree ok in \<open>auto dest!: audit_Inr simp: life_ok_def open_work_runs_def\<close>)
  next
    case (OpTransition task status err ts)
    with assms(1) have "transition_task task status err ts D = Inr D'" by simp
    then show ?thesis
    proof (rule transition_task_Inr)
      fix r s f
      assume "find_row at_id task (d_tasks D) = Some r" "find_row sr_id (at_run r) (d_stages D) = Some s"
        and run: "sr_status s = JRunning" 
        and f: "f = (\<lambda>r. r\<lparr>at_status := status, at_error := err,
           at_started := (if status = JRunning then Some ts else at_started r),
           at_finished := (if status \<in> terminal_statuses then Some ts else at_finished r)\<rparr>)"
        and au: "audit (at_scan r) (TaskMoved status) [(''previous_status'', PStr (job_name (at_status r)))]
           (Some (at_run r)) (Some task)
           (D\<lparr>d_tasks := update_where (\<lambda>r. at_id r = task) f (d_tasks D)\<rparr>) = Inr D'"
      then have "map_option sr_status (find_row sr_id (at_run t) (d_stages D)) = Some JRunning"
        if "t \<in> set (d_tasks D)" "at_id t = task" for t
        using find_row_unique [of at_id "d_tasks D" t] ok that by (auto simp: life_ok_def)
      then show ?thesis
        using agree ok unfolding life_ok_def open_work_runs_def audit_Inr [OF au]
        by (auto simp: in_update_where f map_update_where)
    qed
  next
    case (OpFinish run status err allow ts epoch)
    with assms(1) finish_ok [OF _ ok] show ?thesis by simp
  next
    case (OpResume run)
    with assms(1) have "resume_validation_stage_run run D = Inr D'" by simp
    then show ?thesis
      by (rule resume_Inr)
        (use agree ok in \<open>auto dest!: audit_Inr simp: life_ok_def open_work_runs_def find_row_update_key\<close>)
  next
    case (OpCredential ident scan label uri role session)
    with assms(1) have "register_credential_reference ident scan label uri role session D = Inr D'" by simp
    then show ?thesis
      by (rule credential_Inr) (rule same, auto dest!: audit_Inr)
  qed
qed

interpretation life: audited_machine life_step life_ok item_status life_log life_allowed
proof
  show "life_ok t" if "life_step x s = Inr t" "life_ok s" for x s t
    using life_kept [OF that] .
  show "\<exists>es. life_log t = life_log s @ es \<and> (\<forall>(i, p, n)\<in>set es. life_allowed i p n)
      \<and> (\<forall>i p. item_status s i = Some p \<longrightarrow> chained i p es \<and> item_status t i = Some (replay i p es))"
    if "life_step x s = Inr t" "life_ok s" for x s t
    using life_moved [OF that] by (simp add: moved_def)
qed

section \<open>Properties\<close>

definition fresh_db :: "string list \<Rightarrow> pipe_db" where
  "fresh_db scans = \<lparr>d_scans = scans, d_endpoints = [], d_sessions = [], d_stages = [], d_tasks = [],
     d_audit = [], d_credentials = [], d_cases = [], d_attempts = [], d_actions = [], d_http = [],
     d_transport = []\<rparr>"

lemma fresh_ok [simp]: "life_ok (fresh_db scans)"
  by (simp add: fresh_db_def life_ok_def audit_agrees_def open_work_runs_def item_status_def
      find_row_def split: sum.split)

definition sample_life :: "life_op list" where
  "sample_life = [OpStart ''r'' [] ''s'' ''attack'' None ''t0'', OpCreate ''a'' [] ''r'' ''skill'' None [],
     OpTransition ''a'' JRunning None ''t1'', OpTransition ''a'' JCompleted None ''t2'']"

lemmas life_eval = sample_life_def fresh_db_def attempt_def start_stage_run_def create_task_def
  transition_task_def audit_def fk_stage_def fk_task_def find_row_def sql_blank_def
  terminal_statuses_def update_where_def item_status_def Let_def

text \<open>
  C14: a task that ended stays as it ended.  Once a task has a terminal status, no sequence of
  lifecycle transactions (new stages, transitions, stage ends, resumed stages) changes it.
\<close>

theorem terminal_task_is_final:
  assumes "life_ok D" and "item_status D (Inl task) = Some st" and "st \<in> terminal_statuses"
  shows "item_status (run_ops life_step ops D) (Inl task) = Some st"
proof (rule life.final_status [OF assms(1,2)])
  show "\<not> life_allowed (Inl task) st n" for n
    using assms(3) by (cases st) (simp_all add: terminal_statuses_def)
qed

lemma sample_life_ends:
  "item_status (run_ops life_step sample_life (fresh_db [''s''])) (Inl ''a'') = Some JCompleted"
  by (simp add: life_eval)

lemma terminal_task_is_final_witness:
  "item_status (run_ops life_step [OpTransition ''a'' JRunning None ''t3'', OpFinish ''r'' JFailed None False ''t4'' None]
     (run_ops life_step sample_life (fresh_db [''s'']))) (Inl ''a'') = Some JCompleted"
  by (rule terminal_task_is_final [OF life.run_ok [OF fresh_ok] sample_life_ends])
    (simp add: terminal_statuses_def)

text \<open>
  C15: the audit trail tells the whole story.  From a consistent database, after any sequence
  of lifecycle transactions the status of a task or stage run that existed before is the one
  its new audit events lead to, each event starting from the status the one before had left,
  and each move is one the lifecycle allows.
\<close>

theorem audit_trail_accounts_for_status:
  assumes "life_ok D" and "item_status D i = Some p"
  shows "let new = drop (length (life_log D)) (life_log (run_ops life_step ops D))
    in item_status (run_ops life_step ops D) i = Some (replay i p new) \<and> chained i p new
       \<and> take (length (life_log D)) (life_log (run_ops life_step ops D)) = life_log D
       \<and> (\<forall>n m. (i, n, m) \<in> set new \<longrightarrow> life_allowed i n m)"
  unfolding Let_def
  using life.run_replays [OF assms] life.run_chained [OF assms] life.log_append_only [OF assms(1)]
    life.run_allowed [OF assms(1)] by blast

lemma audit_trail_accounts_for_status_witness:
  "item_status (run_ops life_step [OpFinish ''r'' JFailed None False ''t4'' None]
       (run_ops life_step sample_life (fresh_db [''s'']))) (Inl ''a'') =
     Some (replay (Inl ''a'') JCompleted (drop (length (life_log (run_ops life_step sample_life (fresh_db [''s'']))))
       (life_log (run_ops life_step [OpFinish ''r'' JFailed None False ''t4'' None]
         (run_ops life_step sample_life (fresh_db [''s'']))))))"
  using audit_trail_accounts_for_status [OF life.run_ok [OF fresh_ok] sample_life_ends,
      of "[OpFinish ''r'' JFailed None False ''t4'' None]"]
  unfolding Let_def by blast

text \<open>
  No work outlives its stage.  After any sequence of lifecycle transactions on a database
  without stages, every task that is pending or running belongs to a running stage: a stage
  run that completed, failed or was cancelled leaves only ended tasks behind.
\<close>

theorem open_task_has_running_stage:
  assumes "t \<in> set (d_tasks (run_ops life_step ops (fresh_db scans)))"
    and "at_status t \<notin> terminal_statuses"
  shows "item_status (run_ops life_step ops (fresh_db scans)) (Inr (at_run t)) = Some JRunning"
  using life.run_ok [OF fresh_ok, of ops scans] assms
  by (simp add: life_ok_def open_work_runs_def item_status_def)

lemma sample_life_open:
  "\<exists>t\<in>set (d_tasks (run_ops life_step (take 3 sample_life) (fresh_db [''s'']))).
     at_run t = ''r'' \<and> at_status t \<notin> terminal_statuses"
  by (simp add: life_eval)

lemma open_task_has_running_stage_witness:
  "item_status (run_ops life_step (take 3 sample_life) (fresh_db [''s''])) (Inr ''r'') = Some JRunning"
proof -
  obtain t where "t \<in> set (d_tasks (run_ops life_step (take 3 sample_life) (fresh_db [''s''])))"
    and run: "at_run t = ''r''" and "at_status t \<notin> terminal_statuses"
    using sample_life_open by blast
  from open_task_has_running_stage [OF this(1,3)] run show ?thesis by simp
qed

text \<open>
  A Validation stage that fails or is cancelled leaves nothing in flight: every attempt of
  the run is finished, no development action is planned or running, no HTTP request or
  transport operation is reserved or running, a reservation that was never dispatched is
  failed rather than unknown, and every case of the run is completed, queued or interrupted.
\<close>

theorem failed_validation_closes_everything:
  assumes "finish_stage_run run status err allow ts epoch D = Inr D'"
    and "status \<in> {JFailed, JCancelled}"
    and "find_row sr_id run (d_stages D) = Some s" and "sr_stage s = ''validation''"
  shows "(\<forall>a\<in>set (d_attempts D'). va_run a = run \<longrightarrow> va_finished a \<noteq> None)
    \<and> (\<forall>a\<in>set (d_actions D'). vw_run a = run \<longrightarrow> vw_state a \<notin> {WPlanned, WRunning})
    \<and> (\<forall>a\<in>set (d_http D'). vw_run a = run \<longrightarrow> vw_state a \<notin> {WReserved, WRunning})
    \<and> (\<forall>a\<in>set (d_transport D'). vt_run a = run \<longrightarrow> vt_state a \<notin> {WReserved, WRunning})
    \<and> (\<forall>c\<in>set (d_cases D'). vc_latest_run c = run \<longrightarrow> vc_phase c \<in> {PhCompleted, PhQueued, PhInterrupted})"
  using assms(1)
proof (rule finish_stage_run_Inr)
  fix s' D1 D2 f
  assume s': "find_row sr_id run (d_stages D) = Some s'"
    and D2: "D2 = (if status \<in> {JFailed, JCancelled} \<and> sr_stage s' = ''validation''
           then close_validation run ts epoch D1 else D1)"
    and au: "audit (sr_scan s') (StageMoved status) [] (Some run) None
       (D2\<lparr>d_stages := update_where (\<lambda>r. sr_id r = run) f (d_stages D2)\<rparr>) = Inr D'"
  have "D2 = close_validation run ts epoch D1" using D2 s' assms(2-4) by simp
  then have tables:
    "d_attempts D' = d_attempts (close_validation run ts epoch D1)"
    "d_actions D' = d_actions (close_validation run ts epoch D1)"
    "d_http D' = d_http (close_validation run ts epoch D1)"
    "d_transport D' = d_transport (close_validation run ts epoch D1)"
    "d_cases D' = d_cases (close_validation run ts epoch D1)"
    by (simp_all add: audit_Inr [OF au])
  show ?thesis
    unfolding tables close_validation_def
    by (intro conjI) (simp_all add: ball_update_where Let_def, blast)
qed

lemma failed_validation_closes_everything_witness:
  "\<exists>D'. finish_stage_run ''v'' JFailed None False ''t'' None
      ((fresh_db [''s''])\<lparr>d_stages := [\<lparr>sr_id = ''v'', sr_scan = ''s'', sr_stage = ''validation'',
         sr_status = JRunning, sr_manifest = None, sr_error = None, sr_started = None, sr_finished = None\<rparr>],
       d_http := [\<lparr>vw_run = ''v'', vw_state = WReserved, vw_finished = None\<rparr>]\<rparr>) = Inr D'
    \<and> filter (\<lambda>a. vw_run a = ''v'' \<and> vw_state a \<in> {WReserved, WRunning}) (d_http D') = []"
proof -
  let ?s = "\<lparr>sr_id = ''v'', sr_scan = ''s'', sr_stage = ''validation'', sr_status = JRunning,
      sr_manifest = None, sr_error = None, sr_started = None, sr_finished = None\<rparr>"
  let ?D = "(fresh_db [''s''])\<lparr>d_stages := [?s],
       d_http := [\<lparr>vw_run = ''v'', vw_state = WReserved, vw_finished = None\<rparr>]\<rparr>"
  have find: "find_row sr_id ''v'' (d_stages ?D) = Some ?s" by (simp add: find_row_def)
  have "\<exists>D'. finish_stage_run ''v'' JFailed None False ''t'' None ?D = Inr D'"
    by (simp add: finish_stage_run_def stage_tasks_def close_validation_def audit_def fk_stage_def
        fk_task_def find_row_def sql_blank_def terminal_statuses_def fresh_db_def)
  then obtain D' where D': "finish_stage_run ''v'' JFailed None False ''t'' None ?D = Inr D'" by blast
  have "JFailed \<in> {JFailed, JCancelled}" and "sr_stage ?s = ''validation''" by simp_all
  note all = failed_validation_closes_everything [OF D' this(1) find this(2)]
  have "\<forall>a\<in>set (d_http D'). vw_run a = ''v'' \<longrightarrow> vw_state a \<notin> {WReserved, WRunning}"
    by (rule all [THEN conjunct2, THEN conjunct2, THEN conjunct1])
  with D' show ?thesis unfolding filter_empty_conv by blast
qed

end
