(* ===== verification/Coverage.thy ===== *)
theory Coverage
  imports Lifecycle Py_Url
begin

text \<open>
  \<open>src/src/aidast/attack/coverage.py\<close>: the endpoint-by-vulnerability ledger of the Attack
  stage.  \<^theory_text>\<open>cov_db\<close> holds the tables the ledger operations read and write
  (\<open>attack_coverage_items\<close>, the append-only \<open>attack_coverage_events\<close>, attempts, HTTP
  requests, reproduction specifications, Validation cases); the stage runs and tasks are those
  of Lifecycle.  An operation that loops over the rows of a query folds over the rows selected
  at its start, and a raised exception rolls the whole operation back.
\<close>

section \<open>Status machine\<close>

datatype cov_status =
    CPending | CRunning | CTestedNegative | CCandidate | CConfirmed | CBlockedAuth
  | CPolicyExcluded | CUnsupported | CErrorRetryable | CErrorTerminal

fun cov_name :: "cov_status \<Rightarrow> string" where
  "cov_name CPending = ''pending''"
| "cov_name CRunning = ''running''"
| "cov_name CTestedNegative = ''tested_negative''"
| "cov_name CCandidate = ''candidate''"
| "cov_name CConfirmed = ''confirmed''"
| "cov_name CBlockedAuth = ''blocked_auth''"
| "cov_name CPolicyExcluded = ''policy_excluded''"
| "cov_name CUnsupported = ''unsupported''"
| "cov_name CErrorRetryable = ''error_retryable''"
| "cov_name CErrorTerminal = ''error_terminal''"

definition cov_terminal :: "cov_status set" where
  "cov_terminal = {CTestedNegative, CCandidate, CConfirmed, CBlockedAuth, CPolicyExcluded,
     CUnsupported, CErrorTerminal}"

fun cov_transitions :: "cov_status \<Rightarrow> cov_status set" where
  "cov_transitions CPending = {CRunning, CBlockedAuth, CPolicyExcluded, CUnsupported}"
| "cov_transitions CErrorRetryable = {CRunning, CBlockedAuth, CErrorTerminal}"
| "cov_transitions CRunning = {CTestedNegative, CCandidate, CBlockedAuth, CPolicyExcluded,
     CUnsupported, CErrorRetryable, CErrorTerminal}"
| "cov_transitions CCandidate = {CConfirmed, CPending}"
| "cov_transitions CConfirmed = {CCandidate}"
| "cov_transitions CBlockedAuth = {CPending, CUnsupported}"
| "cov_transitions _ = {}"

section \<open>Tables\<close>

record cov_item =
  cv_id :: string
  cv_scan :: string
  cv_endpoint :: string
  cv_annotation :: string
  cv_vuln :: string
  cv_skill :: string
  cv_location :: string
  cv_param :: string
  cv_role :: string
  cv_status :: cov_status
  cv_reason :: "string option"
  cv_attempts :: nat
  cv_run :: "string option"
  cv_task :: "string option"
  cv_finding :: "string option"
  cv_updated :: string

record cov_event =
  ce_item :: string
  ce_scan :: string
  ce_run :: "string option"
  ce_task :: "string option"
  ce_previous :: cov_status
  ce_next :: cov_status
  ce_reason :: string

record endpoint_row =
  ep_id :: string
  ep_method :: string
  ep_path :: string
  ep_origin :: string

record attempt_row =
  aa_id :: string
  aa_scan :: string
  aa_task :: "string option"
  aa_skill :: string
  aa_outcome :: string
  aa_finding :: "string option"
  aa_endpoint :: string
  aa_fingerprint :: string
  aa_response :: "int option"
  aa_identity :: string
  aa_variant :: string
  aa_resolution :: "string option"
  aa_resolved :: "string option"
  aa_created :: string

record request_row =
  hr_id :: string
  hr_scan :: string
  hr_run :: string
  hr_task :: string
  hr_fingerprint :: string
  hr_status :: string
  hr_response :: "int option"
  hr_endpoint :: string
  hr_method :: string
  hr_credential :: "string option"
  hr_risk :: string
  hr_error :: "string option"
  hr_finished :: "string option"

record repro_spec =
  rs_finding :: string
  rs_endpoint :: string
  rs_location :: string
  rs_param :: string
  rs_contract :: "string option"
  rs_attempts :: "string list"
  rs_requests :: "string list"

record finding_case =
  fc_scan :: string
  fc_finding :: string
  fc_phase :: case_phase
  fc_status :: "string option"

record checkpoint =
  ck_id :: string
  ck_scan :: string
  ck_coverage :: string
  ck_task :: string
  ck_sequence :: nat
  ck_strategies :: "string list"
  ck_payloads :: "string list"
  ck_features :: "string list"
  ck_controls :: "string list"
  ck_todos :: "string list"
  ck_quality :: string

record catalog_row =
  ca_id :: string
  ca_scan :: string
  ca_annotation :: string
  ca_assessment :: string

record cov_db =
  cb_pipe :: pipe_db
  cb_items :: "cov_item list"
  cb_events :: "cov_event list"
  cb_endpoints :: "endpoint_row list"
  cb_annotations :: "(string \<times> string) list"
  cb_session_origins :: "(string \<times> string) list"
  cb_attempts :: "attempt_row list"
  cb_requests :: "request_row list"
  cb_specs :: "repro_spec list"
  cb_checkpoints :: "checkpoint list"
  cb_vcases :: "finding_case list"
  cb_catalog :: "catalog_row list option"

definition item_of :: "string \<Rightarrow> cov_db \<Rightarrow> cov_item option" where
  "item_of i D = find_row cv_id i (cb_items D)"

definition endpoint_of :: "cov_db \<Rightarrow> cov_item \<Rightarrow> endpoint_row option" where
  "endpoint_of D c = find_row ep_id (cv_endpoint c) (cb_endpoints D)"

definition task_of :: "cov_db \<Rightarrow> cov_item \<Rightarrow> attack_task option" where
  "task_of D c = Option.bind (cv_task c) (\<lambda>t. find_row at_id t (d_tasks (cb_pipe D)))"

definition stage_of :: "cov_db \<Rightarrow> cov_item \<Rightarrow> stage_run option" where
  "stage_of D c = Option.bind (cv_run c) (\<lambda>r. find_row sr_id r (d_stages (cb_pipe D)))"

section \<open>Events and transitions\<close>

text \<open>\<open>_event\<close>; the CHECK constraint of the table refuses a reason of blanks.\<close>

definition put_event ::
  "cov_item \<Rightarrow> cov_status \<Rightarrow> string \<Rightarrow> string option \<Rightarrow> string option \<Rightarrow> cov_db
     \<Rightarrow> (db_error, cov_db) result" where
  "put_event row nxt reason run task D =
     (if sql_blank reason then Inl (IntegrityErr ''CHECK constraint failed'')
      else Inr (D\<lparr>cb_events := cb_events D @ [\<lparr>ce_item = cv_id row, ce_scan = cv_scan row,
             ce_run = run, ce_task = task, ce_previous = cv_status row, ce_next = nxt,
             ce_reason = reason\<rparr>]\<rparr>))"

definition coalesce :: "'a option \<Rightarrow> 'a option \<Rightarrow> 'a option" where
  "coalesce x y = (case x of None \<Rightarrow> y | Some _ \<Rightarrow> x)"

definition set_item :: "string \<Rightarrow> (cov_item \<Rightarrow> cov_item) \<Rightarrow> cov_db \<Rightarrow> cov_db" where
  "set_item i f D = D\<lparr>cb_items := update_where (\<lambda>c. cv_id c = i) f (cb_items D)\<rparr>"

definition transition_coverage ::
  "string \<Rightarrow> string \<Rightarrow> cov_status \<Rightarrow> string \<Rightarrow> string option \<Rightarrow> string option \<Rightarrow> string option \<Rightarrow> cov_db
     \<Rightarrow> (db_error, cov_db) result" where
  "transition_coverage ts i nxt reason run task finding D =
     (case item_of i D of
        None \<Rightarrow> Inl (ValueErr ''unknown coverage item'')
      | Some row \<Rightarrow>
          if nxt \<notin> cov_transitions (cv_status row) then Inl (ValueErr ''invalid coverage transition'')
          else if is_blank reason then Inl (ValueErr ''coverage transition requires a reason'')
          else bindR (put_event row nxt reason run task D) (\<lambda>D1.
            Inr (set_item i (\<lambda>c. c\<lparr>cv_status := nxt, cv_reason := Some reason,
              cv_run := coalesce run (cv_run c), cv_task := coalesce task (cv_task c),
              cv_finding := coalesce finding (cv_finding c), cv_updated := ts\<rparr>) D1)))"

text \<open>
  The step that every \<open>requeue_*\<close> operation takes for a selected row: record the event and
  release the lease.  \<open>n\<close> is the new attempt count as a function of the old.
\<close>

definition requeue_row ::
  "string \<Rightarrow> string \<Rightarrow> (nat \<Rightarrow> nat) \<Rightarrow> (cov_item \<Rightarrow> string option) \<Rightarrow> (cov_item \<Rightarrow> string option)
     \<Rightarrow> cov_item \<Rightarrow> cov_db \<Rightarrow> (db_error, cov_db) result" where
  "requeue_row ts reason n run task row D =
     bindR (put_event row CPending reason (run row) (task row) D) (\<lambda>D1.
       Inr (set_item (cv_id row) (\<lambda>c. c\<lparr>cv_status := CPending, cv_reason := Some reason,
         cv_attempts := n (cv_attempts c), cv_run := None, cv_task := None, cv_updated := ts\<rparr>) D1))"

definition select_items :: "(cov_item \<Rightarrow> bool) \<Rightarrow> cov_db \<Rightarrow> cov_item list" where
  "select_items p D = filter p (cb_items D)"

section \<open>Leads of stages that ended\<close>

definition resolve_abandoned_attack_leads :: "string \<Rightarrow> string \<Rightarrow> cov_db \<Rightarrow> cov_db \<times> nat" where
  "resolve_abandoned_attack_leads ts scan D =
     (let owned = (\<lambda>t. \<exists>k\<in>set (d_tasks (cb_pipe D)). at_id k = t \<and> at_scan k = scan
                     \<and> (\<exists>s\<in>set (d_stages (cb_pipe D)). sr_id s = at_run k \<and> sr_status s \<in> {JFailed, JCancelled}));
          p = (\<lambda>a. aa_scan a = scan \<and> aa_outcome a = ''lead'' \<and> aa_finding a = None \<and> aa_resolved a = None
                 \<and> (case aa_task a of None \<Rightarrow> False | Some t \<Rightarrow> owned t))
      in (D\<lparr>cb_attempts := update_where p (\<lambda>a. a\<lparr>aa_outcome := ''inconclusive'',
            aa_resolution := Some ''owning Attack stage ended before the lead was promoted; coverage retry must obtain fresh evidence'',
            aa_resolved := Some ts\<rparr>) (cb_attempts D)\<rparr>, rowcount p (cb_attempts D)))"

definition resolve_interrupted_stage_leads ::
  "string \<Rightarrow> string \<Rightarrow> string \<Rightarrow> cov_db \<Rightarrow> (db_error, cov_db \<times> nat) result" where
  "resolve_interrupted_stage_leads ts run reason D =
     (if is_blank reason then Inl (ValueErr ''interrupted lead resolution requires a reason'')
      else let p = (\<lambda>a. aa_outcome a = ''lead'' \<and> aa_finding a = None \<and> aa_resolved a = None
                 \<and> (case aa_task a of None \<Rightarrow> False
                    | Some t \<Rightarrow> \<exists>k\<in>set (d_tasks (cb_pipe D)). at_id k = t \<and> at_run k = run))
      in Inr (D\<lparr>cb_attempts := update_where p (\<lambda>a. a\<lparr>aa_outcome := ''inconclusive'',
            aa_resolution := Some reason, aa_resolved := Some ts\<rparr>) (cb_attempts D)\<rparr>,
          rowcount p (cb_attempts D)))"

section \<open>Releasing leases\<close>

definition requeue_orphaned_running_coverage ::
  "string \<Rightarrow> string \<Rightarrow> cov_db \<Rightarrow> (db_error, cov_db) result" where
  "requeue_orphaned_running_coverage ts scan D =
     foldR (requeue_row ts ''terminal Attack stage lease was released for a fresh bounded retry''
              (\<lambda>n. n - 1) cv_run cv_task)
       (select_items (\<lambda>c. cv_scan c = scan \<and> cv_status c = CRunning
          \<and> (case stage_of D c of None \<Rightarrow> False
             | Some s \<Rightarrow> sr_stage s = ''attack'' \<and> sr_status s \<in> {JFailed, JCancelled})
          \<and> (case task_of D c of None \<Rightarrow> True | Some t \<Rightarrow> at_status t \<notin> {JPending, JRunning})) D) D"

definition no_evidence :: "cov_db \<Rightarrow> string option \<Rightarrow> bool" where
  "no_evidence D task \<longleftrightarrow> \<not> (\<exists>a\<in>set (cb_attempts D). task \<noteq> None \<and> aa_task a = task)
     \<and> \<not> (\<exists>r\<in>set (cb_requests D). Some (hr_task r) = task)"

definition release_unattempted_coverage ::
  "string \<Rightarrow> string \<Rightarrow> string \<Rightarrow> cov_db \<Rightarrow> (db_error, cov_db) result" where
  "release_unattempted_coverage ts run reason D =
     foldR (requeue_row ts reason (\<lambda>n. n - 1) (\<lambda>_. Some run) cv_task)
       (select_items (\<lambda>c. cv_run c = Some run \<and> cv_status c = CRunning \<and> no_evidence D (cv_task c)) D) D"

text \<open>\<open>is_model_capacity_error\<close> of \<open>agents/failure_diagnostics.py\<close>.\<close>

definition capacity_markers :: "string list" where
  "capacity_markers = [''model-capacity error'', ''model capacity error'', ''model-capacity failure'',
     ''model capacity failure'', ''selected model is at capacity'', ''selected model was at capacity'',
     ''selected model reached capacity'', ''selected model has reached capacity'',
     ''model is at capacity'', ''model was at capacity'', ''model reached capacity'',
     ''model has reached capacity'', ''model capacity is temporarily unavailable'',
     ''model capacity was temporarily unavailable'']"

definition is_model_capacity_error :: "string \<Rightarrow> bool" where
  "is_model_capacity_error message \<longleftrightarrow> (\<exists>m\<in>set capacity_markers. contains (lower message) m)"

definition or_blank :: "string option \<Rightarrow> string" where
  "or_blank x = (case x of None \<Rightarrow> [] | Some s \<Rightarrow> s)"

definition transient_error :: "cov_db \<Rightarrow> cov_item \<Rightarrow> bool" where
  "transient_error D c \<longleftrightarrow>
     (case (stage_of D c, task_of D c) of
        (Some s, Some t) \<Rightarrow>
          let err = join_with [CHR 0x0A] (filter (\<lambda>x. x \<noteq> []) [or_blank (sr_error s), or_blank (at_error t)])
          in is_model_capacity_error err \<or> contains (lower err) ''no-progress deadline''
             \<or> contains (lower err) ''idle timeout''
      | _ \<Rightarrow> False)"

definition requeue_transient_model_failures ::
  "string \<Rightarrow> string \<Rightarrow> cov_db \<Rightarrow> (db_error, cov_db) result" where
  "requeue_transient_model_failures ts scan D =
     foldR (requeue_row ts ''transient model outage produced no Attack evidence; retry with fallback''
              (\<lambda>_. 0) cv_run cv_task)
       (select_items (\<lambda>c. cv_scan c = scan \<and> cv_status c \<in> {CErrorRetryable, CErrorTerminal}
          \<and> no_evidence D (cv_task c) \<and> transient_error D c) D) D"

definition requeue_oversized_policy_refusals ::
  "string \<Rightarrow> string \<Rightarrow> int \<Rightarrow> string \<Rightarrow> cov_db \<Rightarrow> (db_error, cov_db) result" where
  "requeue_oversized_policy_refusals ts scan batch shown D =
     (if batch < 1 \<or> 50 < batch then Inl (ValueErr ''coverage batch size must be between 1 and 50'')
      else foldR (requeue_row ts (''evidence-free policy refusal from a larger batch was reopened for the current ''
                 @ shown @ ''-task bound'') (\<lambda>n. n - 1) cv_run cv_task)
        (select_items (\<lambda>c. cv_scan c = scan \<and> cv_status c = CErrorRetryable \<and> no_evidence D (cv_task c)
           \<and> (case task_of D c of None \<Rightarrow> False
              | Some t \<Rightarrow> at_status t = JCancelled
                  \<and> starts_with (lower (or_blank (at_error t))) ''attack model policy refused a multi-task batch''
                  \<and> batch < int (length (stage_tasks (at_run t) (cb_pipe D))))) D) D)"

definition durable_evidence :: "cov_db \<Rightarrow> cov_item \<Rightarrow> bool" where
  "durable_evidence D c \<longleftrightarrow> (\<exists>a\<in>set (cb_attempts D). aa_scan a = cv_scan c \<and> aa_endpoint a = cv_endpoint c
     \<and> aa_skill a = cv_skill c \<and> aa_outcome a \<in> {''negative'', ''inconclusive''}
     \<and> starts_with (lower (aa_variant a)) ''deterministic-read-only:''
     \<and> (\<exists>t\<in>set (d_tasks (cb_pipe D)). Some (at_id t) = aa_task a \<and> at_status t = JCompleted)
     \<and> (\<exists>r\<in>set (cb_requests D). Some (hr_task r) = aa_task a
          \<and> hr_fingerprint r = aa_fingerprint a \<and> hr_status r = ''completed''))"

definition requeue_durable_remote_read_only_failures ::
  "string \<Rightarrow> string \<Rightarrow> cov_db \<Rightarrow> (db_error, cov_db) result" where
  "requeue_durable_remote_read_only_failures ts scan D =
     foldR (requeue_row ts ''durable deterministic remote read-only evidence survived a later orchestration failure; reopen for evidence adoption''
              (\<lambda>_. 0) cv_run cv_task)
       (select_items (\<lambda>c. cv_scan c = scan \<and> cv_status c \<in> {CErrorRetryable, CErrorTerminal}
          \<and> (case task_of D c of None \<Rightarrow> False
             | Some t \<Rightarrow> starts_with (lower (or_blank (at_error t)))
                 ''[evidence] deterministic remote read-only probe could not complete:'')
          \<and> durable_evidence D c) D) D"

definition requeue_black_box_source_disclosure_coverage ::
  "string \<Rightarrow> string \<Rightarrow> cov_db \<Rightarrow> (db_error, cov_db) result" where
  "requeue_black_box_source_disclosure_coverage ts scan D =
     foldR (requeue_row ts ''in-scope HTTP disclosure is black-box response evidence after source-policy clarification''
              (\<lambda>_. 0) cv_run cv_task)
       (select_items (\<lambda>c. cv_scan c = scan \<and> cv_status c = CPolicyExcluded \<and> cv_skill c = ''hunt-source-leak''
          \<and> (case endpoint_of D c of None \<Rightarrow> False | Some e \<Rightarrow> ep_method e \<in> {''GET'', ''HEAD''})
          \<and> (let reason = lower (or_blank (cv_reason c))
             in contains reason ''source'' \<and> (\<exists>m\<in>{''server source'', ''source snippet'', ''http response''}. contains reason m))) D) D"

definition requeue_interrupted_coverage ::
  "string \<Rightarrow> string \<Rightarrow> string \<Rightarrow> cov_db \<Rightarrow> (db_error, cov_db) result" where
  "requeue_interrupted_coverage ts run reason D =
     foldR (requeue_row ts reason (\<lambda>n. n - 1) (\<lambda>_. None) (\<lambda>_. None))
       (select_items (\<lambda>c. cv_run c = Some run \<and> cv_status c \<in> {CErrorRetryable, CErrorTerminal}) D) D"

text \<open>\<open>requeue_coverage\<close>: the statuses selected by an operator, as the strings given.\<close>

definition requeue_coverage ::
  "string \<Rightarrow> string \<Rightarrow> string list \<Rightarrow> string \<Rightarrow> cov_db \<Rightarrow> (db_error, cov_db) result" where
  "requeue_coverage ts scan statuses reason D =
     (let selected = {s. s \<in> set (map strip statuses) \<and> s \<noteq> []}
      in if selected = {} \<or> \<not> selected \<subseteq> cov_name ` (cov_terminal - {CConfirmed, CCandidate})
         then Inl (ValueErr ''requeue statuses must be selected non-candidate terminal statuses'')
         else if is_blank reason then Inl (ValueErr ''coverage requeue requires a reason'')
         else foldR (requeue_row ts reason (\<lambda>_. 0) (\<lambda>_. None) (\<lambda>_. None))
           (select_items (\<lambda>c. cv_scan c = scan \<and> cov_name (cv_status c) \<in> selected) D) D)"

section \<open>Credentials and blockers\<close>

text \<open>
  \<open>_credential_references\<close>.  \<open>usable i u\<close> stands for
  \<open>PipelineCredentialResolver.unsupported_reason i u is None\<close> (environment variables, key
  rings and browser sessions outside the database).
\<close>

definition url_origin :: "net_env \<Rightarrow> string \<Rightarrow> (db_error, string \<times> string option \<times> nat) result" where
  "url_origin E url =
     (case urlsplit E url of
        None \<Rightarrow> Inl (ValueErr ''invalid URL'')
      | Some u \<Rightarrow>
          (case u_port u of None \<Rightarrow> Inl (ValueErr ''Port could not be cast to integer value'')
           | Some port \<Rightarrow> Inr (u_scheme u, u_hostname u, or_default_port port (u_scheme u))))"

definition same_origin :: "net_env \<Rightarrow> string \<Rightarrow> string \<Rightarrow> (db_error, bool) result" where
  "same_origin E a b = bindR (url_origin E a) (\<lambda>x. bindR (url_origin E b) (\<lambda>y. Inr (x = y)))"

fun filterR :: "('x \<Rightarrow> ('e, bool) result) \<Rightarrow> 'x list \<Rightarrow> ('e, 'x list) result" where
  "filterR p [] = Inr []"
| "filterR p (x # xs) = bindR (p x) (\<lambda>b. bindR (filterR p xs) (\<lambda>ys. Inr (if b then x # ys else ys)))"

definition credential_base :: "cov_db \<Rightarrow> credential_ref \<Rightarrow> string option" where
  "credential_base D c = Option.bind (cr_session c) (map_of (cb_session_origins D))"

definition credential_references ::
  "net_env \<Rightarrow> (string \<Rightarrow> string option \<Rightarrow> bool) \<Rightarrow> string \<Rightarrow> string \<Rightarrow> bool \<Rightarrow> string option \<Rightarrow> cov_db
     \<Rightarrow> (db_error, credential_ref list) result" where
  "credential_references E usable scan required available_only origin D =
     (if required = ''unauthenticated'' then Inr []
      else filterR (\<lambda>c.
             if required \<notin> {''authenticated'', ''unknown''} \<and> cr_role c \<notin> {required, ''authenticated''}
             then Inr False
             else bindR (case (origin, credential_base D c) of
                           (Some o', Some b) \<Rightarrow> same_origin E b o' | _ \<Rightarrow> Inr True)
               (\<lambda>same. Inr (same \<and> (available_only \<longrightarrow> usable (cr_id c) origin))))
           (sort_key (\<lambda>c. (cr_role c, cr_label c, cr_id c))
              (filter (\<lambda>c. cr_scan c = scan) (d_credentials (cb_pipe D)))))"

definition credential_role :: "string \<Rightarrow> string \<Rightarrow> string" where
  "credential_role vuln required = ''authenticated''"

text \<open>\<open>_execution_identity_role\<close>; a fixture is its fact type and its value.\<close>

definition safe_mutation_paths :: "string list" where
  "safe_mutation_paths = [''/upload_profile_picture'', ''/upload_profile_picture_url'', ''/api/ai/chat'']"

definition disposable_account :: "string set \<Rightarrow> string \<times> pyval \<Rightarrow> bool" where
  "disposable_account labels f \<longleftrightarrow>
     (case f of
        (t, PDict d) \<Rightarrow> t = ''owned_test_object''
          \<and> (\<exists>l\<in>labels. dict_get d ''credential_label'' = Some (PStr l))
          \<and> dict_get d ''resource'' = Some (PStr ''account'')
          \<and> dict_get d ''disposable'' = Some (PBool True)
          \<and> dict_get d ''cleanup_allowed'' = Some (PBool True)
      | _ \<Rightarrow> False)"

definition execution_identity_role ::
  "string \<Rightarrow> string \<Rightarrow> string \<Rightarrow> credential_ref list \<Rightarrow> (string \<times> pyval) list \<Rightarrow> string" where
  "execution_identity_role mthd path planned refs fixtures =
     (if planned \<noteq> ''unauthenticated'' \<or> mthd \<notin> {''POST'', ''PUT'', ''PATCH''}
         \<or> rstrip_by (\<lambda>c. c = CHR ''/'') path \<notin> set safe_mutation_paths
      then planned
      else let labels = cr_label ` set (filter (\<lambda>r. cr_role r = ''identity_synthetic'') refs)
           in if \<exists>f\<in>set fixtures. disposable_account labels f then ''authenticated'' else planned)"

definition blocker_phrases :: "string list" where
  "blocker_phrases = [''missing authentication identity'', ''missing authenticated identity'',
     ''missing credential'', ''credential reference is unavailable'',
     ''credential references are unavailable'', ''authentication identity is unavailable'',
     ''authentication required but'', ''no second identity'', ''no owner-bound'',
     ''opaque credential references cannot be modified'']"

definition authentication_blocker :: "string \<Rightarrow> bool" where
  "authentication_blocker reason \<longleftrightarrow>
     (\<exists>p\<in>set blocker_phrases. contains (squeeze_spaces (lower reason)) p)"

definition reclassify_misclassified_auth_blockers ::
  "string \<Rightarrow> string \<Rightarrow> cov_db \<Rightarrow> (db_error, cov_db) result" where
  "reclassify_misclassified_auth_blockers ts scan D =
     foldR (\<lambda>c. transition_coverage ts (cv_id c) CUnsupported
              (''non-authentication blocker: '' @ or_blank (cv_reason c)) (cv_run c) (cv_task c) (cv_finding c))
       (select_items (\<lambda>c. cv_scan c = scan \<and> cv_status c = CBlockedAuth
          \<and> \<not> authentication_blocker (or_blank (cv_reason c))) D) D"

definition requeue_credential_blocked_coverage ::
  "net_env \<Rightarrow> (string \<Rightarrow> string option \<Rightarrow> bool) \<Rightarrow> (nat \<Rightarrow> string) \<Rightarrow> string \<Rightarrow> string \<Rightarrow> cov_db
     \<Rightarrow> (db_error, cov_db) result" where
  "requeue_credential_blocked_coverage E usable shown ts scan D =
     foldR (\<lambda>c D1. case endpoint_of D c of
                None \<Rightarrow> Inr D1
              | Some e \<Rightarrow>
                  bindR (credential_references E usable scan (credential_role (cv_vuln c) (cv_role c))
                           True (Some (ep_origin e)) D1) (\<lambda>refs.
                  if length refs < (if cv_vuln c = ''idor'' then 2 else 1) then Inr D1
                  else transition_coverage ts (cv_id c) CPending
                    (shown (length refs) @ '' compatible opaque credential references are now available'')
                    (cv_run c) (cv_task c) (cv_finding c) D1))
       (select_items (\<lambda>c. cv_scan c = scan \<and> cv_status c = CBlockedAuth) D) D"

definition requeue_unreplayable_candidates :: "string \<Rightarrow> string \<Rightarrow> cov_db \<Rightarrow> (db_error, cov_db) result" where
  "requeue_unreplayable_candidates ts scan D =
     foldR (\<lambda>c. transition_coverage ts (cv_id c) CPending
              ''existing finding has no immutable runtime contract for independent Validation''
              (cv_run c) (cv_task c) (cv_finding c))
       (select_items (\<lambda>c. cv_scan c = scan \<and> cv_status c = CCandidate
          \<and> (\<exists>r\<in>set (cb_specs D). Some (rs_finding r) = cv_finding c \<and> rs_contract r = None)) D) D"

definition block_unavailable_authenticated_coverage ::
  "net_env \<Rightarrow> (string \<Rightarrow> string option \<Rightarrow> bool) \<Rightarrow> string \<Rightarrow> string \<Rightarrow> string \<Rightarrow> cov_db
     \<Rightarrow> (db_error, cov_db) result" where
  "block_unavailable_authenticated_coverage E usable ts scan run D =
     foldR (\<lambda>c D1. case endpoint_of D c of
                None \<Rightarrow> Inr D1
              | Some e \<Rightarrow>
                  bindR (credential_references E usable scan ''authenticated'' True (Some (ep_origin e)) D1) (\<lambda>refs.
                  if refs \<noteq> [] then Inr D1
                  else transition_coverage ts (cv_id c) CBlockedAuth
                    ''[auth] authenticated identity prerequisite has no usable same-origin credential reference''
                    (Some run) None None D1))
       (sort_key cv_id (select_items (\<lambda>c. cv_scan c = scan \<and> cv_status c \<in> {CPending, CErrorRetryable}
          \<and> cv_role c = ''authenticated'') D)) D"

section \<open>Evidence\<close>

text \<open>
  \<open>_selected_http_evidence\<close>: the identities an exact match accepts come from the payload of
  the task.
\<close>

definition task_payload :: "cov_db \<Rightarrow> string \<Rightarrow> (string \<times> pyval) list" where
  "task_payload D task =
     (case find_row at_id task (d_tasks (cb_pipe D)) of None \<Rightarrow> [] | Some t \<Rightarrow> at_payload t)"

definition expected_identity :: "(string \<times> pyval) list \<Rightarrow> string \<Rightarrow> string" where
  "expected_identity payload required =
     (if dict_get payload ''planned_identity_role'' = Some (PStr required)
      then case dict_get payload ''required_identity_role'' of
             Some (PStr r) \<Rightarrow> if r \<in> {''authenticated'', ''unauthenticated''} then r else required
           | _ \<Rightarrow> required
      else required)"

definition optional_roles :: "(string \<times> pyval) list \<Rightarrow> string set" where
  "optional_roles payload =
     (case dict_get payload ''optional_control_identity_roles'' of
        Some (PList vs) \<Rightarrow> set (concat (map (\<lambda>v. case v of PStr r \<Rightarrow> [r] | _ \<Rightarrow> []) vs)) | _ \<Rightarrow> {})"

definition request_matches ::
  "cov_db \<Rightarrow> cov_item \<Rightarrow> attempt_row \<Rightarrow> string \<Rightarrow> string \<Rightarrow> request_row \<Rightarrow> bool" where
  "request_matches D c a run task r \<longleftrightarrow>
     hr_scan r = cv_scan c \<and> hr_run r = run \<and> hr_task r = task
     \<and> hr_fingerprint r = aa_fingerprint a \<and> hr_status r = ''completed'' \<and> hr_response r \<noteq> None"

definition request_identity :: "cov_db \<Rightarrow> cov_item \<Rightarrow> string \<Rightarrow> request_row \<Rightarrow> bool" where
  "request_identity D c task r \<longleftrightarrow>
     (let payload = task_payload D task;
          expected = expected_identity payload (cv_role c);
          known = cr_id ` set (filter (\<lambda>k. cr_scan k = cv_scan c) (d_credentials (cb_pipe D)))
      in case hr_credential r of
           None \<Rightarrow> expected = ''unauthenticated''
         | Some k \<Rightarrow> (expected = ''authenticated'' \<or> ''authenticated'' \<in> optional_roles payload) \<and> k \<in> known)"

definition selected_http_evidence ::
  "cov_db \<Rightarrow> cov_item \<Rightarrow> attempt_row \<Rightarrow> string \<Rightarrow> string \<Rightarrow> bool \<Rightarrow> string list option \<Rightarrow> bool" where
  "selected_http_evidence D c a run task exact ids \<longleftrightarrow>
     (exact \<longrightarrow> aa_endpoint a = cv_endpoint c)
     \<and> (\<exists>r\<in>set (cb_requests D). request_matches D c a run task r
         \<and> (exact \<longrightarrow> hr_endpoint r = cv_endpoint c
              \<and> Some (hr_method r) = map_option ep_method (endpoint_of D c) \<and> request_identity D c task r)
         \<and> (case ids of None \<Rightarrow> True | Some is \<Rightarrow> hr_id r \<in> set is))"

definition spec_location :: "string \<Rightarrow> string" where
  "spec_location l = (if l \<in> {''json'', ''form''} then ''body'' else l)"

definition hypothesis_finding_evidence ::
  "cov_db \<Rightarrow> cov_item \<Rightarrow> string \<Rightarrow> string \<Rightarrow> string \<Rightarrow> bool" where
  "hypothesis_finding_evidence D c finding run task \<longleftrightarrow>
     (case find_row rs_finding finding (cb_specs D) of
        None \<Rightarrow> False
      | Some spec \<Rightarrow>
          rs_endpoint spec = cv_endpoint c \<and> rs_contract spec \<noteq> None
          \<and> rs_contract spec \<noteq> Some []
          \<and> (spec_location (cv_location c) \<noteq> ''endpoint'' \<longrightarrow>
               rs_location spec = spec_location (cv_location c) \<and> rs_param spec = cv_param c)
          \<and> (\<exists>a\<in>set (cb_attempts D). aa_scan a = cv_scan c \<and> aa_task a = Some task
               \<and> aa_finding a = Some finding \<and> aa_outcome a = ''confirmed''
               \<and> aa_id a \<in> set (rs_attempts spec)
               \<and> selected_http_evidence D c a run task True (Some (rs_requests spec))))"

text \<open>
  \<open>attack/intent_checkpoint.py\<close>: how strong a checkpoint is, and whether the current task has
  enough proof for a negative verdict.
\<close>

definition checkpoint_quality ::
  "string list \<Rightarrow> string list \<Rightarrow> string list \<Rightarrow> string list \<Rightarrow> string list \<Rightarrow> string" where
  "checkpoint_quality strategies payloads feature_requests controls remaining =
     (let families = card (set strategies \<union> set payloads); features = card (set feature_requests)
      in if 3 \<le> families \<and> 2 \<le> length controls \<and> 3 \<le> features \<and> remaining = [] then ''strong''
         else if 2 \<le> families \<and> controls \<noteq> [] \<and> 2 \<le> features \<and> remaining = [] then ''adequate''
         else ''weak'')"

definition latest_intent_checkpoint :: "cov_db \<Rightarrow> string \<Rightarrow> checkpoint option" where
  "latest_intent_checkpoint D coverage =
     (let rows = filter (\<lambda>k. ck_coverage k = coverage) (cb_checkpoints D)
      in if rows = [] then None else Some (List.last (sort_key ck_sequence rows)))"

definition engineio_contract :: "attempt_row \<Rightarrow> bool" where
  "engineio_contract a \<longleftrightarrow> starts_with (aa_variant a) ''engineio-session-binding-''
     \<and> aa_outcome a \<in> {''negative'', ''rejected''}"

definition negative_evidence_quality ::
  "cov_db \<Rightarrow> string \<Rightarrow> string \<Rightarrow> string \<Rightarrow> attempt_row list \<Rightarrow> bool \<times> string" where
  "negative_evidence_quality D scan coverage task selected =
     (if \<exists>a\<in>set selected. engineio_contract a
      then (True, ''deterministic Engine.IO session-binding contract'')
      else case latest_intent_checkpoint D coverage of
             None \<Rightarrow> (False, ''current task has no intent checkpoint'')
           | Some k \<Rightarrow>
               if ck_task k \<noteq> task then (False, ''current task has no intent checkpoint'')
               else if ck_quality k \<notin> {''adequate'', ''strong''}
                 then (False, ''intent checkpoint evidence quality is weak'')
               else if ck_controls k = []
                 then (False, ''intent checkpoint has no completed control request'')
               else if rowcount (\<lambda>r. hr_scan r = scan \<and> hr_task r = task \<and> hr_status r = ''completed''
                         \<and> hr_id r \<in> set (ck_controls k)) (cb_requests D) \<noteq> length (ck_controls k)
                 then (False, ''intent checkpoint control evidence is stale'')
               else (True, ck_quality k @ '' intent checkpoint with bounded controls''))"

section \<open>Reconciling a batch\<close>

text \<open>What \<open>reconcile_coverage_batch\<close> decides for one running item of the stage.\<close>

definition skipped_status :: "string \<Rightarrow> cov_status" where
  "skipped_status reason =
     (let low = lower reason
      in if starts_with low ''[budget]'' \<or> starts_with low ''[evidence]'' then CUnsupported
         else if starts_with low ''[auth]'' \<or> authentication_blocker reason then CBlockedAuth
         else if \<exists>t\<in>{''policy'', ''scope'', ''prohibited''}. contains low t then CPolicyExcluded
         else CUnsupported)"

definition negative_shape :: "cov_item \<Rightarrow> attempt_row list \<Rightarrow> bool" where
  "negative_shape c selected \<longleftrightarrow> selected \<noteq> []
     \<and> (aa_outcome ` set selected \<subseteq> {''negative'', ''rejected''}
        \<or> (cv_vuln c = ''auth_bypass'' \<and> cv_role c = ''unauthenticated''
            \<and> (\<exists>a\<in>set selected. aa_identity a = ''unauthenticated'' \<and> aa_response a \<in> {Some 401, Some 403})))"

definition truthy :: "string option \<Rightarrow> bool" where
  "truthy s \<longleftrightarrow> s \<noteq> None \<and> s \<noteq> Some []"

text \<open>The attempts of a task, in the order they were recorded.\<close>

definition attempts_of :: "cov_db \<Rightarrow> string \<Rightarrow> string option \<Rightarrow> attempt_row list" where
  "attempts_of D scan task = filter (\<lambda>a. aa_scan a = scan \<and> task \<noteq> None \<and> aa_task a = task) (cb_attempts D)"

definition batch_findings :: "cov_db \<Rightarrow> string \<Rightarrow> cov_item \<Rightarrow> bool \<Rightarrow> string list" where
  "batch_findings D run c hyp =
     filter (\<lambda>f. hyp \<longrightarrow> hypothesis_finding_evidence D c f run (or_blank (cv_task c)))
       (sorted_list_of_set (set (map (\<lambda>a. or_blank (aa_finding a))
          (filter (\<lambda>a. truthy (aa_finding a)) (attempts_of D (cv_scan c) (cv_task c))))))"

definition batch_verdict ::
  "cov_db \<Rightarrow> string \<Rightarrow> nat \<Rightarrow> cov_item \<Rightarrow> attack_task \<Rightarrow> bool \<Rightarrow> cov_status \<times> string \<times> string option" where
  "batch_verdict D run limit c t hyp =
     (let attempts = attempts_of D (cv_scan c) (cv_task c);
          selected = filter (\<lambda>a. selected_http_evidence D c a run (or_blank (cv_task c)) hyp None) attempts;
          outcomes = aa_outcome ` set selected;
          last_try = limit \<le> cv_attempts c
      in case batch_findings D run c hyp of
           f # _ \<Rightarrow> (CCandidate, ''Attack produced an evidence-bound finding'', Some f)
         | [] \<Rightarrow>
             if at_status t = JCompleted \<and> negative_shape c selected
             then (case negative_evidence_quality D (cv_scan c) (cv_id c) (or_blank (cv_task c)) selected of
                     (True, why) \<Rightarrow>
                       (CTestedNegative, ''Attack completed with terminal negative evidence: '' @ why, None)
                   | (False, why) \<Rightarrow>
                       if last_try
                       then (CUnsupported, ''bounded retry limit reached without sufficient negative evidence quality: '' @ why, None)
                       else (CErrorRetryable, ''negative evidence quality is insufficient; retry with an alternate strategy and control: '' @ why, None))
             else if at_status t = JCompleted \<and> selected \<noteq> []
                     \<and> outcomes \<subseteq> {''negative'', ''rejected'', ''inconclusive''}
             then (CUnsupported,
                   (case find (\<lambda>a. truthy (aa_resolution a)) (rev attempts) of
                      Some a \<Rightarrow> or_blank (aa_resolution a)
                    | None \<Rightarrow> ''Attack completed with bounded evidence that remained inconclusive''), None)
             else if at_status t = JSkipped
             then (let reason = (if truthy (at_error t) then or_blank (at_error t)
                                 else ''Attack marked the item inapplicable'')
                   in (skipped_status reason, reason, None))
             else if last_try
             then (CErrorTerminal, ''retry limit reached without terminal evidence'', None)
             else (CErrorRetryable, ''batch ended without terminal coverage evidence'', None))"

definition reconcile_row ::
  "string \<Rightarrow> string \<Rightarrow> nat \<Rightarrow> cov_item \<Rightarrow> cov_db \<Rightarrow> (db_error, cov_db) result" where
  "reconcile_row ts run limit c D =
     (case (task_of D c, map_of (cb_annotations D) (cv_annotation c), endpoint_of D c) of
        (Some t, Some category, Some _) \<Rightarrow>
          (case batch_verdict D run limit c t (category = ''attack_hypothesis'') of
             (nxt, reason, finding) \<Rightarrow>
               transition_coverage ts (cv_id c) nxt reason (Some run) (cv_task c) finding D)
      | _ \<Rightarrow> Inr D)"

definition reconcile_coverage_batch ::
  "string \<Rightarrow> string \<Rightarrow> nat \<Rightarrow> cov_db \<Rightarrow> (db_error, cov_db) result" where
  "reconcile_coverage_batch ts run limit D =
     foldR (reconcile_row ts run limit)
       (select_items (\<lambda>c. cv_run c = Some run \<and> cv_status c = CRunning) D) D"

definition fail_running_coverage ::
  "string \<Rightarrow> string \<Rightarrow> string \<Rightarrow> nat \<Rightarrow> cov_db \<Rightarrow> (db_error, cov_db) result" where
  "fail_running_coverage ts run reason limit D =
     foldR (\<lambda>c. transition_coverage ts (cv_id c)
              (if limit \<le> cv_attempts c then CErrorTerminal else CErrorRetryable) reason
              (Some run) (cv_task c) None)
       (select_items (\<lambda>c. cv_run c = Some run \<and> cv_status c = CRunning) D) D"

section \<open>Validation feedback and reporting\<close>

definition case_verdict :: "cov_db \<Rightarrow> cov_item \<Rightarrow> string option" where
  "case_verdict D c =
     (case find (\<lambda>v. cv_finding c = Some (fc_finding v) \<and> fc_scan v = cv_scan c) (cb_vcases D) of
        None \<Rightarrow> None
      | Some v \<Rightarrow> if fc_phase v = PhCompleted then fc_status v else None)"

definition refresh_confirmed_coverage :: "string \<Rightarrow> string \<Rightarrow> cov_db \<Rightarrow> (db_error, cov_db) result" where
  "refresh_confirmed_coverage ts scan D =
     bindR (foldR (\<lambda>c. transition_coverage ts (cv_id c) CCandidate
              (''latest independent Validation status is '' @ or_blank (case_verdict D c))
              (cv_run c) (cv_task c) (cv_finding c))
       (select_items (\<lambda>c. cv_scan c = scan \<and> cv_status c = CConfirmed
          \<and> case_verdict D c \<noteq> None \<and> case_verdict D c \<noteq> Some ''CONFIRMED'') D) D) (\<lambda>D1.
     foldR (\<lambda>c. transition_coverage ts (cv_id c) CConfirmed
              ''independent Validation case confirmed the finding''
              (cv_run c) (cv_task c) (cv_finding c))
       (select_items (\<lambda>c. cv_scan c = scan \<and> cv_status c = CCandidate
          \<and> case_verdict D1 c = Some ''CONFIRMED'') D1) D1)"

definition assessment_of :: "cov_status option \<Rightarrow> string" where
  "assessment_of s =
     (case s of
        Some CConfirmed \<Rightarrow> ''confirmed''
      | Some CTestedNegative \<Rightarrow> ''not_reproduced''
      | Some x \<Rightarrow> if x \<in> {CBlockedAuth, CPolicyExcluded, CUnsupported, CErrorTerminal}
                  then ''unsupported'' else ''mapped_runtime''
      | None \<Rightarrow> ''mapped_runtime'')"

definition refresh_catalog_assessments :: "string \<Rightarrow> cov_db \<Rightarrow> cov_db" where
  "refresh_catalog_assessments scan D =
     D\<lparr>cb_catalog := map_option (map (\<lambda>b. if ca_scan b = scan
          then b\<lparr>ca_assessment := assessment_of (map_option cv_status
                 (find (\<lambda>c. cv_annotation c = ca_annotation b \<and> cv_scan c = scan) (cb_items D)))\<rparr>
          else b)) (cb_catalog D)\<rparr>"

record cov_summary =
  cs_total :: nat
  cs_disposition :: rat
  cs_executable :: rat
  cs_validation :: rat
  cs_unfinished :: nat

definition ratio :: "nat \<Rightarrow> nat \<Rightarrow> rat" where
  "ratio n m = (if m = 0 then 1 else of_nat n / of_nat m)"

definition count_status :: "cov_status set \<Rightarrow> cov_item list \<Rightarrow> nat" where
  "count_status ss rows = rowcount (\<lambda>c. cv_status c \<in> ss) rows"

definition coverage_summary :: "cov_item list \<Rightarrow> cov_summary" where
  "coverage_summary rows =
     (let total = length rows;
          finished = count_status cov_terminal rows;
          blocked = count_status {CBlockedAuth, CPolicyExcluded, CUnsupported, CErrorTerminal} rows;
          executed = count_status {CTestedNegative, CCandidate, CConfirmed} rows;
          candidates = count_status {CCandidate, CConfirmed} rows;
          confirmed = count_status {CConfirmed} rows
      in \<lparr>cs_total = total, cs_disposition = ratio finished total,
          cs_executable = ratio executed (total - blocked),
          cs_validation = ratio confirmed candidates, cs_unfinished = total - finished\<rparr>)"

definition coverage_status ::
  "string \<Rightarrow> string \<Rightarrow> cov_db \<Rightarrow> (db_error, cov_db \<times> cov_summary) result" where
  "coverage_status ts scan D =
     bindR (refresh_confirmed_coverage ts scan D) (\<lambda>D1.
       let D2 = refresh_catalog_assessments scan D1
       in Inr (D2, coverage_summary (select_items (\<lambda>c. cv_scan c = scan) D2)))"

section \<open>Claiming a batch\<close>

text \<open>\<open>LIKE '%p1%p2%...%'\<close> on a lower-cased text.\<close>

fun after_first :: "string \<Rightarrow> string \<Rightarrow> string option" where
  "after_first p [] = (if p = [] then Some [] else None)"
| "after_first p (c # s) =
     (if starts_with (c # s) p then Some (drop (length p) (c # s)) else after_first p s)"

fun like_parts :: "string list \<Rightarrow> string \<Rightarrow> bool" where
  "like_parts [] s = True"
| "like_parts (p # ps) s = (case after_first p s of None \<Rightarrow> False | Some t \<Rightarrow> like_parts ps t)"

definition signal_patterns :: "string \<Rightarrow> string list list" where
  "signal_patterns vuln =
     (if vuln = ''sqli'' then [[''sql'', ''inject''], [''vulnerable to injection'']]
      else if vuln = ''nosqli'' then [[''nosql'', ''inject'']]
      else if vuln = ''idor'' then [[''idor''], [''bola''], [''object'', ''authoriz'']]
      else if vuln = ''auth_bypass'' then [[''auth'', ''bypass''], [''without'', ''auth'']]
      else if vuln = ''ssrf'' then [[''ssrf''], [''server'', ''side'', ''request'', ''forg'']]
      else if vuln = ''xss'' then [[''xss''], [''cross'', ''site'', ''script'']]
      else if vuln = ''csrf'' then [[''csrf''], [''cross'', ''site'', ''request'', ''forg'']]
      else [[lower (map (\<lambda>c. if c = CHR ''_'' then CHR '' '' else c) vuln)]])"

text \<open>
  What a claim reads outside the modelled tables: the descriptions of API declarations per
  endpoint, the items with a \<open>historical_runtime_priority\<close> fact, and what the \<open>_task_*\<close>,
  \<open>_parameter_candidates\<close> and \<open>_source_context\<close> queries put into the payload.
\<close>

record claim_context =
  cc_declared :: "string \<Rightarrow> string list"
  cc_historical :: "string \<Rightarrow> bool"
  cc_fixtures :: "cov_item \<Rightarrow> (string \<times> pyval) list"
  cc_payload :: "cov_item \<Rightarrow> (string \<times> pyval) list"

definition public_signal :: "claim_context \<Rightarrow> cov_item \<Rightarrow> bool" where
  "public_signal X c \<longleftrightarrow> (\<exists>d\<in>set (cc_declared X (cv_endpoint c)).
     \<exists>ps\<in>set (signal_patterns (cv_vuln c)). like_parts ps (lower d))"

definition login_signal :: "cov_item \<Rightarrow> endpoint_row \<Rightarrow> bool" where
  "login_signal c e \<longleftrightarrow>
     cv_vuln c \<in> {''sqli'', ''nosqli'', ''auth_bypass'', ''session'', ''brute_force''}
     \<and> ep_method e \<in> {''POST'', ''PUT'', ''PATCH''}
     \<and> (\<exists>p\<in>{''/login'', ''/signin'', ''/session''}. contains (lower (ep_path e)) p)"

definition claimable :: "string \<Rightarrow> nat \<Rightarrow> cov_db \<Rightarrow> cov_item \<Rightarrow> bool" where
  "claimable scan max_attempts D c \<longleftrightarrow> cv_scan c = scan \<and> cv_status c \<in> {CPending, CErrorRetryable}
     \<and> cv_attempts c < max_attempts \<and> endpoint_of D c \<noteq> None"

definition path_of :: "cov_db \<Rightarrow> cov_item \<Rightarrow> string" where
  "path_of D c = (case endpoint_of D c of None \<Rightarrow> [] | Some e \<Rightarrow> ep_path e)"

definition class_rank :: "cov_db \<Rightarrow> cov_item list \<Rightarrow> cov_item \<Rightarrow> nat" where
  "class_rank D eligible c = Suc (rowcount (\<lambda>k. cv_status k = cv_status c \<and> cv_vuln k = cv_vuln c
     \<and> (path_of D k, cv_id k) < (path_of D c, cv_id c)) eligible)"

definition class_completed :: "cov_db \<Rightarrow> cov_item \<Rightarrow> nat" where
  "class_completed D c = rowcount (\<lambda>k. cv_scan k = cv_scan c \<and> cv_vuln k = cv_vuln c
     \<and> cv_status k \<notin> {CPending, CErrorRetryable, CRunning}) (cb_items D)"

definition vuln_rank :: "string \<Rightarrow> nat" where
  "vuln_rank v = (if v = ''brute_force'' then 90 else if v = ''race_condition'' then 91 else 10)"

definition claim_key ::
  "claim_context \<Rightarrow> cov_db \<Rightarrow> string list \<Rightarrow> cov_item list \<Rightarrow> cov_item
     \<Rightarrow> nat list \<times> string \<times> string \<times> string" where
  "claim_key X D preferred eligible c =
     (let signal = (public_signal X c
            \<or> (case endpoint_of D c of None \<Rightarrow> False | Some e \<Rightarrow> login_signal c e));
          get = (case endpoint_of D c of None \<Rightarrow> False | Some e \<Rightarrow> ep_method e = ''GET'');
          bit = (\<lambda>b. if b then 0 else 1)
      in ([bit (cv_id c \<in> set preferred), bit (cv_status c = CErrorRetryable), bit (cc_historical X (cv_id c)),
           bit signal, (if signal \<and> get then 0 else if signal then 1 else 2),
           class_completed D c + class_rank D eligible c, vuln_rank (cv_vuln c)],
          cv_vuln c, path_of D c, cv_id c))"

definition claim_task ::
  "net_env \<Rightarrow> (string \<Rightarrow> string option \<Rightarrow> bool) \<Rightarrow> claim_context \<Rightarrow> (string \<Rightarrow> string) \<Rightarrow> string \<Rightarrow> string
     \<Rightarrow> cov_item \<Rightarrow> endpoint_row \<Rightarrow> cov_db \<Rightarrow> (db_error, pipe_db \<times> string) result" where
  "claim_task E usable X fresh scan run c e D =
     bindR (credential_references E usable scan (credential_role (cv_vuln c) (cv_role c)) False
              (Some (ep_origin e)) D) (\<lambda>refs.
     let role = execution_identity_role (ep_method e) (ep_path e) (cv_role c) refs (cc_fixtures X c);
         bound = (if role \<noteq> cv_role c then filter (\<lambda>r. cr_role r = ''identity_synthetic'') refs else refs);
         optional = (if cv_role c = ''unauthenticated'' \<and> bound \<noteq> [] then [PStr ''authenticated''] else [])
     in bindR (create_task (fresh (cv_id c)) [] run (cv_skill c) (Some (cv_endpoint c))
           ([(''coverage_id'', PStr (cv_id c)), (''vuln_class'', PStr (cv_vuln c)),
             (''method'', PStr (ep_method e)), (''origin_url'', PStr (ep_origin e)),
             (''normalized_path'', PStr (ep_path e)), (''injection_location'', PStr (cv_location c)),
             (''parameter_name'', PStr (cv_param c)), (''required_identity_role'', PStr role),
             (''planned_identity_role'', PStr (cv_role c)),
             (''optional_control_identity_roles'', PList optional),
             (''credential_references'', PList (map (\<lambda>r. PDict
                [(''credential_reference_id'', PStr (cr_id r)), (''label'', PStr (cr_label r)),
                 (''identity_role'', PStr (cr_role r))]) bound))] @ cc_payload X c) (cb_pipe D))
        (\<lambda>P. Inr (P, role)))"

definition claim_lease ::
  "(string \<Rightarrow> string) \<Rightarrow> string \<Rightarrow> string \<Rightarrow> cov_item \<Rightarrow> cov_db \<Rightarrow> (db_error, cov_db) result" where
  "claim_lease fresh ts run c D =
     bindR (transition_coverage ts (cv_id c) CRunning ''scheduled in exhaustive batch''
              (Some run) (Some (fresh (cv_id c))) None D) (\<lambda>D1.
     Inr (set_item (cv_id c) (\<lambda>k. k\<lparr>cv_attempts := cv_attempts k + 1, cv_run := Some run,
            cv_task := Some (fresh (cv_id c)), cv_updated := ts\<rparr>) D1))"

definition claim_row ::
  "net_env \<Rightarrow> (string \<Rightarrow> string option \<Rightarrow> bool) \<Rightarrow> claim_context \<Rightarrow> (string \<Rightarrow> string) \<Rightarrow> string \<Rightarrow> string \<Rightarrow> string
     \<Rightarrow> cov_item \<Rightarrow> cov_db \<times> (string \<times> string \<times> string) list
     \<Rightarrow> (db_error, cov_db \<times> (string \<times> string \<times> string) list) result" where
  "claim_row E usable X fresh ts scan run c S =
     (case (S, endpoint_of (fst S) c) of
        ((D, claimed), None) \<Rightarrow> Inr (D, claimed)
      | ((D, claimed), Some e) \<Rightarrow>
          bindR (claim_task E usable X fresh scan run c e D) (\<lambda>(P, role).
          bindR (claim_lease fresh ts run c (D\<lparr>cb_pipe := P\<rparr>)) (\<lambda>D1.
          Inr (D1, claimed @ [(fresh (cv_id c), cv_id c, role)]))))"

text \<open>The rows a batch takes: one at a time while anything has to be retried.\<close>

definition claim_rows :: "claim_context \<Rightarrow> string \<Rightarrow> int \<Rightarrow> nat \<Rightarrow> string list \<Rightarrow> cov_db \<Rightarrow> cov_item list" where
  "claim_rows X scan batch max_attempts wanted D =
     (let retryable = (\<exists>c\<in>set (cb_items D). cv_scan c = scan \<and> cv_status c = CErrorRetryable
                         \<and> cv_attempts c < max_attempts);
          size = (if retryable then 1 else nat batch);
          preferred = take (nat batch) (dedupe (filter (\<lambda>w. \<not> is_blank w) wanted));
          eligible = select_items (claimable scan max_attempts D) D
      in take size (sort_key (claim_key X D preferred eligible) eligible))"

text \<open>
  \<open>create_task\<close> commits what was written before it, so an error keeps the rows that were claimed
  before; this is the transaction without errors, \<open>Attack_Batch\<close> has the one that may stop between.
\<close>

definition claim_coverage_batch ::
  "net_env \<Rightarrow> (string \<Rightarrow> string option \<Rightarrow> bool) \<Rightarrow> claim_context \<Rightarrow> (string \<Rightarrow> string) \<Rightarrow> string \<Rightarrow> string \<Rightarrow> string
     \<Rightarrow> int \<Rightarrow> string \<Rightarrow> nat \<Rightarrow> string list \<Rightarrow> cov_db
     \<Rightarrow> (db_error, cov_db \<times> (string \<times> string \<times> string) list) result" where
  "claim_coverage_batch E usable X fresh ts scan run batch shown max_attempts wanted D =
     (if batch < 1 \<or> 50 < batch then Inl (ValueErr ''coverage batch size must be between 1 and 50'')
      else bindR (block_unavailable_authenticated_coverage E usable ts scan run D) (\<lambda>D1.
           bindR (requeue_oversized_policy_refusals ts scan batch shown D1) (\<lambda>D2.
           foldR (claim_row E usable X fresh ts scan run) (claim_rows X scan batch max_attempts wanted D2) (D2, []))))"

section \<open>The ledger as a machine\<close>

record cov_env =
  ce_net :: net_env
  ce_usable :: "string \<Rightarrow> string option \<Rightarrow> bool"
  ce_context :: claim_context
  ce_shown :: "nat \<Rightarrow> string"
  ce_max :: nat

datatype cov_op =
    VTransition string string cov_status string "string option" "string option" "string option"
  | VOrphaned string string
  | VRelease string string string
  | VTransient string string
  | VOversized string string int
  | VDurable string string
  | VBlackBox string string
  | VInterrupted string string string
  | VRequeue string string "string list" string
  | VReclassify string string
  | VCredentials string string
  | VUnreplayable string string
  | VReconcile string string nat
  | VFail string string string nat
  | VRefresh string string
  | VClaim "string \<Rightarrow> string" string string string int "string list"

fun cov_step :: "cov_env \<Rightarrow> cov_op \<Rightarrow> cov_db \<Rightarrow> (db_error, cov_db) result" where
  "cov_step V (VTransition ts i nxt reason run task finding) = transition_coverage ts i nxt reason run task finding"
| "cov_step V (VOrphaned ts scan) = requeue_orphaned_running_coverage ts scan"
| "cov_step V (VRelease ts run reason) = release_unattempted_coverage ts run reason"
| "cov_step V (VTransient ts scan) = requeue_transient_model_failures ts scan"
| "cov_step V (VOversized ts scan batch) = requeue_oversized_policy_refusals ts scan batch (ce_shown V (nat batch))"
| "cov_step V (VDurable ts scan) = requeue_durable_remote_read_only_failures ts scan"
| "cov_step V (VBlackBox ts scan) = requeue_black_box_source_disclosure_coverage ts scan"
| "cov_step V (VInterrupted ts run reason) = requeue_interrupted_coverage ts run reason"
| "cov_step V (VRequeue ts scan statuses reason) = requeue_coverage ts scan statuses reason"
| "cov_step V (VReclassify ts scan) = reclassify_misclassified_auth_blockers ts scan"
| "cov_step V (VCredentials ts scan) =
     requeue_credential_blocked_coverage (ce_net V) (ce_usable V) (ce_shown V) ts scan"
| "cov_step V (VUnreplayable ts scan) = requeue_unreplayable_candidates ts scan"
| "cov_step V (VReconcile ts run limit) = reconcile_coverage_batch ts run limit"
| "cov_step V (VFail ts run reason limit) = fail_running_coverage ts run reason limit"
| "cov_step V (VRefresh ts scan) = refresh_confirmed_coverage ts scan"
| "cov_step V (VClaim fresh ts scan run batch wanted) = (\<lambda>D.
     bindR (claim_coverage_batch (ce_net V) (ce_usable V) (ce_context V) fresh ts scan run batch
              (ce_shown V (nat batch)) (ce_max V) wanted D) (\<lambda>(D', _). Inr D'))"

definition cov_state :: "cov_db \<Rightarrow> string \<Rightarrow> cov_status option" where
  "cov_state D i = map_option cv_status (item_of i D)"

definition cov_log :: "cov_db \<Rightarrow> (string, cov_status) event list" where
  "cov_log D = map (\<lambda>e. (ce_item e, ce_previous e, ce_next e)) (cb_events D)"

text \<open>The moves of the transition table and those of the operations that release a lease.\<close>

definition cov_allowed :: "string \<Rightarrow> cov_status \<Rightarrow> cov_status \<Rightarrow> bool" where
  "cov_allowed i p n \<longleftrightarrow> n \<in> cov_transitions p
     \<or> (n = CPending \<and> p \<notin> {CPending, CCandidate, CConfirmed})"

definition cov_ok :: "nat \<Rightarrow> cov_db \<Rightarrow> bool" where
  "cov_ok m D \<longleftrightarrow> distinct (map cv_id (cb_items D)) \<and> (\<forall>c\<in>set (cb_items D). cv_attempts c \<le> m)"

definition cov_moved :: "nat \<Rightarrow> cov_db \<Rightarrow> cov_db \<Rightarrow> bool" where
  "cov_moved m D D' \<longleftrightarrow> map cv_id (cb_items D') = map cv_id (cb_items D)
     \<and> ((\<forall>c\<in>set (cb_items D). cv_attempts c \<le> m) \<longrightarrow> (\<forall>c\<in>set (cb_items D'). cv_attempts c \<le> m))
     \<and> (\<exists>es. cov_log D' = cov_log D @ es \<and> (\<forall>(i, p, n)\<in>set es. cov_allowed i p n)
        \<and> (\<forall>i p. cov_state D i = Some p \<longrightarrow> chained i p es \<and> cov_state D' i = Some (replay i p es)))"

lemma cov_moved_refl [simp]: "cov_moved m D D"
  unfolding cov_moved_def by (intro conjI exI [of _ "[]"]) auto

lemma cov_moved_trans:
  assumes "cov_moved m D1 D2" and "cov_moved m D2 D3"
  shows "cov_moved m D1 D3"
proof -
  obtain es fs where es: "cov_log D2 = cov_log D1 @ es" "\<forall>(i, p, n)\<in>set es. cov_allowed i p n"
    "\<And>i p. cov_state D1 i = Some p \<Longrightarrow> chained i p es \<and> cov_state D2 i = Some (replay i p es)"
    and fs: "cov_log D3 = cov_log D2 @ fs" "\<forall>(i, p, n)\<in>set fs. cov_allowed i p n"
    "\<And>i p. cov_state D2 i = Some p \<Longrightarrow> chained i p fs \<and> cov_state D3 i = Some (replay i p fs)"
    using assms unfolding cov_moved_def by metis
  have "\<forall>(i, p, n)\<in>set (es @ fs). cov_allowed i p n" using es(2) fs(2) by auto
  with es(1,3) fs(1,3) have "\<exists>gs. cov_log D3 = cov_log D1 @ gs
      \<and> (\<forall>(i, p, n)\<in>set gs. cov_allowed i p n)
      \<and> (\<forall>i p. cov_state D1 i = Some p \<longrightarrow> chained i p gs \<and> cov_state D3 i = Some (replay i p gs))"
    by (intro exI [of _ "es @ fs"]) (simp add: chained_append replay_append)
  with assms show ?thesis unfolding cov_moved_def by metis
qed

lemma put_event_Inr:
  assumes "put_event row nxt reason run task D = Inr D1"
  shows "cb_items D1 = cb_items D" and "cov_log D1 = cov_log D @ [(cv_id row, cv_status row, nxt)]"
  using assms by (auto simp: put_event_def cov_log_def split: if_splits)

lemma item_of_set_item:
  assumes "\<And>c. cv_id (f c) = cv_id c"
  shows "item_of j (set_item i f D) = (if j = i then map_option f (item_of i D) else item_of j D)"
  unfolding item_of_def set_item_def by (simp add: find_row_update_key assms)

text \<open>One recorded change of one item.\<close>

lemma cov_moved_once:
  assumes ev: "put_event row nxt reason run task D = Inr D1"
    and cur: "cov_state D (cv_id row) = Some (cv_status row)" and "cov_allowed (cv_id row) (cv_status row) nxt"
    and f: "\<And>c. cv_id (f c) = cv_id c" "\<And>c. cv_status (f c) = nxt" "\<And>c. cv_attempts (f c) \<le> cv_attempts c"
  shows "cov_moved m D (set_item (cv_id row) f D1)"
    and "j \<noteq> cv_id row \<Longrightarrow> item_of j (set_item (cv_id row) f D1) = item_of j D"
proof -
  note same = put_event_Inr [OF ev]
  have item: "item_of k D1 = item_of k D" for k by (simp add: item_of_def same)
  show "item_of j (set_item (cv_id row) f D1) = item_of j D" if "j \<noteq> cv_id row"
    using that by (simp add: item_of_set_item f item)
  have state: "cov_state (set_item (cv_id row) f D1) = (cov_state D)(cv_id row \<mapsto> nxt)"
    using cur by (auto simp: fun_eq_iff cov_state_def item_of_set_item f item)
  have log: "cov_log (set_item (cv_id row) f D1) = cov_log D @ [(cv_id row, cv_status row, nxt)]"
    using same(2) by (simp add: cov_log_def set_item_def)
  have ids: "map cv_id (cb_items (set_item (cv_id row) f D1)) = map cv_id (cb_items D)"
    by (simp add: set_item_def map_update_where f same)
  have "cv_attempts c \<le> m" if "\<forall>c\<in>set (cb_items D). cv_attempts c \<le> m"
    "c \<in> set (cb_items (set_item (cv_id row) f D1))" for c
    using that f(3) by (auto simp: set_item_def in_update_where same split: if_splits intro: order_trans)
  with assms(3) cur state log ids show "cov_moved m D (set_item (cv_id row) f D1)"
    unfolding cov_moved_def by (intro conjI exI [of _ "[(cv_id row, cv_status row, nxt)]"]) auto
qed

lemma transition_Inr:
  assumes "transition_coverage ts i nxt reason run task finding D = Inr D'"
  obtains row D1 f where "item_of i D = Some row" "cv_id row = i" "nxt \<in> cov_transitions (cv_status row)"
    "\<not> is_blank reason"
    "put_event row nxt reason run task D = Inr D1" "D' = set_item i f D1"
    "\<And>c. cv_id (f c) = cv_id c" "\<And>c. cv_status (f c) = nxt" "\<And>c. cv_attempts (f c) = cv_attempts c"
proof -
  let ?f = "\<lambda>c. c\<lparr>cv_status := nxt, cv_reason := Some reason,
              cv_run := coalesce run (cv_run c), cv_task := coalesce task (cv_task c),
              cv_finding := coalesce finding (cv_finding c), cv_updated := ts\<rparr>"
  from assms obtain row where row: "item_of i D = Some row"
    by (auto simp: transition_coverage_def split: option.splits)
  with assms obtain D1 where "nxt \<in> cov_transitions (cv_status row)" "\<not> is_blank reason"
    "put_event row nxt reason run task D = Inr D1" "D' = set_item i ?f D1"
    by (auto simp: transition_coverage_def bindR_eq_Inr split: if_splits)
  moreover have "cv_id row = i" using row by (auto simp: item_of_def dest: find_row_Some)
  ultimately show thesis using row by (intro that [of row D1 ?f]) simp_all
qed

lemma transition_moved:
  assumes "transition_coverage ts i nxt reason run task finding D = Inr D'"
  shows "cov_moved m D D'" and "j \<noteq> i \<Longrightarrow> item_of j D' = item_of j D"
    and "cov_state D' i = Some nxt"
proof -
  from assms have "cov_moved m D D' \<and> (j \<noteq> i \<longrightarrow> item_of j D' = item_of j D) \<and> cov_state D' i = Some nxt"
  proof (rule transition_Inr)
    fix row D1 f
    assume row: "item_of i D = Some row" "cv_id row = i" and ok: "nxt \<in> cov_transitions (cv_status row)"
      and ev: "put_event row nxt reason run task D = Inr D1" and D': "D' = set_item i f D1"
      and f: "\<And>c. cv_id (f c) = cv_id c" "\<And>c. cv_status (f c) = nxt" "\<And>c. cv_attempts (f c) = cv_attempts c"
    have cur: "cov_state D (cv_id row) = Some (cv_status row)" by (simp add: cov_state_def row)
    have allowed: "cov_allowed (cv_id row) (cv_status row) nxt" using ok by (simp add: cov_allowed_def)
    have le: "cv_attempts (f c) \<le> cv_attempts c" for c by (simp add: f(3))
    note move = cov_moved_once [OF ev cur allowed f(1,2) le, unfolded row(2), folded D']
    have "item_of i D1 = item_of i D" by (simp add: item_of_def put_event_Inr(1) [OF ev])
    then have "cov_state D' i = Some nxt"
      by (simp add: D' cov_state_def item_of_set_item f row)
    with move show ?thesis by blast
  qed
  then show "cov_moved m D D'" "j \<noteq> i \<Longrightarrow> item_of j D' = item_of j D" "cov_state D' i = Some nxt"
    by blast+
qed

section \<open>Loops over selected rows\<close>

text \<open>A loop whose body moves only the item of its row, from the status it was selected with.\<close>

lemma fold_snapshot:
  assumes "foldR f rows s = Inr s'" and "distinct (map cv_id rows)"
    and "\<forall>c\<in>set rows. item_of (cv_id c) (g s) = Some c"
    and body: "\<And>c s s'. c \<in> set rows \<Longrightarrow> f c s = Inr s' \<Longrightarrow> item_of (cv_id c) (g s) = Some c \<Longrightarrow>
      cov_moved m (g s) (g s') \<and> (\<forall>j. j \<noteq> cv_id c \<longrightarrow> item_of j (g s') = item_of j (g s))"
  shows "cov_moved m (g s) (g s')
    \<and> (\<forall>j. j \<notin> cv_id ` set rows \<longrightarrow> item_of j (g s') = item_of j (g s))"
  using assms
proof (induction rows arbitrary: s)
  case (Cons c rows)
  then obtain t where one: "f c s = Inr t" and rest: "foldR f rows t = Inr s'"
    by (auto elim: bindR_InrE)
  have step: "cov_moved m (g s) (g t)" "\<forall>j. j \<noteq> cv_id c \<longrightarrow> item_of j (g t) = item_of j (g s)"
    using Cons.prems(4) [OF _ one] Cons.prems(3) by auto
  have "cv_id c \<notin> cv_id ` set rows" using Cons.prems(2) by simp
  then have keep: "\<forall>k\<in>set rows. item_of (cv_id k) (g t) = Some k"
    using step(2) Cons.prems(3) by (metis image_eqI list.set_intros(2))
  have "cov_moved m (g t) (g s')
    \<and> (\<forall>j. j \<notin> cv_id ` set rows \<longrightarrow> item_of j (g s') = item_of j (g t))"
    by (rule Cons.IH [OF rest _ keep]) (use Cons.prems in auto)
  with step cov_moved_trans show ?case by auto
qed simp

lemma fold_moves:
  assumes "foldR f rows s = Inr s'"
    and "\<And>c s s'. c \<in> set rows \<Longrightarrow> f c s = Inr s' \<Longrightarrow> cov_moved m (g s) (g s')"
  shows "cov_moved m (g s) (g s')"
  using assms
proof (induction rows arbitrary: s)
  case (Cons c rows)
  then obtain t where one: "f c s = Inr t" and rest: "foldR f rows t = Inr s'"
    by (auto elim: bindR_InrE)
  have "cov_moved m (g s) (g t)" by (rule Cons.prems(2) [OF _ one]) simp
  moreover have "cov_moved m (g t) (g s')"
    by (rule Cons.IH [OF rest]) (rule Cons.prems(2), simp_all)
  ultimately show ?case by (rule cov_moved_trans)
qed simp

lemma selected_rows:
  assumes "distinct (map cv_id (cb_items D))"
  shows "distinct (map cv_id (select_items p D))"
    and "c \<in> set (select_items p D) \<Longrightarrow> item_of (cv_id c) D = Some c"
  using assms find_row_unique [OF assms]
  by (auto simp: select_items_def item_of_def distinct_map_filter)

lemma requeue_row_moved:
  assumes "requeue_row ts reason n run task c D = Inr D'" and "item_of (cv_id c) D = Some c"
    and "cv_status c \<notin> {CPending, CCandidate, CConfirmed}" and "\<And>k. n k \<le> k"
  shows "cov_moved m D D' \<and> (\<forall>j. j \<noteq> cv_id c \<longrightarrow> item_of j D' = item_of j D)"
proof -
  let ?f = "\<lambda>c. c\<lparr>cv_status := CPending, cv_reason := Some reason,
         cv_attempts := n (cv_attempts c), cv_run := None, cv_task := None, cv_updated := ts\<rparr>"
  from assms(1) obtain D1 where ev: "put_event c CPending reason (run c) (task c) D = Inr D1"
    and D': "D' = set_item (cv_id c) ?f D1"
    by (auto simp: requeue_row_def bindR_eq_Inr)
  have "cov_state D (cv_id c) = Some (cv_status c)" by (simp add: cov_state_def assms(2))
  moreover have "cov_allowed (cv_id c) (cv_status c) CPending" using assms(3) by (simp add: cov_allowed_def)
  ultimately show ?thesis
    unfolding D'
    using cov_moved_once(1) [OF ev, where f = ?f and m = m] cov_moved_once(2) [OF ev, where f = ?f] assms(4)
    by simp
qed

lemma requeue_fold_moved:
  assumes "foldR (requeue_row ts reason n run task) (select_items p D) D = Inr D'"
    and "distinct (map cv_id (cb_items D))"
    and "\<And>c. p c \<Longrightarrow> cv_status c \<notin> {CPending, CCandidate, CConfirmed}" and "\<And>k. n k \<le> k"
  shows "cov_moved m D D'"
proof -
  have "cov_moved m (id D) (id D')
      \<and> (\<forall>j. j \<notin> cv_id ` set (select_items p D) \<longrightarrow> item_of j (id D') = item_of j (id D))"
  proof (rule fold_snapshot [OF assms(1)])
    show "distinct (map cv_id (select_items p D))" by (rule selected_rows(1) [OF assms(2)])
    show "\<forall>c\<in>set (select_items p D). item_of (cv_id c) (id D) = Some c"
      using selected_rows(2) [OF assms(2)] by simp
    show "cov_moved m (id s) (id s') \<and> (\<forall>j. j \<noteq> cv_id c \<longrightarrow> item_of j (id s') = item_of j (id s))"
      if "c \<in> set (select_items p D)" "requeue_row ts reason n run task c s = Inr s'"
        "item_of (cv_id c) (id s) = Some c" for c s s'
    proof -
      have "cv_status c \<notin> {CPending, CCandidate, CConfirmed}"
        using that(1) assms(3) by (auto simp: select_items_def)
      from requeue_row_moved [OF that(2) _ this assms(4)] that(3) show ?thesis by simp
    qed
  qed
  then show ?thesis by simp
qed

lemma transition_fold_moved:
  assumes "foldR f rows D = Inr D'"
    and "\<And>c D D'. f c D = Inr D' \<Longrightarrow> D' = D \<or>
      (\<exists>ts i nxt reason run task finding. transition_coverage ts i nxt reason run task finding D = Inr D')"
  shows "cov_moved m D D'"
proof -
  have "cov_moved m (id D) (id D')"
    by (rule fold_moves [OF assms(1)]) (use assms(2) transition_moved(1) in fastforce)
  then show ?thesis by simp
qed

lemma bump_moved:
  assumes "distinct (map cv_id (cb_items D))" and "item_of i D = Some r" and "cv_attempts r < m"
    and f: "\<And>c. cv_id (f c) = cv_id c" "\<And>c. cv_status (f c) = cv_status c"
      "\<And>c. cv_attempts (f c) = Suc (cv_attempts c)"
  shows "cov_moved m D (set_item i f D)"
proof -
  have "c = r" if "c \<in> set (cb_items D)" "cv_id c = i" for c
    using find_row_unique [OF assms(1) that(1)] assms(2) that(2) by (simp add: item_of_def)
  then have "\<forall>c\<in>set (cb_items (set_item i f D)). cv_attempts c \<le> m"
    if "\<forall>c\<in>set (cb_items D). cv_attempts c \<le> m"
    using that assms(3) by (auto simp: set_item_def in_update_where f Suc_le_eq split: if_splits)
  moreover have "cov_state (set_item i f D) = cov_state D"
    using assms(2) by (auto simp: fun_eq_iff cov_state_def item_of_set_item f)
  moreover have "cov_log (set_item i f D) = cov_log D" by (simp add: set_item_def cov_log_def)
  moreover have "map cv_id (cb_items (set_item i f D)) = map cv_id (cb_items D)"
    by (simp add: set_item_def map_update_where f)
  ultimately show ?thesis unfolding cov_moved_def by (intro conjI exI [of _ "[]"]) auto
qed

lemma claim_row_Inr:
  assumes "claim_row E usable X fresh ts scan run c (D, claimed) = Inr (D', claimed')"
  shows "(D' = D \<and> claimed' = claimed) \<or> (\<exists>P D1. transition_coverage ts (cv_id c) CRunning
      ''scheduled in exhaustive batch'' (Some run) (Some (fresh (cv_id c))) None (D\<lparr>cb_pipe := P\<rparr>) = Inr D1
    \<and> D' = set_item (cv_id c) (\<lambda>k. k\<lparr>cv_attempts := cv_attempts k + 1, cv_run := Some run,
                 cv_task := Some (fresh (cv_id c)), cv_updated := ts\<rparr>) D1)"
  using assms unfolding claim_row_def
  by (auto simp: bindR_eq_Inr claim_lease_def split: option.splits prod.splits)

lemma pipe_only [simp]:
  "item_of i (D\<lparr>cb_pipe := P\<rparr>) = item_of i D" "cov_moved m (D\<lparr>cb_pipe := P\<rparr>) D' = cov_moved m D D'"
  by (simp_all add: item_of_def cov_moved_def cov_log_def cov_state_def)

lemma claim_row_moved:
  assumes "claim_row E usable X fresh ts scan run c (D, claimed) = Inr (D', claimed')"
    and "distinct (map cv_id (cb_items D))" and "item_of (cv_id c) D = Some c" and "cv_attempts c < m"
  shows "cov_moved m D D'" and "j \<noteq> cv_id c \<Longrightarrow> item_of j D' = item_of j D"
proof -
  from claim_row_Inr [OF assms(1)]
  have "cov_moved m D D' \<and> (j \<noteq> cv_id c \<longrightarrow> item_of j D' = item_of j D)"
  proof
    assume "\<exists>P D1. transition_coverage ts (cv_id c) CRunning
      ''scheduled in exhaustive batch'' (Some run) (Some (fresh (cv_id c))) None (D\<lparr>cb_pipe := P\<rparr>) = Inr D1
    \<and> D' = set_item (cv_id c) (\<lambda>k. k\<lparr>cv_attempts := cv_attempts k + 1, cv_run := Some run,
                 cv_task := Some (fresh (cv_id c)), cv_updated := ts\<rparr>) D1"
    then obtain P D1 where tr: "transition_coverage ts (cv_id c) CRunning
      ''scheduled in exhaustive batch'' (Some run) (Some (fresh (cv_id c))) None (D\<lparr>cb_pipe := P\<rparr>) = Inr D1"
      and D': "D' = set_item (cv_id c) (\<lambda>k. k\<lparr>cv_attempts := cv_attempts k + 1, cv_run := Some run,
                 cv_task := Some (fresh (cv_id c)), cv_updated := ts\<rparr>) D1" by blast
    have m1: "cov_moved m D D1" using transition_moved(1) [OF tr, of m] by simp
    have others: "item_of j D1 = item_of j D" if "j \<noteq> cv_id c" for j
      using transition_moved(2) [OF tr that] by simp
    have "distinct (map cv_id (cb_items D1))" using m1 assms(2) by (simp add: cov_moved_def)
    moreover obtain r where "item_of (cv_id c) D1 = Some r" "cv_attempts r = cv_attempts c"
    proof (rule transition_Inr [OF tr])
      fix row D2 f
      assume "put_event row CRunning ''scheduled in exhaustive batch'' (Some run) (Some (fresh (cv_id c)))
          (D\<lparr>cb_pipe := P\<rparr>) = Inr D2"
        and D1: "D1 = set_item (cv_id c) f D2" and f: "\<And>c. cv_id (f c) = cv_id c" "\<And>c. cv_attempts (f c) = cv_attempts c"
      then have "item_of (cv_id c) D1 = Some (f c)"
        using assms(3) by (simp add: item_of_set_item) (simp add: item_of_def put_event_Inr(1))
      then show thesis by (rule that) (simp add: f)
    qed
    ultimately have "cov_moved m D1 D'"
      unfolding D' using assms(4) by (intro bump_moved [where r = r]) simp_all
    with m1 others show ?thesis by (auto intro: cov_moved_trans simp: D' item_of_set_item)
  qed simp
  then show "cov_moved m D D'" "j \<noteq> cv_id c \<Longrightarrow> item_of j D' = item_of j D" by blast+
qed

lemma block_moved:
  "block_unavailable_authenticated_coverage E usable ts scan run D = Inr D' \<Longrightarrow> cov_moved m D D'"
  unfolding block_unavailable_authenticated_coverage_def
  by (erule transition_fold_moved) (auto simp: bindR_eq_Inr split: option.splits if_splits)

lemma oversized_moved:
  assumes "requeue_oversized_policy_refusals ts scan batch shown D = Inr D'"
    and "distinct (map cv_id (cb_items D))"
  shows "cov_moved m D D'"
proof -
  from assms(1) show ?thesis
    unfolding requeue_oversized_policy_refusals_def
    by (cases "batch < 1 \<or> 50 < batch"; simp only: if_True if_False; (simp; fail)?)
      (erule requeue_fold_moved [OF _ assms(2)], auto)
qed

lemma set_take_sort: "set (take n (sort_key k xs)) \<subseteq> set xs"
  by (metis set_sort set_take_subset)

lemma claim_fold_moved:
  assumes "foldR (claim_row E usable X fresh ts scan run) rows (D, claimed) = Inr (D', claimed')"
    and "distinct (map cv_id (cb_items D))" and "distinct (map cv_id rows)"
    and "\<forall>c\<in>set rows. item_of (cv_id c) D = Some c" and "\<forall>c\<in>set rows. cv_attempts c < m"
  shows "cov_moved m D D'"
  using assms
proof (induction rows arbitrary: D claimed)
  case (Cons c rows)
  then obtain D1 cl1 where one: "claim_row E usable X fresh ts scan run c (D, claimed) = Inr (D1, cl1)"
    and rest: "foldR (claim_row E usable X fresh ts scan run) rows (D1, cl1) = Inr (D', claimed')"
    by (auto elim: bindR_InrE)
  have item: "item_of (cv_id c) D = Some c" "cv_attempts c < m" using Cons.prems(4,5) by auto
  have m1: "cov_moved m D D1" by (rule claim_row_moved(1) [OF one Cons.prems(2) item])
  have others: "item_of j D1 = item_of j D" if "j \<noteq> cv_id c" for j
    by (rule claim_row_moved(2) [OF one Cons.prems(2) item that])
  have "cv_id c \<notin> cv_id ` set rows" using Cons.prems(3) by simp
  then have keep: "\<forall>k\<in>set rows. item_of (cv_id k) D1 = Some k"
    using others Cons.prems(4) by (metis image_eqI list.set_intros(2))
  have "cov_moved m D1 D'"
    by (rule Cons.IH [OF rest _ _ keep]) (use m1 Cons.prems in \<open>auto simp: cov_moved_def\<close>)
  with m1 show ?case by (rule cov_moved_trans)
qed simp

lemma claim_batch_Inr:
  assumes "claim_coverage_batch E usable X fresh ts scan run batch shown m wanted D = Inr (D', claimed)"
  obtains D1 D2 n and k :: "cov_item \<Rightarrow> nat list \<times> string \<times> string \<times> string" where "1 \<le> batch" "batch \<le> 50"
    "block_unavailable_authenticated_coverage E usable ts scan run D = Inr D1"
    "requeue_oversized_policy_refusals ts scan batch shown D1 = Inr D2"
    "n = 1 \<or> n = nat batch"
    "foldR (claim_row E usable X fresh ts scan run)
       (take n (sort_key k (select_items (claimable scan m D2) D2))) (D2, []) = Inr (D', claimed)"
proof -
  from assms have batch: "1 \<le> batch" "batch \<le> 50"
    by (auto simp: claim_coverage_batch_def split: if_splits)
  from assms batch obtain D1 D2 where
    b: "block_unavailable_authenticated_coverage E usable ts scan run D = Inr D1"
    and o': "requeue_oversized_policy_refusals ts scan batch shown D1 = Inr D2"
    unfolding claim_coverage_batch_def by (auto elim!: bindR_InrE split: if_splits)
  define n where "n = (if \<exists>c\<in>set (cb_items D2). cv_scan c = scan \<and> cv_status c = CErrorRetryable
      \<and> cv_attempts c < m then 1 else nat batch)"
  define k where "k = claim_key X D2 (take (nat batch) (dedupe (filter (\<lambda>w. \<not> is_blank w) wanted)))
      (select_items (claimable scan m D2) D2)"
  have fold: "foldR (claim_row E usable X fresh ts scan run)
       (take n (sort_key k (select_items (claimable scan m D2) D2))) (D2, []) = Inr (D', claimed)"
    using assms batch b o' unfolding claim_coverage_batch_def claim_rows_def Let_def n_def k_def by simp
  have n: "n = 1 \<or> n = nat batch" by (simp add: n_def)
  show thesis by (rule that [OF batch b o' n fold])
qed

lemma claim_moved:
  assumes "claim_coverage_batch E usable X fresh ts scan run batch shown m wanted D = Inr (D', claimed)"
    and dist: "distinct (map cv_id (cb_items D))"
  shows "cov_moved m D D'"
  using assms(1)
proof (rule claim_batch_Inr)
  fix D1 D2 n k
  let ?rows = "take n (sort_key k (select_items (claimable scan m D2) D2))"
  assume b: "block_unavailable_authenticated_coverage E usable ts scan run D = Inr D1"
    and o': "requeue_oversized_policy_refusals ts scan batch shown D1 = Inr D2"
    and fold: "foldR (claim_row E usable X fresh ts scan run) ?rows (D2, []) = Inr (D', claimed)"
  have m1: "cov_moved m D D1" by (rule block_moved [OF b])
  then have d1: "distinct (map cv_id (cb_items D1))" using dist by (simp add: cov_moved_def)
  have m2: "cov_moved m D1 D2" by (rule oversized_moved [OF o' d1])
  then have d2: "distinct (map cv_id (cb_items D2))" using d1 by (simp add: cov_moved_def)
  have sub: "set ?rows \<subseteq> set (select_items (claimable scan m D2) D2)" by (rule set_take_sort)
  have "distinct (map cv_id (sort_key k (select_items (claimable scan m D2) D2)))"
    using selected_rows(1) [OF d2] by (simp add: distinct_map)
  then have "distinct (map cv_id ?rows)" by (metis distinct_take take_map)
  moreover have "\<forall>c\<in>set ?rows. item_of (cv_id c) D2 = Some c"
    using sub selected_rows(2) [OF d2] by blast
  moreover have "\<forall>c\<in>set ?rows. cv_attempts c < m"
    using sub by (auto simp: select_items_def claimable_def)
  ultimately have "cov_moved m D2 D'" by (rule claim_fold_moved [OF fold d2])
  with m1 m2 show ?thesis by (meson cov_moved_trans)
qed

lemma cov_step_moved:
  assumes "cov_step V x D = Inr D'" and "cov_ok (ce_max V) D"
  shows "cov_moved (ce_max V) D D'"
proof -
  have dist: "distinct (map cv_id (cb_items D))" using assms(2) by (simp add: cov_ok_def)
  note requeue = requeue_fold_moved [OF _ dist]
  show ?thesis
  proof (cases x)
    case (VTransition ts i nxt reason run task finding)
    with assms(1) show ?thesis by (auto intro: transition_moved)
  next
    case (VOrphaned ts scan)
    with assms(1) show ?thesis by (auto simp: requeue_orphaned_running_coverage_def intro: requeue)
  next
    case (VRelease ts run reason)
    with assms(1) show ?thesis by (auto simp: release_unattempted_coverage_def intro: requeue)
  next
    case (VTransient ts scan)
    with assms(1) show ?thesis by (auto simp: requeue_transient_model_failures_def intro: requeue)
  next
    case (VOversized ts scan batch)
    with assms(1) oversized_moved [OF _ dist] show ?thesis by simp
  next
    case (VDurable ts scan)
    with assms(1) show ?thesis by (auto simp: requeue_durable_remote_read_only_failures_def intro: requeue)
  next
    case (VBlackBox ts scan)
    with assms(1) show ?thesis by (auto simp: requeue_black_box_source_disclosure_coverage_def intro: requeue)
  next
    case (VInterrupted ts run reason)
    with assms(1) show ?thesis by (auto simp: requeue_interrupted_coverage_def intro: requeue)
  next
    case (VRequeue ts scan statuses reason)
    let ?sel = "{s. s \<in> set (map strip statuses) \<and> s \<noteq> []}"
    from assms(1) VRequeue have "requeue_coverage ts scan statuses reason D = Inr D'" by simp
    then have sub: "?sel \<subseteq> cov_name ` (cov_terminal - {CConfirmed, CCandidate})"
      and fold: "foldR (requeue_row ts reason (\<lambda>_. 0) (\<lambda>_. None) (\<lambda>_. None))
           (select_items (\<lambda>c. cv_scan c = scan \<and> cov_name (cv_status c) \<in> ?sel) D) D = Inr D'"
      unfolding requeue_coverage_def Let_def by (simp_all only: split: if_splits) simp_all
    have "cv_status c \<notin> {CPending, CCandidate, CConfirmed}" if sel: "cov_name (cv_status c) \<in> ?sel" for c
    proof -
      obtain s where "s \<in> cov_terminal - {CConfirmed, CCandidate}" "cov_name (cv_status c) = cov_name s"
        using sub sel by blast
      then show ?thesis by (cases "cv_status c"; cases s) (auto simp: cov_terminal_def)
    qed
    then show ?thesis by (intro requeue [OF fold]) auto
  next
    case (VReclassify ts scan)
    with assms(1) show ?thesis
      by (auto simp: reclassify_misclassified_auth_blockers_def intro!: transition_fold_moved)
  next
    case (VCredentials ts scan)
    with assms(1) show ?thesis
      by (auto simp: requeue_credential_blocked_coverage_def bindR_eq_Inr elim!: transition_fold_moved
          split: option.splits if_splits)
  next
    case (VUnreplayable ts scan)
    with assms(1) show ?thesis
      by (auto simp: requeue_unreplayable_candidates_def intro!: transition_fold_moved)
  next
    case (VReconcile ts run limit)
    with assms(1) show ?thesis
      by (auto simp: reconcile_coverage_batch_def reconcile_row_def elim!: transition_fold_moved
          split: option.splits prod.splits)
  next
    case (VFail ts run reason limit)
    with assms(1) show ?thesis
      by (auto simp: fail_running_coverage_def intro!: transition_fold_moved)
  next
    case (VRefresh ts scan)
    with assms(1) show ?thesis
      by (auto simp: refresh_confirmed_coverage_def bindR_eq_Inr
          intro!: cov_moved_trans [OF transition_fold_moved transition_fold_moved])
  next
    case (VClaim fresh ts scan run batch wanted)
    with assms(1) claim_moved [OF _ dist] show ?thesis by (auto simp: bindR_eq_Inr)
  qed
qed

lemma cov_moved_ok: "cov_moved m D D' \<Longrightarrow> cov_ok m D \<Longrightarrow> cov_ok m D'"
  by (simp add: cov_moved_def cov_ok_def)

interpretation coverage: audited_machine "cov_step V" "cov_ok (ce_max V)" cov_state cov_log cov_allowed
proof
  show "cov_ok (ce_max V) t" if "cov_step V x s = Inr t" "cov_ok (ce_max V) s" for x s t
    by (rule cov_moved_ok [OF cov_step_moved [OF that] that(2)])
  show "\<exists>es. cov_log t = cov_log s @ es \<and> (\<forall>(i, p, n)\<in>set es. cov_allowed i p n)
      \<and> (\<forall>i p. cov_state s i = Some p \<longrightarrow> chained i p es \<and> cov_state t i = Some (replay i p es))"
    if "cov_step V x s = Inr t" "cov_ok (ce_max V) s" for x s t
    using cov_step_moved [OF that] unfolding cov_moved_def by blast
qed

section \<open>What a reconciled batch leaves behind\<close>

lemma skipped_not_running: "skipped_status reason \<noteq> CRunning"
  by (simp add: skipped_status_def Let_def)

lemma verdict_not_running: "fst (batch_verdict D run limit c t hyp) \<noteq> CRunning"
  unfolding batch_verdict_def Let_def
  by (simp add: skipped_not_running split: list.split prod.split bool.split)

lemma reconcile_row_effect:
  assumes "reconcile_row ts run limit c D = Inr D'"
    and "task_of D c \<noteq> None" "map_of (cb_annotations D) (cv_annotation c) \<noteq> None" "endpoint_of D c \<noteq> None"
  shows "\<exists>n. cov_state D' (cv_id c) = Some n \<and> n \<noteq> CRunning"
    and "j \<noteq> cv_id c \<Longrightarrow> item_of j D' = item_of j D"
    and "cb_pipe D' = cb_pipe D \<and> cb_annotations D' = cb_annotations D \<and> cb_endpoints D' = cb_endpoints D"
proof -
  from assms(2-4) obtain t category e where
    joined: "task_of D c = Some t" "map_of (cb_annotations D) (cv_annotation c) = Some category"
      "endpoint_of D c = Some e" by blast
  obtain nxt reason finding where
    v: "batch_verdict D run limit c t (category = ''attack_hypothesis'') = (nxt, reason, finding)"
    by (cases "batch_verdict D run limit c t (category = ''attack_hypothesis'')")
  have tr: "transition_coverage ts (cv_id c) nxt reason (Some run) (cv_task c) finding D = Inr D'"
    using assms(1) by (simp add: reconcile_row_def joined v)
  have "nxt \<noteq> CRunning" using verdict_not_running [of D run limit c t "category = ''attack_hypothesis''"] v by simp
  with transition_moved(3) [OF tr] show "\<exists>n. cov_state D' (cv_id c) = Some n \<and> n \<noteq> CRunning" by blast
  show "item_of j D' = item_of j D" if "j \<noteq> cv_id c" by (rule transition_moved(2) [OF tr that])
  show "cb_pipe D' = cb_pipe D \<and> cb_annotations D' = cb_annotations D \<and> cb_endpoints D' = cb_endpoints D"
    using tr by (auto simp: transition_coverage_def put_event_def set_item_def bindR_eq_Inr
        split: option.splits if_splits)
qed

definition joinable :: "cov_db \<Rightarrow> cov_item \<Rightarrow> bool" where
  "joinable D c \<longleftrightarrow> task_of D c \<noteq> None \<and> map_of (cb_annotations D) (cv_annotation c) \<noteq> None
     \<and> endpoint_of D c \<noteq> None"

lemma reconcile_fold_effect:
  assumes "foldR (reconcile_row ts run limit) rows D = Inr D'" and "distinct (map cv_id rows)"
    and "\<forall>c\<in>set rows. joinable D c"
  shows "(\<forall>c\<in>set rows. \<exists>n. cov_state D' (cv_id c) = Some n \<and> n \<noteq> CRunning)
    \<and> (\<forall>j. j \<notin> cv_id ` set rows \<longrightarrow> item_of j D' = item_of j D)"
  using assms
proof (induction rows arbitrary: D)
  case (Cons c rows)
  then obtain D1 where one: "reconcile_row ts run limit c D = Inr D1"
    and rest: "foldR (reconcile_row ts run limit) rows D1 = Inr D'"
    by (auto elim: bindR_InrE)
  have "task_of D c \<noteq> None" "map_of (cb_annotations D) (cv_annotation c) \<noteq> None" "endpoint_of D c \<noteq> None"
    using Cons.prems(3) by (simp_all add: joinable_def)
  note eff = reconcile_row_effect [OF one this]
  have "\<forall>k\<in>set rows. joinable D1 k"
    using Cons.prems(3) eff(3) by (simp add: joinable_def task_of_def endpoint_of_def)
  with Cons.IH [OF rest] Cons.prems(2) have IH:
    "\<forall>c\<in>set rows. \<exists>n. cov_state D' (cv_id c) = Some n \<and> n \<noteq> CRunning"
    "\<forall>j. j \<notin> cv_id ` set rows \<longrightarrow> item_of j D' = item_of j D1" by simp_all
  have "cv_id c \<notin> cv_id ` set rows" using Cons.prems(2) by simp
  then have "cov_state D' (cv_id c) = cov_state D1 (cv_id c)" using IH(2) by (simp add: cov_state_def)
  with IH eff(1,2) show ?case by auto
qed simp

section \<open>Properties\<close>

definition sample_item :: "string \<Rightarrow> cov_status \<Rightarrow> cov_item" where
  "sample_item i s = \<lparr>cv_id = i, cv_scan = ''s'', cv_endpoint = ''e'', cv_annotation = ''n'', cv_vuln = ''xss'',
     cv_skill = ''hunt-xss'', cv_location = ''query'', cv_param = ''q'', cv_role = ''unauthenticated'',
     cv_status = s, cv_reason = None, cv_attempts = 0, cv_run = None, cv_task = None, cv_finding = None,
     cv_updated = ''t0''\<rparr>"

definition sample_cov :: "cov_item list \<Rightarrow> cov_db" where
  "sample_cov rows = \<lparr>cb_pipe = fresh_db [''s''], cb_items = rows, cb_events = [],
     cb_endpoints = [\<lparr>ep_id = ''e'', ep_method = ''GET'', ep_path = ''/q'', ep_origin = ''http://h''\<rparr>],
     cb_annotations = [(''n'', ''parameter'')], cb_session_origins = [], cb_attempts = [], cb_requests = [],
     cb_specs = [], cb_checkpoints = [], cb_vcases = [], cb_catalog = None\<rparr>"

definition sample_env :: cov_env where
  "sample_env = \<lparr>ce_net = plain_env, ce_usable = (\<lambda>_ _. False),
     ce_context = \<lparr>cc_declared = (\<lambda>_. []), cc_historical = (\<lambda>_. False), cc_fixtures = (\<lambda>_. []),
       cc_payload = (\<lambda>_. [])\<rparr>, ce_shown = (\<lambda>_. ''n''), ce_max = 3\<rparr>"

lemma sample_cov_ok: "cov_ok (ce_max sample_env) (sample_cov [sample_item ''a'' CConfirmed, sample_item ''b'' CRunning])"
  by (simp add: cov_ok_def sample_cov_def sample_item_def sample_env_def)

text \<open>
  C16: the coverage ledger is accounted for by its event log.  From any ledger with unique items
  and attempts within the limit, after any sequence of transitions, releases, requeues, claims
  and reconciliations, the status of an item is the one its new events lead to, the events are
  chained, only added, and each is a move of the transition table or the release of a lease.
\<close>

theorem coverage_events_account_for_status:
  assumes "cov_ok (ce_max V) D" and "cov_state D i = Some p"
  shows "let new = drop (length (cov_log D)) (cov_log (run_ops (cov_step V) ops D))
    in cov_state (run_ops (cov_step V) ops D) i = Some (replay i p new) \<and> chained i p new
       \<and> take (length (cov_log D)) (cov_log (run_ops (cov_step V) ops D)) = cov_log D
       \<and> (\<forall>n m. (i, n, m) \<in> set new \<longrightarrow> cov_allowed i n m)"
  unfolding Let_def
  using coverage.run_replays [OF assms] coverage.run_chained [OF assms]
    coverage.log_append_only [OF assms(1)] coverage.run_allowed [OF assms(1)] by blast

lemma coverage_events_account_for_status_witness:
  "chained ''b'' CRunning (drop (length (cov_log (sample_cov [sample_item ''a'' CConfirmed, sample_item ''b'' CRunning])))
     (cov_log (run_ops (cov_step sample_env) [VTransition ''t'' ''b'' CErrorRetryable ''r'' None None None]
       (sample_cov [sample_item ''a'' CConfirmed, sample_item ''b'' CRunning]))))"
proof -
  have "cov_state (sample_cov [sample_item ''a'' CConfirmed, sample_item ''b'' CRunning]) ''b'' = Some CRunning"
    by (simp add: cov_state_def item_of_def find_row_def sample_cov_def sample_item_def)
  from coverage_events_account_for_status [OF sample_cov_ok this] show ?thesis
    unfolding Let_def by blast
qed

text \<open>
  The retry budget holds.  No sequence of ledger operations gives an item more attempts
  than the limit that claims respect: an item is claimed only below the limit and only once per
  batch, and nothing else raises its count.
\<close>

theorem attempts_stay_within_limit:
  assumes "cov_ok (ce_max V) D" and "c \<in> set (cb_items (run_ops (cov_step V) ops D))"
  shows "cv_attempts c \<le> ce_max V"
  using coverage.run_ok [OF assms(1), of ops] assms(2) by (simp add: cov_ok_def)

lemma attempts_stay_within_limit_witness:
  "list_all (\<lambda>c. cv_attempts c \<le> ce_max sample_env)
     (cb_items (run_ops (cov_step sample_env) [VClaim id ''t'' ''s'' ''r'' 5 []]
       (sample_cov [sample_item ''a'' CConfirmed, sample_item ''b'' CRunning])))"
  unfolding list_all_iff using attempts_stay_within_limit [OF sample_cov_ok] by blast

text \<open>
  A confirmed verdict is only taken back by Validation.  Whatever the Attack stage does, an
  item that is confirmed keeps that status as long as the sequence of operations does not move
  it to \<open>candidate\<close>: every event of a confirmed item leads to \<open>candidate\<close>.
\<close>

theorem confirmed_only_regresses_to_candidate:
  assumes "cov_ok (ce_max V) D"
    and "(i, CConfirmed, n) \<in> set (drop (length (cov_log D)) (cov_log (run_ops (cov_step V) ops D)))"
  shows "n = CCandidate"
  using coverage.run_allowed [OF assms] by (simp add: cov_allowed_def)

lemma confirmed_only_regresses_to_candidate_witness:
  "(''a'', CConfirmed, CCandidate) \<in> set (drop (length (cov_log (sample_cov [sample_item ''a'' CConfirmed, sample_item ''b'' CRunning])))
     (cov_log (run_ops (cov_step sample_env) [VTransition ''t'' ''a'' CCandidate ''r'' None None None]
       (sample_cov [sample_item ''a'' CConfirmed, sample_item ''b'' CRunning])))) \<and> CCandidate = CCandidate"
proof -
  have ev: "(''a'', CConfirmed, CCandidate) \<in> set (drop (length (cov_log (sample_cov [sample_item ''a'' CConfirmed, sample_item ''b'' CRunning])))
     (cov_log (run_ops (cov_step sample_env) [VTransition ''t'' ''a'' CCandidate ''r'' None None None]
       (sample_cov [sample_item ''a'' CConfirmed, sample_item ''b'' CRunning]))))"
    by (simp add: cov_log_def sample_cov_def sample_item_def attempt_def transition_coverage_def item_of_def
        find_row_def put_event_def sql_blank_def is_blank_iff is_space_def set_item_def Let_def)
  from confirmed_only_regresses_to_candidate [OF sample_cov_ok ev] ev show ?thesis by blast
qed

text \<open>
  Reconciling a batch releases every lease of the stage.  When \<open>reconcile_coverage_batch\<close>
  returns, no coverage item of that stage run is left running (each selected row having its
  task, annotation and endpoint), whatever the attempts, findings and tasks say.
\<close>

theorem reconcile_leaves_nothing_running:
  assumes "reconcile_coverage_batch ts run limit D = Inr D'" and "distinct (map cv_id (cb_items D))"
    and "\<forall>c\<in>set (cb_items D). cv_run c = Some run \<and> cv_status c = CRunning \<longrightarrow> joinable D c"
    and "c \<in> set (cb_items D')" and "cv_run c = Some run"
  shows "cv_status c \<noteq> CRunning"
proof -
  let ?rows = "select_items (\<lambda>c. cv_run c = Some run \<and> cv_status c = CRunning) D"
  have fold: "foldR (reconcile_row ts run limit) ?rows D = Inr D'"
    using assms(1) by (simp add: reconcile_coverage_batch_def)
  note eff = reconcile_fold_effect [OF fold selected_rows(1) [OF assms(2)]]
  have eff: "\<forall>c\<in>set ?rows. \<exists>n. cov_state D' (cv_id c) = Some n \<and> n \<noteq> CRunning"
    "\<forall>j. j \<notin> cv_id ` set ?rows \<longrightarrow> item_of j D' = item_of j D"
    using eff assms(3) by (auto simp: select_items_def)
  have "cov_moved 0 D D'"
    by (rule transition_fold_moved [OF fold]) (auto simp: reconcile_row_def split: option.splits prod.splits)
  then have "distinct (map cv_id (cb_items D'))" using assms(2) by (simp add: cov_moved_def)
  from find_row_unique [OF this assms(4)] have cur: "item_of (cv_id c) D' = Some c"
    by (simp add: item_of_def)
  show ?thesis
  proof (cases "cv_id c \<in> cv_id ` set ?rows")
    case True
    with eff(1) cur show ?thesis by (auto simp: cov_state_def)
  next
    case False
    with eff(2) cur have old: "item_of (cv_id c) D = Some c" by simp
    then have "c \<in> set (cb_items D)" by (auto simp: item_of_def dest: find_row_Some)
    with False assms(5) show ?thesis by (auto simp: select_items_def)
  qed
qed

definition reconcile_sample :: cov_db where
  "reconcile_sample = (sample_cov [sample_item ''a'' CRunning\<lparr>cv_run := Some ''r'', cv_task := Some ''k''\<rparr>])
     \<lparr>cb_pipe := (fresh_db [''s''])\<lparr>d_tasks := [\<lparr>at_id = ''k'', at_run = ''r'', at_scan = ''s'',
        at_skill = ''hunt-xss'', at_endpoint = Some ''e'', at_payload = [], at_status = JFailed,
        at_error = None, at_started = None, at_finished = None\<rparr>]\<rparr>\<rparr>"

lemma reconcile_sample_runs: "\<exists>D'. reconcile_coverage_batch ''t'' ''r'' 3 reconcile_sample = Inr D'"
  by (simp add: reconcile_sample_def sample_cov_def sample_item_def fresh_db_def reconcile_coverage_batch_def
      select_items_def reconcile_row_def task_of_def endpoint_of_def find_row_def batch_verdict_def
      batch_findings_def attempts_of_def Let_def transition_coverage_def item_of_def is_blank_iff
      is_space_def put_event_def sql_blank_def)

lemma reconcile_leaves_nothing_running_witness:
  "\<exists>D'. reconcile_coverage_batch ''t'' ''r'' 3 reconcile_sample = Inr D'
     \<and> filter (\<lambda>c. cv_run c = Some ''r'' \<and> cv_status c = CRunning) (cb_items D') = []"
proof -
  obtain D' where D': "reconcile_coverage_batch ''t'' ''r'' 3 reconcile_sample = Inr D'"
    using reconcile_sample_runs by blast
  have "distinct (map cv_id (cb_items reconcile_sample))"
    and "\<forall>c\<in>set (cb_items reconcile_sample). cv_run c = Some ''r'' \<and> cv_status c = CRunning
      \<longrightarrow> joinable reconcile_sample c"
    by (simp_all add: reconcile_sample_def sample_cov_def sample_item_def joinable_def task_of_def
        endpoint_of_def find_row_def fresh_db_def)
  from reconcile_leaves_nothing_running [OF D' this] D' show ?thesis
    unfolding filter_empty_conv by blast
qed

text \<open>
  A stored error message of blanks aborts the batch.  A running item whose task was skipped
  with a non-empty, white-space-only error message and that has no finding makes
  \<open>reconcile_coverage_batch\<close> raise at that row: the message is taken as the reason (it is
  truthy) and \<open>transition_coverage\<close> refuses a blank reason.
\<close>

theorem blank_skip_reason_raises:
  assumes "task_of D c = Some t" and "map_of (cb_annotations D) (cv_annotation c) = Some category"
    and "endpoint_of D c = Some e" and "at_status t = JSkipped"
    and "at_error t = Some msg" and "msg \<noteq> []" and "is_blank msg"
    and "batch_findings D run c (category = ''attack_hypothesis'') = []"
  shows "\<exists>err. reconcile_row ts run limit c D = Inl err"
proof -
  have "batch_verdict D run limit c t (category = ''attack_hypothesis'') = (skipped_status msg, msg, None)"
    using assms(4-8) by (simp add: batch_verdict_def truthy_def or_blank_def Let_def)
  then show ?thesis
    using assms(1-3,7) by (auto simp: reconcile_row_def transition_coverage_def split: option.split)
qed

lemma blank_skip_reason_raises_witness:
  "\<exists>err. reconcile_row ''t'' ''r'' 3 (sample_item ''a'' CRunning\<lparr>cv_task := Some ''k''\<rparr>)
     (reconcile_sample\<lparr>cb_pipe := (fresh_db [''s''])\<lparr>d_tasks := [\<lparr>at_id = ''k'', at_run = ''r'', at_scan = ''s'',
        at_skill = ''hunt-xss'', at_endpoint = Some ''e'', at_payload = [], at_status = JSkipped,
        at_error = Some '' '', at_started = None, at_finished = None\<rparr>]\<rparr>\<rparr>) = Inl err"
  by (rule blank_skip_reason_raises [where category = "''parameter''" and msg = "'' ''"])
    (simp_all add: reconcile_sample_def sample_cov_def sample_item_def task_of_def endpoint_of_def
      find_row_def fresh_db_def is_blank_iff is_space_def batch_findings_def attempts_of_def Let_def)+

text \<open>
  The reported coverage figures are consistent.  For every list of items the three
  coverage fractions are between 0 and 1, the unfinished items are the ones without a terminal
  status, and full disposition coverage means that nothing is unfinished.
\<close>

theorem coverage_summary_bounds:
  "let s = coverage_summary rows in
     0 \<le> cs_disposition s \<and> cs_disposition s \<le> 1 \<and> 0 \<le> cs_executable s \<and> cs_executable s \<le> 1
     \<and> 0 \<le> cs_validation s \<and> cs_validation s \<le> 1
     \<and> cs_unfinished s = rowcount (\<lambda>c. cv_status c \<notin> cov_terminal) rows
     \<and> (cs_disposition s = 1 \<longleftrightarrow> cs_unfinished s = 0)"
proof -
  have split: "count_status ss rows + rowcount (\<lambda>c. cv_status c \<notin> ss) rows = length rows" for ss
    unfolding count_status_def rowcount_def using sum_length_filter_compl [of "\<lambda>c. cv_status c \<in> ss" rows] by simp
  have mono: "count_status ss rows \<le> count_status ss' rows" if "ss \<subseteq> ss'" for ss ss'
    unfolding count_status_def rowcount_def using that by (induction rows) auto
  have disj: "count_status ss rows + count_status ss' rows \<le> length rows" if "ss \<inter> ss' = {}" for ss ss'
    unfolding count_status_def rowcount_def using that by (induction rows) auto
  have ratio: "0 \<le> ratio n m \<and> ratio n m \<le> 1" if "n \<le> m" for n m
    using that by (auto simp: ratio_def divide_le_eq)
  have full: "ratio n m = 1 \<longleftrightarrow> m - n = 0" if "n \<le> m" for n m
    using that by (auto simp: ratio_def)
  let ?blocked = "{CBlockedAuth, CPolicyExcluded, CUnsupported, CErrorTerminal}"
  let ?executed = "{CTestedNegative, CCandidate, CConfirmed}"
  have "count_status ?executed rows \<le> length rows - count_status ?blocked rows"
    using disj [of ?executed ?blocked] by simp
  moreover have "count_status {CConfirmed} rows \<le> count_status {CCandidate, CConfirmed} rows"
    by (rule mono) simp
  moreover have "count_status cov_terminal rows \<le> length rows" using split [of cov_terminal] by simp
  moreover have "length rows - count_status cov_terminal rows = rowcount (\<lambda>c. cv_status c \<notin> cov_terminal) rows"
    using split [of cov_terminal] by simp
  ultimately show ?thesis
    unfolding coverage_summary_def Let_def using ratio full by (simp, arith)
qed

end
