(* ===== verification/Decision.thy ===== *)
theory Decision
  imports Prelude
begin

text \<open>
  The pure core of Validation: \<open>src/src/aidast/validation/core/decision.py\<close>,
  \<open>core/matching.py\<close> (known duplicates), the audit part of \<open>core/profile_evidence.py\<close>, the
  strict contracts of \<open>contracts/models.py\<close> that the decision relies on (each contract is a
  record and the predicate that its pydantic validators enforce), the commit-and-reveal object
  \<open>StagedBlindCase\<close>, and the way \<open>orchestration/coordinator.py\<close> assembles a decision from an
  assessment and the stored observations.
\<close>

section \<open>Impact\<close>

datatype severity = SevInfo | SevLow | SevMedium | SevHigh | SevCritical

record impact =
  im_boundary :: int
  im_sensitivity :: int
  im_actor :: int
  im_score :: int
  im_severity :: severity
  im_underpowered :: bool

definition severity_of :: "int \<Rightarrow> severity" where
  "severity_of score = (if score \<le> 2 then SevInfo else if score \<le> 4 then SevLow
     else if score \<le> 6 then SevMedium else if score \<le> 8 then SevHigh else SevCritical)"

fun severity_rank :: "severity \<Rightarrow> nat" where
  "severity_rank SevInfo = 0"
| "severity_rank SevLow = 1"
| "severity_rank SevMedium = 2"
| "severity_rank SevHigh = 3"
| "severity_rank SevCritical = 4"

definition evaluate_impact :: "int \<Rightarrow> int \<Rightarrow> int \<Rightarrow> bool \<Rightarrow> (string, impact) result" where
  "evaluate_impact b s a zero_ok =
     (if \<exists>v\<in>{b, s, a}. v < 0 \<or> 3 < v
      then Inl ''impact axes must be integers from zero through three''
      else let score = b + s + a
           in Inr \<lparr>im_boundary = b, im_sensitivity = s, im_actor = a, im_score = score,
                im_severity = severity_of score,
                im_underpowered = (b = 0 \<or> score < 3 \<or> (s = 0 \<and> \<not> zero_ok))\<rparr>)"

section \<open>The decision engine\<close>

datatype outcome = Observed | NotObserved | Blocked | ErrorOutcome | OutcomeUnknown

datatype verdict = Confirmed | Disproven | OutOfScope | Known | Underpowered | BlockedCase
  | Inconclusive | Contested | Developing

record decision_input =
  di_integrity_ok :: bool
  di_known :: bool
  di_policy_allowed :: bool
  di_non_exploit :: bool
  di_topology :: bool
  di_resolvable :: bool
  di_unresolved :: bool
  di_development_used :: bool
  di_observations :: "bool list"
  di_outcomes :: "outcome list"
  di_conflict :: bool
  di_attack_evidence :: bool
  di_impact :: "impact option"

definition decide :: "decision_input \<Rightarrow> verdict" where
  "decide v =
     (if \<not> di_integrity_ok v then Inconclusive
      else if di_known v then Known
      else if \<not> di_policy_allowed v then OutOfScope
      else if di_non_exploit v \<and> di_observations v \<noteq> [] \<and> \<not> (\<exists>b\<in>set (di_observations v). b)
              \<and> length (di_outcomes v) = length (di_observations v)
              \<and> (\<forall>x\<in>set (di_outcomes v). x = NotObserved) \<and> \<not> di_resolvable v then Disproven
      else if di_unresolved v then Inconclusive
      else if di_topology v then Inconclusive
      else if di_resolvable v then (if di_development_used v then BlockedCase else Developing)
      else if di_observations v = [] then Inconclusive
      else if \<not> (\<exists>b\<in>set (di_observations v). b)
              \<or> (\<exists>x\<in>set (di_outcomes v). x \<notin> {Observed, NotObserved}) then Inconclusive
      else if di_conflict v \<and> di_attack_evidence v then Contested
      else case di_impact v of
             None \<Rightarrow> Inconclusive
           | Some i \<Rightarrow> if im_underpowered i then Underpowered else Confirmed)"

section \<open>Impact expansion\<close>

datatype gap_axis = GapBoundary | GapSensitivity | GapActor

record expansion_path =
  xp_id :: string
  xp_axis :: gap_axis
  xp_kind :: string
  xp_preconditions :: "string list"
  xp_signal :: "(string \<times> pyval) list"
  xp_actions :: "string list"
  xp_owner :: string
  xp_feasibility :: string
  xp_potential :: "(gap_axis \<times> pyval) list"

text \<open>\<open>ImpactExpansionPath.bounded_impact\<close>.\<close>

definition bounded_path :: "expansion_path \<Rightarrow> bool" where
  "bounded_path p \<longleftrightarrow> set (map fst (xp_signal p)) = {''kind''}
     \<and> (case dict_get (xp_signal p) ''kind'' of Some (PStr s) \<Rightarrow> s \<noteq> [] | _ \<Rightarrow> False)
     \<and> set (map fst (xp_potential p)) = {xp_axis p}
     \<and> (case dict_get (xp_potential p) (xp_axis p) of Some (PInt n) \<Rightarrow> 1 \<le> n \<and> n \<le> 3 | _ \<Rightarrow> False)"

record proposal =
  pr_axis :: gap_axis
  pr_path :: expansion_path
  pr_current :: int
  pr_evidence :: "string list"

fun axis_score :: "impact \<Rightarrow> gap_axis \<Rightarrow> int" where
  "axis_score i GapBoundary = im_boundary i"
| "axis_score i GapSensitivity = im_sensitivity i"
| "axis_score i GapActor = im_actor i"

definition potential_of :: "expansion_path \<Rightarrow> int" where
  "potential_of p = (case dict_get (xp_potential p) (xp_axis p) of Some (PInt n) \<Rightarrow> n | _ \<Rightarrow> 0)"

definition expands :: "impact \<Rightarrow> expansion_path \<Rightarrow> bool" where
  "expands i p \<longleftrightarrow> \<not> (1 < axis_score i (xp_axis p) \<or> potential_of p \<le> axis_score i (xp_axis p))"

fun take_proposals :: "impact \<Rightarrow> string list \<Rightarrow> nat \<Rightarrow> expansion_path list \<Rightarrow> proposal list" where
  "take_proposals i ev n [] = []"
| "take_proposals i ev n (p # ps) =
     (if \<not> expands i p then take_proposals i ev n ps
      else \<lparr>pr_axis = xp_axis p, pr_path = p, pr_current = axis_score i (xp_axis p), pr_evidence = ev\<rparr>
           # (if Suc n = 3 then [] else take_proposals i ev (Suc n) ps))"

definition analyze_gaps :: "expansion_path list \<Rightarrow> impact \<Rightarrow> string list \<Rightarrow> proposal list" where
  "analyze_gaps paths i evidence_ids =
     (let ev = dedupe evidence_ids in if ev = [] then [] else take_proposals i ev 0 paths)"

section \<open>Known duplicates\<close>

record known_candidate =
  kc_case :: string
  kc_vuln :: string
  kc_endpoint :: string
  kc_method :: string
  kc_location :: string
  kc_param :: string
  kc_roles :: "string list"
  kc_skill :: string
  kc_status :: string

definition known_key ::
  "known_candidate \<Rightarrow> string \<times> string \<times> string \<times> string \<times> string \<times> string list \<times> string" where
  "known_key k = (kc_vuln k, kc_endpoint k, upper (kc_method k), kc_location k, kc_param k,
     sort (kc_roles k), kc_skill k)"

text \<open>\<open>KnownMatcher.match\<close>; the target is given as a candidate whose case and status are not read.\<close>

definition known_match :: "known_candidate \<Rightarrow> known_candidate list \<Rightarrow> string option" where
  "known_match target candidates =
     (let matches = map kc_case (filter (\<lambda>c. kc_status c = ''CONFIRMED'' \<and> known_key c = known_key target) candidates)
      in if matches = [] then None else Some (hd (sort matches)))"

section \<open>Contracts\<close>

datatype blocker_axis = IdentityAuth | StateSetup | EncodingTransport | TimingConcurrency
  | EnvironmentTopology

record axis_claim =
  ax_score :: int
  ax_evidence :: "string list"

record assessment =
  as_case :: string
  as_blind :: string
  as_reproduced :: "bool option"
  as_signals :: "string list"
  as_targets :: "string list"
  as_evidence :: "string list"
  as_blocker :: "blocker_axis option"
  as_blocker_reason :: "string option"
  as_boundary :: axis_claim
  as_sensitivity :: axis_claim
  as_actor :: axis_claim

definition axis_ok :: "axis_claim \<Rightarrow> bool" where
  "axis_ok a \<longleftrightarrow> 0 \<le> ax_score a \<and> ax_score a \<le> 3 \<and> ax_evidence a \<noteq> []
     \<and> length (ax_evidence a) \<le> 128 \<and> distinct (ax_evidence a)"

definition assessment_ok :: "assessment \<Rightarrow> bool" where
  "assessment_ok a \<longleftrightarrow> axis_ok (as_boundary a) \<and> axis_ok (as_sensitivity a) \<and> axis_ok (as_actor a)
     \<and> length (as_signals a) \<le> 7 \<and> as_targets a \<noteq> [] \<and> length (as_targets a) \<le> 128
     \<and> length (as_evidence a) \<le> 128
     \<and> distinct (as_signals a) \<and> distinct (as_targets a) \<and> distinct (as_evidence a)
     \<and> (as_blocker a = None \<longleftrightarrow> as_blocker_reason a = None)"

datatype conflict_axis = ConflictVuln | ConflictBoundary | ConflictSensitivity

record comparison =
  cm_conflicting :: bool
  cm_axes :: "conflict_axis list"
  cm_validation :: "string list"
  cm_attack :: "string list"

definition comparison_ok :: "comparison \<Rightarrow> bool" where
  "comparison_ok c \<longleftrightarrow> (cm_conflicting c \<longleftrightarrow> cm_axes c \<noteq> []) \<and> length (cm_axes c) \<le> 3
     \<and> cm_validation c \<noteq> [] \<and> cm_attack c \<noteq> []
     \<and> distinct (cm_axes c) \<and> distinct (cm_validation c) \<and> distinct (cm_attack c)"

record observation =
  ob_target :: bool
  ob_attempt :: string
  ob_evidence :: string
  ob_outcome :: outcome
  ob_signal :: "bool option"
  ob_blocker :: "blocker_axis option"
  ob_non_exploit :: bool
  ob_policy_allowed :: bool

text \<open>\<open>ReproductionObservation.consistent_outcome\<close>.\<close>

definition observation_ok :: "observation \<Rightarrow> bool" where
  "observation_ok b \<longleftrightarrow>
     (ob_outcome b = Observed \<longrightarrow> ob_signal b = Some True)
     \<and> (ob_outcome b = NotObserved \<longrightarrow> ob_signal b = Some False)
     \<and> (ob_outcome b = OutcomeUnknown \<longrightarrow> ob_signal b = None)
     \<and> (ob_blocker b \<noteq> None \<longrightarrow> ob_outcome b = Blocked)
     \<and> (\<not> ob_policy_allowed b \<longrightarrow> ob_outcome b = Blocked)
     \<and> (ob_non_exploit b \<longrightarrow> ob_signal b = Some False \<and> ob_outcome b = NotObserved
          \<and> ob_blocker b = None \<and> ob_policy_allowed b)"

record case_snapshot =
  sn_latest :: string
  sn_decision_run :: "string option"
  sn_phase :: string
  sn_status :: "verdict option"
  sn_version :: int
  sn_digest :: "string option"

definition snapshot_ok :: "case_snapshot \<Rightarrow> bool" where
  "snapshot_ok s \<longleftrightarrow> 0 \<le> sn_version s \<and> (sn_status s = None \<longleftrightarrow> sn_digest s = None)
     \<and> (sn_phase s = ''completed'' \<longrightarrow> sn_status s \<noteq> None \<and> sn_decision_run s = Some (sn_latest s))"

section \<open>From an assessment to a verdict\<close>

definition developable :: "blocker_axis set" where
  "developable = {IdentityAuth, StateSetup, EncodingTransport, TimingConcurrency}"

definition material_conflict :: "comparison \<Rightarrow> bool" where
  "material_conflict c \<longleftrightarrow> cm_conflicting c \<and> (\<exists>x\<in>set (cm_axes c). x \<in> {ConflictVuln, ConflictBoundary})"

text \<open>
  \<open>ValidationCoordinator._run_candidate\<close> after the eligibility checks: the observations of the case, the evidence that developed
  impact hypotheses added, whether development was used and why it is unavailable.
\<close>

definition target_observations :: "observation list \<Rightarrow> observation list" where
  "target_observations obs = filter ob_target obs"

definition observed_evidence :: "observation list \<Rightarrow> string set" where
  "observed_evidence obs = set (map ob_evidence (filter (\<lambda>b. ob_target b \<and> ob_signal b = Some True) obs))"

definition axis_grounded :: "string set \<Rightarrow> axis_claim \<Rightarrow> bool" where
  "axis_grounded ev a \<longleftrightarrow> ax_score a = 0 \<or> ev \<inter> set (ax_evidence a) \<noteq> {}"

definition impact_grounded :: "string set \<Rightarrow> assessment \<Rightarrow> bool" where
  "impact_grounded ev a \<longleftrightarrow>
     (\<forall>x\<in>{as_boundary a, as_sensitivity a, as_actor a}. axis_grounded ev x)"

definition case_input ::
  "observation list \<Rightarrow> string set \<Rightarrow> assessment \<Rightarrow> comparison \<Rightarrow> bool \<Rightarrow> bool \<Rightarrow> impact \<Rightarrow> decision_input" where
  "case_input obs developed a c used unavailable i =
     (let targets = target_observations obs;
          signals = map (\<lambda>b. ob_signal b = Some True) targets;
          resolvable = (case as_blocker a of None \<Rightarrow> False | Some x \<Rightarrow> x \<in> developable)
      in \<lparr>di_integrity_ok = True, di_known = False,
          di_policy_allowed = (\<forall>b\<in>set obs. ob_policy_allowed b),
          di_non_exploit = (as_reproduced a = Some False \<and> targets \<noteq> []
             \<and> (\<forall>b\<in>set targets. ob_non_exploit b \<and> ob_outcome b = NotObserved)),
          di_topology = (as_blocker a = Some EnvironmentTopology
             \<or> (as_reproduced a = Some False \<and> (\<exists>s\<in>set signals. s))
             \<or> (as_reproduced a = None \<and> as_blocker a = None)),
          di_resolvable = (resolvable \<and> \<not> unavailable),
          di_unresolved = (resolvable \<and> unavailable),
          di_development_used = used, di_observations = signals,
          di_outcomes = map ob_outcome targets,
          di_conflict = material_conflict c, di_attack_evidence = (cm_attack c \<noteq> []),
          di_impact = (if impact_grounded (observed_evidence obs \<union> developed) a then Some i else None)\<rparr>)"

definition case_decision ::
  "observation list \<Rightarrow> string set \<Rightarrow> assessment \<Rightarrow> comparison \<Rightarrow> bool \<Rightarrow> bool \<Rightarrow> bool \<Rightarrow> bool
     \<Rightarrow> (string, verdict) result" where
  "case_decision obs developed a c used unavailable interrupted zero_ok =
     bindR (evaluate_impact (ax_score (as_boundary a)) (ax_score (as_sensitivity a))
              (ax_score (as_actor a)) zero_ok) (\<lambda>i.
       let v = decide (case_input obs developed a c used unavailable i);
           v = (if v = Developing then BlockedCase else v)
       in Inr (if interrupted then Inconclusive else v))"

section \<open>Commit and reveal\<close>

text \<open>
  \<open>StagedBlindCase\<close>: \<open>dig\<close> stands for \<open>canonical_sha256\<close> of the serialized documents.  An
  exception leaves the object as it was.
\<close>

record 'claim staged =
  st_case :: string
  st_claim :: 'claim
  st_case_digest :: string
  st_claim_digest :: string
  st_frozen :: "string option"

definition freeze_assessment ::
  "(assessment \<Rightarrow> string) \<Rightarrow> assessment \<Rightarrow> 'claim staged \<Rightarrow> (string, 'claim staged) result" where
  "freeze_assessment dig a s =
     (if st_frozen s \<noteq> None then Inl ''blind assessment is already frozen''
      else if as_case a \<noteq> st_case s then Inl ''blind assessment belongs to another case''
      else if as_blind a \<noteq> st_case_digest s then Inl ''blind case digest mismatch''
      else Inr (s\<lparr>st_frozen := Some (dig a)\<rparr>))"

definition reveal_claim ::
  "('claim \<Rightarrow> string) \<Rightarrow> 'claim \<Rightarrow> 'claim staged \<Rightarrow> (string, 'claim \<times> string \<times> string) result" where
  "reveal_claim dig current s =
     (case st_frozen s of
        None \<Rightarrow> Inl ''Attack claim is unavailable before assessment freeze''
      | Some f \<Rightarrow> if dig current \<noteq> st_claim_digest s then Inl ''Attack claim changed after staging''
                  else Inr (st_claim s, st_claim_digest s, f))"

section \<open>Auditing the replay\<close>

datatype replay_status = ReplayComplete | ReplayInconsistent

definition replay_status_of :: "string set \<Rightarrow> observation list \<Rightarrow> replay_status" where
  "replay_status_of ids obs =
     (let replay = filter (\<lambda>b. ob_target b \<and> ob_attempt b \<in> ids) obs
      in if ids = {} \<or> length replay \<noteq> card ids
            \<or> \<not> (\<exists>b\<in>set replay. ob_outcome b = Observed \<and> ob_signal b = Some True)
            \<or> (\<exists>b\<in>set replay. ob_outcome b \<notin> {Observed, NotObserved})
         then ReplayInconsistent else ReplayComplete)"

datatype axis_status = NotClaimed | ReplayNotGrounded | MissingReplayCitation | NeedsVerifiedFact

definition axis_audit :: "replay_status \<Rightarrow> string set \<Rightarrow> axis_claim \<Rightarrow> axis_status" where
  "axis_audit rs targets a =
     (if ax_score a = 0 then NotClaimed
      else if rs \<noteq> ReplayComplete then ReplayNotGrounded
      else if set (ax_evidence a) \<inter> targets = {} then MissingReplayCitation
      else NeedsVerifiedFact)"

section \<open>Properties\<close>

lemma evaluate_impact_Inr:
  assumes "evaluate_impact b s a z = Inr i"
  shows "b \<in> {0..3} \<and> s \<in> {0..3} \<and> a \<in> {0..3} \<and> im_score i = b + s + a
    \<and> im_severity i = severity_of (b + s + a) \<and> im_boundary i = b \<and> im_sensitivity i = s \<and> im_actor i = a
    \<and> (im_underpowered i \<longleftrightarrow> b = 0 \<or> b + s + a < 3 \<or> (s = 0 \<and> \<not> z))"
  using assms by (auto simp: evaluate_impact_def Let_def split: if_splits)

lemma severity_mono: "m \<le> n \<Longrightarrow> severity_rank (severity_of m) \<le> severity_rank (severity_of n)"
  by (simp add: severity_of_def)

lemma decide_Disproven:
  "decide v = Disproven \<longleftrightarrow> di_integrity_ok v \<and> \<not> di_known v \<and> di_policy_allowed v \<and> di_non_exploit v
     \<and> di_observations v \<noteq> [] \<and> (\<forall>b\<in>set (di_observations v). \<not> b)
     \<and> length (di_outcomes v) = length (di_observations v)
     \<and> (\<forall>x\<in>set (di_outcomes v). x = NotObserved) \<and> \<not> di_resolvable v"
  unfolding decide_def by (auto split: option.split)

text \<open>
  What CONFIRMED means.  The engine answers CONFIRMED exactly when integrity holds, the case
  is not a known duplicate, policy allowed every request, nothing blocks or is unexplained, some
  target observation showed the signal, every target outcome is conclusive, no conflict is
  backed by Attack evidence and the demonstrated impact is strong enough.
\<close>

theorem decide_confirmed_iff:
  "decide v = Confirmed \<longleftrightarrow>
     di_integrity_ok v \<and> \<not> di_known v \<and> di_policy_allowed v
     \<and> \<not> di_unresolved v \<and> \<not> di_topology v \<and> \<not> di_resolvable v
     \<and> True \<in> set (di_observations v) \<and> set (di_outcomes v) \<subseteq> {Observed, NotObserved}
     \<and> \<not> (di_conflict v \<and> di_attack_evidence v)
     \<and> (\<exists>i. di_impact v = Some i \<and> \<not> im_underpowered i)"
proof (cases "di_integrity_ok v \<and> \<not> di_known v \<and> di_policy_allowed v
     \<and> \<not> di_unresolved v \<and> \<not> di_topology v \<and> \<not> di_resolvable v")
  case True
  show ?thesis
  proof (cases "True \<in> set (di_observations v)")
    case obs: True
    then have some: "\<exists>b\<in>set (di_observations v). b" "di_observations v \<noteq> []" by (blast, force)
    with True obs show ?thesis unfolding decide_def by (auto split: option.split)
  next
    case False
    then have "\<not> (\<exists>b\<in>set (di_observations v). b)" by metis
    with True False show ?thesis unfolding decide_def by auto
  qed
next
  case False
  then show ?thesis unfolding decide_def by (auto split: option.split)
qed

lemma observed_target:
  assumes "True \<in> set (map (\<lambda>b. ob_signal b = Some True) (target_observations obs))"
    and "set (map ob_outcome (target_observations obs)) \<subseteq> {Observed, NotObserved}"
    and "\<forall>b\<in>set obs. observation_ok b"
  shows "\<exists>b\<in>set obs. ob_target b \<and> ob_outcome b = Observed \<and> ob_signal b = Some True"
proof -
  obtain b where b: "b \<in> set obs" "ob_target b" "ob_signal b = Some True"
    using assms(1) by (auto simp: target_observations_def)
  moreover have "ob_outcome b \<in> {Observed, NotObserved}"
    using assms(2) b by (auto simp: target_observations_def)
  ultimately show ?thesis using assms(3) by (auto simp: observation_ok_def)
qed

text \<open>
  C20: a CONFIRMED case rests on evidence.  When the coordinator settles a case as CONFIRMED from
  a valid assessment, comparison and observations, then some replay of the target was observed
  with a positive signal, no request was rejected by policy, the assessment reports no blocker
  and did not deny the reproduction, the impact has a boundary effect and a total of at least
  three, no class or boundary conflict is open, and every axis with a positive score cites
  evidence observed on the target or won by impact development.
\<close>

theorem confirmed_case_rests_on_evidence:
  assumes "case_decision obs developed a c used unavailable interrupted zero_ok = Inr Confirmed"
    and "\<forall>b\<in>set obs. observation_ok b" and "comparison_ok c"
  shows "(\<exists>b\<in>set obs. ob_target b \<and> ob_outcome b = Observed \<and> ob_signal b = Some True)
    \<and> (\<forall>b\<in>set obs. ob_policy_allowed b)
    \<and> as_blocker a = None \<and> as_reproduced a = Some True
    \<and> 1 \<le> ax_score (as_boundary a)
    \<and> 3 \<le> ax_score (as_boundary a) + ax_score (as_sensitivity a) + ax_score (as_actor a)
    \<and> (zero_ok \<or> 1 \<le> ax_score (as_sensitivity a))
    \<and> \<not> material_conflict c \<and> impact_grounded (observed_evidence obs \<union> developed) a"
proof -
  from assms(1) obtain i where i: "evaluate_impact (ax_score (as_boundary a)) (ax_score (as_sensitivity a))
      (ax_score (as_actor a)) zero_ok = Inr i"
    and d: "decide (case_input obs developed a c used unavailable i) = Confirmed"
    by (auto simp: case_decision_def bindR_eq_Inr Let_def split: if_splits)
  let ?in = "case_input obs developed a c used unavailable i"
  note conf = d [unfolded decide_confirmed_iff]
  have signals: "di_observations ?in = map (\<lambda>b. ob_signal b = Some True) (target_observations obs)"
    and outs: "di_outcomes ?in = map ob_outcome (target_observations obs)"
    and top: "di_topology ?in \<longleftrightarrow> as_blocker a = Some EnvironmentTopology
             \<or> (as_reproduced a = Some False \<and> True \<in> set (di_observations ?in))
             \<or> (as_reproduced a = None \<and> as_blocker a = None)"
    and bl: "di_resolvable ?in \<or> di_unresolved ?in \<longleftrightarrow> (\<exists>x. as_blocker a = Some x \<and> x \<in> developable)"
    by (auto simp: case_input_def Let_def split: option.splits)
  have seen: "\<exists>b\<in>set obs. ob_target b \<and> ob_outcome b = Observed \<and> ob_signal b = Some True"
    by (rule observed_target [OF _ _ assms(2)]) (use conf in \<open>simp_all only: signals outs\<close>)
  have blk: "as_blocker a = None"
  proof (rule ccontr)
    assume "as_blocker a \<noteq> None"
    then obtain x where "as_blocker a = Some x" by blast
    moreover have "x \<in> developable \<or> x = EnvironmentTopology" by (cases x) (simp_all add: developable_def)
    ultimately show False using conf top bl by blast
  qed
  have rep: "as_reproduced a = Some True" using conf top blk by (metis (full_types) not_None_eq)
  have pol: "\<forall>b\<in>set obs. ob_policy_allowed b" and mat: "\<not> material_conflict c"
    using conf assms(3) by (simp_all add: case_input_def Let_def comparison_ok_def)
  have gr: "impact_grounded (observed_evidence obs \<union> developed) a" and pow: "\<not> im_underpowered i"
    using conf by (auto simp: case_input_def Let_def split: if_splits)
  from evaluate_impact_Inr [OF i] pow have
    "1 \<le> ax_score (as_boundary a)
     \<and> 3 \<le> ax_score (as_boundary a) + ax_score (as_sensitivity a) + ax_score (as_actor a)
     \<and> (zero_ok \<or> 1 \<le> ax_score (as_sensitivity a))"
    by auto
  with seen blk rep pol mat gr show ?thesis by blast
qed

definition sample_obs :: observation where
  "sample_obs = \<lparr>ob_target = True, ob_attempt = ''t1'', ob_evidence = ''e1'', ob_outcome = Observed,
     ob_signal = Some True, ob_blocker = None, ob_non_exploit = False, ob_policy_allowed = True\<rparr>"

definition sample_assessment :: assessment where
  "sample_assessment = (let x = \<lparr>ax_score = 1, ax_evidence = [''e1'']\<rparr> in
     \<lparr>as_case = ''c'', as_blind = ''d'', as_reproduced = Some True, as_signals = [''response_diff''],
      as_targets = [''t1''], as_evidence = [''e1''], as_blocker = None, as_blocker_reason = None,
      as_boundary = x, as_sensitivity = x, as_actor = x\<rparr>)"

definition sample_comparison :: comparison where
  "sample_comparison = \<lparr>cm_conflicting = False, cm_axes = [], cm_validation = [''e1''], cm_attack = [''a1'']\<rparr>"

lemmas sample_case_defs = sample_obs_def sample_assessment_def sample_comparison_def case_decision_def
  case_input_def decide_def evaluate_impact_def target_observations_def observed_evidence_def
  impact_grounded_def axis_grounded_def material_conflict_def observation_ok_def comparison_ok_def

lemma confirmed_case_rests_on_evidence_witness:
  "case_decision [sample_obs] {} sample_assessment sample_comparison False False False False = Inr Confirmed
   \<and> impact_grounded (observed_evidence [sample_obs] \<union> {}) sample_assessment"
proof -
  have d: "case_decision [sample_obs] {} sample_assessment sample_comparison False False False False = Inr Confirmed"
    and o': "\<forall>b\<in>set [sample_obs]. observation_ok b" and c: "comparison_ok sample_comparison"
    by (simp_all add: sample_case_defs Let_def)
  from confirmed_case_rests_on_evidence [OF d o' c] d show ?thesis by blast
qed

text \<open>
  A DISPROVEN case was really refuted.  The coordinator settles a case as DISPROVEN only if
  the assessment denies the reproduction, there is a target replay, and every target replay is
  a completed negative one with explicit non-exploit evidence; one positive, blocked or
  indeterminate replay is enough to prevent it.
\<close>

theorem disproven_case_was_refuted:
  assumes "case_decision obs developed a c used unavailable interrupted zero_ok = Inr Disproven"
  shows "as_reproduced a = Some False \<and> (\<exists>b\<in>set obs. ob_target b)
    \<and> (\<forall>b\<in>set obs. ob_target b \<longrightarrow> ob_outcome b = NotObserved \<and> ob_non_exploit b \<and> ob_signal b \<noteq> Some True)"
proof -
  from assms obtain i where "decide (case_input obs developed a c used unavailable i) = Disproven"
    by (auto simp: case_decision_def bindR_eq_Inr Let_def split: if_splits)
  then show ?thesis
    unfolding decide_Disproven by (auto simp: case_input_def Let_def target_observations_def filter_empty_conv)
qed

lemma disproven_case_was_refuted_witness:
  "as_reproduced (sample_assessment\<lparr>as_reproduced := Some False\<rparr>) = Some False
   \<and> (\<exists>b\<in>set [sample_obs\<lparr>ob_outcome := NotObserved, ob_signal := Some False, ob_non_exploit := True\<rparr>]. ob_target b)"
proof -
  have "case_decision [sample_obs\<lparr>ob_outcome := NotObserved, ob_signal := Some False, ob_non_exploit := True\<rparr>] {}
      (sample_assessment\<lparr>as_reproduced := Some False\<rparr>) sample_comparison False False False False = Inr Disproven"
    by (simp add: sample_case_defs Let_def)
  from disproven_case_was_refuted [OF this] show ?thesis by blast
qed

lemma take_proposals_bound: "n < 3 \<Longrightarrow> length (take_proposals i ev n ps) \<le> 3 - n"
  by (induction i ev n ps rule: take_proposals.induct) auto

lemma take_proposals_from:
  "x \<in> set (take_proposals i ev n ps) \<Longrightarrow> pr_path x \<in> set ps \<and> expands i (pr_path x)
     \<and> pr_axis x = xp_axis (pr_path x) \<and> pr_current x = axis_score i (pr_axis x) \<and> pr_evidence x = ev"
  by (induction i ev n ps rule: take_proposals.induct) (auto split: if_splits)

text \<open>
  Impact development stays bounded and useful.  The gap analysis proposes at most three
  paths of the profile, none without evidence, and each one on an axis scored at most one whose
  potential is above the present score.
\<close>

theorem gap_proposals_bounded_and_raising:
  "length (analyze_gaps paths i ev) \<le> 3 \<and> (ev = [] \<longrightarrow> analyze_gaps paths i ev = [])
   \<and> (\<forall>p\<in>set (analyze_gaps paths i ev). pr_path p \<in> set paths
        \<and> pr_current p = axis_score i (pr_axis p) \<and> pr_current p \<le> 1
        \<and> pr_current p < potential_of (pr_path p) \<and> set (pr_evidence p) = set ev)"
proof -
  have "length (take_proposals i (dedupe ev) 0 paths) \<le> 3"
    using take_proposals_bound [of 0 i "dedupe ev" paths] by simp
  then show ?thesis
    by (auto simp: analyze_gaps_def Let_def expands_def dest!: take_proposals_from)
qed

definition sample_path :: expansion_path where
  "sample_path = \<lparr>xp_id = ''p'', xp_axis = GapActor, xp_kind = ''k'', xp_preconditions = [],
     xp_signal = [(''kind'', PStr ''s'')], xp_actions = [], xp_owner = ''validation'',
     xp_feasibility = ''low'', xp_potential = [(GapActor, PInt 3)]\<rparr>"

definition weak_impact :: impact where
  "weak_impact = \<lparr>im_boundary = 1, im_sensitivity = 1, im_actor = 0, im_score = 2,
     im_severity = SevInfo, im_underpowered = True\<rparr>"

lemma gap_proposals_bounded_and_raising_witness:
  "\<exists>p. analyze_gaps [sample_path] weak_impact [''e''] = [p] \<and> pr_current p < potential_of (pr_path p)"
proof -
  obtain p where p: "analyze_gaps [sample_path] weak_impact [''e''] = [p]"
    by (simp add: analyze_gaps_def expands_def potential_of_def dict_get_def sample_path_def weak_impact_def)
  then have "p \<in> set (analyze_gaps [sample_path] weak_impact [''e''])" by simp
  with gap_proposals_bounded_and_raising have "pr_current p < potential_of (pr_path p)" by blast
  with p show ?thesis by blast
qed

text \<open>
  KNOWN means an exact duplicate.  The matcher answers with a case exactly when some
  CONFIRMED candidate has the same execution metadata (the method compared without case, the
  roles without order), and then with the smallest identifier among them.
\<close>

theorem known_match_exact:
  "known_match target cs = Some i \<longleftrightarrow>
     (\<exists>k\<in>set cs. kc_status k = ''CONFIRMED'' \<and> known_key k = known_key target \<and> kc_case k = i)
     \<and> (\<forall>k\<in>set cs. kc_status k = ''CONFIRMED'' \<and> known_key k = known_key target \<longrightarrow> i \<le> kc_case k)"
proof -
  define ms where "ms = map kc_case (filter (\<lambda>c. kc_status c = ''CONFIRMED'' \<and> known_key c = known_key target) cs)"
  have mem: "m \<in> set ms \<longleftrightarrow>
      (\<exists>k\<in>set cs. kc_status k = ''CONFIRMED'' \<and> known_key k = known_key target \<and> kc_case k = m)" for m
    unfolding ms_def by auto
  have ball: "(\<forall>m\<in>set ms. i \<le> m) \<longleftrightarrow>
      (\<forall>k\<in>set cs. kc_status k = ''CONFIRMED'' \<and> known_key k = known_key target \<longrightarrow> i \<le> kc_case k)"
    unfolding ms_def by auto
  have val: "known_match target cs = (if ms = [] then None else Some (hd (sort ms)))"
    by (simp only: known_match_def ms_def Let_def)
  have "known_match target cs = Some i \<longleftrightarrow> i \<in> set ms \<and> (\<forall>m\<in>set ms. i \<le> m)"
  proof (cases "sort ms")
    case Nil
    then have "ms = []" by (metis set_empty set_sort)
    then show ?thesis by (simp add: val)
  next
    case (Cons x xs)
    then have "sorted (x # xs)" and set: "set (x # xs) = set ms" and "ms \<noteq> []"
      by (metis sorted_sort, metis set_sort, auto)
    then have "x \<in> set ms" "\<forall>m\<in>set ms. x \<le> m" by (auto simp flip: set)
    with Cons \<open>ms \<noteq> []\<close> show ?thesis by (auto simp: val intro: order_antisym)
  qed
  with mem ball show ?thesis by metis
qed

definition sample_candidate :: known_candidate where
  "sample_candidate = \<lparr>kc_case = ''c1'', kc_vuln = ''xss'', kc_endpoint = ''/a'', kc_method = ''get'',
     kc_location = ''query'', kc_param = ''q'', kc_roles = [''u'', ''a''], kc_skill = ''hunt-xss'', kc_status = ''CONFIRMED''\<rparr>"

lemma known_match_exact_witness:
  "known_match (sample_candidate\<lparr>kc_roles := [''a'', ''u'']\<rparr>) [sample_candidate] = Some ''c1''"
proof -
  have "known_key sample_candidate = known_key (sample_candidate\<lparr>kc_roles := [''a'', ''u'']\<rparr>)"
    by (simp add: known_key_def sample_candidate_def str_eval)
  then show ?thesis
    unfolding known_match_exact by (simp add: sample_candidate_def)
qed

end
