(* ===== verification/Eligibility.thy ===== *)
theory Eligibility
  imports Prelude
begin

text \<open>
  Scope eligibility: the contracts of \<open>src/src/aidast/validation/contracts/eligibility.py\<close>, the
  grounding check of \<open>validation/core/scope_eligibility.py\<close>, and the loop of
  \<open>ValidationCoordinator._eligibility_assessment\<close> that asks an agent at most twice and fails
  closed, or rechecks the assessment an interrupted run stored.  \<open>sha\<close> stands for the hexadecimal SHA-256 digest of a text (\<open>hashlib\<close>).
\<close>

section \<open>Contracts\<close>

datatype eligibility = Eligible | Ineligible | Conditional | UnknownEligibility

datatype el_phase = Preflight | PostReplay

type_synonym impact_condition = "string \<times> string"

definition condition_ok :: "impact_condition \<Rightarrow> bool" where
  "condition_ok c \<longleftrightarrow> fst c \<noteq> [] \<and> length (fst c) \<le> 1000 \<and> snd c \<noteq> [] \<and> length (snd c) \<le> 1000"

definition identifier_ok :: "string \<Rightarrow> bool" where
  "identifier_ok s \<longleftrightarrow> s \<noteq> [] \<and> length s \<le> 256"

definition digest_ok :: "string \<Rightarrow> bool" where
  "digest_ok s \<longleftrightarrow> length s = 64 \<and> (\<forall>c\<in>set s. is_digit c \<or> c \<in> set ''abcdef'')"

record el_context =
  ec_assessment :: string
  ec_output :: string
  ec_required :: "impact_condition list"

text \<open>\<open>er_subject\<close> holds the fields that no rule reads: vulnerability class, endpoint, claim text.\<close>

record el_request =
  er_case :: string
  er_scope :: string
  er_phase :: el_phase
  er_markdown :: string
  er_chain :: bool
  er_refs :: "string list"
  er_summaries :: "string list"
  er_context :: "el_context option"
  er_subject :: "string list"

definition request_ok :: "el_request \<Rightarrow> bool" where
  "request_ok r \<longleftrightarrow> identifier_ok (er_case r) \<and> digest_ok (er_scope r)
     \<and> er_markdown r \<noteq> [] \<and> length (er_markdown r) \<le> 500000
     \<and> length (er_refs r) \<le> 128 \<and> list_all identifier_ok (er_refs r) \<and> length (er_summaries r) \<le> 128
     \<and> (er_phase r = PostReplay \<longleftrightarrow> er_context r \<noteq> None)
     \<and> (er_phase r = PostReplay \<longrightarrow> er_refs r \<noteq> [] \<and> er_summaries r \<noteq> [])
     \<and> (case er_context r of None \<Rightarrow> True
        | Some c \<Rightarrow> identifier_ok (ec_assessment c) \<and> digest_ok (ec_output c) \<and> ec_required c \<noteq> []
            \<and> length (ec_required c) \<le> 16 \<and> list_all condition_ok (ec_required c))"

record el_assessment =
  ea_case :: string
  ea_scope :: string
  ea_phase :: el_phase
  ea_verdict :: eligibility
  ea_exclusion :: "string option"
  ea_rule :: string
  ea_quote :: string
  ea_required :: "impact_condition list"
  ea_replay :: bool
  ea_reason :: string
  ea_refs :: "string list"

definition el_assessment_ok :: "el_assessment \<Rightarrow> bool" where
  "el_assessment_ok a \<longleftrightarrow>
     identifier_ok (ea_case a) \<and> digest_ok (ea_scope a)
     \<and> ea_rule a \<noteq> [] \<and> length (ea_rule a) \<le> 2000 \<and> length (ea_quote a) \<le> 4000
     \<and> length (ea_required a) \<le> 16 \<and> list_all condition_ok (ea_required a)
     \<and> ea_reason a \<noteq> [] \<and> length (ea_reason a) \<le> 4000
     \<and> length (ea_refs a) \<le> 128 \<and> list_all identifier_ok (ea_refs a)
     \<and> (ea_replay a \<longleftrightarrow> ea_verdict a \<in> {Eligible, Conditional})
     \<and> (ea_verdict a = Conditional \<longleftrightarrow> ea_required a \<noteq> [])
     \<and> (ea_verdict a \<noteq> UnknownEligibility \<longrightarrow> \<not> is_blank (ea_quote a))
     \<and> distinct (ea_refs a)"

text \<open>\<open>validate_grounding\<close> raises \<open>ScopeEligibilityError\<close> exactly when this is false.\<close>

definition grounded :: "(string \<Rightarrow> string) \<Rightarrow> el_assessment \<Rightarrow> string \<Rightarrow> bool" where
  "grounded sha a markdown \<longleftrightarrow> contains markdown (ea_quote a) \<and> ea_scope a = sha markdown"

definition unknown_assessment :: "el_request \<Rightarrow> string \<Rightarrow> el_assessment" where
  "unknown_assessment r reason =
     \<lparr>ea_case = er_case r, ea_scope = er_scope r, ea_phase = er_phase r,
      ea_verdict = UnknownEligibility, ea_exclusion = None,
      ea_rule = ''Policy assessment unavailable'', ea_quote = [], ea_required = [],
      ea_replay = False, ea_reason = reason, ea_refs = []\<rparr>"

section \<open>Asking the agent\<close>

text \<open>
  What one call of the agent gives: an object that passes the field types (its validators are
  checked here), something that raises \<open>TypeError\<close> or \<open>ValueError\<close>, or any other exception.
\<close>

datatype agent_answer = Answer el_assessment | Malformed | Crashed

definition acceptable :: "(string \<Rightarrow> string) \<Rightarrow> el_request \<Rightarrow> string list \<Rightarrow> el_assessment \<Rightarrow> bool" where
  "acceptable sha r evidence a \<longleftrightarrow> el_assessment_ok a \<and> ea_case a = er_case r \<and> ea_phase a = er_phase r
     \<and> ea_scope a = er_scope r \<and> set (ea_refs a) \<subseteq> set evidence \<and> grounded sha a (er_markdown r)"

text \<open>\<open>agent n\<close> is the answer to the attempt \<open>n\<close> of \<open>for attempt in range(2)\<close>.\<close>

definition ask_agent ::
  "(string \<Rightarrow> string) \<Rightarrow> el_request \<Rightarrow> string list \<Rightarrow> (nat \<Rightarrow> agent_answer) \<Rightarrow> el_assessment" where
  "ask_agent sha r evidence agent =
     (let failed = unknown_assessment r ''Eligibility output failed schema or grounding validation.'';
          gone = unknown_assessment r ''Eligibility assessment unavailable.'';
          second = (case agent 1 of Answer a \<Rightarrow> (if acceptable sha r evidence a then a else failed)
                    | Malformed \<Rightarrow> failed | Crashed \<Rightarrow> gone)
      in case agent 0 of Answer a \<Rightarrow> (if acceptable sha r evidence a then a else second)
         | Malformed \<Rightarrow> second | Crashed \<Rightarrow> gone)"

section \<open>Resuming from a stored assessment\<close>

text \<open>
  A row of \<open>validation_eligibility_assessments\<close>.  The permission is kept as an integer (None: not an
  integer); \<open>so_content\<close> holds the fields that are parsed from the row (None: they do not parse),
  where the case, the Scope digest, the phase and the permission are those of the columns.
\<close>

record stored_assessment =
  so_id :: string
  so_case :: string
  so_run :: string
  so_phase :: el_phase
  so_scope :: string
  so_input :: string
  so_output :: string
  so_replay :: "int option"
  so_content :: "el_assessment option"

definition stored_object :: "stored_assessment \<Rightarrow> el_assessment option" where
  "stored_object s = map_option (\<lambda>a. a\<lparr>ea_case := so_case s, ea_scope := so_scope s, ea_phase := so_phase s,
     ea_replay := (so_replay s = Some 1)\<rparr>) (so_content s)"

text \<open>\<open>digest_in\<close> and \<open>digest_out\<close> are \<open>canonical_sha256\<close> of a request and of an assessment.\<close>

definition resume_assessment ::
  "(string \<Rightarrow> string) \<Rightarrow> (el_request \<Rightarrow> string) \<Rightarrow> (el_assessment \<Rightarrow> string) \<Rightarrow> el_request \<Rightarrow> string list
     \<Rightarrow> stored_assessment \<Rightarrow> (string, el_assessment) result" where
  "resume_assessment sha digest_in digest_out r evidence s =
     (if so_scope s \<noteq> er_scope r then Inl ''eligibility scope digest mismatch''
      else if so_input s \<noteq> digest_in r then Inl ''eligibility input digest mismatch''
      else if so_replay s \<notin> {Some 0, Some 1} then Inl ''invalid stored eligibility replay permission''
      else (case stored_object s of
          None \<Rightarrow> Inl ''validation error''
        | Some a \<Rightarrow>
            if \<not> el_assessment_ok a then Inl ''validation error''
            else if \<not> grounded sha a (er_markdown r)
            then Inl (if contains (er_markdown r) (ea_quote a) then ''scope digest does not match scope snapshot''
              else ''scope quote is not grounded in the scope snapshot'')
            else if digest_out a \<noteq> so_output s then Inl ''stored eligibility assessment digest mismatch''
            else if \<not> set (ea_refs a) \<subseteq> set evidence then Inl ''stored eligibility cites foreign evidence''
            else Inr a))"

text \<open>
  \<open>_eligibility_assessment\<close>: the newest row of the case, run and phase, if there is one (rows are in
  the order of their rowid), or the agent; None stands for the identifier of the row that
  \<open>record_eligibility\<close> is about to make.
\<close>

definition eligibility_assessment ::
  "(string \<Rightarrow> string) \<Rightarrow> (el_request \<Rightarrow> string) \<Rightarrow> (el_assessment \<Rightarrow> string) \<Rightarrow> stored_assessment list \<Rightarrow> string
     \<Rightarrow> el_request \<Rightarrow> string list \<Rightarrow> (nat \<Rightarrow> agent_answer) \<Rightarrow> (string, el_assessment \<times> string option) result" where
  "eligibility_assessment sha digest_in digest_out rows run r evidence agent =
     (case rev (filter (\<lambda>s. so_case s = er_case r \<and> so_run s = run \<and> so_phase s = er_phase r) rows) of
        [] \<Rightarrow> Inr (ask_agent sha r evidence agent, None)
      | s # _ \<Rightarrow> bindR (resume_assessment sha digest_in digest_out r evidence s) (\<lambda>a. Inr (a, Some (so_id s))))"

text \<open>
  A stored assessment is checked again: what comes back is acceptable for the request as the
  answer of an agent would have to be, and it is the one whose digest was stored for this input.
\<close>

lemma resumed_assessment_rechecked:
  assumes "eligibility_assessment sha digest_in digest_out rows run r evidence agent = Inr (a, Some i)"
  shows "acceptable sha r evidence a
    \<and> (\<exists>s\<in>set rows. so_id s = i \<and> so_case s = er_case r \<and> so_run s = run \<and> so_phase s = er_phase r
         \<and> so_input s = digest_in r \<and> so_output s = digest_out a \<and> so_replay s = Some (if ea_replay a then 1 else 0))"
proof -
  obtain s rest where s: "rev (filter (\<lambda>s. so_case s = er_case r \<and> so_run s = run \<and> so_phase s = er_phase r) rows) = s # rest"
    and a: "resume_assessment sha digest_in digest_out r evidence s = Inr a" and i: "i = so_id s"
    using assms unfolding eligibility_assessment_def by (auto simp: bindR_eq_Inr split: list.splits)
  have "s \<in> set (rev (filter (\<lambda>s. so_case s = er_case r \<and> so_run s = run \<and> so_phase s = er_phase r) rows))"
    unfolding s by simp
  then have row: "s \<in> set rows" "so_case s = er_case r" "so_run s = run" "so_phase s = er_phase r" by auto
  have b: "so_scope s = er_scope r" "so_input s = digest_in r" "so_replay s = Some 0 \<or> so_replay s = Some 1"
    "stored_object s = Some a" "el_assessment_ok a" "grounded sha a (er_markdown r)" "digest_out a = so_output s"
    "set (ea_refs a) \<subseteq> set evidence"
    using a unfolding resume_assessment_def by (auto split: if_splits option.splits)
  then have "ea_case a = so_case s" "ea_scope a = so_scope s" "ea_phase a = so_phase s" "ea_replay a \<longleftrightarrow> so_replay s = Some 1"
    by (auto simp: stored_object_def)
  with b row i show ?thesis by (auto simp: acceptable_def intro!: bexI [of _ s])
qed

section \<open>Properties\<close>

lemma unknown_assessment_ok:
  assumes "request_ok r" and "reason \<noteq> []" and "length reason \<le> 4000"
  shows "el_assessment_ok (unknown_assessment r reason)"
  using assms by (simp add: el_assessment_ok_def unknown_assessment_def request_ok_def)

text \<open>
  C33: eligibility fails closed.  Whatever the agent answers or raises, the assessment that
  goes on is valid and bound to the case, phase, scope and evidence of the request; replay is
  allowed only if the agent gave a verdict whose quote stands literally in the approved scope
  text, and an unacceptable or missing verdict is UNKNOWN without permission to replay.
\<close>

theorem eligibility_fails_closed:
  assumes "request_ok r" and a: "a = ask_agent sha r evidence agent"
  shows "el_assessment_ok a \<and> ea_case a = er_case r \<and> ea_phase a = er_phase r \<and> ea_scope a = er_scope r
    \<and> set (ea_refs a) \<subseteq> set evidence
    \<and> (ea_replay a \<longrightarrow> (\<exists>n\<in>{0, 1}. agent n = Answer a)
         \<and> \<not> is_blank (ea_quote a) \<and> contains (er_markdown r) (ea_quote a) \<and> sha (er_markdown r) = er_scope r)
    \<and> ((\<forall>n\<in>{0, 1}. \<forall>x. agent n = Answer x \<longrightarrow> \<not> acceptable sha r evidence x)
         \<longrightarrow> ea_verdict a = UnknownEligibility \<and> \<not> ea_replay a)"
proof -
  have "a \<in> {unknown_assessment r ''Eligibility output failed schema or grounding validation.'',
             unknown_assessment r ''Eligibility assessment unavailable.''}
        \<or> (\<exists>n\<in>{0, 1}. agent n = Answer a \<and> acceptable sha r evidence a)"
    unfolding a ask_agent_def Let_def by (auto split: agent_answer.splits)
  then consider (unknown) reason where "a = unknown_assessment r reason" "reason \<noteq> []" "length reason \<le> 4000"
    | (answer) n where "n \<in> {0, 1}" "agent n = Answer a" "acceptable sha r evidence a"
    by (elim disjE bexE conjE) force+
  then show ?thesis
  proof cases
    case unknown
    with unknown_assessment_ok [OF assms(1) unknown(2,3)] show ?thesis
      by (simp add: unknown_assessment_def)
  next
    case answer
    then show ?thesis
      by (auto simp: acceptable_def grounded_def el_assessment_ok_def)
  qed
qed

definition sample_request :: el_request where
  "sample_request = \<lparr>er_case = ''c'', er_scope = replicate 64 CHR ''a'', er_phase = Preflight,
     er_markdown = ''in scope'', er_chain = False, er_refs = [], er_summaries = [], er_context = None,
     er_subject = []\<rparr>"

lemma sample_request_ok: "request_ok sample_request"
  by (simp add: request_ok_def sample_request_def identifier_ok_def digest_ok_def)

lemma eligibility_fails_closed_witness:
  "\<not> ea_replay (ask_agent (\<lambda>_. replicate 64 CHR ''a'') sample_request [] (\<lambda>_. Malformed))"
  using eligibility_fails_closed [OF sample_request_ok refl, of "\<lambda>_. replicate 64 CHR ''a''" "[]" "\<lambda>_. Malformed"]
  by simp

end
