(* ===== verification/Case_Repository.thy ===== *)
theory Case_Repository
  imports Lifecycle Decision Eligibility
begin

text \<open>
  \<open>src/src/aidast/validation/persistence/repository.py\<close>: the Validation-owned tables of the
  pipeline database and every transaction on them, with the CHECK, UNIQUE and FOREIGN KEY
  constraints of \<open>pipeline/live_schema.py\<close> that can refuse a statement.  A row of a table is a
  record, a table the list of its rows in rowid order; \<open>updated_at\<close> and \<open>created_at\<close>, which
  nothing reads, are left out.  Metadata arguments stand for the value after
  \<open>sanitize_metadata\<close>.  \<open>digests\<close> are the canonical SHA-256 digests of the documents.
\<close>

section \<open>Tables\<close>

datatype repo_error = RepoErr string | ConcurrentErr string | ImpactErr string | RepoIntegrity string

type_synonym document = "(string \<times> pyval) list"

datatype attempt_kind = TargetAttempt | PositiveControl | NegativeControl

datatype action_status = ActPlanned | ActRunning | ActSucceeded | ActFailed | ActUnknown

datatype hyp_status = HypPlanned | HypRunning | HypSucceeded | HypFailed | HypSkipped | HypUnknown

record rcase =
  rc_id :: string
  rc_scan :: string
  rc_chain :: bool
  rc_target :: string
  rc_latest :: string
  rc_decision_run :: "string option"
  rc_phase :: case_phase
  rc_status :: "verdict option"
  rc_version :: nat
  rc_skill :: "string option"
  rc_skill_sha :: "string option"
  rc_profile_sha :: "string option"
  rc_source_policy :: "string option"
  rc_current_policy :: "string option"
  rc_blind :: "string option"
  rc_frozen :: "string option"
  rc_claim :: "string option"
  rc_known :: "string option"
  rc_impact :: "(int \<times> int \<times> int \<times> int \<times> severity) option"
  rc_decision :: "(document \<times> string) option"
  rc_scope :: "string option"

record rattempt =
  ra_id :: string
  ra_case :: string
  ra_run :: string
  ra_batch :: int
  ra_kind :: attempt_kind
  ra_ordinal :: int
  ra_signal :: string
  ra_outcome :: outcome
  ra_observed :: "bool option"
  ra_blocker :: "blocker_axis option"
  ra_observation :: document
  ra_finished :: "string option"
  ra_hypothesis :: "string option"

record raction =
  rn_id :: string
  rn_case :: string
  rn_run :: string
  rn_ordinal :: int
  rn_blocker :: blocker_axis
  rn_type :: string
  rn_status :: action_status
  rn_details :: document
  rn_started :: "string option"
  rn_finished :: "string option"

record revidence =
  re_id :: string
  re_case :: string
  re_run :: string
  re_attempt :: "string option"
  re_action :: "string option"
  re_kind :: string
  re_details :: string
  re_sha :: string
  re_length :: int

text \<open>
  The twelve fields a proposal must have; \<open>hp_texts\<close> are the five that are only stored (reason,
  preconditions, actions, signal, potential impact).
\<close>

record hyp_proposal =
  hp_axis :: gap_axis
  hp_path :: string
  hp_kind :: string
  hp_score :: int
  hp_evidence :: "string list"
  hp_owner :: string
  hp_feasibility :: string
  hp_texts :: "string list"

record rhyp =
  rh_id :: string
  rh_case :: string
  rh_run :: string
  rh_ordinal :: int
  rh_proposal :: hyp_proposal
  rh_skill_sha :: string
  rh_profile_sha :: string
  rh_digest :: string
  rh_status :: hyp_status
  rh_agent :: "string option"
  rh_plan :: "(document \<times> string) option"
  rh_observation :: "(document \<times> string) option"
  rh_started :: "string option"
  rh_finished :: "string option"

record relig =
  rl_id :: string
  rl_run :: string
  rl_verdict :: el_assessment
  rl_input :: string
  rl_output :: string

record digests =
  dg_text :: "string \<Rightarrow> string"
  dg_request :: "el_request \<Rightarrow> string"
  dg_assessment :: "el_assessment \<Rightarrow> string"
  dg_proposal :: "hyp_proposal \<Rightarrow> string"
  dg_document :: "document \<Rightarrow> string"

record repo_db =
  rp_stages :: "stage_run list"
  rp_targets :: "(bool \<times> string \<times> string) list"
  rp_snapshots :: "(string \<times> string) list"
  rp_bindings :: "(string \<times> (string \<times> string \<times> string option)) list"
  rp_cases :: "rcase list"
  rp_eligibility :: "relig list"
  rp_attempts :: "rattempt list"
  rp_actions :: "raction list"
  rp_evidence :: "revidence list"
  rp_hyps :: "rhyp list"

section \<open>Stages and scope bindings\<close>

definition validation_stage :: "string \<Rightarrow> repo_db \<Rightarrow> (repo_error, stage_run) result" where
  "validation_stage run D =
     (case find_row sr_id run (rp_stages D) of
        None \<Rightarrow> Inl (RepoErr ''a running Validation stage is required'')
      | Some s \<Rightarrow> if sr_stage s \<noteq> ''validation'' \<or> sr_status s \<noteq> JRunning
                  then Inl (RepoErr ''a running Validation stage is required'') else Inr s)"

record policy_source =
  ps_markdown :: string
  ps_sha :: string
  ps_path :: string
  ps_approval :: "string option"

definition bind_scope :: "digests \<Rightarrow> string \<Rightarrow> policy_source \<Rightarrow> repo_db \<Rightarrow> (repo_error, repo_db) result" where
  "bind_scope G scan p D =
     (if dg_text G (ps_markdown p) \<noteq> ps_sha p
      then Inl (RepoErr ''scope snapshot digest does not match Markdown'')
      else let snaps = (if dict_get (rp_snapshots D) (ps_sha p) = None
                        then rp_snapshots D @ [(ps_sha p, ps_markdown p)] else rp_snapshots D)
           in if dict_get snaps (ps_sha p) \<noteq> Some (ps_markdown p)
              then Inl (RepoErr ''scope snapshot digest collision'')
              else Inr (D\<lparr>rp_snapshots := snaps,
                     rp_bindings := dict_set (rp_bindings D) scan (ps_sha p, ps_path p, ps_approval p)\<rparr>))"

definition current_scope_sha256 :: "string \<Rightarrow> repo_db \<Rightarrow> string option" where
  "current_scope_sha256 scan D = map_option fst (dict_get (rp_bindings D) scan)"

definition resolve_current_scope ::
  "string \<Rightarrow> string option \<Rightarrow> repo_db \<Rightarrow> (repo_error, string) result" where
  "resolve_current_scope scan given D =
     (case current_scope_sha256 scan D of
        None \<Rightarrow> Inl (RepoErr ''scan has no current scope binding'')
      | Some cur \<Rightarrow> if given \<noteq> None \<and> given \<noteq> Some cur
                    then Inl (RepoErr ''scope digest is not the current scope binding'') else Inr cur)"

section \<open>Cases\<close>

definition assert_current_case :: "string \<Rightarrow> string \<Rightarrow> repo_db \<Rightarrow> (repo_error, rcase) result" where
  "assert_current_case cid run D =
     (case find_row rc_id cid (rp_cases D) of
        None \<Rightarrow> Inl (RepoErr ''case is not assigned to the current stage'')
      | Some c \<Rightarrow> if rc_latest c \<noteq> run then Inl (RepoErr ''case is not assigned to the current stage'')
          else bindR (validation_stage run D) (\<lambda>s.
            if sr_scan s \<noteq> rc_scan c then Inl (RepoErr ''case and stage scan do not match'') else Inr c))"

definition create_case ::
  "string \<Rightarrow> string \<Rightarrow> string \<Rightarrow> bool \<Rightarrow> string \<Rightarrow> string option \<Rightarrow> repo_db \<Rightarrow> (repo_error, repo_db) result" where
  "create_case ident scan run chain target given D =
     bindR (validation_stage run D) (\<lambda>s.
       if sr_scan s \<noteq> scan then Inl (RepoErr ''Validation stage does not belong to scan'')
       else if (chain, target, scan) \<notin> set (rp_targets D)
         then Inl (RepoErr ''Validation target does not belong to scan'')
       else bindR (resolve_current_scope scan given D) (\<lambda>scope.
         if ident \<in> rc_id ` set (rp_cases D)
            \<or> (\<exists>c\<in>set (rp_cases D). rc_scan c = scan \<and> rc_chain c = chain \<and> rc_target c = target)
         then Inl (RepoIntegrity ''UNIQUE constraint failed'')
         else Inr (D\<lparr>rp_cases := rp_cases D @
           [\<lparr>rc_id = ident, rc_scan = scan, rc_chain = chain, rc_target = target, rc_latest = run,
             rc_decision_run = None, rc_phase = PhQueued, rc_status = None, rc_version = 0,
             rc_skill = None, rc_skill_sha = None, rc_profile_sha = None, rc_source_policy = None,
             rc_current_policy = None, rc_blind = None, rc_frozen = None, rc_claim = None,
             rc_known = None, rc_impact = None, rc_decision = None, rc_scope = Some scope\<rparr>]\<rparr>)))"

text \<open>\<open>UPDATE validation_cases SET f WHERE p\<close>; \<open>exactly\<close> one row must have matched.\<close>

definition update_cases :: "(rcase \<Rightarrow> bool) \<Rightarrow> (rcase \<Rightarrow> rcase) \<Rightarrow> repo_db \<Rightarrow> repo_db" where
  "update_cases p f D = D\<lparr>rp_cases := update_where p f (rp_cases D)\<rparr>"

definition update_one_case ::
  "string \<Rightarrow> (rcase \<Rightarrow> bool) \<Rightarrow> (rcase \<Rightarrow> rcase) \<Rightarrow> repo_db \<Rightarrow> (repo_error, repo_db) result" where
  "update_one_case msg p f D =
     (if rowcount p (rp_cases D) \<noteq> 1 then Inl (ConcurrentErr msg) else Inr (update_cases p f D))"

definition begin_revalidation ::
  "string \<Rightarrow> string \<Rightarrow> nat \<Rightarrow> string option \<Rightarrow> repo_db \<Rightarrow> (repo_error, repo_db) result" where
  "begin_revalidation cid run version given D =
     bindR (validation_stage run D) (\<lambda>s.
     bindR (resolve_current_scope (sr_scan s) given D) (\<lambda>scope.
       update_one_case ''case changed or is not available for revalidation''
         (\<lambda>c. rc_id c = cid \<and> rc_scan c = sr_scan s \<and> rc_version c = version \<and> rc_phase c = PhCompleted)
         (\<lambda>c. c\<lparr>rc_latest := run, rc_phase := PhQueued, rc_blind := None, rc_claim := None,
              rc_frozen := None, rc_scope := Some scope, rc_version := Suc (rc_version c)\<rparr>) D))"

definition sha_length :: "string \<Rightarrow> bool" where
  "sha_length s \<longleftrightarrow> length s = 64"

record staging =
  sg_skill :: string
  sg_skill_sha :: string
  sg_profile_sha :: string
  sg_source_policy :: string
  sg_current_policy :: string
  sg_blind :: string
  sg_claim :: string

definition stage_blind_case ::
  "string \<Rightarrow> string \<Rightarrow> nat \<Rightarrow> staging \<Rightarrow> repo_db \<Rightarrow> (repo_error, repo_db) result" where
  "stage_blind_case cid run version g D =
     bindR (assert_current_case cid run D) (\<lambda>_.
       let p = (\<lambda>c. rc_id c = cid \<and> rc_latest c = run \<and> rc_version c = version
                  \<and> rc_phase c \<in> {PhQueued, PhInterrupted})
       in if (\<exists>c\<in>set (rp_cases D). p c) \<and> \<not> list_all sha_length
               [sg_skill_sha g, sg_profile_sha g, sg_source_policy g, sg_current_policy g, sg_blind g, sg_claim g]
          then Inl (RepoIntegrity ''CHECK constraint failed'')
          else update_one_case ''case changed while staging blind input'' p
         (\<lambda>c. c\<lparr>rc_phase := PhBlindReplay, rc_skill := Some (sg_skill g),
              rc_skill_sha := Some (sg_skill_sha g), rc_profile_sha := Some (sg_profile_sha g),
              rc_source_policy := Some (sg_source_policy g), rc_current_policy := Some (sg_current_policy g),
              rc_blind := Some (sg_blind g), rc_claim := Some (sg_claim g),
              rc_version := Suc (rc_version c)\<rparr>) D)"

definition resume_blind_case ::
  "string \<Rightarrow> string \<Rightarrow> nat \<Rightarrow> string \<Rightarrow> repo_db \<Rightarrow> (repo_error, repo_db) result" where
  "resume_blind_case cid run version policy D =
     (let p = (\<lambda>c. rc_id c = cid \<and> rc_latest c = run \<and> rc_version c = version
                 \<and> rc_phase c = PhQueued \<and> rc_blind c \<noteq> None \<and> rc_frozen c = None)
      in if (\<exists>c\<in>set (rp_cases D). p c) \<and> \<not> sha_length policy
         then Inl (RepoIntegrity ''CHECK constraint failed'')
         else update_one_case ''case cannot resume at blind replay'' p
           (\<lambda>c. c\<lparr>rc_phase := PhBlindReplay, rc_current_policy := Some policy\<rparr>) D)"

definition resume_unblinding ::
  "string \<Rightarrow> string \<Rightarrow> nat \<Rightarrow> string \<Rightarrow> repo_db \<Rightarrow> (repo_error, repo_db) result" where
  "resume_unblinding cid run version policy D =
     (let p = (\<lambda>c. rc_id c = cid \<and> rc_latest c = run \<and> rc_version c = version
                 \<and> rc_phase c = PhQueued \<and> rc_blind c \<noteq> None \<and> rc_frozen c \<noteq> None)
      in if (\<exists>c\<in>set (rp_cases D). p c) \<and> \<not> sha_length policy
         then Inl (RepoIntegrity ''CHECK constraint failed'')
         else update_one_case ''case cannot resume at unblinding'' p
           (\<lambda>c. c\<lparr>rc_phase := PhUnblinding, rc_current_policy := Some policy\<rparr>) D)"

definition freeze_blind_assessment ::
  "string \<Rightarrow> string \<Rightarrow> nat \<Rightarrow> string \<Rightarrow> repo_db \<Rightarrow> (repo_error, repo_db) result" where
  "freeze_blind_assessment cid run version digest D =
     bindR (assert_current_case cid run D) (\<lambda>_.
       let p = (\<lambda>c. rc_id c = cid \<and> rc_latest c = run \<and> rc_version c = version
                  \<and> rc_phase c = PhBlindReplay \<and> rc_frozen c = None)
       in if (\<exists>c\<in>set (rp_cases D). p c) \<and> \<not> sha_length digest
          then Inl (RepoIntegrity ''CHECK constraint failed'')
          else update_one_case ''case changed while freezing blind assessment'' p
            (\<lambda>c. c\<lparr>rc_phase := PhUnblinding, rc_frozen := Some digest, rc_version := Suc (rc_version c)\<rparr>) D)"

definition set_processing_phase ::
  "string \<Rightarrow> string \<Rightarrow> case_phase \<Rightarrow> repo_db \<Rightarrow> (repo_error, repo_db) result" where
  "set_processing_phase cid run phase D =
     (if phase \<notin> {PhBlindReplay, PhDeveloping}
      then Inl (RepoErr ''unsupported intermediate processing phase'')
      else bindR (assert_current_case cid run D) (\<lambda>_.
        Inr (update_cases (\<lambda>c. rc_id c = cid) (\<lambda>c. c\<lparr>rc_phase := phase\<rparr>) D)))"

text \<open>
  \<open>_run_cases\<close> with \<open>resume_interrupted\<close>, and what \<open>finish_stage_run\<close> does to the cases of a
  failed stage.
\<close>

definition requeue_interrupted :: "string \<Rightarrow> repo_db \<Rightarrow> repo_db" where
  "requeue_interrupted cid D =
     (case find_row rc_id cid (rp_cases D) of
        Some c \<Rightarrow> if rc_phase c = PhInterrupted
                  then update_cases (\<lambda>c. rc_id c = cid) (\<lambda>c. c\<lparr>rc_phase := PhQueued\<rparr>) D else D
      | None \<Rightarrow> D)"

definition interrupt_cases :: "string \<Rightarrow> repo_db \<Rightarrow> repo_db" where
  "interrupt_cases run D = update_cases (\<lambda>c. rc_latest c = run \<and> rc_phase c \<notin> {PhCompleted, PhQueued})
     (\<lambda>c. c\<lparr>rc_phase := PhInterrupted\<rparr>) D"

section \<open>Attempts and evidence\<close>

definition signal_types :: "string list" where
  "signal_types = [''oob_callback'', ''response_diff'', ''error_signature'', ''timing'', ''dom_effect'',
     ''state_change'', ''authorization_boundary'']"

definition add_attempt :: "rattempt \<Rightarrow> repo_db \<Rightarrow> (repo_error, repo_db) result" where
  "add_attempt a D =
     bindR (assert_current_case (ra_case a) (ra_run a) D) (\<lambda>_.
       if (case ra_hypothesis a of None \<Rightarrow> False
           | Some h \<Rightarrow> \<not> (\<exists>x\<in>set (rp_hyps D). rh_id x = h \<and> rh_case x = ra_case a \<and> rh_run x = ra_run a))
       then Inl (RepoErr ''impact attempt cites a foreign hypothesis'')
       else if \<not> json_finite (PDict (ra_observation a)) then Inl (RepoErr ''Out of range float values'')
       else if ra_batch a < 1 \<or> ra_ordinal a < 1 \<or> ra_signal a \<notin> set signal_types
       then Inl (RepoIntegrity ''CHECK constraint failed'')
       else if ra_id a \<in> ra_id ` set (rp_attempts D)
               \<or> (\<exists>x\<in>set (rp_attempts D). ra_case x = ra_case a \<and> ra_run x = ra_run a
                    \<and> ra_batch x = ra_batch a \<and> ra_kind x = ra_kind a \<and> ra_ordinal x = ra_ordinal a)
       then Inl (RepoIntegrity ''UNIQUE constraint failed'')
       else Inr (D\<lparr>rp_attempts := rp_attempts D @ [a]\<rparr>))"

definition complete_attempt ::
  "string \<Rightarrow> outcome \<Rightarrow> bool option \<Rightarrow> blocker_axis option \<Rightarrow> document \<Rightarrow> string \<Rightarrow> repo_db
     \<Rightarrow> (repo_error, repo_db) result" where
  "complete_attempt aid out observed blocker obs ts D =
     (let p = (\<lambda>a. ra_id a = aid \<and> ra_finished a = None)
      in if \<not> json_finite (PDict obs) then Inl (RepoErr ''Out of range float values'')
         else if rowcount p (rp_attempts D) \<noteq> 1
         then Inl (RepoErr ''Validation attempt is missing or already completed'')
         else Inr (D\<lparr>rp_attempts := update_where p
           (\<lambda>a. a\<lparr>ra_outcome := out, ra_observed := observed, ra_blocker := blocker,
                ra_observation := obs, ra_finished := Some ts\<rparr>) (rp_attempts D)\<rparr>))"

definition sourceless_kinds :: "string set" where
  "sourceless_kinds = {''blind_assessment'', ''blind_assessment_pre_impact'',
     ''blind_profile_evidence_audit'', ''claim_comparison'', ''impact_precondition_verification''}"

definition truthy :: "string option \<Rightarrow> bool" where
  "truthy s \<longleftrightarrow> s \<noteq> None \<and> s \<noteq> Some []"

definition evidence_source_ok :: "revidence \<Rightarrow> repo_db \<Rightarrow> bool" where
  "evidence_source_ok e D \<longleftrightarrow>
     (if truthy (re_attempt e)
      then \<exists>a\<in>set (rp_attempts D). Some (ra_id a) = re_attempt e \<and> ra_case a = re_case e \<and> ra_run a = re_run e
      else case re_action e of None \<Rightarrow> True
           | Some x \<Rightarrow> \<exists>a\<in>set (rp_actions D). rn_id a = x \<and> rn_case a = re_case e \<and> rn_run a = re_run e)"

definition add_evidence :: "revidence \<Rightarrow> repo_db \<Rightarrow> (repo_error, repo_db) result" where
  "add_evidence e D =
     (if (re_attempt e = None \<longleftrightarrow> re_action e = None) \<and> re_kind e \<notin> sourceless_kinds
      then Inl (RepoErr ''execution evidence requires exactly one source'')
      else if 8192 < length (re_details e) then Inl (RepoErr ''evidence details exceed 8 KiB'')
      else bindR (assert_current_case (re_case e) (re_run e) D) (\<lambda>_.
        if \<not> evidence_source_ok e D
        then Inl (RepoErr ''evidence source does not belong to case and stage'')
        else if sql_blank (re_kind e) \<or> \<not> sha_length (re_sha e) \<or> re_length e < 0
                \<or> (re_attempt e \<noteq> None \<and> re_action e \<noteq> None)
        then Inl (RepoIntegrity ''CHECK constraint failed'')
        else if re_id e \<in> re_id ` set (rp_evidence D) then Inl (RepoIntegrity ''UNIQUE constraint failed'')
        else if (case re_attempt e of None \<Rightarrow> False | Some a \<Rightarrow> a \<notin> ra_id ` set (rp_attempts D))
        then Inl (RepoIntegrity ''FOREIGN KEY constraint failed'')
        else Inr (D\<lparr>rp_evidence := rp_evidence D @ [e]\<rparr>)))"

text \<open>How many of the identifiers name evidence of the case in the stage.\<close>

definition cited_count :: "string \<Rightarrow> string \<Rightarrow> string list \<Rightarrow> repo_db \<Rightarrow> nat" where
  "cited_count cid run ids D =
     rowcount (\<lambda>e. re_case e = cid \<and> re_run e = run \<and> re_id e \<in> set ids) (rp_evidence D)"

section \<open>Development actions\<close>

definition add_development_action ::
  "string \<Rightarrow> string \<Rightarrow> string \<Rightarrow> int \<Rightarrow> blocker_axis \<Rightarrow> string \<Rightarrow> document \<Rightarrow> repo_db
     \<Rightarrow> (repo_error, repo_db) result" where
  "add_development_action ident cid run ordinal blocker typ details D =
     bindR (assert_current_case cid run D) (\<lambda>_.
       if \<not> json_finite (PDict details) then Inl (RepoErr ''Out of range float values'')
       else if ordinal \<notin> {1, 2} \<or> blocker = EnvironmentTopology \<or> sql_blank typ
       then Inl (RepoIntegrity ''CHECK constraint failed'')
       else if ident \<in> rn_id ` set (rp_actions D)
               \<or> (\<exists>x\<in>set (rp_actions D). rn_case x = cid \<and> rn_run x = run \<and> rn_ordinal x = ordinal)
       then Inl (RepoIntegrity ''UNIQUE constraint failed'')
       else Inr (D\<lparr>rp_actions := rp_actions D @
         [\<lparr>rn_id = ident, rn_case = cid, rn_run = run, rn_ordinal = ordinal, rn_blocker = blocker,
           rn_type = typ, rn_status = ActPlanned, rn_details = details, rn_started = None,
           rn_finished = None\<rparr>]\<rparr>))"

definition update_action ::
  "string \<Rightarrow> (raction \<Rightarrow> bool) \<Rightarrow> (raction \<Rightarrow> raction) \<Rightarrow> repo_db \<Rightarrow> (repo_error, repo_db) result" where
  "update_action msg p f D =
     (if rowcount p (rp_actions D) \<noteq> 1 then Inl (RepoErr msg)
      else Inr (D\<lparr>rp_actions := update_where p f (rp_actions D)\<rparr>))"

definition start_development_action :: "string \<Rightarrow> string \<Rightarrow> repo_db \<Rightarrow> (repo_error, repo_db) result" where
  "start_development_action aid ts D =
     update_action ''development action is missing or already started''
       (\<lambda>a. rn_id a = aid \<and> rn_status a = ActPlanned)
       (\<lambda>a. a\<lparr>rn_status := ActRunning, rn_started := Some ts\<rparr>) D"

definition coalesce :: "'a option \<Rightarrow> 'a \<Rightarrow> 'a option" where
  "coalesce x y = (case x of None \<Rightarrow> Some y | Some z \<Rightarrow> Some z)"

definition close_action ::
  "string \<Rightarrow> action_status \<Rightarrow> document \<Rightarrow> string \<Rightarrow> repo_db \<Rightarrow> (repo_error, repo_db) result" where
  "close_action aid status details ts D =
     (if \<not> json_finite (PDict details) then Inl (RepoErr ''Out of range float values'')
      else update_action ''development action is missing or already finished''
        (\<lambda>a. rn_id a = aid \<and> rn_status a \<in> {ActPlanned, ActRunning})
        (\<lambda>a. a\<lparr>rn_status := status, rn_details := details,
             rn_started := coalesce (rn_started a) ts, rn_finished := Some ts\<rparr>) D)"

definition finish_development_action ::
  "string \<Rightarrow> bool \<Rightarrow> document \<Rightarrow> string \<Rightarrow> repo_db \<Rightarrow> (repo_error, repo_db) result" where
  "finish_development_action aid succeeded details ts D =
     close_action aid (if succeeded then ActSucceeded else ActFailed) details ts D"

definition mark_development_action_outcome_unknown ::
  "string \<Rightarrow> document \<Rightarrow> string \<Rightarrow> repo_db \<Rightarrow> (repo_error, repo_db) result" where
  "mark_development_action_outcome_unknown aid details ts D = close_action aid ActUnknown details ts D"

section \<open>Impact hypotheses\<close>

definition proposal_checks :: "hyp_proposal \<Rightarrow> bool" where
  "proposal_checks p \<longleftrightarrow> \<not> sql_blank (hp_path p) \<and> \<not> sql_blank (hp_kind p)
     \<and> 0 \<le> hp_score p \<and> hp_score p \<le> 3 \<and> hp_owner p \<in> {''validation'', ''chaining'', ''manual''}
     \<and> hp_feasibility p \<in> {''low'', ''medium'', ''high''}"

text \<open>A proposal that is already stored is not written again.\<close>

definition add_impact_hypothesis ::
  "digests \<Rightarrow> string \<Rightarrow> string \<Rightarrow> string \<Rightarrow> int \<Rightarrow> hyp_proposal \<Rightarrow> string \<Rightarrow> string \<Rightarrow> repo_db
     \<Rightarrow> (repo_error, repo_db) result" where
  "add_impact_hypothesis G ident cid run ordinal p skill profile D =
     (if hp_evidence p = [] then Inl (RepoErr ''impact hypothesis requires current-stage evidence'')
      else bindR (assert_current_case cid run D) (\<lambda>_.
        if cited_count cid run (hp_evidence p) D \<noteq> card (set (hp_evidence p))
        then Inl (RepoErr ''impact hypothesis cites foreign evidence'')
        else case find (\<lambda>h. rh_case h = cid \<and> rh_run h = run \<and> hp_path (rh_proposal h) = hp_path p) (rp_hyps D) of
               Some h \<Rightarrow> if rh_digest h \<noteq> dg_proposal G p
                         then Inl (RepoErr ''stored impact hypothesis changed'') else Inr D
             | None \<Rightarrow>
                 if ordinal < 1 \<or> 3 < ordinal \<or> \<not> proposal_checks p \<or> \<not> sha_length skill \<or> \<not> sha_length profile
                 then Inl (RepoIntegrity ''CHECK constraint failed'')
                 else if ident \<in> rh_id ` set (rp_hyps D)
                         \<or> (\<exists>h\<in>set (rp_hyps D). rh_case h = cid \<and> rh_run h = run \<and> rh_ordinal h = ordinal)
                 then Inl (RepoIntegrity ''UNIQUE constraint failed'')
                 else Inr (D\<lparr>rp_hyps := rp_hyps D @
                   [\<lparr>rh_id = ident, rh_case = cid, rh_run = run, rh_ordinal = ordinal, rh_proposal = p,
                     rh_skill_sha = skill, rh_profile_sha = profile, rh_digest = dg_proposal G p,
                     rh_status = HypPlanned, rh_agent = None, rh_plan = None, rh_observation = None,
                     rh_started = None, rh_finished = None\<rparr>]\<rparr>)))"

definition update_hyps :: "(rhyp \<Rightarrow> bool) \<Rightarrow> (rhyp \<Rightarrow> rhyp) \<Rightarrow> repo_db \<Rightarrow> repo_db" where
  "update_hyps p f D = D\<lparr>rp_hyps := update_where p f (rp_hyps D)\<rparr>"

definition record_impact_plan ::
  "digests \<Rightarrow> string \<Rightarrow> string \<Rightarrow> document \<Rightarrow> string \<Rightarrow> repo_db \<Rightarrow> (repo_error, repo_db) result" where
  "record_impact_plan G hid agent plan ts D =
     (let skip = (dict_get plan ''disposition'' = Some (PStr ''skip''));
          p = (\<lambda>h. rh_id h = hid \<and> rh_status h = HypPlanned \<and> rh_plan h = None)
      in if \<not> json_finite (PDict plan) then Inl (RepoErr ''Out of range float values'')
         else if rowcount p (rp_hyps D) \<noteq> 1
         then Inl (RepoErr ''impact hypothesis is not available for planning'')
         else Inr (update_hyps p (\<lambda>h. h\<lparr>rh_agent := Some agent, rh_plan := Some (plan, dg_document G plan),
                rh_status := (if skip then HypSkipped else HypPlanned),
                rh_finished := (if skip then Some ts else rh_finished h)\<rparr>) D))"

definition start_impact_hypothesis :: "string \<Rightarrow> string \<Rightarrow> repo_db \<Rightarrow> (repo_error, repo_db) result" where
  "start_impact_hypothesis hid ts D =
     (let p = (\<lambda>h. rh_id h = hid \<and> rh_status h = HypPlanned \<and> rh_plan h \<noteq> None)
      in if rowcount p (rp_hyps D) \<noteq> 1 then Inl (RepoErr ''impact hypothesis is not ready to execute'')
         else Inr (update_hyps p (\<lambda>h. h\<lparr>rh_status := HypRunning, rh_started := Some ts\<rparr>) D))"

text \<open>Finishing again with the same observation is accepted and changes nothing.\<close>

definition finish_impact_hypothesis ::
  "digests \<Rightarrow> string \<Rightarrow> document \<Rightarrow> string \<Rightarrow> repo_db \<Rightarrow> (repo_error, repo_db) result" where
  "finish_impact_hypothesis G hid obs ts D =
     (let p = (\<lambda>h. rh_id h = hid \<and> rh_status h = HypRunning)
      in if \<not> json_finite (PDict obs) then Inl (RepoErr ''Out of range float values'')
         else if rowcount p (rp_hyps D) = 1
         then Inr (update_hyps p (\<lambda>h. h\<lparr>rh_status := HypSucceeded,
                rh_observation := Some (obs, dg_document G obs), rh_finished := Some ts\<rparr>) D)
         else case find_row rh_id hid (rp_hyps D) of
                None \<Rightarrow> Inl (RepoErr ''impact hypothesis cannot be completed'')
              | Some h \<Rightarrow> if rh_status h \<noteq> HypSucceeded
                            \<or> map_option snd (rh_observation h) \<noteq> Some (dg_document G obs)
                          then Inl (RepoErr ''impact hypothesis cannot be completed'') else Inr D)"

definition mark_impact_hypothesis_outcome_unknown :: "string \<Rightarrow> string \<Rightarrow> repo_db \<Rightarrow> repo_db" where
  "mark_impact_hypothesis_outcome_unknown hid ts D =
     update_hyps (\<lambda>h. rh_id h = hid \<and> rh_status h = HypRunning)
       (\<lambda>h. h\<lparr>rh_status := HypUnknown, rh_finished := Some ts\<rparr>) D"

definition fail_impact_hypothesis :: "string \<Rightarrow> string \<Rightarrow> repo_db \<Rightarrow> repo_db" where
  "fail_impact_hypothesis hid ts D =
     update_hyps (\<lambda>h. rh_id h = hid \<and> rh_status h = HypPlanned)
       (\<lambda>h. h\<lparr>rh_status := HypFailed, rh_finished := Some ts\<rparr>) D"

definition quarantine_running_impact_hypotheses :: "string \<Rightarrow> string \<Rightarrow> string \<Rightarrow> repo_db \<Rightarrow> repo_db" where
  "quarantine_running_impact_hypotheses cid run ts D =
     update_hyps (\<lambda>h. rh_case h = cid \<and> rh_run h = run \<and> rh_status h = HypRunning)
       (\<lambda>h. h\<lparr>rh_status := HypUnknown, rh_finished := Some ts\<rparr>) D"

section \<open>Eligibility\<close>

definition eligibility_rows :: "string \<Rightarrow> string \<Rightarrow> el_phase \<Rightarrow> repo_db \<Rightarrow> relig list" where
  "eligibility_rows cid run phase D =
     filter (\<lambda>r. ea_case (rl_verdict r) = cid \<and> rl_run r = run \<and> ea_phase (rl_verdict r) = phase)
       (rp_eligibility D)"

definition latest_eligibility :: "string \<Rightarrow> string \<Rightarrow> el_phase \<Rightarrow> repo_db \<Rightarrow> relig option" where
  "latest_eligibility cid run phase D =
     (let rows = eligibility_rows cid run phase D in if rows = [] then None else Some (last rows))"

definition validate_conditional_context :: "el_request \<Rightarrow> string \<Rightarrow> repo_db \<Rightarrow> bool" where
  "validate_conditional_context r run D =
     (case (er_context r, latest_eligibility (er_case r) run Preflight D) of
        (Some c, Some row) \<Rightarrow> rl_id row = ec_assessment c \<and> rl_output row = ec_output c
          \<and> ea_verdict (rl_verdict row) = Conditional \<and> ea_scope (rl_verdict row) = er_scope r
          \<and> ea_required (rl_verdict row) = ec_required c
      | _ \<Rightarrow> False)"

definition find_eligibility :: "string \<Rightarrow> string \<Rightarrow> el_phase \<Rightarrow> string \<Rightarrow> repo_db \<Rightarrow> relig option" where
  "find_eligibility cid run phase input D = find (\<lambda>r. rl_input r = input) (eligibility_rows cid run phase D)"

text \<open>The check of \<open>eligibility_evidence_summaries\<close>; the projection of the rows is not modelled.\<close>

definition eligibility_evidence :: "string \<Rightarrow> string \<Rightarrow> string list \<Rightarrow> repo_db \<Rightarrow> (repo_error, unit) result" where
  "eligibility_evidence cid run ids D =
     bindR (assert_current_case cid run D) (\<lambda>_.
       if 128 < length ids \<or> \<not> distinct ids then Inl (RepoErr ''invalid eligibility evidence set'')
       else if re_id ` set (filter (\<lambda>e. re_case e = cid \<and> re_run e = run \<and> re_id e \<in> set ids) (rp_evidence D))
               \<noteq> set ids
       then Inl (RepoErr ''eligibility cites evidence outside the current case and stage'') else Inr ())"

definition record_eligibility ::
  "digests \<Rightarrow> string \<Rightarrow> el_request \<Rightarrow> el_assessment \<Rightarrow> repo_db \<Rightarrow> (repo_error, repo_db) result" where
  "record_eligibility G ident r a D =
     (if ea_case a \<noteq> er_case r \<or> ea_phase a \<noteq> er_phase r \<or> ea_scope a \<noteq> er_scope r
      then Inl (RepoErr ''eligibility assessment binding mismatch'')
      else if \<not> set (ea_refs a) \<subseteq> set (er_refs r)
      then Inl (RepoErr ''eligibility assessment cites evidence outside its request'')
      else case find_row rc_id (er_case r) (rp_cases D) of
        None \<Rightarrow> Inl (RepoErr ''unknown Validation case'')
      | Some c \<Rightarrow> bindR (validation_stage (rc_latest c) D) (\<lambda>s.
          if sr_scan s \<noteq> rc_scan c then Inl (RepoErr ''case and stage scan do not match'')
          else if rc_chain c \<noteq> er_chain r then Inl (RepoErr ''eligibility target kind does not match case'')
          else if rc_scope c \<noteq> Some (er_scope r) then Inl (RepoErr ''eligibility scope does not match case scope'')
          else if dict_get (rp_snapshots D) (er_scope r) \<noteq> Some (er_markdown r)
          then Inl (RepoErr ''eligibility scope snapshot does not match request'')
          else if ea_quote a \<noteq> [] \<and> \<not> contains (er_markdown r) (ea_quote a)
          then Inl (RepoErr ''eligibility scope quote is not grounded'')
          else bindR (if er_phase r = PostReplay
                      then if \<not> validate_conditional_context r (rc_latest c) D
                           then Inl (RepoErr ''post-replay conditional context does not match persisted preflight'')
                           else eligibility_evidence (er_case r) (rc_latest c) (er_refs r) D
                      else Inr ()) (\<lambda>_.
               if ident \<in> rl_id ` set (rp_eligibility D)
                  \<or> find_eligibility (er_case r) (rc_latest c) (er_phase r) (dg_request G r) D \<noteq> None
               then Inl (RepoIntegrity ''UNIQUE constraint failed'')
               else Inr (D\<lparr>rp_eligibility := rp_eligibility D @
                 [\<lparr>rl_id = ident, rl_run = rc_latest c, rl_verdict = a, rl_input = dg_request G r,
                   rl_output = dg_assessment G a\<rparr>]\<rparr>))))"

text \<open>
  \<open>_validate_report_assessment\<close>: the stored columns are read back as an assessment (JSON columns
  decode to what was encoded) and validated again.
\<close>

definition report_assessment_ok :: "digests \<Rightarrow> rcase \<Rightarrow> relig \<Rightarrow> repo_db \<Rightarrow> bool" where
  "report_assessment_ok G c r D \<longleftrightarrow>
     (let a = rl_verdict r in
      rc_scope c = Some (ea_scope a) \<and> el_assessment_ok a
      \<and> (case dict_get (rp_snapshots D) (ea_scope a) of None \<Rightarrow> False | Some md \<Rightarrow> grounded (dg_text G) a md)
      \<and> dg_assessment G a = rl_output r
      \<and> set (ea_refs a) \<subseteq> re_id ` set (filter (\<lambda>e. re_case e = rc_id c \<and> re_run e = rc_latest c) (rp_evidence D)))"

text \<open>The rowid of an assessment is its position in the append-only table.\<close>

fun position :: "'a \<Rightarrow> 'a list \<Rightarrow> nat" where
  "position x [] = 0"
| "position x (y # ys) = (if x = y then 0 else Suc (position x ys))"

definition current_report_eligibility :: "digests \<Rightarrow> string \<Rightarrow> repo_db \<Rightarrow> (repo_error, relig) result" where
  "current_report_eligibility G cid D =
     (let none = Inl (RepoErr ''report requires a current ELIGIBLE scope assessment'');
          invalid = Inl (RepoErr ''report requires a valid current ELIGIBLE scope assessment'')
      in case find_row rc_id cid (rp_cases D) of
        None \<Rightarrow> none
      | Some c \<Rightarrow> (case latest_eligibility cid (rc_latest c) Preflight D of
          None \<Rightarrow> none
        | Some pre \<Rightarrow>
            let post = latest_eligibility cid (rc_latest c) PostReplay D;
                newer = (\<lambda>p. position (rl_id pre) (map rl_id (rp_eligibility D))
                               < position (rl_id p) (map rl_id (rp_eligibility D)))
            in if \<not> report_assessment_ok G c pre D then invalid
               else if ea_verdict (rl_verdict pre) \<notin> {Eligible, Conditional} then none
               else if ea_verdict (rl_verdict pre) = Conditional
               then (case post of
                       Some p \<Rightarrow> if \<not> newer p \<or> ea_verdict (rl_verdict p) \<noteq> Eligible
                         then Inl (RepoErr ''conditional report requires post-replay ELIGIBLE scope assessment'')
                         else if \<not> report_assessment_ok G c p D then invalid else Inr p
                     | None \<Rightarrow> Inl (RepoErr ''conditional report requires post-replay ELIGIBLE scope assessment''))
               else (case post of
                       Some p \<Rightarrow> if \<not> newer p then Inr pre
                         else if ea_verdict (rl_verdict p) \<noteq> Eligible then none
                         else if \<not> report_assessment_ok G c p D then invalid else Inr p
                     | None \<Rightarrow> Inr pre)))"

section \<open>Decisions\<close>

record final_decision =
  fd_status :: verdict
  fd_document :: document
  fd_evidence :: "string list"
  fd_impact :: "(int \<times> int \<times> int) option"
  fd_known :: "string option"
  fd_zero_ok :: bool

definition final_impact :: "final_decision \<Rightarrow> (repo_error, impact option) result" where
  "final_impact f =
     (case fd_impact f of None \<Rightarrow> Inr None
      | Some (b, s, a) \<Rightarrow> (case evaluate_impact b s a (fd_zero_ok f) of
          Inl m \<Rightarrow> Inl (ImpactErr m) | Inr i \<Rightarrow> Inr (Some i)))"

definition known_source_ok :: "rcase \<Rightarrow> final_decision \<Rightarrow> repo_db \<Rightarrow> (repo_error, unit) result" where
  "known_source_ok c f D =
     (if fd_status f = Known
      then (case fd_known f of None \<Rightarrow> Inl (RepoErr ''KNOWN requires a current same-scan CONFIRMED source'')
            | Some k \<Rightarrow> (case find_row rc_id k (rp_cases D) of
                None \<Rightarrow> Inl (RepoErr ''KNOWN requires a current same-scan CONFIRMED source'')
              | Some s \<Rightarrow> if rc_scan s \<noteq> rc_scan c \<or> rc_status s \<noteq> Some Confirmed
                            \<or> rc_phase s \<noteq> PhCompleted \<or> rc_decision_run s \<noteq> Some (rc_latest s)
                          then Inl (RepoErr ''KNOWN requires a current same-scan CONFIRMED source'') else Inr ()))
      else if fd_known f \<noteq> None then Inl (RepoErr ''KNOWN source fields are only valid for KNOWN'') else Inr ())"

definition decided :: "digests \<Rightarrow> string \<Rightarrow> final_decision \<Rightarrow> impact option \<Rightarrow> rcase \<Rightarrow> rcase" where
  "decided G run f im c = c\<lparr>rc_phase := PhCompleted, rc_status := Some (fd_status f),
     rc_decision_run := Some run, rc_known := fd_known f,
     rc_impact := map_option (\<lambda>i. (im_boundary i, im_sensitivity i, im_actor i, im_score i, im_severity i)) im,
     rc_decision := Some (fd_document f, dg_document G (fd_document f)), rc_version := Suc (rc_version c)\<rparr>"

definition invalidation :: "string \<Rightarrow> document" where
  "invalidation cid = [(''reason'', PStr ''known_source_no_longer_confirmed''), (''source_case_id'', PStr cid)]"

definition invalidate_known :: "digests \<Rightarrow> string \<Rightarrow> repo_db \<Rightarrow> repo_db" where
  "invalidate_known G cid D =
     update_cases (\<lambda>c. rc_known c = Some cid \<and> rc_status c = Some Known)
       (\<lambda>c. c\<lparr>rc_status := Some Inconclusive, rc_known := None,
            rc_decision := Some (invalidation cid, dg_document G (invalidation cid)),
            rc_version := Suc (rc_version c)\<rparr>) D"

definition finalize ::
  "digests \<Rightarrow> string \<Rightarrow> string \<Rightarrow> nat \<Rightarrow> final_decision \<Rightarrow> repo_db \<Rightarrow> (repo_error, repo_db) result" where
  "finalize G cid run version f D =
     (if \<not> distinct (fd_evidence f) then Inl (RepoErr ''decision evidence IDs must be unique'')
      else bindR (assert_current_case cid run D) (\<lambda>c.
        if rc_version c \<noteq> version then Inl (ConcurrentErr ''case state version changed'')
        else if cited_count cid run (fd_evidence f) D \<noteq> length (fd_evidence f)
        then Inl (RepoErr ''decision cites evidence outside the current case and stage'')
        else bindR (final_impact f) (\<lambda>im.
          if fd_status f \<in> {Confirmed, Underpowered} \<and> im = None
          then Inl (RepoErr ''impact is required for reproduced decisions'')
          else if fd_status f = Underpowered \<and> \<not> (\<exists>i\<in>set_option im. im_underpowered i)
          then Inl (RepoErr ''UNDERPOWERED predicate is not satisfied'')
          else if fd_status f = Confirmed \<and> (\<exists>i\<in>set_option im. im_underpowered i)
          then Inl (RepoErr ''underpowered impact cannot be CONFIRMED'')
          else bindR (known_source_ok c f D) (\<lambda>_.
            if \<not> json_finite (PDict (fd_document f)) then Inl (RepoErr ''Out of range float values'')
            else if fd_status f = Developing then Inl (RepoIntegrity ''CHECK constraint failed'')
            else bindR (update_one_case ''case changed while committing decision''
                   (\<lambda>c. rc_id c = cid \<and> rc_latest c = run \<and> rc_version c = version)
                   (decided G run f im) D) (\<lambda>D1.
              Inr (if rc_status c = Some Confirmed \<and> fd_status f \<noteq> Confirmed
                   then invalidate_known G cid D1 else D1))))))"

text \<open>\<open>read_case\<close> refuses a decision whose digest does not match.\<close>

definition read_case :: "digests \<Rightarrow> string \<Rightarrow> repo_db \<Rightarrow> (repo_error, rcase) result" where
  "read_case G cid D =
     (case find_row rc_id cid (rp_cases D) of
        None \<Rightarrow> Inl (RepoErr ''unknown Validation case'')
      | Some c \<Rightarrow> (case rc_decision c of
          None \<Rightarrow> Inr c
        | Some (doc, sha) \<Rightarrow> if dg_document G doc \<noteq> sha
            then Inl (RepoErr ''Validation decision digest mismatch'') else Inr c))"

definition read_impact_hypothesis :: "digests \<Rightarrow> string \<Rightarrow> repo_db \<Rightarrow> (repo_error, rhyp) result" where
  "read_impact_hypothesis G hid D =
     (case find_row rh_id hid (rp_hyps D) of
        None \<Rightarrow> Inl (RepoErr ''unknown impact hypothesis'')
      | Some h \<Rightarrow> if \<exists>(doc, sha)\<in>set_option (rh_plan h) \<union> set_option (rh_observation h). dg_document G doc \<noteq> sha
                  then Inl (RepoErr ''impact execution digest mismatch'') else Inr h)"

section \<open>Transactions\<close>

text \<open>
  All the transactions on these tables.  \<open>OpStages\<close> is a transaction of the stage lifecycle, which
  may leave any stage table behind; \<open>OpInterrupt\<close> its effect on the cases of a failed stage.
\<close>

datatype repo_op =
    OpBindScope string policy_source
  | OpCreateCase string string string bool string "string option"
  | OpRevalidate string string nat "string option"
  | OpAttempt rattempt
  | OpCompleteAttempt string outcome "bool option" "blocker_axis option" document string
  | OpEvidence revidence
  | OpStageBlind string string nat staging
  | OpResumeBlind string string nat string
  | OpResumeUnblinding string string nat string
  | OpFreeze string string nat string
  | OpPhase string string case_phase
  | OpAction string string string int blocker_axis string document
  | OpStartAction string string
  | OpFinishAction string bool document string
  | OpUnknownAction string document string
  | OpHypothesis string string string int hyp_proposal string string
  | OpPlan string string document string
  | OpStartHyp string string
  | OpFinishHyp string document string
  | OpUnknownHyp string string
  | OpFailHyp string string
  | OpQuarantine string string string
  | OpEligibility string el_request el_assessment
  | OpFinalize string string nat final_decision
  | OpRequeue string
  | OpInterrupt string
  | OpStages "stage_run list"

fun repo_step :: "digests \<Rightarrow> repo_op \<Rightarrow> repo_db \<Rightarrow> (repo_error, repo_db) result" where
  "repo_step G (OpBindScope scan p) D = bind_scope G scan p D"
| "repo_step G (OpCreateCase i scan run ch t given) D = create_case i scan run ch t given D"
| "repo_step G (OpRevalidate c run v given) D = begin_revalidation c run v given D"
| "repo_step G (OpAttempt a) D = add_attempt a D"
| "repo_step G (OpCompleteAttempt a out ob bl doc ts) D = complete_attempt a out ob bl doc ts D"
| "repo_step G (OpEvidence e) D = add_evidence e D"
| "repo_step G (OpStageBlind c run v g) D = stage_blind_case c run v g D"
| "repo_step G (OpResumeBlind c run v p) D = resume_blind_case c run v p D"
| "repo_step G (OpResumeUnblinding c run v p) D = resume_unblinding c run v p D"
| "repo_step G (OpFreeze c run v d) D = freeze_blind_assessment c run v d D"
| "repo_step G (OpPhase c run ph) D = set_processing_phase c run ph D"
| "repo_step G (OpAction i c run n b t d) D = add_development_action i c run n b t d D"
| "repo_step G (OpStartAction a ts) D = start_development_action a ts D"
| "repo_step G (OpFinishAction a ok d ts) D = finish_development_action a ok d ts D"
| "repo_step G (OpUnknownAction a d ts) D = mark_development_action_outcome_unknown a d ts D"
| "repo_step G (OpHypothesis i c run n p sk pr) D = add_impact_hypothesis G i c run n p sk pr D"
| "repo_step G (OpPlan h ag pl ts) D = record_impact_plan G h ag pl ts D"
| "repo_step G (OpStartHyp h ts) D = start_impact_hypothesis h ts D"
| "repo_step G (OpFinishHyp h ob ts) D = finish_impact_hypothesis G h ob ts D"
| "repo_step G (OpUnknownHyp h ts) D = Inr (mark_impact_hypothesis_outcome_unknown h ts D)"
| "repo_step G (OpFailHyp h ts) D = Inr (fail_impact_hypothesis h ts D)"
| "repo_step G (OpQuarantine c run ts) D = Inr (quarantine_running_impact_hypotheses c run ts D)"
| "repo_step G (OpEligibility i r a) D = record_eligibility G i r a D"
| "repo_step G (OpFinalize c run v f) D = finalize G c run v f D"
| "repo_step G (OpRequeue c) D = Inr (requeue_interrupted c D)"
| "repo_step G (OpInterrupt run) D = Inr (interrupt_cases run D)"
| "repo_step G (OpStages rows) D = Inr (D\<lparr>rp_stages := rows\<rparr>)"

end
