(* ===== verification/Case_Invariants.thy ===== *)
theory Case_Invariants
  imports Case_Repository Interfaces
begin

text \<open>
  What the transactions of the Validation repository keep true: how one transaction rewrites the
  rows of the case table, the invariants that follow, the interpretation of \<open>versioned_store\<close>
  on the model, and the properties of the repository.
\<close>

section \<open>One transaction, row by row\<close>

definition newborn :: "rcase \<Rightarrow> bool" where
  "newborn c \<longleftrightarrow> rc_status c = None \<and> rc_known c = None \<and> rc_frozen c = None \<and> rc_phase c = PhQueued"

text \<open>What the transaction \<open>x\<close> may do to a case.\<close>

definition row_ok :: "repo_op \<Rightarrow> rcase \<Rightarrow> rcase \<Rightarrow> bool" where
  "row_ok x c c' \<longleftrightarrow> rc_id c' = rc_id c \<and> rc_scan c' = rc_scan c \<and> rc_version c \<le> rc_version c'
     \<and> (rc_frozen c' = rc_frozen c \<or> rc_frozen c = None \<or> (\<exists>run v g. x = OpRevalidate (rc_id c) run v g))
     \<and> (rc_phase c' = PhUnblinding \<longrightarrow>
          rc_frozen c' \<noteq> None \<or> (rc_phase c = PhUnblinding \<and> rc_frozen c' = rc_frozen c))
     \<and> ((\<forall>cid run v f. x \<noteq> OpFinalize cid run v f) \<longrightarrow>
          rc_status c' = rc_status c \<and> rc_known c' = rc_known c \<and> rc_impact c' = rc_impact c)"

definition rows_step :: "repo_op \<Rightarrow> repo_db \<Rightarrow> repo_db \<Rightarrow> bool" where
  "rows_step x D D' \<longleftrightarrow> (\<exists>g new. rp_cases D' = map g (rp_cases D) @ new
     \<and> (\<forall>c. row_ok x c (g c))
     \<and> (new = [] \<or> (\<exists>c. new = [c] \<and> rc_id c \<notin> rc_id ` set (rp_cases D) \<and> newborn c)))"

lemma row_ok_refl [simp]: "row_ok x c c"
  by (simp add: row_ok_def)

lemma rows_same: "rp_cases D' = rp_cases D \<Longrightarrow> rows_step x D D'"
  unfolding rows_step_def by (intro exI [of _ id] exI [of _ "[]"]) simp

lemma rows_update:
  assumes "rp_cases D' = update_where p f (rp_cases D)" and "\<And>c. p c \<Longrightarrow> row_ok x c (f c)"
  shows "rows_step x D D'"
  unfolding rows_step_def
  by (intro exI [of _ "\<lambda>c. if p c then f c else c"] exI [of _ "[]"])
    (use assms in \<open>simp add: update_where_def\<close>)

lemma rows_trans:
  assumes "rows_step x D D1" and "rp_cases D' = update_where p f (rp_cases D1)"
    and "\<And>c c'. row_ok x c c' \<Longrightarrow> p c' \<Longrightarrow> row_ok x c (f c')" and "\<And>c. newborn c \<Longrightarrow> \<not> p c"
  shows "rows_step x D D'"
proof -
  obtain g new where g: "rp_cases D1 = map g (rp_cases D) @ new" "\<forall>c. row_ok x c (g c)"
    and new: "new = [] \<or> (\<exists>c. new = [c] \<and> rc_id c \<notin> rc_id ` set (rp_cases D) \<and> newborn c)"
    using assms(1) unfolding rows_step_def by blast
  have "update_where p f new = new" using new assms(4) by auto
  then have "rp_cases D' = map (\<lambda>c. if p (g c) then f (g c) else g c) (rp_cases D) @ new"
    by (simp add: assms(2) g(1) update_where_def)
  moreover have "row_ok x c (if p (g c) then f (g c) else g c)" for c using assms(3) g(2) by simp
  ultimately show ?thesis using new unfolding rows_step_def by blast
qed

lemma update_one_case_Inr:
  "update_one_case msg p f D = Inr D' \<longleftrightarrow> rowcount p (rp_cases D) = 1 \<and> D' = update_cases p f D"
  by (auto simp: update_one_case_def)

lemma update_cases_simps [simp]:
  "rp_cases (update_cases p f D) = update_where p f (rp_cases D)"
  "rp_hyps (update_cases p f D) = rp_hyps D" "rp_actions (update_cases p f D) = rp_actions D"
  "rp_attempts (update_cases p f D) = rp_attempts D" "rp_evidence (update_cases p f D) = rp_evidence D"
  "rp_eligibility (update_cases p f D) = rp_eligibility D" "rp_snapshots (update_cases p f D) = rp_snapshots D"
  by (simp_all add: update_cases_def)

lemma update_hyps_simps [simp]:
  "rp_hyps (update_hyps p f D) = update_where p f (rp_hyps D)"
  "rp_cases (update_hyps p f D) = rp_cases D" "rp_actions (update_hyps p f D) = rp_actions D"
  "rp_attempts (update_hyps p f D) = rp_attempts D" "rp_evidence (update_hyps p f D) = rp_evidence D"
  "rp_eligibility (update_hyps p f D) = rp_eligibility D" "rp_snapshots (update_hyps p f D) = rp_snapshots D"
  by (simp_all add: update_hyps_def)

lemma finalize_Inr:
  assumes "finalize G cid run version f D = Inr D'"
  obtains c im where "assert_current_case cid run D = Inr c" "rc_version c = version"
    "cited_count cid run (fd_evidence f) D = length (fd_evidence f)" "distinct (fd_evidence f)"
    "final_impact f = Inr im" "known_source_ok c f D = Inr ()"
    "fd_status f \<in> {Confirmed, Underpowered} \<Longrightarrow> im \<noteq> None"
    "fd_status f = Confirmed \<Longrightarrow> \<forall>i\<in>set_option im. \<not> im_underpowered i"
    "rowcount (\<lambda>c. rc_id c = cid \<and> rc_latest c = run \<and> rc_version c = version) (rp_cases D) = 1"
    "D' = (let D1 = update_cases (\<lambda>c. rc_id c = cid \<and> rc_latest c = run \<and> rc_version c = version)
             (decided G run f im) D in
           if rc_status c = Some Confirmed \<and> fd_status f \<noteq> Confirmed then invalidate_known G cid D1 else D1)"
proof -
  from assms obtain c im where c: "assert_current_case cid run D = Inr c" and im: "final_impact f = Inr im"
    and kn: "known_source_ok c f D = Inr ()" and d: "distinct (fd_evidence f)" and v: "rc_version c = version"
    and n: "cited_count cid run (fd_evidence f) D = length (fd_evidence f)"
    and i1: "\<not> (fd_status f \<in> {Confirmed, Underpowered} \<and> im = None)"
    and i2: "\<not> (fd_status f = Confirmed \<and> (\<exists>i\<in>set_option im. im_underpowered i))"
    and up: "bindR (update_one_case ''case changed while committing decision''
                   (\<lambda>c. rc_id c = cid \<and> rc_latest c = run \<and> rc_version c = version)
                   (decided G run f im) D) (\<lambda>D1.
              Inr (if rc_status c = Some Confirmed \<and> fd_status f \<noteq> Confirmed
                   then invalidate_known G cid D1 else D1)) = Inr D'"
    unfolding finalize_def bindR_eq_Inr by (simp only: bindR_eq_Inr split: if_splits) auto
  from up have rc: "rowcount (\<lambda>c. rc_id c = cid \<and> rc_latest c = run \<and> rc_version c = version) (rp_cases D) = 1"
    and D': "D' = (let D1 = update_cases (\<lambda>c. rc_id c = cid \<and> rc_latest c = run \<and> rc_version c = version)
             (decided G run f im) D in
           if rc_status c = Some Confirmed \<and> fd_status f \<noteq> Confirmed then invalidate_known G cid D1 else D1)"
    by (auto simp: bindR_eq_Inr update_one_case_Inr Let_def)
  show ?thesis by (rule that [OF c v n d im kn _ _ rc D']) (use i1 i2 in auto)
qed

lemma rows_finalize:
  assumes "finalize G cid run version f D = Inr D'"
  shows "rows_step (OpFinalize cid run version f) D D'"
  using assms
proof (rule finalize_Inr)
  fix c im
  let ?D1 = "update_cases (\<lambda>c. rc_id c = cid \<and> rc_latest c = run \<and> rc_version c = version) (decided G run f im) D"
  assume D': "D' = (let D1 = ?D1 in
    if rc_status c = Some Confirmed \<and> fd_status f \<noteq> Confirmed then invalidate_known G cid D1 else D1)"
  have 1: "rows_step (OpFinalize cid run version f) D ?D1"
    by (rule rows_update [OF update_cases_simps(1)]) (simp add: row_ok_def decided_def)
  have "rows_step (OpFinalize cid run version f) D (invalidate_known G cid ?D1)"
    unfolding invalidate_known_def
    by (rule rows_trans [OF 1 update_cases_simps(1)]) (auto simp: row_ok_def newborn_def)
  with 1 show ?thesis by (simp add: D' Let_def)
qed

lemma rows_one:
  assumes "update_one_case msg p f D = Inr D'" and "\<And>c. p c \<Longrightarrow> row_ok x c (f c)"
  shows "rows_step x D D'"
  using assms rows_update [OF update_cases_simps(1)] by (auto simp: update_one_case_Inr)

lemma rows_new:
  assumes "rp_cases D' = rp_cases D @ [c]" and "rc_id c \<notin> rc_id ` set (rp_cases D)" and "newborn c"
  shows "rows_step x D D'"
  unfolding rows_step_def by (intro exI [of _ id] exI [of _ "[c]"]) (use assms in simp)

lemma rows_create_case:
  "create_case ident scan run chain target given D = Inr D' \<Longrightarrow> rows_step x D D'"
  unfolding create_case_def bindR_eq_Inr by (auto split: if_splits intro!: rows_new simp: bindR_eq_Inr newborn_def)

lemma rows_begin_revalidation:
  "begin_revalidation cid run v given D = Inr D' \<Longrightarrow> rows_step (OpRevalidate cid run v given) D D'"
  unfolding begin_revalidation_def bindR_eq_Inr
  by (elim exE conjE rows_one) (auto simp: bindR_eq_Inr row_ok_def intro: rows_one)

lemma rows_stage_blind_case:
  "stage_blind_case cid run v g D = Inr D' \<Longrightarrow> rows_step (OpStageBlind cid run v g) D D'"
  unfolding stage_blind_case_def bindR_eq_Inr Let_def
  by (auto split: if_splits simp: row_ok_def elim!: rows_one)

lemma rows_resume_blind_case:
  "resume_blind_case cid run v pol D = Inr D' \<Longrightarrow> rows_step (OpResumeBlind cid run v pol) D D'"
  unfolding resume_blind_case_def Let_def by (auto split: if_splits simp: row_ok_def elim!: rows_one)

lemma rows_resume_unblinding:
  "resume_unblinding cid run v pol D = Inr D' \<Longrightarrow> rows_step (OpResumeUnblinding cid run v pol) D D'"
  unfolding resume_unblinding_def Let_def by (auto split: if_splits simp: row_ok_def elim!: rows_one)

lemma rows_freeze:
  "freeze_blind_assessment cid run v d D = Inr D' \<Longrightarrow> rows_step (OpFreeze cid run v d) D D'"
  unfolding freeze_blind_assessment_def bindR_eq_Inr Let_def
  by (auto split: if_splits simp: row_ok_def elim!: rows_one)

lemma rows_phase:
  "set_processing_phase cid run ph D = Inr D' \<Longrightarrow> rows_step (OpPhase cid run ph) D D'"
  unfolding set_processing_phase_def bindR_eq_Inr
  by (auto split: if_splits simp: bindR_eq_Inr row_ok_def intro!: rows_update [OF update_cases_simps(1)])

lemma rows_requeue: "rows_step (OpRequeue cid) D (requeue_interrupted cid D)"
proof -
  have "rows_step (OpRequeue cid) D (update_cases (\<lambda>c. rc_id c = cid) (\<lambda>c. c\<lparr>rc_phase := PhQueued\<rparr>) D)"
    by (rule rows_update [OF update_cases_simps(1)]) (simp add: row_ok_def)
  then show ?thesis
    by (simp add: requeue_interrupted_def rows_same split: option.split)
qed

lemma rows_interrupt: "rows_step (OpInterrupt run) D (interrupt_cases run D)"
  unfolding interrupt_cases_def
  by (rule rows_update [OF update_cases_simps(1)]) (simp add: row_ok_def)

text \<open>The other transactions leave the cases alone.\<close>

lemma bind_scope_same: "bind_scope G scan p D = Inr D' \<Longrightarrow> rp_cases D' = rp_cases D"
  by (auto simp: bind_scope_def Let_def split: if_splits)

lemma attempt_same:
  "add_attempt a D = Inr D' \<Longrightarrow> rp_cases D' = rp_cases D"
  "complete_attempt i out ob bl doc ts D = Inr D' \<Longrightarrow> rp_cases D' = rp_cases D"
  "add_evidence e D = Inr D' \<Longrightarrow> rp_cases D' = rp_cases D"
  by (auto simp: add_attempt_def complete_attempt_def add_evidence_def bindR_eq_Inr Let_def split: if_splits)

lemma action_same:
  "add_development_action i c run n b t d D = Inr D' \<Longrightarrow> rp_cases D' = rp_cases D"
  "start_development_action i ts D = Inr D' \<Longrightarrow> rp_cases D' = rp_cases D"
  "finish_development_action i ok d ts D = Inr D' \<Longrightarrow> rp_cases D' = rp_cases D"
  "mark_development_action_outcome_unknown i d ts D = Inr D' \<Longrightarrow> rp_cases D' = rp_cases D"
  by (auto simp: add_development_action_def start_development_action_def finish_development_action_def
      mark_development_action_outcome_unknown_def close_action_def update_action_def bindR_eq_Inr split: if_splits)

lemma hyp_same:
  "add_impact_hypothesis G i c run n p sk pr D = Inr D' \<Longrightarrow> rp_cases D' = rp_cases D"
  "record_impact_plan G h ag pl ts D = Inr D' \<Longrightarrow> rp_cases D' = rp_cases D"
  "start_impact_hypothesis h ts D = Inr D' \<Longrightarrow> rp_cases D' = rp_cases D"
  "finish_impact_hypothesis G h ob ts D = Inr D' \<Longrightarrow> rp_cases D' = rp_cases D"
  by (auto simp: add_impact_hypothesis_def record_impact_plan_def start_impact_hypothesis_def
      finish_impact_hypothesis_def bindR_eq_Inr Let_def split: if_splits option.splits)

lemma eligibility_same: "record_eligibility G i r a D = Inr D' \<Longrightarrow> rp_cases D' = rp_cases D"
  unfolding record_eligibility_def
  by (auto simp: bindR_eq_Inr split: if_splits option.splits)

lemma step_rows: "repo_step G x D = Inr D' \<Longrightarrow> rows_step x D D'"
  by (cases x)
    (auto intro: rows_same rows_create_case rows_begin_revalidation rows_stage_blind_case
      rows_resume_blind_case rows_resume_unblinding rows_freeze rows_phase rows_requeue rows_interrupt
      rows_finalize bind_scope_same attempt_same action_same hyp_same eligibility_same
      simp: mark_impact_hypothesis_outcome_unknown_def fail_impact_hypothesis_def
      quarantine_running_impact_hypotheses_def)

section \<open>Versions\<close>

definition case_version :: "repo_db \<Rightarrow> string \<Rightarrow> nat option" where
  "case_version D cid = map_option rc_version (find_row rc_id cid (rp_cases D))"

fun versioned_write :: "repo_op \<Rightarrow> (string \<times> nat) option" where
  "versioned_write (OpRevalidate c run v given) = Some (c, v)"
| "versioned_write (OpStageBlind c run v g) = Some (c, v)"
| "versioned_write (OpFreeze c run v d) = Some (c, v)"
| "versioned_write (OpFinalize c run v f) = Some (c, v)"
| "versioned_write _ = None"

lemma find_row_map: "(\<And>c. key (g c) = key c) \<Longrightarrow> find_row key k (map g t) = map_option g (find_row key k t)"
  by (induction t) (auto simp: find_row_def)

lemma rows_find:
  assumes "rows_step x D D'" and "find_row rc_id cid (rp_cases D) = Some c"
  shows "\<exists>c'. find_row rc_id cid (rp_cases D') = Some c' \<and> row_ok x c c'"
proof -
  obtain g new where g: "rp_cases D' = map g (rp_cases D) @ new" "\<forall>c. row_ok x c (g c)"
    using assms(1) unfolding rows_step_def by blast
  have "rc_id (g c) = rc_id c" for c using g(2) by (simp add: row_ok_def)
  then have "find_row rc_id cid (rp_cases D') = Some (g c)"
    by (simp add: g(1) find_row_append find_row_map assms(2))
  with g(2) show ?thesis by blast
qed

lemma version_grows:
  assumes "rows_step x D D'" and "case_version D cid = Some v"
  shows "\<exists>w\<ge>v. case_version D' cid = Some w"
  using assms rows_find [OF assms(1)] by (fastforce simp: case_version_def row_ok_def)

text \<open>Exactly one row matched, and rows with the same identifier are the same row.\<close>

lemma one_row:
  assumes "rowcount p t = 1" and "\<And>c. p c \<Longrightarrow> key c = k" and "distinct (map key t)"
  shows "\<exists>c. find_row key k t = Some c \<and> p c"
proof -
  from assms(1) have "filter p t \<noteq> []" by (auto simp: rowcount_def)
  then obtain c where "c \<in> set t" "p c" by (auto simp: filter_empty_conv)
  with find_row_unique [OF assms(3)] assms(2) show ?thesis by metis
qed

text \<open>Case identifiers stay unique, so the version a write names is the version stored.\<close>

definition cases_distinct :: "repo_db \<Rightarrow> bool" where
  "cases_distinct D \<longleftrightarrow> distinct (map rc_id (rp_cases D))"

lemma rows_ids:
  assumes "rows_step x D D'"
  shows "\<exists>ids. map rc_id (rp_cases D') = map rc_id (rp_cases D) @ ids
    \<and> (ids = [] \<or> (\<exists>i. ids = [i] \<and> i \<notin> set (map rc_id (rp_cases D))))"
proof -
  obtain g new where g: "rp_cases D' = map g (rp_cases D) @ new" "\<forall>c. row_ok x c (g c)"
    and new: "new = [] \<or> (\<exists>c. new = [c] \<and> rc_id c \<notin> rc_id ` set (rp_cases D) \<and> newborn c)"
    using assms unfolding rows_step_def by blast
  have "rc_id (g c) = rc_id c" for c using g(2) by (simp add: row_ok_def)
  then have "map rc_id (rp_cases D') = map rc_id (rp_cases D) @ map rc_id new" by (simp add: g(1))
  with new show ?thesis by auto
qed

lemma step_distinct: "repo_step G x D = Inr D' \<Longrightarrow> cases_distinct D \<Longrightarrow> cases_distinct D'"
  using rows_ids [OF step_rows] by (fastforce simp: cases_distinct_def)

lemma one_case_write:
  assumes "update_one_case msg p f D = Inr D'" and "\<And>c. p c \<Longrightarrow> rc_id c = cid \<and> rc_version c = v"
    and "\<And>c. rc_id (f c) = rc_id c \<and> rc_version (f c) = Suc (rc_version c)" and "cases_distinct D"
  shows "case_version D cid = Some v \<and> case_version D' cid = Some (Suc v)"
proof -
  from assms(1) have D': "D' = update_cases p f D" and "rowcount p (rp_cases D) = 1"
    by (auto simp: update_one_case_Inr)
  then obtain c where "find_row rc_id cid (rp_cases D) = Some c" "p c"
    using one_row [of p _ rc_id] assms(2,4) unfolding cases_distinct_def by metis
  moreover have "rc_id (f c) = rc_id c" for c using assms(3) by blast
  ultimately show ?thesis using assms(2,3)
    by (simp add: case_version_def D' find_row_update_where)
qed

lemma write_guarded:
  assumes "repo_step G x D = Inr D'" and "versioned_write x = Some (cid, v)" and "cases_distinct D"
  shows "case_version D cid = Some v \<and> (\<exists>w>v. case_version D' cid = Some w)"
proof (cases x)
  case (OpRevalidate c run v' given)
  then show ?thesis using assms
    by (auto simp: begin_revalidation_def bindR_eq_Inr dest!: one_case_write [of _ _ _ _ _ cid v])
next
  case (OpStageBlind c run v' g)
  then show ?thesis using assms
    by (auto simp: stage_blind_case_def bindR_eq_Inr Let_def split: if_splits
        dest!: one_case_write [of _ _ _ _ _ cid v])
next
  case (OpFreeze c run v' d)
  then show ?thesis using assms
    by (auto simp: freeze_blind_assessment_def bindR_eq_Inr Let_def split: if_splits
        dest!: one_case_write [of _ _ _ _ _ cid v])
next
  case (OpFinalize c run v' f)
  with assms have fin: "finalize G cid run v f D = Inr D'" by simp
  then show ?thesis
  proof (rule finalize_Inr)
    fix r im
    let ?p = "\<lambda>c. rc_id c = cid \<and> rc_latest c = run \<and> rc_version c = v"
    let ?D1 = "update_cases ?p (decided G run f im) D"
    assume "rowcount ?p (rp_cases D) = 1"
      and D': "D' = (let D1 = ?D1 in
        if rc_status r = Some Confirmed \<and> fd_status f \<noteq> Confirmed then invalidate_known G cid D1 else D1)"
    then have "update_one_case [] ?p (decided G run f im) D = Inr ?D1" by (simp add: update_one_case_Inr)
    then have 1: "case_version D cid = Some v \<and> case_version ?D1 cid = Some (Suc v)"
      by (rule one_case_write) (simp_all add: decided_def assms(3))
    have "rows_step x ?D1 (invalidate_known G cid ?D1)"
      unfolding invalidate_known_def OpFinalize
      by (rule rows_update [OF update_cases_simps(1)]) (simp add: row_ok_def)
    then have "\<exists>w\<ge>Suc v. case_version (invalidate_known G cid ?D1) cid = Some w"
      using 1 version_grows by blast
    with 1 D' show ?thesis by (auto simp: Let_def)
  qed
qed (use assms in auto)

interpretation cases: versioned_store "repo_step G" cases_distinct case_version versioned_write
proof
  fix x D D' cid v
  assume "repo_step G x D = Inr D'"
  then show "cases_distinct D \<Longrightarrow> cases_distinct D'" by (rule step_distinct)
next
  fix x D D' cid v
  assume "repo_step G x D = Inr D'" "cases_distinct D" "versioned_write x = Some (cid, v)"
  then show "case_version D cid = Some v" "\<exists>w>v. case_version D' cid = Some w"
    using write_guarded by blast+
next
  fix x D D' cid v
  assume "repo_step G x D = Inr D'" "case_version D cid = Some v"
  then show "\<exists>w\<ge>v. case_version D' cid = Some w" using version_grows [OF step_rows] by blast
qed

text \<open>
  No lost update.  When one writer has staged, frozen, decided or reopened a case on the
  version it read, every other such write that read the same version is refused, whatever
  transactions ran in between, in this or in other stages.
\<close>

theorem second_writer_refused:
  assumes "cases_distinct D" and "repo_step G x D = Inr D'"
    and "versioned_write x = Some (cid, v)" and "versioned_write y = Some (cid, v)"
  shows "\<exists>e. repo_step G y (run_ops (repo_step G) xs D') = Inl e"
  using assms by (rule cases.lost_update_refused)

section \<open>Known duplicates, frozen assessments, proved impact\<close>

text \<open>The row of a confirmed case that a KNOWN case rests on.\<close>

definition rests_on :: "rcase \<Rightarrow> rcase \<Rightarrow> bool" where
  "rests_on c s \<longleftrightarrow> rc_known c = Some (rc_id s) \<and> rc_status s = Some Confirmed \<and> rc_scan s = rc_scan c"

definition impact_proved :: "rcase \<Rightarrow> bool" where
  "impact_proved c \<longleftrightarrow> (\<exists>b s a. rc_impact c = Some (b, s, a, b + s + a, severity_of (b + s + a))
     \<and> b \<in> {1..3} \<and> s \<in> {0..3} \<and> a \<in> {0..3} \<and> 3 \<le> b + s + a)"

definition repo_ok :: "repo_db \<Rightarrow> bool" where
  "repo_ok D \<longleftrightarrow> cases_distinct D \<and> (\<forall>c\<in>set (rp_cases D).
     (rc_status c = Some Known \<longrightarrow> (\<exists>s\<in>set (rp_cases D). rests_on c s))
     \<and> (rc_status c = Some Confirmed \<longrightarrow> impact_proved c)
     \<and> (rc_phase c = PhUnblinding \<longrightarrow> rc_frozen c \<noteq> None))"

lemma rests_on_kept: "rests_on c s \<Longrightarrow> row_ok x c c' \<Longrightarrow> row_ok x s s' \<Longrightarrow> rc_known c' = rc_known c
    \<Longrightarrow> rc_status s' = rc_status s \<Longrightarrow> rests_on c' s'"
  by (simp add: rests_on_def row_ok_def)

lemma repo_ok_plain:
  assumes "rows_step x D D'" and "\<forall>cid run v f. x \<noteq> OpFinalize cid run v f" and "repo_ok D" "cases_distinct D'"
  shows "repo_ok D'"
proof -
  obtain g new where g: "rp_cases D' = map g (rp_cases D) @ new" and ok: "\<And>c. row_ok x c (g c)"
    and new: "new = [] \<or> (\<exists>c. new = [c] \<and> rc_id c \<notin> rc_id ` set (rp_cases D) \<and> newborn c)"
    using assms(1) unfolding rows_step_def by blast
  have same: "rc_status (g c) = rc_status c" "rc_known (g c) = rc_known c" "rc_impact (g c) = rc_impact c" for c
    using ok [of c] assms(2) by (simp_all add: row_ok_def)
  have "(rc_status c' = Some Known \<longrightarrow> (\<exists>s\<in>set (rp_cases D'). rests_on c' s))
     \<and> (rc_status c' = Some Confirmed \<longrightarrow> impact_proved c')
     \<and> (rc_phase c' = PhUnblinding \<longrightarrow> rc_frozen c' \<noteq> None)" if in': "c' \<in> set (rp_cases D')" for c'
  proof (cases "c' \<in> set new")
    case True
    with new show ?thesis by (auto simp: newborn_def)
  next
    case False
    then obtain c where c: "c \<in> set (rp_cases D)" "c' = g c" using in' g by auto
    have "rc_status c' = Some Known \<longrightarrow> (\<exists>s\<in>set (rp_cases D'). rests_on c' s)"
    proof
      assume "rc_status c' = Some Known"
      then obtain s where "s \<in> set (rp_cases D)" "rests_on c s"
        using assms(3) c same unfolding repo_ok_def by metis
      then have "rests_on c' (g s)" "g s \<in> set (rp_cases D')"
        using rests_on_kept [OF _ ok ok] same c(2) g by auto
      then show "\<exists>s\<in>set (rp_cases D'). rests_on c' s" by blast
    qed
    moreover have "rc_phase c' = PhUnblinding \<longrightarrow> rc_frozen c' \<noteq> None"
      using ok [of c] assms(3) c unfolding repo_ok_def row_ok_def by metis
    moreover have "rc_status c' = Some Confirmed \<longrightarrow> impact_proved c'"
      using assms(3) c same unfolding repo_ok_def impact_proved_def by simp
    ultimately show ?thesis by blast
  qed
  with assms(4) show ?thesis unfolding repo_ok_def by blast
qed

lemma final_impact_proved:
  assumes "final_impact f = Inr (Some i)" and "\<not> im_underpowered i"
  shows "impact_proved (decided G run f (Some i) c)"
proof -
  obtain b s a where "fd_impact f = Some (b, s, a)" and i: "evaluate_impact b s a (fd_zero_ok f) = Inr i"
    using assms(1) by (auto simp: final_impact_def split: option.splits sum.splits)
  have "b \<noteq> 0" "3 \<le> b + s + a" "b \<in> {0..3}" "s \<in> {0..3}" "a \<in> {0..3}"
    using evaluate_impact_Inr [OF i] assms(2) by auto
  with evaluate_impact_Inr [OF i] show ?thesis
    unfolding impact_proved_def decided_def by (intro exI [of _ b] exI [of _ s] exI [of _ a]) simp
qed

lemma assert_current_case_Inr:
  assumes "assert_current_case cid run D = Inr c"
  shows "find_row rc_id cid (rp_cases D) = Some c \<and> rc_latest c = run \<and> c \<in> set (rp_cases D) \<and> rc_id c = cid"
  using assms by (auto simp: assert_current_case_def bindR_eq_Inr split: option.splits if_splits dest: find_row_Some)

lemma known_source_Inr:
  assumes "known_source_ok c f D = Inr ()" and "fd_status f = Known"
  shows "\<exists>s\<in>set (rp_cases D). fd_known f = Some (rc_id s) \<and> rc_status s = Some Confirmed \<and> rc_scan s = rc_scan c"
  using assms by (auto simp: known_source_ok_def split: option.splits if_splits dest: find_row_Some)

lemma same_id_same_row:
  "cases_distinct D \<Longrightarrow> c \<in> set (rp_cases D) \<Longrightarrow> s \<in> set (rp_cases D) \<Longrightarrow> rc_id c = rc_id s \<Longrightarrow> c = s"
  unfolding cases_distinct_def by (metis find_row_unique option.inject)

lemma set_update_where: "set (update_where p f t) = (\<lambda>r. if p r then f r else r) ` set t"
  by (simp add: update_where_def)

text \<open>The case table after a decision: the decided case, and the invalidated ones.\<close>

lemma finalize_rows:
  assumes "finalize G cid run version f D = Inr D'" and "cases_distinct D"
  obtains c im where "c \<in> set (rp_cases D)" "rc_id c = cid" "final_impact f = Inr im"
    "known_source_ok c f D = Inr ()"
    "fd_status f = Confirmed \<Longrightarrow> \<exists>i. im = Some i \<and> \<not> im_underpowered i"
    "set (rp_cases D') = (\<lambda>r. let r' = (if r = c then decided G run f im r else r) in
       if rc_status c = Some Confirmed \<and> fd_status f \<noteq> Confirmed \<and> rc_known r' = Some cid \<and> rc_status r' = Some Known
       then r'\<lparr>rc_status := Some Inconclusive, rc_known := None,
            rc_decision := Some (invalidation cid, dg_document G (invalidation cid)),
            rc_version := Suc (rc_version r')\<rparr> else r') ` set (rp_cases D)"
  using assms(1)
proof (rule finalize_Inr)
  fix c im
  let ?p = "\<lambda>c. rc_id c = cid \<and> rc_latest c = run \<and> rc_version c = version"
  assume c: "assert_current_case cid run D = Inr c" "rc_version c = version"
    and im: "final_impact f = Inr im" and kn: "known_source_ok c f D = Inr ()"
    and i1: "fd_status f \<in> {Confirmed, Underpowered} \<Longrightarrow> im \<noteq> None"
    and i2: "fd_status f = Confirmed \<Longrightarrow> \<forall>i\<in>set_option im. \<not> im_underpowered i"
    and D': "D' = (let D1 = update_cases ?p (decided G run f im) D in
           if rc_status c = Some Confirmed \<and> fd_status f \<noteq> Confirmed then invalidate_known G cid D1 else D1)"
  note cc = assert_current_case_Inr [OF c(1)]
  have p: "?p r \<longleftrightarrow> r = c" if "r \<in> set (rp_cases D)" for r
    using same_id_same_row [OF assms(2) that, of c] cc c(2) by auto
  have up: "set (update_where ?p (decided G run f im) (rp_cases D)) =
      (\<lambda>r. if r = c then decided G run f im r else r) ` set (rp_cases D)"
    unfolding update_where_def set_map by (rule image_cong) (use p in auto)
  have conf: "fd_status f = Confirmed \<Longrightarrow> \<exists>i. im = Some i \<and> \<not> im_underpowered i"
    using i1 i2 by (cases im) auto
  have "set (rp_cases D') = (\<lambda>r. let r' = (if r = c then decided G run f im r else r) in
       if rc_status c = Some Confirmed \<and> fd_status f \<noteq> Confirmed \<and> rc_known r' = Some cid \<and> rc_status r' = Some Known
       then r'\<lparr>rc_status := Some Inconclusive, rc_known := None,
            rc_decision := Some (invalidation cid, dg_document G (invalidation cid)),
            rc_version := Suc (rc_version r')\<rparr> else r') ` set (rp_cases D)"
  proof (cases "rc_status c = Some Confirmed \<and> fd_status f \<noteq> Confirmed")
    case True
    let ?q = "\<lambda>c. rc_known c = Some cid \<and> rc_status c = Some Known"
    let ?k = "\<lambda>c. c\<lparr>rc_status := Some Inconclusive, rc_known := None,
            rc_decision := Some (invalidation cid, dg_document G (invalidation cid)),
            rc_version := Suc (rc_version c)\<rparr>"
    from True have "rp_cases D' = update_where ?q ?k (update_where ?p (decided G run f im) (rp_cases D))"
      by (simp add: D' Let_def invalidate_known_def)
    then have "set (rp_cases D') = (\<lambda>r. if ?q r then ?k r else r) `
        (\<lambda>r. if r = c then decided G run f im r else r) ` set (rp_cases D)"
      by (simp only: set_update_where [of ?q ?k] up)
    then show ?thesis using True by (simp only: image_image Let_def simp_thms)
  next
    case False
    then have "rp_cases D' = update_where ?p (decided G run f im) (rp_cases D)"
      unfolding D' Let_def by (simp only: if_not_P update_cases_simps not_False_eq_True if_False)
    moreover have "\<not> (rc_status c = Some Confirmed \<and> fd_status f \<noteq> Confirmed \<and> Q)" for Q using False by blast
    ultimately show ?thesis using up by (simp only: Let_def if_False)
  qed
  with that [OF _ _ im kn conf] cc show ?thesis by blast
qed

lemma repo_ok_finalize:
  assumes "finalize G cid run version f D = Inr D'" and ok: "repo_ok D" and dist: "cases_distinct D'"
  shows "repo_ok D'"
proof -
  from ok have "cases_distinct D" by (simp add: repo_ok_def)
  with assms(1) show ?thesis
  proof (rule finalize_rows)
    fix c im
    let ?h = "\<lambda>r. if r = c then decided G run f im r else r"
    let ?inv = "\<lambda>r. rc_status c = Some Confirmed \<and> fd_status f \<noteq> Confirmed \<and> rc_known r = Some cid \<and> rc_status r = Some Known"
    let ?kill = "\<lambda>r. r\<lparr>rc_status := Some Inconclusive, rc_known := None,
            rc_decision := Some (invalidation cid, dg_document G (invalidation cid)),
            rc_version := Suc (rc_version r)\<rparr>"
    assume c: "c \<in> set (rp_cases D)" "rc_id c = cid" and im: "final_impact f = Inr im"
      and kn: "known_source_ok c f D = Inr ()"
      and conf: "fd_status f = Confirmed \<Longrightarrow> \<exists>i. im = Some i \<and> \<not> im_underpowered i"
      and rows: "set (rp_cases D') = (\<lambda>r. let r' = ?h r in if ?inv r' then ?kill r' else r') ` set (rp_cases D)"
    have dec: "rc_status (?h c) = Some (fd_status f)" "rc_known (?h c) = fd_known f" "rc_id (?h c) = cid"
      "rc_scan (?h c) = rc_scan c" "rc_phase (?h c) = PhCompleted"
      using c by (simp_all add: decided_def)
    have stays: "\<exists>s'\<in>set (rp_cases D'). rc_id s' = rc_id s \<and> rc_status s' = Some Confirmed \<and> rc_scan s' = rc_scan s"
      if "s \<in> set (rp_cases D)" "rc_status s = Some Confirmed" "s = c \<Longrightarrow> fd_status f = Confirmed" for s
    proof -
      have "rc_status (?h s) = Some Confirmed" "rc_id (?h s) = rc_id s" "rc_scan (?h s) = rc_scan s"
        using that dec c by auto
      moreover from this have "?h s \<in> set (rp_cases D')"
        unfolding rows using that(1) by (intro image_eqI [of _ _ s]) (simp_all add: Let_def)
      ultimately show ?thesis by blast
    qed
    have "(rc_status r' = Some Known \<longrightarrow> (\<exists>s\<in>set (rp_cases D'). rests_on r' s))
       \<and> (rc_status r' = Some Confirmed \<longrightarrow> impact_proved r')
       \<and> (rc_phase r' = PhUnblinding \<longrightarrow> rc_frozen r' \<noteq> None)" if in': "r' \<in> set (rp_cases D')" for r'
    proof -
      obtain r where r: "r \<in> set (rp_cases D)" "r' = (if ?inv (?h r) then ?kill (?h r) else ?h r)"
        using in' unfolding rows Let_def by blast
      have ok_r: "(rc_status r = Some Known \<longrightarrow> (\<exists>s\<in>set (rp_cases D). rests_on r s))
         \<and> (rc_status r = Some Confirmed \<longrightarrow> impact_proved r)
         \<and> (rc_phase r = PhUnblinding \<longrightarrow> rc_frozen r \<noteq> None)"
        using ok r(1) unfolding repo_ok_def by blast
      show ?thesis
      proof (cases "?inv (?h r)")
        case True
        have "r' = ?kill (?h r)" using r(2) by (simp only: if_P [OF True])
        moreover have "rc_phase (?h r) = PhUnblinding \<longrightarrow> rc_frozen (?h r) \<noteq> None"
          using ok_r dec by auto
        ultimately show ?thesis by simp
      next
        case alive: False
        have r': "r' = ?h r" using r(2) by (simp only: if_not_P [OF alive])
        show ?thesis
        proof (cases "r = c")
          case True
          have "\<exists>s\<in>set (rp_cases D'). rests_on r' s" if st: "rc_status r' = Some Known"
          proof -
            have known: "fd_status f = Known" using st True r' dec by simp
            obtain s where s: "s \<in> set (rp_cases D)" "fd_known f = Some (rc_id s)"
              "rc_status s = Some Confirmed" "rc_scan s = rc_scan c"
              using known_source_Inr [OF kn known] by blast
            have "s \<noteq> c" using alive s c known True dec st r' by auto
            with stays [OF s(1,3)] s(2,4) True r' dec show ?thesis unfolding rests_on_def by metis
          qed
          moreover have "rc_status r' = Some Confirmed \<longrightarrow> impact_proved r'"
            using conf final_impact_proved [of f] im True r' dec by auto
          ultimately show ?thesis using True r' dec by auto
        next
          case False
          then have r': "r' = r" using r' by simp
          have "\<exists>s\<in>set (rp_cases D'). rests_on r' s" if st: "rc_status r' = Some Known"
          proof -
            obtain s where s: "s \<in> set (rp_cases D)" "rests_on r s" using ok_r st r' by blast
            have "s = c \<Longrightarrow> fd_status f = Confirmed"
              using alive s(2) False st r' c by (auto simp: rests_on_def)
            with stays [OF s(1)] s(2) r' show ?thesis unfolding rests_on_def by metis
          qed
          with ok_r r' show ?thesis by blast
        qed
      qed
    qed
    with dist show ?thesis unfolding repo_ok_def by blast
  qed
qed

lemma repo_ok_step:
  assumes "repo_step G x D = Inr D'" and "repo_ok D"
  shows "repo_ok D'"
proof (cases "\<exists>cid run v f. x = OpFinalize cid run v f")
  case True
  then obtain cid run v f where "x = OpFinalize cid run v f" by blast
  with assms(1) have "finalize G cid run v f D = Inr D'" by simp
  then show ?thesis using assms(2) step_distinct [OF assms(1)] repo_ok_finalize
    unfolding repo_ok_def by blast
next
  case False
  then show ?thesis using repo_ok_plain [OF step_rows [OF assms(1)]] assms step_distinct [OF assms(1)]
    by (auto simp: repo_ok_def)
qed

lemma repo_ok_run: "rp_cases D = [] \<Longrightarrow> repo_ok (run_ops (repo_step G) xs D)"
  by (rule run_ops_invariant [where P = repo_ok])
    (simp add: repo_ok_def cases_distinct_def, rule repo_ok_step)

section \<open>Sealed rows\<close>

definition sealed_in :: "repo_db \<Rightarrow> repo_db \<Rightarrow> bool" where
  "sealed_in D D' \<longleftrightarrow>
     (\<forall>a\<in>set (rp_attempts D). ra_finished a \<noteq> None \<longrightarrow> a \<in> set (rp_attempts D'))
     \<and> (\<forall>a\<in>set (rp_actions D). rn_status a \<notin> {ActPlanned, ActRunning} \<longrightarrow> a \<in> set (rp_actions D'))
     \<and> (\<forall>h\<in>set (rp_hyps D). rh_status h \<notin> {HypPlanned, HypRunning} \<longrightarrow> h \<in> set (rp_hyps D'))
     \<and> (\<exists>es. rp_evidence D' = rp_evidence D @ es)
     \<and> (\<exists>es. rp_eligibility D' = rp_eligibility D @ es)
     \<and> (\<exists>es. rp_snapshots D' = rp_snapshots D @ es)"

lemma sealed_refl: "sealed_in D D"
  by (simp add: sealed_in_def)

lemma sealed_trans: "sealed_in D1 D2 \<Longrightarrow> sealed_in D2 D3 \<Longrightarrow> sealed_in D1 D3"
  unfolding sealed_in_def by (intro conjI) (blast, blast, blast, (metis append.assoc)+)

lemma kept_update: "x \<in> set t \<Longrightarrow> \<not> p x \<Longrightarrow> x \<in> set (update_where p f t)"
  by (force simp: in_update_where)

lemma sealed_cases:
  assumes "rp_attempts D' = rp_attempts D" "rp_actions D' = rp_actions D" "rp_hyps D' = rp_hyps D"
    "rp_evidence D' = rp_evidence D" "rp_eligibility D' = rp_eligibility D" "rp_snapshots D' = rp_snapshots D"
  shows "sealed_in D D'"
  using assms by (simp add: sealed_in_def)

lemma sealed_one: "update_one_case msg p f D = Inr D' \<Longrightarrow> sealed_in D D'"
  by (auto simp: update_one_case_Inr intro: sealed_cases)

lemma sealed_scope_case:
  "bind_scope G scan p D = Inr D' \<Longrightarrow> sealed_in D D'"
  "create_case i scan run ch t given D = Inr D' \<Longrightarrow> sealed_in D D'"
  "begin_revalidation c run v given D = Inr D' \<Longrightarrow> sealed_in D D'"
  "set_processing_phase c run ph D = Inr D' \<Longrightarrow> sealed_in D D'"
  by (auto simp: bind_scope_def create_case_def begin_revalidation_def set_processing_phase_def
      bindR_eq_Inr Let_def sealed_in_def update_cases_def update_one_case_Inr split: if_splits)

lemma sealed_staging:
  "stage_blind_case c run v g D = Inr D' \<Longrightarrow> sealed_in D D'"
  "resume_blind_case c run v pol D = Inr D' \<Longrightarrow> sealed_in D D'"
  "resume_unblinding c run v pol D = Inr D' \<Longrightarrow> sealed_in D D'"
  "freeze_blind_assessment c run v d D = Inr D' \<Longrightarrow> sealed_in D D'"
  by (auto simp: stage_blind_case_def resume_blind_case_def resume_unblinding_def
      freeze_blind_assessment_def bindR_eq_Inr Let_def split: if_splits dest: sealed_one)

lemma sealed_attempts:
  "add_attempt a D = Inr D' \<Longrightarrow> sealed_in D D'"
  "complete_attempt i out ob bl doc ts D = Inr D' \<Longrightarrow> sealed_in D D'"
  "add_evidence e D = Inr D' \<Longrightarrow> sealed_in D D'"
  by (auto simp: add_attempt_def complete_attempt_def add_evidence_def bindR_eq_Inr Let_def sealed_in_def
      kept_update split: if_splits)

lemma sealed_actions:
  "add_development_action i c run n b t d D = Inr D' \<Longrightarrow> sealed_in D D'"
  "start_development_action i ts D = Inr D' \<Longrightarrow> sealed_in D D'"
  "finish_development_action i ok d ts D = Inr D' \<Longrightarrow> sealed_in D D'"
  "mark_development_action_outcome_unknown i d ts D = Inr D' \<Longrightarrow> sealed_in D D'"
  by (auto simp: add_development_action_def start_development_action_def finish_development_action_def
      mark_development_action_outcome_unknown_def close_action_def update_action_def bindR_eq_Inr
      sealed_in_def kept_update split: if_splits)

lemma sealed_hyps:
  "add_impact_hypothesis G i c run n p sk pr D = Inr D' \<Longrightarrow> sealed_in D D'"
  "record_impact_plan G h ag pl ts D = Inr D' \<Longrightarrow> sealed_in D D'"
  "start_impact_hypothesis h ts D = Inr D' \<Longrightarrow> sealed_in D D'"
  "finish_impact_hypothesis G h ob ts D = Inr D' \<Longrightarrow> sealed_in D D'"
  "sealed_in D (mark_impact_hypothesis_outcome_unknown h ts D)"
  "sealed_in D (fail_impact_hypothesis h ts D)"
  "sealed_in D (quarantine_running_impact_hypotheses c run ts D)"
  by (auto simp: add_impact_hypothesis_def record_impact_plan_def start_impact_hypothesis_def
      finish_impact_hypothesis_def mark_impact_hypothesis_outcome_unknown_def fail_impact_hypothesis_def
      quarantine_running_impact_hypotheses_def bindR_eq_Inr Let_def sealed_in_def kept_update
      split: if_splits option.splits)

lemma sealed_eligibility: "record_eligibility G i r a D = Inr D' \<Longrightarrow> sealed_in D D'"
  unfolding record_eligibility_def
  by (auto simp: bindR_eq_Inr sealed_in_def split: if_splits option.splits)

lemma sealed_finalize: "finalize G c run v f D = Inr D' \<Longrightarrow> sealed_in D D'"
  by (erule finalize_Inr) (auto simp: Let_def invalidate_known_def intro: sealed_cases)

lemma step_sealed: "repo_step G x D = Inr D' \<Longrightarrow> sealed_in D D'"
  by (cases x)
    (auto intro: sealed_scope_case sealed_staging sealed_attempts sealed_actions sealed_hyps
      sealed_eligibility sealed_finalize sealed_cases
      simp: requeue_interrupted_def interrupt_cases_def split: option.split)

lemma run_sealed: "sealed_in D (run_ops (repo_step G) xs D)"
  by (rule run_ops_invariant [where P = "sealed_in D"])
    (auto intro: sealed_refl sealed_trans step_sealed)

section \<open>Properties\<close>

text \<open>
  C5: KNOWN follows confirmation.  After any sequence of transactions on an empty repository,
  every case whose status is KNOWN points to another case of the same scan that is CONFIRMED
  at this moment: revising a confirmed case also revises everything declared a duplicate of it.
\<close>

theorem known_case_has_confirmed_source:
  assumes "rp_cases D = []" and "D' = run_ops (repo_step G) xs D"
    and "c \<in> set (rp_cases D')" and "rc_status c = Some Known"
  shows "\<exists>s\<in>set (rp_cases D'). rc_known c = Some (rc_id s) \<and> rc_status s = Some Confirmed
    \<and> rc_scan s = rc_scan c \<and> rc_id s \<noteq> rc_id c"
proof -
  have ok: "repo_ok D'" using repo_ok_run [OF assms(1)] assms(2) by simp
  then obtain s where s: "s \<in> set (rp_cases D')" "rests_on c s"
    using assms(3,4) unfolding repo_ok_def by blast
  moreover have "rc_id s \<noteq> rc_id c"
    using same_id_same_row [of D' s c] ok s assms(3,4) by (auto simp: repo_ok_def rests_on_def)
  ultimately show ?thesis unfolding rests_on_def by blast
qed

text \<open>
  A CONFIRMED case keeps a proved impact.  After any sequence of transactions on an empty
  repository, a CONFIRMED case stores three axes in range with a boundary effect, a total of at
  least three, and the score and severity that belong to them.
\<close>

theorem confirmed_case_stores_impact:
  assumes "rp_cases D = []" and "D' = run_ops (repo_step G) xs D"
    and "c \<in> set (rp_cases D')" and "rc_status c = Some Confirmed"
  shows "\<exists>b s a. rc_impact c = Some (b, s, a, b + s + a, severity_of (b + s + a))
     \<and> b \<in> {1..3} \<and> s \<in> {0..3} \<and> a \<in> {0..3} \<and> 3 \<le> b + s + a"
  using repo_ok_run [OF assms(1)] assms(2-4) unfolding repo_ok_def impact_proved_def by blast

lemma frozen_kept:
  assumes "find_row rc_id cid (rp_cases D) = Some c" and "rc_frozen c = Some d"
    and "\<forall>run v given. OpRevalidate cid run v given \<notin> set xs"
  shows "\<exists>c'. find_row rc_id cid (rp_cases (run_ops (repo_step G) xs D)) = Some c' \<and> rc_frozen c' = Some d"
  using assms
proof (induction xs arbitrary: D c)
  case (Cons x xs)
  show ?case
  proof (cases "repo_step G x D")
    case (Inl e)
    with Cons show ?thesis by (simp add: attempt_def)
  next
    case (Inr D1)
    obtain c1 where c1: "find_row rc_id cid (rp_cases D1) = Some c1" "row_ok x c c1"
      using rows_find [OF step_rows [OF Inr] Cons.prems(1)] by blast
    have "rc_id c = cid" using find_row_Some [OF Cons.prems(1)] by simp
    then have "rc_frozen c1 = Some d" using c1(2) Cons.prems(2,3) by (auto simp: row_ok_def)
    with Cons.IH [OF c1(1)] Cons.prems(3) Inr show ?thesis by (simp add: attempt_def)
  qed
qed auto

text \<open>
  C13: the assessment is committed before the claim is opened, and stays as it was.  After any
  sequence of transactions on an empty repository a case in the unblinding phase has a frozen
  assessment digest, and whatever transactions follow, short of a revalidation of that very
  case, that digest stays.
\<close>

theorem frozen_assessment_is_immutable:
  assumes "rp_cases D = []" and "D' = run_ops (repo_step G) xs D"
    and "find_row rc_id cid (rp_cases D') = Some c" and "rc_phase c = PhUnblinding"
    and "\<forall>run v given. OpRevalidate cid run v given \<notin> set ys"
  shows "\<exists>d c'. rc_frozen c = Some d
    \<and> find_row rc_id cid (rp_cases (run_ops (repo_step G) ys D')) = Some c' \<and> rc_frozen c' = Some d"
proof -
  have "c \<in> set (rp_cases D')" using find_row_Some [OF assms(3)] by simp
  then obtain d where "rc_frozen c = Some d"
    using repo_ok_run [OF assms(1), of G xs] assms(2,4) unfolding repo_ok_def by blast
  with frozen_kept [OF assms(3) _ assms(5)] show ?thesis by blast
qed

text \<open>
  What is closed stays closed.  No transaction changes or removes a finished attempt, a
  development action or an impact hypothesis in a final state, or any recorded evidence,
  eligibility assessment or scope snapshot.
\<close>

theorem closed_records_never_change:
  "(\<forall>a\<in>set (rp_attempts D). ra_finished a \<noteq> None \<longrightarrow> a \<in> set (rp_attempts (run_ops (repo_step G) xs D)))
   \<and> (\<forall>a\<in>set (rp_actions D). rn_status a \<in> {ActSucceeded, ActFailed, ActUnknown}
        \<longrightarrow> a \<in> set (rp_actions (run_ops (repo_step G) xs D)))
   \<and> (\<forall>h\<in>set (rp_hyps D). rh_status h \<in> {HypSucceeded, HypFailed, HypSkipped, HypUnknown}
        \<longrightarrow> h \<in> set (rp_hyps (run_ops (repo_step G) xs D)))
   \<and> take (length (rp_evidence D)) (rp_evidence (run_ops (repo_step G) xs D)) = rp_evidence D
   \<and> take (length (rp_eligibility D)) (rp_eligibility (run_ops (repo_step G) xs D)) = rp_eligibility D
   \<and> take (length (rp_snapshots D)) (rp_snapshots (run_ops (repo_step G) xs D)) = rp_snapshots D"
proof -
  note sealed = run_sealed [of D G xs, unfolded sealed_in_def]
  show ?thesis
    by (intro conjI) (use sealed in \<open>fastforce+\<close>)
qed

section \<open>The transactions on a small repository\<close>

definition digest64 :: string where
  "digest64 = replicate 64 CHR ''a''"

definition sample_digests :: digests where
  "sample_digests = \<lparr>dg_text = \<lambda>_. digest64, dg_request = \<lambda>_. digest64, dg_assessment = \<lambda>_. digest64,
     dg_proposal = \<lambda>_. digest64, dg_document = \<lambda>_. digest64\<rparr>"

definition sample_repo :: repo_db where
  "sample_repo = \<lparr>rp_stages = [\<lparr>sr_id = ''v'', sr_scan = ''p'', sr_stage = ''validation'', sr_status = JRunning,
       sr_manifest = None, sr_error = None, sr_started = None, sr_finished = None\<rparr>],
     rp_targets = [(False, ''f1'', ''p''), (False, ''f2'', ''p'')], rp_snapshots = [],
     rp_bindings = [(''p'', digest64, [], None)], rp_cases = [], rp_eligibility = [], rp_attempts = [],
     rp_actions = [], rp_evidence = [], rp_hyps = []\<rparr>"

definition sample_final :: "verdict \<Rightarrow> (int \<times> int \<times> int) option \<Rightarrow> string option \<Rightarrow> final_decision" where
  "sample_final st im k = \<lparr>fd_status = st, fd_document = [], fd_evidence = [], fd_impact = im,
     fd_known = k, fd_zero_ok = False\<rparr>"

definition sample_staging :: staging where
  "sample_staging = \<lparr>sg_skill = ''k'', sg_skill_sha = digest64, sg_profile_sha = digest64,
     sg_source_policy = digest64, sg_current_policy = digest64, sg_blind = digest64, sg_claim = digest64\<rparr>"

text \<open>One case is confirmed, the other declared its duplicate; or one case is staged and frozen.\<close>

definition sample_decisions :: "repo_op list" where
  "sample_decisions = [OpCreateCase ''c1'' ''p'' ''v'' False ''f1'' None,
     OpCreateCase ''c2'' ''p'' ''v'' False ''f2'' None,
     OpFinalize ''c1'' ''v'' 0 (sample_final Confirmed (Some (1, 1, 1)) None),
     OpFinalize ''c2'' ''v'' 0 (sample_final Known None (Some ''c1''))]"

definition sample_freeze :: "repo_op list" where
  "sample_freeze = [OpCreateCase ''c1'' ''p'' ''v'' False ''f1'' None,
     OpStageBlind ''c1'' ''v'' 0 sample_staging, OpFreeze ''c1'' ''v'' 1 digest64]"

lemmas sample_repo_defs = sample_digests_def sample_repo_def sample_final_def sample_staging_def
  sample_decisions_def sample_freeze_def attempt_def create_case_def finalize_def stage_blind_case_def
  freeze_blind_assessment_def assert_current_case_def validation_stage_def resolve_current_scope_def
  current_scope_sha256_def dict_get_def find_row_def update_one_case_def update_cases_def rowcount_def
  cited_count_def final_impact_def evaluate_impact_def known_source_ok_def decided_def sha_length_def digest64_def
  set_processing_phase_def

abbreviation sample_decided :: repo_db where
  "sample_decided \<equiv> run_ops (repo_step sample_digests) sample_decisions sample_repo"

lemma sample_decided_cases:
  "map (\<lambda>c. (rc_id c, rc_status c)) (rp_cases sample_decided) = [(''c1'', Some Confirmed), (''c2'', Some Known)]"
  by (simp add: sample_repo_defs)

lemma sample_frozen_case:
  "map_option rc_phase (find_row rc_id ''c1'' (rp_cases (run_ops (repo_step sample_digests) sample_freeze sample_repo)))
     = Some PhUnblinding"
  by (simp add: sample_repo_defs)

lemma sample_empty: "rp_cases sample_repo = []"
  by (simp add: sample_repo_def)

lemma known_case_has_confirmed_source_witness:
  "\<exists>c\<in>set (rp_cases sample_decided). \<exists>s\<in>set (rp_cases sample_decided).
     rc_status c = Some Known \<and> rc_known c = Some (rc_id s) \<and> rc_status s = Some Confirmed"
proof -
  have "(''c2'', Some Known) \<in> (\<lambda>c. (rc_id c, rc_status c)) ` set (rp_cases sample_decided)"
    using arg_cong [OF sample_decided_cases, of set] by (simp only: set_map) simp
  then obtain c where "c \<in> set (rp_cases sample_decided)" "rc_status c = Some Known" by auto
  with known_case_has_confirmed_source [OF sample_empty refl this] show ?thesis by blast
qed

lemma confirmed_case_stores_impact_witness:
  "\<exists>c\<in>set (rp_cases sample_decided). \<exists>b s a. rc_impact c = Some (b, s, a, b + s + a, severity_of (b + s + a))
     \<and> 3 \<le> b + s + a"
proof -
  have "(''c1'', Some Confirmed) \<in> (\<lambda>c. (rc_id c, rc_status c)) ` set (rp_cases sample_decided)"
    using arg_cong [OF sample_decided_cases, of set] by (simp only: set_map) simp
  then obtain c where "c \<in> set (rp_cases sample_decided)" "rc_status c = Some Confirmed" by auto
  with confirmed_case_stores_impact [OF sample_empty refl this] show ?thesis by blast
qed

lemma frozen_assessment_is_immutable_witness:
  "\<exists>d c'. find_row rc_id ''c1'' (rp_cases (run_ops (repo_step sample_digests)
       [OpPhase ''c1'' ''v'' PhBlindReplay, OpFreeze ''c1'' ''v'' 2 []]
       (run_ops (repo_step sample_digests) sample_freeze sample_repo))) = Some c' \<and> rc_frozen c' = Some d"
proof -
  obtain c where "find_row rc_id ''c1'' (rp_cases (run_ops (repo_step sample_digests) sample_freeze sample_repo)) = Some c"
    "rc_phase c = PhUnblinding" using sample_frozen_case by auto
  from frozen_assessment_is_immutable [OF sample_empty refl this,
      of "[OpPhase ''c1'' ''v'' PhBlindReplay, OpFreeze ''c1'' ''v'' 2 []]"]
  show ?thesis by (simp del: run_ops.simps) blast
qed

lemma second_writer_refused_witness:
  "\<exists>D' e. repo_step sample_digests (OpFreeze ''c1'' ''v'' 1 digest64)
       (run_ops (repo_step sample_digests) [] D') = Inl e"
proof -
  let ?D = "run_ops (repo_step sample_digests) (butlast sample_freeze) sample_repo"
  have "cases_distinct ?D" using repo_ok_run [OF sample_empty] by (simp only: repo_ok_def)
  moreover have "\<exists>D'. repo_step sample_digests (OpFreeze ''c1'' ''v'' 1 digest64) ?D = Inr D'"
    by (simp add: sample_repo_defs)
  ultimately show ?thesis using second_writer_refused by (metis versioned_write.simps(3))
qed

lemma closed_records_never_change_witness:
  "take 1 (rp_evidence (run_ops (repo_step sample_digests) sample_decisions
     (sample_repo\<lparr>rp_evidence := [\<lparr>re_id = ''e'', re_case = ''c1'', re_run = ''v'', re_attempt = None,
        re_action = None, re_kind = ''claim_comparison'', re_details = [], re_sha = digest64, re_length = 0\<rparr>]\<rparr>)))
   = [\<lparr>re_id = ''e'', re_case = ''c1'', re_run = ''v'', re_attempt = None,
        re_action = None, re_kind = ''claim_comparison'', re_details = [], re_sha = digest64, re_length = 0\<rparr>]"
  using closed_records_never_change [of "sample_repo\<lparr>rp_evidence := [\<lparr>re_id = ''e'', re_case = ''c1'', re_run = ''v'',
        re_attempt = None, re_action = None, re_kind = ''claim_comparison'', re_details = [], re_sha = digest64,
        re_length = 0\<rparr>]\<rparr>" sample_digests sample_decisions] by simp

section \<open>Report eligibility\<close>

lemma latest_eligibility_Some:
  assumes "latest_eligibility cid run ph D = Some r"
  shows "r \<in> set (rp_eligibility D) \<and> ea_case (rl_verdict r) = cid \<and> rl_run r = run \<and> ea_phase (rl_verdict r) = ph
    \<and> (\<exists>us vs. rp_eligibility D = us @ r # vs
         \<and> (\<forall>x\<in>set vs. \<not> (ea_case (rl_verdict x) = cid \<and> rl_run x = run \<and> ea_phase (rl_verdict x) = ph)))"
proof -
  let ?P = "\<lambda>r. ea_case (rl_verdict r) = cid \<and> rl_run r = run \<and> ea_phase (rl_verdict r) = ph"
  have *: "filter P xs \<noteq> [] \<Longrightarrow> \<exists>us vs. xs = us @ last (filter P xs) # vs \<and> P (last (filter P xs)) \<and> (\<forall>x\<in>set vs. \<not> P x)"
    for P :: "relig \<Rightarrow> bool" and xs
  proof (induction xs rule: rev_induct)
    case (snoc x xs)
    show ?case
    proof (cases "P x")
      case True
      then show ?thesis by (intro exI [of _ xs] exI [of _ "[]"]) simp
    next
      case False
      with snoc obtain us vs where "xs = us @ last (filter P xs) # vs" "P (last (filter P xs))" "\<forall>x\<in>set vs. \<not> P x"
        by auto
      with False show ?thesis by (intro exI [of _ us] exI [of _ "vs @ [x]"]) auto
    qed
  qed simp
  from assms have ne: "filter ?P (rp_eligibility D) \<noteq> []" and r: "r = last (filter ?P (rp_eligibility D))"
    by (auto simp: latest_eligibility_def eligibility_rows_def Let_def split: if_splits)
  obtain us vs where uv: "rp_eligibility D = us @ r # vs" "?P r" "\<forall>x\<in>set vs. \<not> ?P x" using * [OF ne] r by blast
  then have "r \<in> set (rp_eligibility D)" by simp
  with uv show ?thesis by blast
qed

text \<open>
  A report needs a standing approval.  When the repository lets a case be reported under an
  assessment, that assessment belongs to the case and its latest stage run and is the newest of
  its phase there; it is bound to the scope the case has now, its quote stands literally in that
  scope's text, its digest is the stored one, it cites only evidence of the current stage, and
  it says ELIGIBLE; a CONDITIONAL preflight is never enough by itself.
\<close>

theorem report_needs_standing_approval:
  assumes "current_report_eligibility G cid D = Inr r"
  shows "\<exists>c md us vs. find_row rc_id cid (rp_cases D) = Some c
    \<and> rp_eligibility D = us @ r # vs
    \<and> ea_case (rl_verdict r) = cid \<and> rl_run r = rc_latest c
    \<and> (\<forall>x\<in>set vs. ea_case (rl_verdict x) = cid \<and> rl_run x = rc_latest c
          \<longrightarrow> ea_phase (rl_verdict x) \<noteq> ea_phase (rl_verdict r))
    \<and> ea_verdict (rl_verdict r) = Eligible
    \<and> rc_scope c = Some (ea_scope (rl_verdict r)) \<and> dict_get (rp_snapshots D) (ea_scope (rl_verdict r)) = Some md
    \<and> contains md (ea_quote (rl_verdict r)) \<and> dg_text G md = ea_scope (rl_verdict r)
    \<and> dg_assessment G (rl_verdict r) = rl_output r
    \<and> (\<forall>i\<in>set (ea_refs (rl_verdict r)). \<exists>e\<in>set (rp_evidence D). re_id e = i \<and> re_case e = cid \<and> re_run e = rc_latest c)"
proof -
  obtain c where c: "find_row rc_id cid (rp_cases D) = Some c" and cid: "rc_id c = cid"
    using assms find_row_Some by (fastforce simp: current_report_eligibility_def Let_def split: option.splits)
  have "(\<exists>ph. latest_eligibility cid (rc_latest c) ph D = Some r) \<and> report_assessment_ok G c r D
      \<and> ea_verdict (rl_verdict r) = Eligible"
    using assms c by (auto simp: current_report_eligibility_def Let_def split: option.splits if_splits)
  then obtain ph where ph: "latest_eligibility cid (rc_latest c) ph D = Some r" and ok: "report_assessment_ok G c r D"
    and el: "ea_verdict (rl_verdict r) = Eligible" by blast
  obtain us vs where "rp_eligibility D = us @ r # vs"
    "\<forall>x\<in>set vs. \<not> (ea_case (rl_verdict x) = cid \<and> rl_run x = rc_latest c \<and> ea_phase (rl_verdict x) = ph)"
    using latest_eligibility_Some [OF ph] by blast
  moreover obtain md where "dict_get (rp_snapshots D) (ea_scope (rl_verdict r)) = Some md"
    "grounded (dg_text G) (rl_verdict r) md"
    using ok by (auto simp: report_assessment_ok_def Let_def split: option.splits)
  moreover have "\<forall>i\<in>set (ea_refs (rl_verdict r)). \<exists>e\<in>set (rp_evidence D). re_id e = i \<and> re_case e = cid \<and> re_run e = rc_latest c"
    using ok cid by (auto simp: report_assessment_ok_def Let_def)
  moreover have "rc_scope c = Some (ea_scope (rl_verdict r))" "dg_assessment G (rl_verdict r) = rl_output r"
    using ok by (auto simp: report_assessment_ok_def Let_def)
  ultimately show ?thesis using c el latest_eligibility_Some [OF ph]
    by (intro exI [of _ c] exI [of _ md] exI [of _ us] exI [of _ vs]) (simp add: grounded_def)
qed

definition sample_verdict :: el_assessment where
  "sample_verdict = \<lparr>ea_case = ''c1'', ea_scope = digest64, ea_phase = Preflight, ea_verdict = Eligible,
     ea_exclusion = None, ea_rule = ''r'', ea_quote = ''ok'', ea_required = [], ea_replay = True,
     ea_reason = ''r'', ea_refs = []\<rparr>"

definition sample_approved :: repo_db where
  "sample_approved = sample_repo\<lparr>rp_snapshots := [(digest64, ''all ok'')],
     rp_cases := [\<lparr>rc_id = ''c1'', rc_scan = ''p'', rc_chain = False, rc_target = ''f1'', rc_latest = ''v'',
       rc_decision_run = None, rc_phase = PhQueued, rc_status = None, rc_version = 0, rc_skill = None,
       rc_skill_sha = None, rc_profile_sha = None, rc_source_policy = None, rc_current_policy = None,
       rc_blind = None, rc_frozen = None, rc_claim = None, rc_known = None, rc_impact = None,
       rc_decision = None, rc_scope = Some digest64\<rparr>],
     rp_eligibility := [\<lparr>rl_id = ''a'', rl_run = ''v'', rl_verdict = sample_verdict, rl_input = digest64,
       rl_output = digest64\<rparr>]\<rparr>"

lemma report_needs_standing_approval_witness:
  "\<exists>r. current_report_eligibility sample_digests ''c1'' sample_approved = Inr r
     \<and> ea_verdict (rl_verdict r) = Eligible"
proof -
  have "\<exists>r. current_report_eligibility sample_digests ''c1'' sample_approved = Inr r"
    by (simp add: current_report_eligibility_def sample_approved_def sample_verdict_def sample_repo_def
        sample_digests_def find_row_def latest_eligibility_def eligibility_rows_def report_assessment_ok_def
        el_assessment_ok_def identifier_ok_def digest_ok_def digest64_def dict_get_def grounded_def
        is_blank_iff is_space_def Let_def)
  then obtain r where r: "current_report_eligibility sample_digests ''c1'' sample_approved = Inr r" by blast
  from report_needs_standing_approval [OF r] r show ?thesis by blast
qed

end
