(* ===== verification/Target_Policy.thy ===== *)
theory Target_Policy
  imports Py_Url
begin

text \<open>
  \<open>src/src/aidast/recon/policy.py\<close>: the executable policy of one target, the URL decisions that
  every request goes through, how an approved asset names its host and start URL, and the checks
  that tie a proposed policy to the approved target.  \<open>E\<close> is the environment of \<open>urlsplit\<close>.
  The checks of an active authorization quote (regular expressions over the Scope text) are not
  modelled: they only reject more policies.
\<close>

section \<open>Glob patterns\<close>

text \<open>\<open>fnmatch.fnmatchcase\<close>.  A character class is a list of ranges; a single character is one.\<close>

fun class_items :: "string \<Rightarrow> (char \<times> char) list" where
  "class_items (a # d # b # s) =
     (if d = CHR ''-'' then (a, b) # class_items s else (a, a) # class_items (d # b # s))"
| "class_items [a, b] = [(a, a), (b, b)]"
| "class_items [a] = [(a, a)]"
| "class_items [] = []"

definition in_range :: "char \<Rightarrow> char \<times> char \<Rightarrow> bool" where
  "in_range c r \<longleftrightarrow> (of_char (fst r) :: nat) \<le> of_char c \<and> (of_char c :: nat) \<le> of_char (snd r)"

text \<open>
  The class that an opening bracket starts: the text up to the first closing bracket that is not
  the first member (nor the first after \<open>!\<close>), and the rest of the pattern.
\<close>

definition split_class :: "string \<Rightarrow> (string \<times> string) option" where
  "split_class p =
     (let bang = (if starts_with p ''!'' then 1 else 0);
          first = (if starts_with (drop bang p) '']'' then Suc bang else bang)
      in case partition_at (CHR '']'') (drop first p) of
           (body, True, rest) \<Rightarrow> Some (take first p @ body, rest)
         | (_, False, _) \<Rightarrow> None)"

definition class_matches :: "string \<Rightarrow> char \<Rightarrow> bool" where
  "class_matches stuff c =
     (if starts_with stuff ''!'' then \<not> list_ex (in_range c) (class_items (tl stuff))
      else list_ex (in_range c) (class_items stuff))"

lemma partition_at_length: "partition_at c s = (a, True, b) \<Longrightarrow> length b < length s"
  by (induction s arbitrary: a) (auto split: if_splits prod.splits)

lemma split_class_length: "split_class p = Some (stuff, rest) \<Longrightarrow> length rest < length p"
  unfolding split_class_def Let_def
  by (auto split: prod.splits bool.splits dest!: partition_at_length)

function glob :: "string \<Rightarrow> string \<Rightarrow> bool" where
  "glob [] s = (s = [])"
| "glob (p # ps) s =
     (if p = CHR ''*'' then glob ps s \<or> (case s of [] \<Rightarrow> False | c # cs \<Rightarrow> glob (p # ps) cs)
      else (case s of [] \<Rightarrow> False
        | c # cs \<Rightarrow>
            if p = CHR ''?'' then glob ps cs
            else if p = CHR ''['' then
              (case split_class ps of
                 None \<Rightarrow> c = CHR ''['' \<and> glob ps cs
               | Some (stuff, rest) \<Rightarrow> class_matches stuff c \<and> glob rest cs)
            else c = p \<and> glob ps cs))"
  by pat_completeness auto
termination
  by (relation "measure (\<lambda>(p, s). length p + length s)")
    (auto dest!: split_class_length)

declare glob.simps(2) [simp del]

section \<open>Names and paths\<close>

definition rstrip_dots :: "string \<Rightarrow> string" where
  "rstrip_dots s = rstrip_by (\<lambda>c. c = CHR ''.'') s"

definition norm_host :: "string \<Rightarrow> string" where
  "norm_host s = rstrip_dots (lower s)"

text \<open>\<open>_host_matches\<close>, \<open>_path_matches\<close> and \<open>_valid_host_pattern\<close>.\<close>

definition host_matches :: "string \<Rightarrow> string \<Rightarrow> bool" where
  "host_matches host pattern =
     (let candidate = norm_host host; normalized = norm_host pattern; root = remove_prefix normalized ''*.''
      in if CHR ''*'' \<in> set normalized then glob normalized candidate
         else candidate = root \<or> (starts_with normalized ''*.'' \<and> ends_with candidate (''.'' @ root)))"

definition path_matches :: "string \<Rightarrow> string \<Rightarrow> bool" where
  "path_matches path prefix =
     (if prefix = ''/'' then True
      else let normalized = rstrip_by (\<lambda>c. c = CHR ''/'') prefix
           in path = normalized \<or> starts_with path (normalized @ ''/''))"

definition is_host_alnum :: "char \<Rightarrow> bool" where
  "is_host_alnum c \<longleftrightarrow> is_lower_alpha c \<or> is_digit c"

definition valid_host_pattern :: "string \<Rightarrow> bool" where
  "valid_host_pattern host =
     (let value = norm_host host; value = (if starts_with value ''*.'' then drop 2 value else value)
      in value \<noteq> [] \<and> \<not> contains value ''://'' \<and> CHR ''/'' \<notin> set value \<and> CHR ''*'' \<notin> set value
         \<and> is_host_alnum (hd value) \<and> is_host_alnum (last value)
         \<and> list_all (\<lambda>c. is_host_alnum c \<or> c \<in> set ''.-'') value)"

section \<open>Policies\<close>

datatype asset_type = AURL | ADomain | AWildcard | ACidr | AIpAddress | AApi | AMobileApp
  | ASourceCode | AOther

record target_policy =
  tp_asset_type :: asset_type
  tp_asset :: string
  tp_schemes :: "string list"
  tp_hosts :: "string list"
  tp_excluded_hosts :: "string list"
  tp_subdomains :: bool
  tp_ports :: "nat list"
  tp_prefixes :: "string list"
  tp_excluded_prefixes :: "string list"
  tp_methods :: "string list"
  tp_attack_methods :: "string list"
  tp_active :: bool
  tp_attack_evidence :: "string option"
  tp_exec_methods :: "string list option"
  tp_form_submission :: bool
  tp_graphql :: bool
  tp_probe_paths :: "string list"
  tp_notes :: "string list"

definition safe_methods :: "string set" where
  "safe_methods = {''GET'', ''HEAD'', ''OPTIONS''}"

definition all_methods :: "string set" where
  "all_methods = {''GET'', ''HEAD'', ''OPTIONS'', ''POST'', ''PUT'', ''PATCH'', ''DELETE''}"

text \<open>The field types and \<open>validate_paths_and_hosts\<close>.\<close>

definition controls_ok :: "target_policy \<Rightarrow> bool" where
  "controls_ok p \<longleftrightarrow>
     set (tp_schemes p) \<subseteq> {''http'', ''https''} \<and> tp_hosts p \<noteq> []
     \<and> list_all (\<lambda>n. 1 \<le> n \<and> n \<le> 65535) (tp_ports p)
     \<and> set (tp_methods p) \<subseteq> all_methods \<and> set (tp_attack_methods p) \<subseteq> all_methods
     \<and> list_all (\<lambda>h. h \<noteq> [] \<and> \<not> contains h ''://'' \<and> CHR ''/'' \<notin> set h) (tp_hosts p)
     \<and> list_all valid_host_pattern (tp_excluded_hosts p)
     \<and> list_all (\<lambda>x. starts_with x ''/'') (tp_prefixes p @ tp_excluded_prefixes p)
     \<and> list_all (\<lambda>x. starts_with x ''/'') (tp_probe_paths p)"

definition normalize_read_only_attack_policy :: "target_policy \<Rightarrow> target_policy" where
  "normalize_read_only_attack_policy p =
     (if \<exists>m\<in>set (tp_attack_methods p). m \<notin> safe_methods then p
      else if \<not> tp_active p \<and> tp_attack_evidence p = None then p
      else p\<lparr>tp_active := False, tp_attack_evidence := None,
             tp_notes := tp_notes p @ [''Python normalized Attack authorization to read_only because no state-changing methods are authorized; method permissions were preserved.'']\<rparr>)"

definition normalize_recon_read_only_methods :: "target_policy \<Rightarrow> target_policy" where
  "normalize_recon_read_only_methods p =
     (let safe = filter (\<lambda>m. m \<in> safe_methods) (tp_methods p);
          safe = (if safe = [] then [''GET'', ''HEAD'', ''OPTIONS''] else safe)
      in if safe = tp_methods p then p
         else p\<lparr>tp_methods := safe,
                tp_notes := tp_notes p @ [''Python removed state-changing methods from Recon allowed_methods.'']\<rparr>)"

section \<open>Assets\<close>

text \<open>The regular expression \<open>^[A-Za-z][A-Za-z0-9+.-]*://\<close>.\<close>

definition has_scheme :: "string \<Rightarrow> bool" where
  "has_scheme v = (case partition_at (CHR '':'') v of
     (pre, found, post) \<Rightarrow> found \<and> pre \<noteq> [] \<and> is_alpha (hd pre) \<and> list_all is_scheme_char pre
       \<and> starts_with post ''//'')"

definition normalized_web_asset_url :: "net_env \<Rightarrow> asset_type \<Rightarrow> string \<Rightarrow> split_url option" where
  "normalized_web_asset_url E t asset =
     (if t \<notin> {AURL, AApi} then None
      else let value = strip asset
           in if value = [] \<or> starts_with value ''//'' then None
              else case urlsplit E (if has_scheme value then value else ''https://'' @ value) of
                     None \<Rightarrow> None
                   | Some u \<Rightarrow> if u_port u = None \<or> lower (u_scheme u) \<notin> {''http'', ''https''}
                                 \<or> u_hostname u = None \<or> u_hostname u = Some [] then None else Some u)"

text \<open>\<open>asset.split("://", 1)[1]\<close> when the mark is there.\<close>

fun after_mark :: "string \<Rightarrow> string \<Rightarrow> string option" where
  "after_mark m [] = (if m = [] then Some [] else None)"
| "after_mark m (c # s) = (if starts_with (c # s) m then Some (drop (length m) (c # s)) else after_mark m s)"

definition wildcard_pattern :: "string \<Rightarrow> string" where
  "wildcard_pattern asset = (case after_mark ''://'' asset of None \<Rightarrow> asset | Some r \<Rightarrow> r)"

definition canonical_host_for_asset :: "net_env \<Rightarrow> asset_type \<Rightarrow> string \<Rightarrow> string option" where
  "canonical_host_for_asset E t asset =
     (if t \<in> {AURL, AApi} then
        (case normalized_web_asset_url E t asset of None \<Rightarrow> None | Some u \<Rightarrow> u_hostname u)
      else if t = AWildcard then Some (remove_prefix (wildcard_pattern asset) ''*.'')
      else if t \<in> {ADomain, AIpAddress} then Some asset else None)"

definition or_slash :: "string \<Rightarrow> string" where
  "or_slash p = (if p = [] then ''/'' else p)"

text \<open>\<open>urlunsplit\<close> of a URL with an authority and without query and fragment.\<close>

definition unsplit_plain :: "string \<Rightarrow> string \<Rightarrow> string \<Rightarrow> string" where
  "unsplit_plain scheme netloc path =
     scheme @ ''://'' @ netloc @ (if path \<noteq> [] \<and> \<not> starts_with path ''/'' then ''/'' @ path else path)"

definition truthy_text :: "string option \<Rightarrow> bool" where
  "truthy_text s \<longleftrightarrow> or_empty s \<noteq> []"

definition default_start_url_for_target :: "net_env \<Rightarrow> asset_type \<Rightarrow> string \<Rightarrow> string option" where
  "default_start_url_for_target E t asset =
     (case normalized_web_asset_url E t asset of
        None \<Rightarrow> None
      | Some u \<Rightarrow> if truthy_text (u_username u) \<or> truthy_text (u_password u) \<or> u_query u \<noteq> [] \<or> u_fragment u \<noteq> []
          then None else Some (unsplit_plain (lower (u_scheme u)) (u_netloc u) (or_slash (u_path u))))"

definition validate_start_url_for_target ::
  "net_env \<Rightarrow> string \<Rightarrow> asset_type \<Rightarrow> string \<Rightarrow> (string, unit) result" where
  "validate_start_url_for_target E url t asset =
     (case urlsplit E url of
        None \<Rightarrow> Inl ''start URL is invalid''
      | Some u \<Rightarrow> (case u_port u of
          None \<Rightarrow> Inl ''start URL is invalid''
        | Some port \<Rightarrow>
          if u_scheme u \<notin> {''http'', ''https''} \<or> \<not> truthy_text (u_hostname u)
          then Inl ''start URL must be an absolute HTTP(S) URL''
          else if truthy_text (u_username u) \<or> truthy_text (u_password u) \<or> u_query u \<noteq> [] \<or> u_fragment u \<noteq> []
          then Inl ''credentials, query strings, and fragments are not allowed''
          else if (case port of None \<Rightarrow> False | Some n \<Rightarrow> \<not> (1 \<le> n \<and> n \<le> 65535))
          then Inl ''start URL port is invalid''
          else (case canonical_host_for_asset E t asset of
              None \<Rightarrow> Inl ''asset type cannot have a web start URL''
            | Some canonical \<Rightarrow>
              let host = norm_host (or_empty (u_hostname u))
              in if t = AWildcard \<and> \<not> host_matches host (wildcard_pattern asset)
                 then Inl ''start URL host is outside the approved wildcard''
                 else if t \<noteq> AWildcard \<and> host \<noteq> norm_host canonical
                 then Inl ''start URL host does not match the approved target''
                 else if t \<in> {AURL, AApi}
                 then (case normalized_web_asset_url E t asset of
                         None \<Rightarrow> Inl ''asset type cannot have a web start URL''
                       | Some a \<Rightarrow> (case u_port a of
                           None \<Rightarrow> Inl ''start URL is invalid''
                         | Some aport \<Rightarrow>
                           if u_scheme u \<noteq> u_scheme a
                              \<or> or_default_port port (u_scheme u) \<noteq> or_default_port aport (u_scheme a)
                           then Inl ''start URL changes the approved scheme or port''
                           else if \<not> path_matches (or_slash (u_path u)) (or_slash (u_path a))
                           then Inl ''start URL path is outside the approved URL path'' else Inr ()))
                 else Inr ())))"

section \<open>URL decisions\<close>

definition allows_host :: "net_env \<Rightarrow> target_policy \<Rightarrow> string \<Rightarrow> bool" where
  "allows_host E p host =
     (let candidate = norm_host host; roots = map norm_host (tp_hosts p);
          allowed =
            (if tp_asset_type p = AWildcard \<and> CHR ''*'' \<in> set (tp_asset p)
             then (case canonical_host_for_asset E (tp_asset_type p) (tp_asset p) of
                     None \<Rightarrow> False
                   | Some c \<Rightarrow> candidate = norm_host c
                       \<or> (tp_subdomains p \<and> ends_with candidate (''.'' @ norm_host c)))
                  \<or> glob (norm_host (wildcard_pattern (tp_asset p))) candidate
             else candidate \<in> set roots
                  \<or> (tp_subdomains p \<and> (\<exists>r\<in>set roots. ends_with candidate (''.'' @ r))))
      in allowed \<and> \<not> (\<exists>x\<in>set (tp_excluded_hosts p). host_matches candidate x))"

definition allows_execution_method :: "target_policy \<Rightarrow> string \<Rightarrow> bool" where
  "allows_execution_method p m = (case tp_exec_methods p of None \<Rightarrow> True | Some ms \<Rightarrow> upper m \<in> set ms)"

definition decide_url :: "net_env \<Rightarrow> target_policy \<Rightarrow> string \<Rightarrow> string \<Rightarrow> bool \<Rightarrow> bool \<Rightarrow> bool" where
  "decide_url E p url m enforce_paths enforce_method =
     (if \<not> allows_execution_method p m then False
      else case urlsplit E url of
             None \<Rightarrow> False
           | Some u \<Rightarrow> (case u_port u of
               None \<Rightarrow> False
             | Some port \<Rightarrow>
                 let path = or_slash (u_path u)
                 in u_scheme u \<in> set (tp_schemes p)
                    \<and> allows_host E p (norm_host (or_empty (u_hostname u)))
                    \<and> or_default_port port (u_scheme u) \<in> set (tp_ports p)
                    \<and> (enforce_method \<longrightarrow> upper m \<in> set (tp_methods p))
                    \<and> (enforce_paths \<longrightarrow> (\<exists>x\<in>set (tp_prefixes p). path_matches path x))
                    \<and> \<not> (\<exists>x\<in>set (tp_excluded_prefixes p). path_matches path x)))"

definition allows_url :: "net_env \<Rightarrow> target_policy \<Rightarrow> string \<Rightarrow> string \<Rightarrow> bool" where
  "allows_url E p url m = decide_url E p url m True True"

definition allows_observed_url :: "net_env \<Rightarrow> target_policy \<Rightarrow> string \<Rightarrow> bool" where
  "allows_observed_url E p url = decide_url E p url ''GET'' True False"

definition allows_attack_url :: "net_env \<Rightarrow> target_policy \<Rightarrow> string \<Rightarrow> string \<Rightarrow> bool" where
  "allows_attack_url E p url m \<longleftrightarrow> upper m \<in> set (tp_attack_methods p) \<and> decide_url E p url m True False"

definition allows_validation_url :: "net_env \<Rightarrow> target_policy \<Rightarrow> string \<Rightarrow> string \<Rightarrow> bool" where
  "allows_validation_url E p url m \<longleftrightarrow>
     (if upper m \<in> safe_methods
      then upper m \<in> set (tp_methods p) \<and> upper m \<in> set (tp_attack_methods p)
      else tp_active p \<and> upper m \<in> set (tp_attack_methods p))
     \<and> decide_url E p url (upper m) True False"

definition allows_browser_support_url :: "net_env \<Rightarrow> target_policy \<Rightarrow> string \<Rightarrow> string \<Rightarrow> bool" where
  "allows_browser_support_url E p url m =
     (if \<not> allows_execution_method p m then False
      else if upper m = ''POST'' then decide_url E p url ''GET'' False False
      else decide_url E p url m False True)"

definition allows_graphql_probe_url :: "net_env \<Rightarrow> target_policy \<Rightarrow> string \<Rightarrow> bool" where
  "allows_graphql_probe_url E p url =
     (if \<not> tp_graphql p \<or> \<not> allows_execution_method p ''POST'' then False
      else case urlsplit E url of
             None \<Rightarrow> False
           | Some u \<Rightarrow> decide_url E p url ''GET'' False False
                       \<and> (\<exists>x\<in>set (tp_probe_paths p). path_matches (or_slash (u_path u)) x))"

section \<open>Tying a policy to the approved target\<close>

definition wildcard_scheme :: "net_env \<Rightarrow> asset_type \<Rightarrow> string \<Rightarrow> (string, (string \<times> nat) option) result" where
  "wildcard_scheme E t asset =
     (if t = AWildcard \<and> contains asset ''://''
      then (case urlsplit E asset of
              None \<Rightarrow> Inl ''Invalid IPv6 URL''
            | Some u \<Rightarrow> (case u_port u of None \<Rightarrow> Inl ''Port could not be cast to integer value''
                | Some q \<Rightarrow> Inr (Some (lower (u_scheme u), or_default_port q (lower (u_scheme u))))))
      else Inr None)"

text \<open>The host part of \<open>validate_policy_for_target\<close>.\<close>

definition validate_hosts :: "net_env \<Rightarrow> target_policy \<Rightarrow> asset_type \<Rightarrow> string \<Rightarrow> string \<Rightarrow> (string, unit) result" where
  "validate_hosts E p t asset canonical =
     (let allowed = map norm_host (tp_hosts p);
          pattern = (if t = AWildcard then wildcard_pattern asset else asset)
      in if canonical \<notin> set allowed
            \<and> \<not> (t = AWildcard \<and> (\<exists>h\<in>set allowed. host_matches h pattern))
            \<and> \<not> (t = AWildcard \<and> \<not> tp_subdomains p \<and> allowed \<noteq> [] \<and> (\<forall>h\<in>set allowed. host_matches h pattern))
         then Inl ''policy omits the approved target host''
         else if \<exists>h\<in>set allowed. h \<noteq> canonical \<and> \<not> (t = AWildcard \<and> host_matches h pattern)
                   \<and> \<not> (t = AWildcard \<and> tp_subdomains p \<and> ends_with h (''.'' @ canonical))
         then Inl ''policy contains a host outside the approved target''
         else if t \<noteq> AWildcard \<and> tp_subdomains p
         then Inl ''subdomains may only be enabled for an approved wildcard target''
         else if \<exists>r\<in>set (map (\<lambda>h. remove_prefix (norm_host h) ''*.'') (tp_excluded_hosts p)).
                   r \<noteq> canonical \<and> \<not> ends_with r (''.'' @ canonical)
         then Inl ''policy contains an excluded host outside the approved target''
         else if \<exists>h\<in>set allowed. \<exists>x\<in>set (tp_excluded_hosts p). host_matches h x
         then Inl ''policy excludes its executable target host'' else Inr ())"

text \<open>The scheme, port and path part.\<close>

definition validate_web_boundary :: "net_env \<Rightarrow> target_policy \<Rightarrow> asset_type \<Rightarrow> string \<Rightarrow> (string, unit) result" where
  "validate_web_boundary E p t asset =
     (if t \<in> {AURL, AApi}
      then (case normalized_web_asset_url E t asset of
              None \<Rightarrow> Inl ''asset type cannot be executed as a web target''
            | Some u \<Rightarrow>
                (let scheme = lower (u_scheme u)
                 in if tp_schemes p \<noteq> [scheme] then Inl ''URL policy must preserve the approved scheme exactly''
                    else if set (tp_ports p) \<noteq> {or_default_port (case u_port u of Some q \<Rightarrow> q | None \<Rightarrow> None) scheme}
                    then Inl ''URL policy must preserve the approved port exactly''
                    else if \<exists>x\<in>set (tp_prefixes p). \<not> path_matches x (or_slash (u_path u))
                    then Inl ''URL policy may not broaden the approved path'' else Inr ()))
      else bindR (wildcard_scheme E t asset) (\<lambda>explicit.
        (case explicit of
           None \<Rightarrow> if \<exists>s\<in>set (tp_schemes p). s \<noteq> ''https''
                   then Inl ''non-URL policies may not broaden the default HTTPS scheme''
                   else if \<exists>n\<in>set (tp_ports p). n \<noteq> 443
                   then Inl ''non-URL policies may not broaden the default HTTPS port'' else Inr ()
         | Some (scheme, port) \<Rightarrow>
             if tp_schemes p \<noteq> [scheme] then Inl ''wildcard URL policy must preserve the approved scheme exactly''
             else if set (tp_ports p) \<noteq> {port}
             then Inl ''wildcard URL policy must preserve the approved port exactly'' else Inr ())))"

text \<open>
  \<open>validate_policy_for_target\<close> without the checks of the quote that backs an active
  authorization.
\<close>

definition validate_policy_for_target ::
  "net_env \<Rightarrow> target_policy \<Rightarrow> asset_type \<Rightarrow> string \<Rightarrow> (string, unit) result" where
  "validate_policy_for_target E p t asset =
     (if (tp_asset_type p, tp_asset p) \<noteq> (t, asset) then Inl ''policy target does not match approved target''
      else (case canonical_host_for_asset E t asset of
          None \<Rightarrow> Inl ''asset type cannot be executed as a web target''
        | Some c \<Rightarrow> bindR (validate_hosts E p t asset (norm_host c)) (\<lambda>_.
            bindR (validate_web_boundary E p t asset) (\<lambda>_.
              let mutation = filter (\<lambda>m. m \<notin> safe_methods) (tp_attack_methods p)
              in if \<exists>m\<in>set (tp_methods p). m \<notin> safe_methods
                 then Inl ''Recon policies may not enable state-changing HTTP methods''
                 else if \<not> tp_active p \<and> (mutation \<noteq> [] \<or> tp_attack_evidence p \<noteq> None)
                 then Inl ''read-only Attack policy may not authorize state-changing methods''
                 else if tp_active p \<and> mutation = []
                 then Inl ''active Attack policy must authorize a state-changing method''
                 else if tp_active p \<and> tp_attack_evidence p = None
                 then Inl ''active Attack authorization evidence must come from Scope Allowed activities''
                 else if tp_form_submission p then Inl ''Recon policies may not enable form submission''
                 else if \<exists>x\<in>set (tp_prefixes p). \<exists>c\<in>set x. c \<in> set ''?#[]{}''
                 then Inl ''allowed path prefixes must be literal URL paths'' else Inr ()))))"

section \<open>How URLs are decided\<close>

lemma decide_url_True:
  assumes "decide_url E p url m ep em"
  obtains u port where "urlsplit E url = Some u" "u_port u = Some port" "u_scheme u \<in> set (tp_schemes p)"
    "allows_host E p (norm_host (or_empty (u_hostname u)))"
    "or_default_port port (u_scheme u) \<in> set (tp_ports p)"
    "em \<Longrightarrow> upper m \<in> set (tp_methods p)" "ep \<Longrightarrow> \<exists>x\<in>set (tp_prefixes p). path_matches (or_slash (u_path u)) x"
    "\<not> (\<exists>x\<in>set (tp_excluded_prefixes p). path_matches (or_slash (u_path u)) x)"
    "allows_execution_method p m"
  using assms by (auto simp: decide_url_def Let_def split: if_splits option.splits)

lemma lower_char_low:
  assumes "(of_char d :: nat) < 65"
  shows "lower_char c = d \<longleftrightarrow> c = d"
proof (cases "is_upper c")
  case True
  then have "of_char (lower_char c) = (of_char c + 32 :: nat)" by (simp add: lower_char_def)
  with True assms show ?thesis by auto
next
  case False
  then show ?thesis by (simp only: lower_char_def if_False)
qed

lemma lower_rstrip_dots: "lower (rstrip_dots s) = rstrip_dots (lower s)"
proof -
  have *: "map lower_char (dropWhile (\<lambda>c. c = CHR ''.'') xs) = dropWhile (\<lambda>c. c = CHR ''.'') (map lower_char xs)" for xs
    by (induction xs) (simp_all add: lower_char_low [of "CHR ''.''"] of_char_def)
  show ?thesis by (simp add: rstrip_dots_def rstrip_by_def lower_def rev_map flip: *)
qed

lemma norm_host_idem [simp]: "norm_host (norm_host s) = norm_host s"
  by (simp add: norm_host_def lower_rstrip_dots) (simp add: rstrip_dots_def)

lemma path_matches_refl: "path_matches p p"
proof -
  obtain t where t: "p = rstrip_by (\<lambda>c. c = CHR ''/'') p @ t" "\<forall>c\<in>set t. c = CHR ''/''"
    using rstrip_by_split by blast
  show ?thesis
  proof (cases t)
    case Nil
    with t(1) show ?thesis by (simp add: path_matches_def Let_def)
  next
    case (Cons c t')
    with t have "p = (rstrip_by (\<lambda>c. c = CHR ''/'') p @ ''/'') @ t'" by simp
    then show ?thesis unfolding path_matches_def Let_def by (metis starts_with_append)
  qed
qed

lemma path_matches_trans:
  assumes pq: "path_matches p q" and qa: "path_matches q a" and p: "starts_with p ''/''"
  shows "path_matches p a"
proof (cases "a = ''/''")
  case True
  then show ?thesis by (simp add: path_matches_def)
next
  case False
  let ?sl = "\<lambda>c. c = CHR ''/''"
  let ?na = "rstrip_by ?sl a" let ?nq = "rstrip_by ?sl q"
  obtain t where t: "q = ?nq @ t" "\<forall>c\<in>set t. c = CHR ''/''" using rstrip_by_split by blast
  have same: "path_matches p a" if eq: "?nq = ?na"
  proof (cases "q = ''/''")
    case True
    then have "?na = []" using eq by (simp add: rstrip_by_def)
    then show ?thesis using p by (simp add: path_matches_def)
  next
    case False
    with \<open>a \<noteq> ''/''\<close> eq pq show ?thesis by (simp add: path_matches_def)
  qed
  consider (eq) "q = ?na" | (below) r where "q = (?na @ ''/'') @ r"
    using qa False by (auto simp: path_matches_def Let_def starts_with_iff)
  then show ?thesis
  proof cases
    case eq
    then have "?nq = ?na" by (metis rstrip_by_idem)
    then show ?thesis by (rule same)
  next
    case below
    then have "?nq @ t = ?na @ (''/'' @ r)" using t(1) by simp
    then consider (long) us where "?nq = ?na @ us" "us @ t = ''/'' @ r"
      | (short) us where "?nq @ us = ?na" "t = us @ ''/'' @ r"
      by (auto simp: append_eq_append_conv2)
    then show ?thesis
    proof cases
      case short
      have "\<forall>c\<in>set us. c = CHR ''/''" using t(2) unfolding short(2) set_append by blast
      with short(1) [symmetric] have "us = []" by (rule rstrip_by_no_tail)
      with short(1) have "?nq = ?na" by (simp only: append_Nil2)
      then show ?thesis by (rule same)
    next
      case long
      show ?thesis
      proof (cases us)
        case Nil
        with long(1) have "?nq = ?na" by (simp only: append_Nil2)
        then show ?thesis by (rule same)
      next
        case (Cons c us')
        with long(2) have "us = ''/'' @ us'" by simp
        with long(1) have nq: "?nq = (?na @ ''/'') @ us'" by (simp only: append_assoc)
        have "q \<noteq> ''/''"
        proof
          assume "q = ''/''"
          then have "?nq = []" by (simp add: rstrip_by_def)
          with nq show False by simp
        qed
        with pq have "\<exists>v. p = ?nq @ v" by (auto simp: path_matches_def Let_def starts_with_iff)
        then have "starts_with p (?na @ ''/'')" unfolding nq starts_with_iff by auto
        then show ?thesis by (simp only: path_matches_def Let_def if_False False simp_thms)
      qed
    qed
  qed
qed

text \<open>A URL with an authority has an empty path or one that starts with a slash.\<close>

lemma takeWhile_dropWhile_hd: "dropWhile P s \<noteq> [] \<Longrightarrow> \<not> P (hd (dropWhile P s))"
  using hd_dropWhile by blast

lemma partition_at_prefix: "fst (partition_at c s) = takeWhile (\<lambda>x. x \<noteq> c) s"
  by (induction s) (auto split: prod.splits)

lemma urlsplit_path_slash:
  assumes "urlsplit E url = Some u" and "u_netloc u \<noteq> []"
  shows "starts_with (or_slash (u_path u)) ''/''"
proof -
  obtain scheme rest where s1: "split_scheme (clean_url url) = (scheme, rest)" by (cases "split_scheme (clean_url url)")
  obtain netloc rest2 where s2: "split_netloc rest = (netloc, rest2)" by (cases "split_netloc rest")
  have u: "u_netloc u = netloc"
    "u_path u = takeWhile (\<lambda>x. x \<noteq> CHR ''?'') (takeWhile (\<lambda>x. x \<noteq> CHR ''#'') rest2)"
    using assms(1) by (auto simp: urlsplit_def s1 s2 Let_def split: if_splits prod.splits
        simp flip: partition_at_prefix)
  have r2: "rest2 = dropWhile (\<lambda>c. c \<notin> set ''/?#'') (drop 2 rest)"
    using s2 assms(2) u(1) by (auto simp: split_netloc_def Let_def split: if_splits)
  show ?thesis
  proof (cases rest2)
    case Nil
    then show ?thesis by (simp add: u or_slash_def)
  next
    case (Cons c r)
    then have "c \<in> set ''/?#''" using takeWhile_dropWhile_hd [of "\<lambda>c. c \<notin> set ''/?#''"] r2 by (metis list.discI list.sel(1))
    with Cons show ?thesis by (auto simp: u or_slash_def)
  qed
qed

lemma host_needs_netloc: "u_hostname u = Some h \<Longrightarrow> u_netloc u \<noteq> []"
  by (auto simp: u_hostname_def host_and_port_def rpartition_at_def Let_def)

section \<open>Properties\<close>

lemma validate_policy_Inr:
  assumes "validate_policy_for_target E p t asset = Inr ()"
  obtains c where "tp_asset_type p = t" "tp_asset p = asset" "canonical_host_for_asset E t asset = Some c"
    "validate_hosts E p t asset (norm_host c) = Inr ()" "validate_web_boundary E p t asset = Inr ()"
    "\<forall>m\<in>set (tp_methods p). m \<in> safe_methods"
    "\<not> tp_active p \<Longrightarrow> \<forall>m\<in>set (tp_attack_methods p). m \<in> safe_methods"
    "tp_active p \<Longrightarrow> tp_attack_evidence p \<noteq> None"
proof -
  from assms obtain c where c: "tp_asset_type p = t" "tp_asset p = asset" "canonical_host_for_asset E t asset = Some c"
    and r: "bindR (validate_hosts E p t asset (norm_host c)) (\<lambda>_.
            bindR (validate_web_boundary E p t asset) (\<lambda>_.
              let mutation = filter (\<lambda>m. m \<notin> safe_methods) (tp_attack_methods p)
              in if \<exists>m\<in>set (tp_methods p). m \<notin> safe_methods
                 then Inl ''Recon policies may not enable state-changing HTTP methods''
                 else if \<not> tp_active p \<and> (mutation \<noteq> [] \<or> tp_attack_evidence p \<noteq> None)
                 then Inl ''read-only Attack policy may not authorize state-changing methods''
                 else if tp_active p \<and> mutation = []
                 then Inl ''active Attack policy must authorize a state-changing method''
                 else if tp_active p \<and> tp_attack_evidence p = None
                 then Inl ''active Attack authorization evidence must come from Scope Allowed activities''
                 else if tp_form_submission p then Inl ''Recon policies may not enable form submission''
                 else if \<exists>x\<in>set (tp_prefixes p). \<exists>c\<in>set x. c \<in> set ''?#[]{}''
                 then Inl ''allowed path prefixes must be literal URL paths'' else Inr ())) = Inr ()"
    unfolding validate_policy_for_target_def by (simp only: prod.inject split: if_splits option.splits) auto
  from r have h: "validate_hosts E p t asset (norm_host c) = Inr ()" and w: "validate_web_boundary E p t asset = Inr ()"
    and tail: "\<not> (\<exists>m\<in>set (tp_methods p). m \<notin> safe_methods)"
      "\<not> (\<not> tp_active p \<and> (filter (\<lambda>m. m \<notin> safe_methods) (tp_attack_methods p) \<noteq> [] \<or> tp_attack_evidence p \<noteq> None))"
      "\<not> (tp_active p \<and> tp_attack_evidence p = None)"
    unfolding bindR_eq_Inr Let_def by (simp_all only: split: if_splits) auto
  show ?thesis
    by (rule that [OF c h w]) (use tail in \<open>auto simp: filter_empty_conv\<close>)
qed

lemma validate_hosts_Inr:
  assumes "validate_hosts E p t asset c = Inr ()"
  shows "(\<forall>h\<in>set (tp_hosts p). norm_host h = c \<or> t = AWildcard \<and>
      (host_matches (norm_host h) (wildcard_pattern asset) \<or> tp_subdomains p \<and> ends_with (norm_host h) (''.'' @ c)))
    \<and> (tp_subdomains p \<longrightarrow> t = AWildcard)"
proof -
  let ?pat = "if t = AWildcard then wildcard_pattern asset else asset"
  from assms have "\<not> (\<exists>h\<in>set (map norm_host (tp_hosts p)). h \<noteq> c \<and> \<not> (t = AWildcard \<and> host_matches h ?pat)
                   \<and> \<not> (t = AWildcard \<and> tp_subdomains p \<and> ends_with h (''.'' @ c)))"
    and "\<not> (t \<noteq> AWildcard \<and> tp_subdomains p)"
    unfolding validate_hosts_def Let_def by (simp_all only: split: if_splits) auto
  then show ?thesis by (auto split: if_splits)
qed

text \<open>The hosts that an approved asset stands for.\<close>

definition on_target :: "target_policy \<Rightarrow> asset_type \<Rightarrow> string \<Rightarrow> string \<Rightarrow> string \<Rightarrow> bool" where
  "on_target p t asset canonical host \<longleftrightarrow> host = norm_host canonical
     \<or> t = AWildcard \<and> (host_matches host (wildcard_pattern asset)
          \<or> glob (norm_host (wildcard_pattern asset)) host
          \<or> tp_subdomains p \<and> ends_with host (''.'' @ norm_host canonical))"

lemma no_star_root:
  assumes "CHR ''*'' \<notin> set asset" and "host_matches h (wildcard_pattern asset)"
  shows "norm_host h = norm_host (remove_prefix (wildcard_pattern asset) ''*.'')"
proof -
  have tails: "set (wildcard_pattern asset) \<subseteq> set asset"
  proof -
    have "after_mark m s = Some r \<Longrightarrow> set r \<subseteq> set s" for m s r
    proof (induction s)
      case (Cons c s)
      show ?case
      proof (cases "starts_with (c # s) m")
        case True
        with Cons.prems have "r = drop (length m) (c # s)" by simp
        then show ?thesis using set_drop_subset by metis
      next
        case False
        with Cons show ?thesis by auto
      qed
    qed (auto split: if_splits)
    then show ?thesis by (auto simp: wildcard_pattern_def split: option.splits)
  qed
  let ?w = "wildcard_pattern asset"
  have "CHR ''*'' \<notin> set ?w" using tails assms(1) by blast
  have low: "(of_char (CHR ''*'') :: nat) < 65" by (simp add: of_char_def)
  have "CHR ''*'' \<notin> lower_char ` set ?w"
  proof
    assume "CHR ''*'' \<in> lower_char ` set ?w"
    then obtain c where "c \<in> set ?w" "lower_char c = CHR ''*''" by (metis imageE)
    with lower_char_low [OF low] \<open>CHR ''*'' \<notin> set ?w\<close> show False by metis
  qed
  moreover have "set (rstrip_by P x) \<subseteq> set x" for P and x :: string
    using set_dropWhileD [of _ P "rev x"] by (auto simp: rstrip_by_def)
  then have "set (norm_host ?w) \<subseteq> lower_char ` set ?w"
    unfolding norm_host_def rstrip_dots_def by (metis lower_def list.set_map)
  ultimately have star: "CHR ''*'' \<notin> set (norm_host ?w)" by blast
  have no: "\<not> starts_with x ''*.''" if "CHR ''*'' \<notin> set x" for x
    using that by (cases x) auto
  show ?thesis
    using assms(2) star no [OF star] no [OF \<open>CHR ''*'' \<notin> set ?w\<close>]
    by (simp add: host_matches_def Let_def remove_prefix_def)
qed

lemma allows_host_on_target:
  assumes "allows_host E p host" and "tp_asset_type p = t" "tp_asset p = asset"
    and "canonical_host_for_asset E t asset = Some c"
    and v: "validate_hosts E p t asset (norm_host c) = Inr ()"
  shows "on_target p t asset c (norm_host host)"
proof (cases "t = AWildcard \<and> CHR ''*'' \<in> set asset")
  case True
  then show ?thesis using assms by (auto simp: allows_host_def Let_def on_target_def)
next
  case False
  with assms(1-3) obtain h where h: "h \<in> set (tp_hosts p)"
    and cand: "norm_host host = norm_host h \<or> tp_subdomains p \<and> ends_with (norm_host host) (''.'' @ norm_host h)"
    by (auto simp: allows_host_def Let_def)
  have sub: "tp_subdomains p \<Longrightarrow> t = AWildcard" using validate_hosts_Inr [OF v] by blast
  have wild: "norm_host h = norm_host c" if m: "t = AWildcard" "host_matches (norm_host h) (wildcard_pattern asset)"
  proof -
    have "CHR ''*'' \<notin> set asset" using False m(1) by simp
    from no_star_root [OF this m(2)] m(1) assms(4) show ?thesis
      by (simp add: canonical_host_for_asset_def)
  qed
  have "norm_host h = norm_host c \<or> t = AWildcard \<and> tp_subdomains p \<and> ends_with (norm_host h) (''.'' @ norm_host c)"
    using validate_hosts_Inr [OF v] h wild by blast
  with cand sub show ?thesis unfolding on_target_def by (metis ends_with_dot)
qed

text \<open>
  The boundary of an approved asset, for a URL: its host is one the asset stands for and no
  exclusion names it; its scheme and port are those of a URL or API asset, those written in front
  of a wildcard, or else HTTPS and 443; its path, where paths count, lies under the path of a URL
  or API asset, as texts.
\<close>

definition within_target :: "net_env \<Rightarrow> target_policy \<Rightarrow> asset_type \<Rightarrow> string \<Rightarrow> bool \<Rightarrow> string \<Rightarrow> bool" where
  "within_target E p t asset paths url \<longleftrightarrow> (\<exists>u c port. urlsplit E url = Some u \<and> u_port u = Some port
     \<and> canonical_host_for_asset E t asset = Some c
     \<and> on_target p t asset c (norm_host (or_empty (u_hostname u)))
     \<and> (\<forall>x\<in>set (tp_excluded_hosts p). \<not> host_matches (norm_host (or_empty (u_hostname u))) x)
     \<and> (\<forall>x\<in>set (tp_excluded_prefixes p). \<not> path_matches (or_slash (u_path u)) x)
     \<and> (t \<in> {AURL, AApi} \<longrightarrow> (\<exists>a q. normalized_web_asset_url E t asset = Some a \<and> u_port a = Some q
           \<and> u_scheme u = lower (u_scheme a)
           \<and> or_default_port port (u_scheme u) = or_default_port q (u_scheme u)
           \<and> (paths \<and> u_netloc u \<noteq> [] \<longrightarrow> path_matches (or_slash (u_path u)) (or_slash (u_path a)))))
     \<and> (t = AWildcard \<and> contains asset ''://'' \<longrightarrow> (\<exists>w q. urlsplit E asset = Some w \<and> u_port w = Some q
           \<and> u_scheme u = lower (u_scheme w)
           \<and> or_default_port port (u_scheme u) = or_default_port q (u_scheme u)))
     \<and> (t \<notin> {AURL, AApi} \<and> \<not> (t = AWildcard \<and> contains asset ''://'') \<longrightarrow>
           u_scheme u = ''https'' \<and> or_default_port port (u_scheme u) = 443))"

lemma validated_on_target:
  assumes "validate_policy_for_target E p t asset = Inr ()"
    and "decide_url E p url m enforce_paths enforce_method"
  shows "within_target E p t asset enforce_paths url"
  using assms(1)
proof (rule validate_policy_Inr)
  fix c
  assume c: "tp_asset_type p = t" "tp_asset p = asset" "canonical_host_for_asset E t asset = Some c"
    and vh: "validate_hosts E p t asset (norm_host c) = Inr ()"
    and vw: "validate_web_boundary E p t asset = Inr ()"
  show ?thesis using assms(2)
  proof (rule decide_url_True)
    fix u port
    assume u: "urlsplit E url = Some u" "u_port u = Some port" "u_scheme u \<in> set (tp_schemes p)"
      and host: "allows_host E p (norm_host (or_empty (u_hostname u)))"
      and port: "or_default_port port (u_scheme u) \<in> set (tp_ports p)"
      and paths: "enforce_paths \<Longrightarrow> \<exists>x\<in>set (tp_prefixes p). path_matches (or_slash (u_path u)) x"
      and no: "\<not> (\<exists>x\<in>set (tp_excluded_prefixes p). path_matches (or_slash (u_path u)) x)"
    have on: "on_target p t asset c (norm_host (or_empty (u_hostname u)))"
      using allows_host_on_target [OF host c vh] by simp
    have ex: "\<forall>x\<in>set (tp_excluded_hosts p). \<not> host_matches (norm_host (or_empty (u_hostname u))) x"
      using host by (auto simp: allows_host_def Let_def)
    have web: "\<exists>a q. normalized_web_asset_url E t asset = Some a \<and> u_port a = Some q
          \<and> u_scheme u = lower (u_scheme a)
          \<and> or_default_port port (u_scheme u) = or_default_port q (u_scheme u)
          \<and> (enforce_paths \<and> u_netloc u \<noteq> [] \<longrightarrow> path_matches (or_slash (u_path u)) (or_slash (u_path a)))"
      if t: "t \<in> {AURL, AApi}"
    proof -
      obtain a where a: "normalized_web_asset_url E t asset = Some a" "tp_schemes p = [lower (u_scheme a)]"
        "set (tp_ports p) = {or_default_port (case u_port a of Some q \<Rightarrow> q | None \<Rightarrow> None) (lower (u_scheme a))}"
        "\<forall>x\<in>set (tp_prefixes p). path_matches x (or_slash (u_path a))"
        using vw t by (auto simp: validate_web_boundary_def Let_def split: if_splits option.splits)
      have "u_port a \<noteq> None"
        using a(1) by (auto simp: normalized_web_asset_url_def Let_def split: if_splits option.splits)
      then obtain q where q: "u_port a = Some q" by blast
      have "path_matches (or_slash (u_path u)) (or_slash (u_path a))"
        if ep: "enforce_paths" "u_netloc u \<noteq> []"
        using path_matches_trans [OF _ _ urlsplit_path_slash [OF u(1) ep(2)]] paths [OF ep(1)] a(4) by blast
      with a q u(3) port show ?thesis by (intro exI [of _ a] exI [of _ q]) simp
    qed
    have wild: "\<exists>w q. urlsplit E asset = Some w \<and> u_port w = Some q \<and> u_scheme u = lower (u_scheme w)
          \<and> or_default_port port (u_scheme u) = or_default_port q (u_scheme u)"
      if t: "t = AWildcard \<and> contains asset ''://''"
    proof -
      obtain w q where "urlsplit E asset = Some w" "u_port w = Some q" "tp_schemes p = [lower (u_scheme w)]"
        "set (tp_ports p) = {or_default_port q (lower (u_scheme w))}"
        using vw t by (auto simp: validate_web_boundary_def wildcard_scheme_def split: if_splits option.splits)
      then show ?thesis using u(3) port by auto
    qed
    have other: "u_scheme u = ''https'' \<and> or_default_port port (u_scheme u) = 443"
      if t: "t \<notin> {AURL, AApi} \<and> \<not> (t = AWildcard \<and> contains asset ''://'')"
    proof -
      have "wildcard_scheme E t asset = Inr None" using t by (auto simp: wildcard_scheme_def)
      then show ?thesis using vw t u(3) port unfolding validate_web_boundary_def by (auto split: if_splits)
    qed
    show ?thesis unfolding within_target_def using u c(3) on ex no web wild other
      by (intro exI [of _ u] exI [of _ c] exI [of _ port] conjI) blast+
  qed
qed

text \<open>
  C24: a validated policy never leaves its target.  If a policy passed the checks against an
  approved asset, then every URL that any of its decisions lets through has a host that the asset
  stands for and that no exclusion names, and a path that no excluded prefix covers; it has the
  scheme and port of a URL or API asset, or those written in front of a wildcard, and is HTTPS on
  port 443 for every other asset; and where the decision enforces paths, its path is under that of
  the URL or API asset.  Paths are compared as they are written (dot segments are not removed), and
  a port 0 is read as the default port of the scheme, in the URL and in the asset.
\<close>

theorem validated_policy_stays_on_target:
  assumes "validate_policy_for_target E p t asset = Inr ()"
    and "decide_url E p url m enforce_paths enforce_method"
  shows "within_target E p t asset enforce_paths url"
  using assms by (rule validated_on_target)

definition sample_policy :: target_policy where
  "sample_policy = \<lparr>tp_asset_type = AURL, tp_asset = ''https://a.co/x'', tp_schemes = [''https''],
     tp_hosts = [''a.co''], tp_excluded_hosts = [], tp_subdomains = False, tp_ports = [443],
     tp_prefixes = [''/x''], tp_excluded_prefixes = [''/x/admin''], tp_methods = [''GET''],
     tp_attack_methods = [''GET''], tp_active = False, tp_attack_evidence = None,
     tp_exec_methods = None, tp_form_submission = False, tp_graphql = False, tp_probe_paths = [], tp_notes = []\<rparr>"

lemmas policy_eval = decide_url_def allows_host_def allows_execution_method_def or_slash_def host_matches_def
  path_matches_def norm_host_def rstrip_dots_def rstrip_by_def remove_prefix_def normalized_web_asset_url_def
  canonical_host_for_asset_def has_scheme_def strip_def strip_by_def plain_env_def

lemma sample_policy_decides:
  "decide_url plain_env sample_policy ''https://A.co./x/y'' ''get'' True True"
  by (simp add: sample_policy_def policy_eval str_eval)

lemma sample_policy_valid: "validate_policy_for_target plain_env sample_policy AURL ''https://a.co/x'' = Inr ()"
  by (simp add: sample_policy_def validate_policy_for_target_def validate_hosts_def validate_web_boundary_def
      policy_eval str_eval safe_methods_def)

lemma validated_policy_stays_on_target_witness:
  "within_target plain_env sample_policy AURL ''https://a.co/x'' True ''https://A.co./x/y''"
  by (rule validated_policy_stays_on_target [OF sample_policy_valid sample_policy_decides])

text \<open>
  C25: what may change state, and on whose authority.  Under a validated policy, Recon is only ever
  allowed safe methods, and Attack and Validation are allowed another method only if the policy is
  in active mode, carries its authorization quote and lists that method.  Two decisions need no
  such grant: the traffic of an approved browser page may use POST (and no other unsafe method),
  and the GraphQL probe is a POST, only if the policy enables it and only to a path it names; both
  stay within the boundary of the approved asset, except that its path does not bind them.  No
  decision of any kind goes beyond the execution ceiling of the Scope.
\<close>

theorem mutations_need_authorization:
  assumes "validate_policy_for_target E p t asset = Inr ()"
  shows "(allows_url E p url m \<longrightarrow> upper m \<in> safe_methods)
    \<and> (allows_attack_url E p url m \<or> allows_validation_url E p url m \<longrightarrow>
         upper m \<in> safe_methods \<or> tp_active p \<and> tp_attack_evidence p \<noteq> None \<and> upper m \<in> set (tp_attack_methods p))
    \<and> (allows_browser_support_url E p url m \<longrightarrow>
         within_target E p t asset False url \<and> (upper m \<in> safe_methods \<or> upper m = ''POST''))
    \<and> (allows_graphql_probe_url E p url \<longrightarrow>
         within_target E p t asset False url \<and> tp_graphql p \<and> allows_execution_method p ''POST''
         \<and> (\<exists>u. urlsplit E url = Some u \<and> (\<exists>x\<in>set (tp_probe_paths p). path_matches (or_slash (u_path u)) x)))
    \<and> (allows_url E p url m \<or> allows_attack_url E p url m \<or> allows_validation_url E p url m
        \<or> allows_browser_support_url E p url m \<longrightarrow> allows_execution_method p m)"
proof -
  from assms have safe: "\<forall>x\<in>set (tp_methods p). x \<in> safe_methods"
    and ro: "\<not> tp_active p \<Longrightarrow> \<forall>x\<in>set (tp_attack_methods p). x \<in> safe_methods"
    and ev: "tp_active p \<Longrightarrow> tp_attack_evidence p \<noteq> None"
    by (auto elim: validate_policy_Inr)
  have exec: "decide_url E p url m' ep em \<Longrightarrow> allows_execution_method p m'" for m' ep em
    by (auto elim: decide_url_True)
  have meth: "decide_url E p url m' ep True \<Longrightarrow> upper m' \<in> set (tp_methods p)" for m' ep
    by (auto elim: decide_url_True)
  note within = validated_on_target [OF assms]
  have up: "allows_execution_method p (upper m) = allows_execution_method p m"
    by (simp add: allows_execution_method_def split: option.split)
  show ?thesis
  proof (intro conjI impI)
    show "upper m \<in> safe_methods" if "allows_url E p url m"
      using that meth safe by (auto simp: allows_url_def)
    show "upper m \<in> safe_methods \<or> tp_active p \<and> tp_attack_evidence p \<noteq> None \<and> upper m \<in> set (tp_attack_methods p)"
      if "allows_attack_url E p url m \<or> allows_validation_url E p url m"
      using that ro ev unfolding allows_attack_url_def allows_validation_url_def by (metis (full_types))
    show "within_target E p t asset False url" if "allows_browser_support_url E p url m"
      using that within by (auto simp: allows_browser_support_url_def split: if_splits)
    show "upper m \<in> safe_methods \<or> upper m = ''POST''" if "allows_browser_support_url E p url m"
      using that meth safe by (auto simp: allows_browser_support_url_def split: if_splits)
    show "within_target E p t asset False url" "tp_graphql p" "allows_execution_method p ''POST''"
      "\<exists>u. urlsplit E url = Some u \<and> (\<exists>x\<in>set (tp_probe_paths p). path_matches (or_slash (u_path u)) x)"
      if "allows_graphql_probe_url E p url"
      using that within by (auto simp: allows_graphql_probe_url_def split: if_splits option.splits)
    show "allows_execution_method p m"
      if "allows_url E p url m \<or> allows_attack_url E p url m \<or> allows_validation_url E p url m
        \<or> allows_browser_support_url E p url m"
      using that exec up
      unfolding allows_url_def allows_attack_url_def allows_validation_url_def allows_browser_support_url_def
      by (metis (full_types))
  qed
qed

text \<open>The sample policy is read-only: its browser pages may POST, outside its path too; nothing else may.\<close>

lemma sample_policy_browser:
  "allows_browser_support_url plain_env sample_policy ''https://a.co/login'' ''post'' \<and> \<not> tp_active sample_policy"
  by (simp add: allows_browser_support_url_def sample_policy_def policy_eval str_eval)

lemma mutations_need_authorization_witness:
  "allows_url plain_env sample_policy ''https://A.co./x/y'' ''get'' \<and> upper ''get'' \<in> safe_methods
   \<and> within_target plain_env sample_policy AURL ''https://a.co/x'' False ''https://a.co/login''"
proof -
  have "allows_url plain_env sample_policy ''https://A.co./x/y'' ''get''"
    using sample_policy_decides by (simp only: allows_url_def)
  with sample_policy_browser mutations_need_authorization [OF sample_policy_valid] show ?thesis by blast
qed

text \<open>The grant, its evidence and the notes play no part in the decision about a URL.\<close>

lemma decide_url_grant:
  "decide_url E (p\<lparr>tp_active := a, tp_attack_evidence := q, tp_notes := n\<rparr>) url m ep em = decide_url E p url m ep em"
  by (simp add: decide_url_def allows_host_def allows_execution_method_def cong: option.case_cong)

text \<open>
  Normalizing a read-only grant changes no decision.  The repair of an inconsistent Attack
  grant leaves every URL decision of Recon, Attack, Validation, the browser and the GraphQL probe
  as it was, for every method, and its result passes the read-only rule of the validation.
\<close>

theorem read_only_normalization_changes_nothing:
  "allows_url E (normalize_read_only_attack_policy p) url m = allows_url E p url m
   \<and> allows_attack_url E (normalize_read_only_attack_policy p) url m = allows_attack_url E p url m
   \<and> allows_validation_url E (normalize_read_only_attack_policy p) url m = allows_validation_url E p url m
   \<and> allows_browser_support_url E (normalize_read_only_attack_policy p) url m = allows_browser_support_url E p url m
   \<and> allows_graphql_probe_url E (normalize_read_only_attack_policy p) url = allows_graphql_probe_url E p url
   \<and> (set (tp_attack_methods p) \<subseteq> safe_methods \<longleftrightarrow>
        set (tp_attack_methods p) \<subseteq> safe_methods \<and> \<not> tp_active (normalize_read_only_attack_policy p)
        \<and> tp_attack_evidence (normalize_read_only_attack_policy p) = None)"
proof (cases "(\<exists>m\<in>set (tp_attack_methods p). m \<notin> safe_methods) \<or> \<not> tp_active p \<and> tp_attack_evidence p = None")
  case True
  then have "normalize_read_only_attack_policy p = p" by (auto simp: normalize_read_only_attack_policy_def)
  with True show ?thesis by auto
next
  case False
  then have safe: "\<And>m. m \<in> set (tp_attack_methods p) \<Longrightarrow> m \<in> safe_methods" by blast
  obtain n where q: "normalize_read_only_attack_policy p = p\<lparr>tp_active := False, tp_attack_evidence := None, tp_notes := n\<rparr>"
    using False by (auto simp: normalize_read_only_attack_policy_def)
  show ?thesis
    unfolding q allows_url_def allows_attack_url_def allows_validation_url_def
      allows_browser_support_url_def allows_graphql_probe_url_def decide_url_grant
    using safe by (auto simp: allows_execution_method_def split: option.splits)
qed

text \<open>
  What the prefix checks cannot see.  Paths are compared as they are written: with \<open>/x\<close>
  allowed and \<open>/x/admin\<close> excluded, the URL \<open>https://a.co/x/y/../admin\<close> is allowed although
  removing its dot segments leads to the excluded path, and so is \<open>https://a.co/x/../z\<close>, which
  leaves the allowed prefix; an explicit port 0 counts as the default port.
\<close>

theorem dot_segments_and_port_zero_pass:
  "allows_url plain_env sample_policy ''https://a.co/x/y/../admin'' ''GET''
   \<and> \<not> allows_url plain_env sample_policy ''https://a.co/x/admin'' ''GET''
   \<and> allows_url plain_env sample_policy ''https://a.co/x/../z'' ''GET''
   \<and> \<not> allows_url plain_env sample_policy ''https://a.co/z'' ''GET''
   \<and> allows_url plain_env sample_policy ''https://a.co:0/x'' ''GET''"
  by (intro conjI) (simp_all add: sample_policy_def allows_url_def policy_eval str_eval)

section \<open>Start URLs\<close>

definition netloc_ok :: "net_env \<Rightarrow> string \<Rightarrow> bool" where
  "netloc_ok E n \<longleftrightarrow> (CHR ''['' \<in> set n \<longleftrightarrow> CHR '']'' \<in> set n) \<and> (CHR ''['' \<in> set n \<longrightarrow> bracketed_ok E n)"

lemma clean_url_chars: "c \<in> set (clean_url s) \<Longrightarrow> c \<notin> {CHR 0x09, CHR 0x0A, CHR 0x0D}"
  by (auto simp: clean_url_def)

lemma split_scheme_rest: "set (snd (split_scheme s)) \<subseteq> set s"
proof -
  have "partition_at c s = (a, f, b) \<Longrightarrow> set b \<subseteq> set s" for c a f b
    by (induction s arbitrary: a) (auto split: if_splits prod.splits)
  then show ?thesis unfolding split_scheme_def by (auto split: prod.splits bool.splits if_splits)
qed

lemma urlsplit_Some:
  assumes "urlsplit E s = Some u"
  shows "set (u_netloc u) \<subseteq> set (clean_url s) \<and> set (u_path u) \<subseteq> set (clean_url s)
    \<and> CHR ''#'' \<notin> set (u_path u) \<and> CHR ''?'' \<notin> set (u_path u)
    \<and> (\<forall>c\<in>set (u_netloc u). c \<notin> set ''/?#'') \<and> netloc_ok E (u_netloc u)"
proof -
  obtain scheme rest where s1: "split_scheme (clean_url s) = (scheme, rest)" by (cases "split_scheme (clean_url s)")
  obtain netloc rest2 where s2: "split_netloc rest = (netloc, rest2)" by (cases "split_netloc rest")
  have u: "u_netloc u = netloc" "netloc_ok E netloc"
    "u_path u = takeWhile (\<lambda>x. x \<noteq> CHR ''?'') (takeWhile (\<lambda>x. x \<noteq> CHR ''#'') rest2)"
    using assms by (auto simp: urlsplit_def s1 s2 Let_def netloc_ok_def split: if_splits prod.splits
        simp flip: partition_at_prefix)
  have "set rest \<subseteq> set (clean_url s)" using split_scheme_rest [of "clean_url s"] s1 by simp
  moreover have nr: "netloc = [] \<and> rest2 = rest \<or> netloc = takeWhile (\<lambda>c. c \<notin> set ''/?#'') (drop 2 rest)
      \<and> rest2 = dropWhile (\<lambda>c. c \<notin> set ''/?#'') (drop 2 rest)"
    using s2 by (simp only: split_netloc_def Let_def prod.inject split: if_splits) simp_all
  have "set netloc \<subseteq> set rest" "set rest2 \<subseteq> set rest" "\<forall>c\<in>set netloc. c \<notin> set ''/?#''"
    using nr by (metis empty_iff list.set(1) set_takeWhileD in_set_dropD subsetI,
        metis set_dropWhileD in_set_dropD subsetI, metis empty_iff list.set(1) set_takeWhileD)
  moreover have "set (u_path u) \<subseteq> set rest2" "CHR ''#'' \<notin> set (u_path u)" "CHR ''?'' \<notin> set (u_path u)"
    unfolding u(3) by (auto dest!: set_takeWhileD)
  ultimately show ?thesis using u by blast
qed

lemma recompose:
  assumes sch: "sch \<in> {''http'', ''https''}" and ok: "netloc_ok E n" and n: "\<forall>c\<in>set n. c \<notin> set ''/?#''"
    and p: "p = CHR ''/'' # p'" "CHR ''#'' \<notin> set p" "CHR ''?'' \<notin> set p"
    and clean: "\<forall>c\<in>set n \<union> set p. c \<notin> {CHR 0x09, CHR 0x0A, CHR 0x0D}"
  shows "urlsplit E (unsplit_plain sch n p) = Some \<lparr>u_scheme = sch, u_netloc = n, u_path = p, u_query = [], u_fragment = []\<rparr>"
proof -
  let ?url = "unsplit_plain sch n p"
  have url: "?url = sch @ ''://'' @ n @ p" using p(1) by (simp add: unsplit_plain_def)
  have "filter (\<lambda>c. c \<notin> {CHR 0x09, CHR 0x0A, CHR 0x0D}) (n @ p) = n @ p"
    by (rule filter_True) (use clean in auto)
  then have c: "clean_url ?url = ?url"
    using sch unfolding url by (auto simp: clean_url_def lstrip_by_def is_c0_or_space_def of_char_def)
  have s: "split_scheme ?url = (sch, ''//'' @ n @ p)"
    using sch unfolding url by (auto simp: split_scheme_def str_eval)
  have w: "takeWhile (\<lambda>c. c \<notin> set ''/?#'') (n @ p) = n" "dropWhile (\<lambda>c. c \<notin> set ''/?#'') (n @ p) = p"
    using n p(1) by (simp_all add: takeWhile_append dropWhile_append)
  have t: "split_netloc (CHR ''/'' # CHR ''/'' # n @ p) = (n, p)" using w by (simp add: split_netloc_def Let_def)
  have "\<not> ((CHR ''['' \<in> set n) \<noteq> (CHR '']'' \<in> set n) \<or> (CHR ''['' \<in> set n \<and> \<not> bracketed_ok E n))"
    using ok by (auto simp: netloc_ok_def)
  then show ?thesis
    by (simp add: urlsplit_def c s t Let_def partition_at_no [OF p(2)] partition_at_no [OF p(3)])
qed

text \<open>
  The default start URL is a valid start URL.  What \<open>default_start_url_for_target\<close> computes
  from an approved URL or API asset (scheme, host, port and path of the asset, HTTPS when it
  names none) is accepted by \<open>validate_start_url_for_target\<close> for the same asset, unless the
  asset writes the port as 0.
\<close>

theorem default_start_url_is_valid:
  assumes "default_start_url_for_target E t asset = Some url"
    and "normalized_web_asset_url E t asset = Some a" and "u_port a \<noteq> Some (Some 0)"
  shows "validate_start_url_for_target E url t asset = Inr ()"
proof -
  have t: "t \<in> {AURL, AApi}" and sch: "lower (u_scheme a) \<in> {''http'', ''https''}" and h: "u_hostname a \<noteq> None"
    "u_hostname a \<noteq> Some []" and port: "u_port a \<noteq> None"
    and split: "\<exists>s. urlsplit E s = Some a"
    using assms(2) by (auto simp: normalized_web_asset_url_def Let_def split: if_splits option.splits)
  obtain s where s: "urlsplit E s = Some a" using split by blast
  have low: "lower (u_scheme a) = u_scheme a"
    using s by (auto simp: urlsplit_def split_scheme_def Let_def lower_def split: if_splits prod.splits bool.splits)
  have net: "u_netloc a \<noteq> []" using h host_needs_netloc by blast
  note facts = urlsplit_Some [OF s]
  have clean: "\<forall>c\<in>set (u_netloc a) \<union> set (u_path a). c \<notin> {CHR 0x09, CHR 0x0A, CHR 0x0D}"
    using facts clean_url_chars by blast
  obtain p' where p': "or_slash (u_path a) = CHR ''/'' # p'"
    using urlsplit_path_slash [OF s net] by (auto simp: starts_with_iff)
  have nf: "\<not> truthy_text (u_username a)" "\<not> truthy_text (u_password a)" "u_query a = []" "u_fragment a = []"
    and url: "url = unsplit_plain (lower (u_scheme a)) (u_netloc a) (or_slash (u_path a))"
    using assms(1,2) by (auto simp: default_start_url_for_target_def split: if_splits)
  let ?b = "\<lparr>u_scheme = u_scheme a, u_netloc = u_netloc a, u_path = or_slash (u_path a), u_query = [], u_fragment = []\<rparr>"
  have b: "urlsplit E url = Some ?b"
    unfolding url low
  proof (rule recompose [OF _ _ _ p'])
    show "u_scheme a \<in> {''http'', ''https''}" using sch low by simp
    show "CHR ''#'' \<notin> set (or_slash (u_path a))" "CHR ''?'' \<notin> set (or_slash (u_path a))"
      using facts by (simp_all add: or_slash_def)
    show "\<forall>c\<in>set (u_netloc a) \<union> set (or_slash (u_path a)). c \<notin> {CHR 0x09, CHR 0x0A, CHR 0x0D}"
      using clean by (simp add: or_slash_def ball_Un)
  qed (use facts in blast)+
  have same: "u_hostname ?b = u_hostname a" "u_port ?b = u_port a" "u_username ?b = u_username a"
    "u_password ?b = u_password a"
    by (simp_all add: u_hostname_def u_port_def u_username_def u_password_def)
  obtain q where q: "u_port a = Some q" using port by blast
  have qr: "case q of None \<Rightarrow> True | Some n \<Rightarrow> 1 \<le> n \<and> n \<le> 65535"
    using q assms(3) u_port_le [of a] by (cases q) auto
  have canon: "canonical_host_for_asset E t asset = u_hostname a"
    using t assms(2) by (simp add: canonical_host_for_asset_def)
  obtain hn where hn: "u_hostname a = Some hn" "hn \<noteq> []" using h by auto
  have idem: "or_slash (or_slash (u_path a)) = or_slash (u_path a)" by (simp add: or_slash_def)
  show ?thesis
    using t sch low nf qr hn q assms(2) idem path_matches_refl
    by (auto simp: validate_start_url_for_target_def b same canon truthy_text_def or_empty_def Let_def
        split: option.split)
qed

lemma default_start_url_is_valid_witness:
  "default_start_url_for_target plain_env AApi ''api.a.co:8443/v1'' = Some ''https://api.a.co:8443/v1''
   \<and> validate_start_url_for_target plain_env ''https://api.a.co:8443/v1'' AApi ''api.a.co:8443/v1'' = Inr ()"
proof -
  have d: "default_start_url_for_target plain_env AApi ''api.a.co:8443/v1'' = Some ''https://api.a.co:8443/v1''"
    and "\<exists>a. normalized_web_asset_url plain_env AApi ''api.a.co:8443/v1'' = Some a \<and> u_port a \<noteq> Some (Some 0)"
    by (simp_all add: default_start_url_for_target_def truthy_text_def unsplit_plain_def policy_eval str_eval)
  then obtain a where "normalized_web_asset_url plain_env AApi ''api.a.co:8443/v1'' = Some a" "u_port a \<noteq> Some (Some 0)"
    by blast
  from default_start_url_is_valid [OF d this] d show ?thesis by blast
qed

end
