(* ===== verification/Exclusion_Guard.thy ===== *)
theory Exclusion_Guard
  imports Py_Url
begin

text \<open>
  \<open>src/src/aidast/core/exclusion_guard.py\<close>: the offline guard that decides, for one physical
  request, whether an approved exclusion denies it, whether it has to be held for review, or
  whether the baseline authorization stands.  Strings are UTF-8 byte strings here; the tests of
  the code are on ASCII characters, so they read the same.  \<open>guard_env\<close> collects the standard
  library and the digest: IDNA and address parsing, UTF-8 validity, \<open>parse_qsl\<close>, \<open>json.loads\<close>
  (None when it raises, on a repeated member and on a non-finite constant as well),
  \<open>json.dumps\<close> of a scalar, and the SHA-256 fingerprint of a request.  A raised exception is
  None.
\<close>

section \<open>Rules\<close>

datatype ex_field = FHost | FPath | FMethod | FQuery | FJson | FForm | FSemantic | FUnsupported

datatype ex_operator = Equals | IsPrefix | IsPresent

record ex_pred =
  eq_key :: string
  eq_field :: ex_field
  eq_operator :: ex_operator
  eq_name :: "string option"
  eq_value :: "string option"

datatype ex_expr = EPred ex_pred | EAll "ex_expr list" | EAny "ex_expr list" | ENot ex_expr

record ex_rule =
  xr_key :: string
  xr_label :: string
  xr_quote :: string
  xr_assets :: "string list"
  xr_condition :: ex_expr

type_synonym origin = "string \<times> string \<times> nat \<times> string \<times> string"

record guard_env =
  ge_net :: net_env
  ge_utf8 :: "string \<Rightarrow> bool"
  ge_qsl :: "string \<Rightarrow> (string \<times> string) list option"
  ge_loads :: "string \<Rightarrow> pyval option"
  ge_dumps :: "pyval \<Rightarrow> string"
  ge_rules_digest :: "ex_rule list \<Rightarrow> string"
  ge_fingerprint :: "origin \<Rightarrow> string \<Rightarrow> (string \<times> string) list \<Rightarrow> string \<Rightarrow> pyval option \<Rightarrow> string"

section \<open>Bounded text\<close>

definition text_ok :: "nat \<Rightarrow> bool \<Rightarrow> string \<Rightarrow> bool" where
  "text_ok maximum blank_ok s \<longleftrightarrow> length s \<le> maximum \<and> (blank_ok \<or> \<not> is_blank s)
     \<and> (\<forall>c\<in>set s. 32 \<le> (of_char c :: nat) \<or> c \<in> {CHR 0x0A, CHR 0x0D, CHR 0x09})"

definition id_ok :: "string \<Rightarrow> bool" where
  "id_ok s \<longleftrightarrow> s \<noteq> [] \<and> length s \<le> 128 \<and> (is_alnum (hd s) \<or> hd s = CHR ''_'')
     \<and> list_all (\<lambda>c. is_alnum c \<or> c \<in> set ''_.:-'') (tl s)"

definition sha_ok :: "string \<Rightarrow> bool" where
  "sha_ok s \<longleftrightarrow> length s = 64 \<and> list_all (\<lambda>c. is_digit c \<or> c \<in> set ''abcdef'') s"

definition is_token_char :: "char \<Rightarrow> bool" where
  "is_token_char c \<longleftrightarrow> is_alnum c \<or> c \<in> set ''!#$%&'' \<or> c = CHR 0x27 \<or> c \<in> set ''*+.^_'' \<or> c = CHR 0x60
     \<or> c \<in> set ''|~-''"

definition token_ok :: "string \<Rightarrow> bool" where
  "token_ok s \<longleftrightarrow> s \<noteq> [] \<and> list_all is_token_char s"

section \<open>Percent encoding and paths\<close>

definition hex_digit :: "char \<Rightarrow> nat" where
  "hex_digit c = (let n = (of_char c :: nat) in if n \<le> 57 then n - 48 else if n \<le> 70 then n - 55 else n - 87)"

fun unquote :: "string \<Rightarrow> string option" where
  "unquote [] = Some []"
| "unquote (c # s) =
     (if c \<noteq> CHR ''%'' then map_option ((#) c) (unquote s)
      else (case s of
              a # b # r \<Rightarrow> if is_hex a \<and> is_hex b
                then map_option ((#) (char_of (16 * hex_digit a + hex_digit b :: nat))) (unquote r) else None
            | _ \<Rightarrow> None))"

definition percent_decode :: "guard_env \<Rightarrow> string \<Rightarrow> string option" where
  "percent_decode G s = (case unquote s of None \<Rightarrow> None | Some d \<Rightarrow> if ge_utf8 G d then Some d else None)"

fun ambiguous_escape :: "string \<Rightarrow> bool" where
  "ambiguous_escape (p # a # b # s) =
     ((p = CHR ''%'' \<and> lower [a, b] \<in> {''2f'', ''5c'', ''25'', ''3f'', ''23'', ''3b''}) \<or> ambiguous_escape (a # b # s))"
| "ambiguous_escape _ = False"

definition is_odd_char :: "char \<Rightarrow> bool" where
  "is_odd_char c \<longleftrightarrow> (of_char c :: nat) < 33 \<or> (of_char c :: nat) = 127"

definition guard_path :: "guard_env \<Rightarrow> string \<Rightarrow> string option" where
  "guard_path G v =
     (if \<not> starts_with v ''/'' \<or> 8192 < length v \<or> ambiguous_escape v then None
      else case percent_decode G v of
             None \<Rightarrow> None
           | Some d \<Rightarrow> if (\<exists>c\<in>set d. is_odd_char c \<or> c = CHR 0x5C \<or> c \<in> set '';?#'')
                          \<or> contains d ''//'' \<or> (\<exists>w\<in>set (split_on (CHR ''/'') d). w \<in> {''.'', ''..''})
                       then None else Some d)"

definition host_char :: "char \<Rightarrow> bool" where
  "host_char c \<longleftrightarrow> is_lower_alpha c \<or> is_digit c"

definition host_text_ok :: "string \<Rightarrow> bool" where
  "host_text_ok h \<longleftrightarrow> h \<noteq> [] \<and> length h \<le> 253 \<and> host_char (hd h)
     \<and> (length h = 1 \<or> host_char (last h) \<or> last h = CHR ''.'')
     \<and> list_all (\<lambda>c. host_char c \<or> c \<in> set ''.-'') h \<and> \<not> contains h ''..''"

definition guard_url :: "guard_env \<Rightarrow> string \<Rightarrow> origin option" where
  "guard_url G url =
     (if \<not> text_ok 16384 False url \<or> (\<exists>c\<in>set url. is_odd_char c \<or> c = CHR 0x5C \<or> c = CHR ''#'') then None
      else case urlsplit (ge_net G) url of
        None \<Rightarrow> None
      | Some u \<Rightarrow>
          if u_scheme u \<notin> {''http'', ''https''} \<or> u_netloc u = [] \<or> CHR ''@'' \<in> set (u_netloc u)
             \<or> or_empty (u_hostname u) = [] \<or> ends_with (u_netloc u) '':'' then None
          else case map_option lower (idna_encode (ge_net G) (or_empty (u_hostname u))) of
            None \<Rightarrow> None
          | Some h \<Rightarrow>
              (case (if CHR '':'' \<in> set h
                     then (case ip_address (ge_net G) h of Some (True, canon) \<Rightarrow> Some canon | _ \<Rightarrow> None)
                     else if host_text_ok h then Some h else None) of
                 None \<Rightarrow> None
               | Some host \<Rightarrow> (case u_port u of
                   None \<Rightarrow> None
                 | Some q \<Rightarrow>
                     let port = (case q of Some n \<Rightarrow> n | None \<Rightarrow> if u_scheme u = ''https'' then 443 else 80)
                     in if port < 1 \<or> 65535 < port then None
                        else (case guard_path G (if u_path u = [] then ''/'' else u_path u) of
                            None \<Rightarrow> None
                          | Some path \<Rightarrow> if percent_decode G (u_query u) = None then None
                              else Some (u_scheme u, host, port, path, u_query u)))))"

definition guard_method :: "string \<Rightarrow> string option" where
  "guard_method m = (if length m \<le> 32 \<and> token_ok m then Some (upper m) else None)"

definition header_value_ok :: "string \<Rightarrow> bool" where
  "header_value_ok v \<longleftrightarrow> text_ok 16384 True v
     \<and> (\<forall>c\<in>set v. \<not> ((of_char c :: nat) < 32 \<and> c \<noteq> CHR 0x09 \<or> (of_char c :: nat) = 127))"

text \<open>\<open>_headers\<close>: lower-case names, no two values for one name, sorted.\<close>

definition guard_headers :: "(string \<times> string) list \<Rightarrow> (string \<times> string) list option" where
  "guard_headers hs =
     (let low = map (\<lambda>(n, v). (lower n, v)) hs
      in if 256 < length hs \<or> \<not> list_all (\<lambda>(n, v). token_ok n \<and> length n \<le> 256 \<and> header_value_ok v) hs
            \<or> (\<exists>(n, v)\<in>set low. \<exists>(n', v')\<in>set low. n = n' \<and> v \<noteq> v')
            \<or> 65536 < sum_list (map (\<lambda>(n, v). length n + length v) low)
         then None else Some (sort low))"

section \<open>Well-formed rules\<close>

fun bad_tilde :: "string \<Rightarrow> bool" where
  "bad_tilde [] = False"
| "bad_tilde (c # s) = ((c = CHR ''~'' \<and> \<not> (s \<noteq> [] \<and> hd s \<in> set ''01'')) \<or> bad_tilde s)"

definition pred_ok :: "guard_env \<Rightarrow> ex_pred \<Rightarrow> bool" where
  "pred_ok G p \<longleftrightarrow>
     id_ok (eq_key p)
     \<and> (case eq_name p of None \<Rightarrow> True | Some n \<Rightarrow> text_ok 512 (eq_field p = FJson) n)
     \<and> (case eq_value p of None \<Rightarrow> True | Some v \<Rightarrow> text_ok 4096 True v)
     \<and> (eq_operator p = IsPrefix \<longrightarrow> eq_field p = FPath)
     \<and> (eq_operator p = IsPresent \<longleftrightarrow> eq_value p = None)
     \<and> (if eq_field p \<in> {FQuery, FForm, FJson}
        then (case eq_name p of None \<Rightarrow> False
              | Some n \<Rightarrow> eq_field p = FJson \<longrightarrow> (n = [] \<or> starts_with n ''/'') \<and> \<not> bad_tilde n
                            \<and> length (split_on (CHR ''/'') n) \<le> 17)
        else eq_name p = None)
     \<and> (eq_field p \<in> {FSemantic, FUnsupported} \<longrightarrow>
          eq_operator p = Equals \<and> \<not> is_blank (or_empty (eq_value p)))
     \<and> (case eq_value p of None \<Rightarrow> True
        | Some v \<Rightarrow> (eq_field p = FPath \<longrightarrow> guard_path G v \<noteq> None)
            \<and> (eq_field p = FMethod \<longrightarrow> guard_method v = Some v)
            \<and> (eq_field p = FHost \<longrightarrow> CHR '':'' \<notin> set v
                 \<and> map_option (fst \<circ> snd) (guard_url G (''https://'' @ v @ ''/'')) = Some v))"

fun expr_preds :: "ex_expr \<Rightarrow> ex_pred list" where
  "expr_preds (EPred p) = [p]"
| "expr_preds (EAll es) = concat (map expr_preds es)"
| "expr_preds (EAny es) = concat (map expr_preds es)"
| "expr_preds (ENot e) = expr_preds e"

fun expr_nodes :: "ex_expr \<Rightarrow> nat" where
  "expr_nodes (EPred p) = 1"
| "expr_nodes (EAll es) = Suc (sum_list (map expr_nodes es))"
| "expr_nodes (EAny es) = Suc (sum_list (map expr_nodes es))"
| "expr_nodes (ENot e) = Suc (expr_nodes e)"

fun expr_depth :: "ex_expr \<Rightarrow> nat" where
  "expr_depth (EPred p) = 1"
| "expr_depth (EAll es) = Suc (foldr max (map expr_depth es) 0)"
| "expr_depth (EAny es) = Suc (foldr max (map expr_depth es) 0)"
| "expr_depth (ENot e) = Suc (expr_depth e)"

fun arity_ok :: "ex_expr \<Rightarrow> bool" where
  "arity_ok (EPred p) = True"
| "arity_ok (EAll es) = (es \<noteq> [] \<and> list_all arity_ok es)"
| "arity_ok (EAny es) = (es \<noteq> [] \<and> list_all arity_ok es)"
| "arity_ok (ENot e) = arity_ok e"

definition expr_ok :: "guard_env \<Rightarrow> ex_expr \<Rightarrow> bool" where
  "expr_ok G e \<longleftrightarrow> expr_nodes e \<le> 128 \<and> expr_depth e \<le> 8 \<and> arity_ok e
     \<and> list_all (pred_ok G) (expr_preds e) \<and> distinct (map eq_key (expr_preds e))"

text \<open>Concrete literals must stand in the source quote.\<close>

definition literal_ok :: "string \<Rightarrow> string option \<Rightarrow> bool" where
  "literal_ok quote l = (case l of None \<Rightarrow> True | Some s \<Rightarrow> s = [] \<or> contains quote s)"

definition rule_ok :: "guard_env \<Rightarrow> ex_rule \<Rightarrow> bool" where
  "rule_ok G r \<longleftrightarrow> id_ok (xr_key r) \<and> text_ok 160 False (xr_label r) \<and> text_ok 16000 False (xr_quote r)
     \<and> length (xr_assets r) \<le> 512 \<and> list_all (text_ok 4096 False) (xr_assets r) \<and> distinct (xr_assets r)
     \<and> expr_ok G (xr_condition r)
     \<and> list_all (\<lambda>p. eq_field p \<in> {FSemantic, FUnsupported}
          \<or> literal_ok (xr_quote r) (eq_name p) \<and> literal_ok (xr_quote r) (eq_value p)) (expr_preds (xr_condition r))"

section \<open>Asset envelopes\<close>

record envelope =
  ev_scheme :: "string option"
  ev_host :: string
  ev_wild :: bool
  ev_port :: "nat option"
  ev_path :: string

definition label_ok :: "string \<Rightarrow> bool" where
  "label_ok w \<longleftrightarrow> w \<noteq> [] \<and> length w \<le> 63 \<and> host_char (hd w) \<and> host_char (last w)
     \<and> list_all (\<lambda>c. host_char c \<or> c = CHR ''-'') w"

text \<open>Abbreviated, octal or hexadecimal spellings of an address.\<close>

definition number_label :: "string \<Rightarrow> bool" where
  "number_label w \<longleftrightarrow> (w \<noteq> [] \<and> list_all is_digit w)
     \<or> (starts_with w ''0x'' \<and> drop 2 w \<noteq> [] \<and> list_all (\<lambda>c. is_digit c \<or> c \<in> set ''abcdef'') (drop 2 w))"

definition envelope_host :: "guard_env \<Rightarrow> bool \<Rightarrow> bool \<Rightarrow> string \<Rightarrow> string \<Rightarrow> string option" where
  "envelope_host G qualified wild h path =
     (case ip_address (ge_net G) h of
        Some (_, canon) \<Rightarrow>
          if wild then None
          else if \<not> qualified \<and> starts_with path ''/'' \<and> tl path \<noteq> [] \<and> length (tl path) \<le> 3 \<and> list_all is_digit (tl path)
          then None else Some canon
      | None \<Rightarrow> if 253 < length h \<or> \<not> list_all label_ok (split_on (CHR ''.'') h)
                   \<or> list_all number_label (split_on (CHR ''.'') h) then None else Some h)"

definition asset_envelope :: "guard_env \<Rightarrow> string \<Rightarrow> envelope option" where
  "asset_envelope G asset =
     (if \<not> text_ok 4096 False asset \<or> (\<exists>c\<in>set asset. is_odd_char c \<or> c = CHR 0x5C) then None
      else let qualified = contains asset ''://''
           in case urlsplit (ge_net G) (if qualified then asset else ''//'' @ asset) of
                None \<Rightarrow> None
              | Some u \<Rightarrow>
                  if (qualified \<and> u_scheme u \<notin> {''http'', ''https''}) \<or> or_empty (u_hostname u) = []
                     \<or> CHR ''@'' \<in> set (u_netloc u) \<or> u_query u \<noteq> [] \<or> u_fragment u \<noteq> []
                     \<or> ends_with (u_netloc u) '':'' \<or> (\<not> qualified \<and> u_scheme u \<noteq> []) then None
                  else (case u_port u of
                      None \<Rightarrow> None
                    | Some port \<Rightarrow>
                      if (case port of None \<Rightarrow> False | Some n \<Rightarrow> n < 1 \<or> 65535 < n) then None
                      else let host = or_empty (u_hostname u); wild = starts_with host ''*.'';
                               host = (if wild then drop 2 host else host)
                           in if CHR ''*'' \<in> set host then None
                              else (case idna_encode (ge_net G) host of
                                  None \<Rightarrow> None
                                | Some h \<Rightarrow>
                                  (case envelope_host G qualified wild (rstrip_by (\<lambda>c. c = CHR ''.'') (lower h)) (u_path u) of
                                     None \<Rightarrow> None
                                   | Some host \<Rightarrow>
                                     (case guard_path G (if u_path u = [] then ''/'' else u_path u) of
                                        None \<Rightarrow> None
                                      | Some path \<Rightarrow>
                                        let scheme = (if qualified then Some (u_scheme u) else None)
                                        in Some \<lparr>ev_scheme = scheme, ev_host = host, ev_wild = wild,
                                             ev_port = (case port of Some n \<Rightarrow> Some n
                                               | None \<Rightarrow> if scheme = Some ''https'' then Some 443
                                                         else if scheme = Some ''http'' then Some 80 else None),
                                             ev_path = path\<rparr>)))))"

definition host_contains :: "string \<Rightarrow> bool \<Rightarrow> string \<Rightarrow> bool \<Rightarrow> bool" where
  "host_contains l lw r rw =
     (if \<not> lw then \<not> rw \<and> l = r
      else if rw then r = l \<or> ends_with r (''.'' @ l)
      else ends_with r (''.'' @ l))"

definition path_contains :: "string \<Rightarrow> string \<Rightarrow> bool" where
  "path_contains container member =
     (let prefix = rstrip_by (\<lambda>c. c = CHR ''/'') container
      in prefix = [] \<or> member = prefix \<or> starts_with member (prefix @ ''/''))"

definition asset_contains :: "envelope \<Rightarrow> envelope \<Rightarrow> bool" where
  "asset_contains c m \<longleftrightarrow> (ev_scheme c = None \<or> ev_scheme c = ev_scheme m)
     \<and> (ev_port c = None \<or> ev_port c = ev_port m)
     \<and> host_contains (ev_host c) (ev_wild c) (ev_host m) (ev_wild m)
     \<and> path_contains (ev_path c) (ev_path m)"

definition assets_intersect :: "envelope \<Rightarrow> envelope \<Rightarrow> bool" where
  "assets_intersect l r \<longleftrightarrow>
     \<not> (ev_scheme l \<noteq> None \<and> ev_scheme r \<noteq> None \<and> ev_scheme l \<noteq> ev_scheme r)
     \<and> \<not> (ev_port l \<noteq> None \<and> ev_port r \<noteq> None \<and> ev_port l \<noteq> ev_port r)
     \<and> (host_contains (ev_host l) (ev_wild l) (ev_host r) (ev_wild r)
        \<or> host_contains (ev_host r) (ev_wild r) (ev_host l) (ev_wild l))
     \<and> (path_contains (ev_path l) (ev_path r) \<or> path_contains (ev_path r) (ev_path l))"

datatype applicability = Applies | Disjoint | Overlap

text \<open>The loop over the bindings of a rule: the first containment decides.\<close>

fun scan_assets :: "guard_env \<Rightarrow> envelope option \<Rightarrow> bool \<Rightarrow> string list \<Rightarrow> applicability" where
  "scan_assets G sel overlap [] = (if overlap then Overlap else Disjoint)"
| "scan_assets G sel overlap (a # as) =
     (case (sel, asset_envelope G a) of
        (Some s, Some b) \<Rightarrow> if asset_contains b s then Applies
                            else scan_assets G sel (overlap \<or> assets_intersect s b) as
      | _ \<Rightarrow> scan_assets G sel True as)"

definition exclusion_applicability :: "guard_env \<Rightarrow> ex_rule \<Rightarrow> string \<Rightarrow> applicability" where
  "exclusion_applicability G r target =
     (if xr_assets r = [] \<or> target \<in> set (xr_assets r) then Applies
      else scan_assets G (asset_envelope G target) False (xr_assets r))"

text \<open>\<open>_assets_intersect(bound, request)\<close> is called with its arguments the other way round.\<close>

definition request_applicability :: "guard_env \<Rightarrow> ex_rule \<Rightarrow> string \<Rightarrow> applicability" where
  "request_applicability G r url =
     (case asset_envelope G url of None \<Rightarrow> Overlap | Some q \<Rightarrow> scan_assets G (Some q) False (xr_assets r))"

section \<open>Guard snapshots\<close>

datatype classification = ClMatch | ClNonmatch | ClUnknown

record binding =
  sb_request :: string
  sb_rule :: string
  sb_pred :: string
  sb_class :: classification
  sb_evidence :: "string list"

record guard_policy =
  gp_scope_digest :: string
  gp_rule_digest :: string
  gp_evidence_digest :: string
  gp_target :: string
  gp_rules :: "ex_rule list"
  gp_bindings :: "binding list"
  gp_expires :: "rat option"

definition memberships :: "ex_rule list \<Rightarrow> (string \<times> string) set" where
  "memberships rs = set (concat (map (\<lambda>r. map (\<lambda>p. (xr_key r, eq_key p))
     (filter (\<lambda>p. eq_field p = FSemantic) (expr_preds (xr_condition r)))) rs))"

definition binding_ok :: "ex_rule list \<Rightarrow> binding \<Rightarrow> bool" where
  "binding_ok rs b \<longleftrightarrow> sha_ok (sb_request b) \<and> id_ok (sb_rule b) \<and> id_ok (sb_pred b)
     \<and> (sb_rule b, sb_pred b) \<in> memberships rs
     \<and> length (sb_evidence b) \<le> 64 \<and> list_all id_ok (sb_evidence b) \<and> distinct (sb_evidence b)
     \<and> (sb_class b \<noteq> ClUnknown \<longrightarrow> sb_evidence b \<noteq> [])"

definition policy_ok :: "guard_env \<Rightarrow> guard_policy \<Rightarrow> bool" where
  "policy_ok G p \<longleftrightarrow>
     length (gp_rules p) \<le> 128 \<and> list_all (rule_ok G) (gp_rules p) \<and> distinct (map xr_key (gp_rules p))
     \<and> sha_ok (gp_rule_digest p) \<and> gp_rule_digest p = ge_rules_digest G (gp_rules p)
     \<and> length (gp_bindings p) \<le> 16384 \<and> list_all (binding_ok (gp_rules p)) (gp_bindings p)
     \<and> distinct (map (\<lambda>b. (sb_request b, sb_rule b, sb_pred b)) (gp_bindings p))
     \<and> (case gp_expires p of None \<Rightarrow> True | Some t \<Rightarrow> 0 < t)
     \<and> sha_ok (gp_scope_digest p) \<and> sha_ok (gp_evidence_digest p) \<and> text_ok 4096 False (gp_target p)"

section \<open>Reading a request\<close>

record physical_request =
  pq_url :: string
  pq_method :: string
  pq_headers :: "(string \<times> string) list"
  pq_body :: "string option"
  pq_body_available :: bool
  pq_identity_available :: bool
  pq_context :: "pyval option"
  pq_now :: rat

fun context_nodes :: "pyval \<Rightarrow> nat" where
  "context_nodes (PDict d) = Suc (sum_list (map (\<lambda>(k, v). context_nodes v) d))"
| "context_nodes (PList vs) = Suc (sum_list (map context_nodes vs))"
| "context_nodes _ = 1"

fun context_depth :: "pyval \<Rightarrow> nat" where
  "context_depth (PDict d) = Suc (foldr max (map (\<lambda>(k, v). context_depth v) d) 0)"
| "context_depth (PList vs) = Suc (foldr max (map context_depth vs) 0)"
| "context_depth _ = 1"

fun context_values_ok :: "pyval \<Rightarrow> bool" where
  "context_values_ok (PDict d) = list_all (\<lambda>(k, v). text_ok 128 False k \<and> context_values_ok v) d"
| "context_values_ok (PList vs) = list_all context_values_ok vs"
| "context_values_ok (PStr s) = text_ok 4096 True s"
| "context_values_ok (PInt i) = (\<bar>i\<bar> \<le> 10 ^ 100)"
| "context_values_ok (PFloat q) = (\<bar>q\<bar> \<le> 10 ^ 100)"
| "context_values_ok PNonFinite = False"
| "context_values_ok _ = True"

definition context_ok :: "guard_env \<Rightarrow> pyval option \<Rightarrow> bool" where
  "context_ok G c = (case c of None \<Rightarrow> True
     | Some (PDict d) \<Rightarrow> context_depth (PDict d) \<le> 8 \<and> context_nodes (PDict d) \<le> 128
         \<and> context_values_ok (PDict d) \<and> length (ge_dumps G (PDict d)) \<le> 16384
     | Some _ \<Rightarrow> False)"

text \<open>\<open>_parameters\<close>, \<open>_pointer\<close>; the inner option of a value is the missing object.\<close>

definition parameters :: "guard_env \<Rightarrow> string \<Rightarrow> (string \<times> string) list option" where
  "parameters G t =
     (if 1048576 < length t \<or> CHR '';'' \<in> set t \<or> percent_decode G t = None then None
      else case ge_qsl G t of None \<Rightarrow> None
           | Some ps \<Rightarrow> if distinct (map fst ps) then Some ps else None)"

fun replace_pair :: "char \<Rightarrow> char \<Rightarrow> char \<Rightarrow> string \<Rightarrow> string" where
  "replace_pair a b c (x # y # s) =
     (if x = a \<and> y = b then c # replace_pair a b c s else x # replace_pair a b c (y # s))"
| "replace_pair a b c s = s"

definition pointer_part :: "string \<Rightarrow> string" where
  "pointer_part s = replace_pair (CHR ''~'') (CHR ''0'') (CHR ''~'')
     (replace_pair (CHR ''~'') (CHR ''1'') (CHR ''/'') s)"

definition index_text :: "string \<Rightarrow> bool" where
  "index_text s \<longleftrightarrow> s = ''0'' \<or> (s \<noteq> [] \<and> length s \<le> 9 \<and> list_all is_digit s \<and> hd s \<noteq> CHR ''0'')"

fun walk_pointer :: "pyval \<Rightarrow> string list \<Rightarrow> pyval option" where
  "walk_pointer v [] = Some v"
| "walk_pointer v (w # ws) =
     (case v of
        PDict d \<Rightarrow> (case dict_get d (pointer_part w) of None \<Rightarrow> None | Some x \<Rightarrow> walk_pointer x ws)
      | PList vs \<Rightarrow> if index_text (pointer_part w) \<and> parse_nat (pointer_part w) < length vs
                   then walk_pointer (vs ! parse_nat (pointer_part w)) ws else None
      | _ \<Rightarrow> None)"

definition pointer :: "pyval \<Rightarrow> string \<Rightarrow> pyval option" where
  "pointer v p = (if p = [] then Some v else walk_pointer v (split_on (CHR ''/'') (tl p)))"

fun json_depth_nodes :: "pyval \<Rightarrow> nat \<times> nat" where
  "json_depth_nodes (PDict d) =
     (let ps = map (\<lambda>(k, v). json_depth_nodes v) d in (Suc (foldr max (map fst ps) 0), Suc (sum_list (map snd ps))))"
| "json_depth_nodes (PList vs) =
     (let ps = map json_depth_nodes vs in (Suc (foldr max (map fst ps) 0), Suc (sum_list (map snd ps))))"
| "json_depth_nodes _ = (1, 1)"

definition json_body :: "guard_env \<Rightarrow> string \<Rightarrow> pyval option" where
  "json_body G raw = (if \<not> ge_utf8 G raw then None
     else case ge_loads G raw of None \<Rightarrow> None
          | Some v \<Rightarrow> if 32 < fst (json_depth_nodes v) \<or> 8192 < snd (json_depth_nodes v) \<or> \<not> json_finite v
                      then None else Some v)"

text \<open>The header map: the last value of a name.\<close>

definition header_of :: "(string \<times> string) list \<Rightarrow> string \<Rightarrow> string option" where
  "header_of hs n = map_of (rev hs) n"

definition strip_quotes :: "string \<Rightarrow> string" where
  "strip_quotes s = strip_by (\<lambda>c. c = CHR 0x22) s"

definition charset_ok :: "string \<Rightarrow> bool" where
  "charset_ok parameter = (case partition_at (CHR ''='') (strip parameter) of
     (n, sep, v) \<Rightarrow> sep \<and> lower (strip n) = ''charset''
       \<and> lower (strip_quotes (strip v)) \<in> {''utf-8'', ''utf8'', ''us-ascii''})"

definition media_of :: "(string \<times> string) list \<Rightarrow> string option" where
  "media_of hs =
     (let parts = split_on (CHR '';'') (or_empty (header_of hs ''content-type''))
      in if \<not> list_all charset_ok (tl parts)
            \<or> lower (strip (case header_of hs ''content-encoding'' of None \<Rightarrow> ''identity'' | Some v \<Rightarrow> v)) \<noteq> ''identity''
         then None else Some (lower (strip (hd parts))))"

definition is_dom_action :: "pyval option \<Rightarrow> bool" where
  "is_dom_action c = (case c of Some (PDict d) \<Rightarrow> dict_get d ''operation'' = Some (PStr ''dom_action'') | _ \<Rightarrow> False)"

definition value_for ::
  "guard_env \<Rightarrow> pyval option \<Rightarrow> origin \<Rightarrow> string \<Rightarrow> (string \<times> string) list \<Rightarrow> string option \<Rightarrow> ex_pred
     \<Rightarrow> pyval option option" where
  "value_for G c o' m hs raw p =
     (if is_dom_action c then None
      else case o' of (scheme, host, port, path, query) \<Rightarrow>
        (case eq_field p of
           FHost \<Rightarrow> Some (Some (PStr host))
         | FPath \<Rightarrow> Some (Some (PStr path))
         | FMethod \<Rightarrow> Some (Some (PStr m))
         | FQuery \<Rightarrow> map_option (\<lambda>ps. map_option PStr (dict_get ps (or_empty (eq_name p)))) (parameters G query)
         | f \<Rightarrow> (case raw of
               None \<Rightarrow> None
             | Some b \<Rightarrow> if b = [] then Some None
                 else if 1048576 < length b then None
                 else (case media_of hs of
                     None \<Rightarrow> None
                   | Some media \<Rightarrow>
                     if f = FJson
                     then if media \<noteq> ''application/json'' \<and> \<not> (starts_with media ''application/'' \<and> ends_with media ''+json'')
                          then None else map_option (\<lambda>v. pointer v (or_empty (eq_name p))) (json_body G b)
                     else if media \<noteq> ''application/x-www-form-urlencoded'' \<or> \<not> ge_utf8 G b then None
                     else map_option (\<lambda>ps. map_option PStr (dict_get ps (or_empty (eq_name p)))) (parameters G b)))))"

definition compare_value :: "guard_env \<Rightarrow> ex_pred \<Rightarrow> pyval \<Rightarrow> bool option" where
  "compare_value G p v =
     (case (if eq_field p = FPath then guard_path G (or_empty (eq_value p)) else Some (or_empty (eq_value p))) of
        None \<Rightarrow> None
      | Some expected \<Rightarrow>
          if eq_operator p = IsPrefix
          then (case v of PStr s \<Rightarrow> Some (path_contains expected s) | _ \<Rightarrow> None)
          else (case v of PDict _ \<Rightarrow> None | PList _ \<Rightarrow> None
                | PStr s \<Rightarrow> Some (s = expected) | w \<Rightarrow> Some (ge_dumps G w = expected)))"

definition semantic_value :: "guard_policy \<Rightarrow> rat \<Rightarrow> string option \<Rightarrow> string \<Rightarrow> string \<Rightarrow> bool option" where
  "semantic_value g now fingerprint rule key =
     (case gp_expires g of None \<Rightarrow> None
      | Some t \<Rightarrow> if t \<le> now then None
          else (case fingerprint of None \<Rightarrow> None
              | Some fp \<Rightarrow> (case find (\<lambda>b. sb_request b = fp \<and> sb_rule b = rule \<and> sb_pred b = key) (gp_bindings g) of
                  None \<Rightarrow> None
                | Some b \<Rightarrow> (case sb_class b of ClMatch \<Rightarrow> Some True | ClNonmatch \<Rightarrow> Some False | ClUnknown \<Rightarrow> None))))"

definition predicate_value ::
  "guard_env \<Rightarrow> guard_policy \<Rightarrow> physical_request \<Rightarrow> origin \<Rightarrow> string \<Rightarrow> (string \<times> string) list \<Rightarrow> string option
     \<Rightarrow> string option \<Rightarrow> string \<Rightarrow> ex_pred \<Rightarrow> bool option" where
  "predicate_value G g r o' m hs raw fp rule p =
     (if eq_field p = FUnsupported then None
      else if eq_field p = FSemantic then semantic_value g (pq_now r) fp rule (eq_key p)
      else case value_for G (pq_context r) o' m hs raw p of
             None \<Rightarrow> None
           | Some v \<Rightarrow> if eq_operator p = IsPresent then Some (v \<noteq> None)
                       else (case v of None \<Rightarrow> Some False | Some w \<Rightarrow> compare_value G p w))"

section \<open>Three-valued conditions\<close>

fun expression_value :: "(ex_pred \<Rightarrow> bool option) \<Rightarrow> ex_expr \<Rightarrow> bool option" where
  "expression_value v (EPred p) = v p"
| "expression_value v (ENot e) = map_option Not (expression_value v e)"
| "expression_value v (EAll es) =
     (let vs = map (expression_value v) es
      in if Some False \<in> set vs then Some False else if None \<in> set vs then None else Some True)"
| "expression_value v (EAny es) =
     (let vs = map (expression_value v) es
      in if Some True \<in> set vs then Some True else if None \<in> set vs then None else Some False)"

datatype guard_decision = Continue | Deny "string list" | Hold "string list"

definition applicable_rules :: "guard_env \<Rightarrow> guard_policy \<Rightarrow> (ex_rule \<times> applicability) list" where
  "applicable_rules G g = filter (\<lambda>(r, a). a \<noteq> Disjoint)
     (map (\<lambda>r. (r, exclusion_applicability G r (gp_target g))) (gp_rules g))"

text \<open>What one rule says: denied, held, or nothing.\<close>

datatype rule_verdict = Denied | Held | Silent

definition rule_says ::
  "guard_env \<Rightarrow> string \<Rightarrow> (string \<Rightarrow> ex_pred \<Rightarrow> bool option) \<Rightarrow> ex_rule \<times> applicability \<Rightarrow> rule_verdict" where
  "rule_says G url v ra = (case ra of (r, a) \<Rightarrow>
     (let a = (if a = Overlap then request_applicability G r url else a)
      in if a = Disjoint then Silent else if a = Overlap then Held
         else (case expression_value (v (xr_key r)) (xr_condition r) of
                 Some True \<Rightarrow> Denied | None \<Rightarrow> Held | Some False \<Rightarrow> Silent)))"

definition evaluate_exclusions :: "guard_env \<Rightarrow> guard_policy option \<Rightarrow> physical_request \<Rightarrow> guard_decision" where
  "evaluate_exclusions G data r =
     (case data of None \<Rightarrow> Continue
      | Some g \<Rightarrow>
          if \<not> policy_ok G g then Hold []
          else let rules = applicable_rules G g
               in if rules = [] then Continue
                  else (case (guard_url G (pq_url r), guard_method (pq_method r), guard_headers (pq_headers r)) of
                     (Some o', Some m, Some hs) \<Rightarrow>
                       if \<not> context_ok G (pq_context r) then Hold []
                       else let raw = (if pq_body_available r then Some (or_empty (pq_body r)) else None);
                                fp = (if pq_body_available r \<and> pq_identity_available r
                                      then Some (ge_fingerprint G o' m hs (or_empty (pq_body r)) (pq_context r)) else None);
                                says = rule_says G (pq_url r) (predicate_value G g r o' m hs raw fp);
                                keys = (\<lambda>w. map (\<lambda>ra. xr_key (fst ra)) (filter (\<lambda>ra. says ra = w) rules))
                            in if keys Denied \<noteq> [] then Deny (keys Denied)
                               else if keys Held \<noteq> [] then Hold (keys Held) else Continue
                   | _ \<Rightarrow> Hold []))"

text \<open>\<open>TargetPolicy.check_request_exclusions\<close> and \<open>require_request_admission\<close>.\<close>

definition check_request_exclusions ::
  "guard_env \<Rightarrow> string \<Rightarrow> guard_policy option \<Rightarrow> physical_request \<Rightarrow> guard_decision" where
  "check_request_exclusions G asset data r =
     (case data of
        None \<Rightarrow> evaluate_exclusions G None r
      | Some g \<Rightarrow> if gp_target g \<noteq> asset then Hold [] else evaluate_exclusions G data r)"

definition request_admitted ::
  "guard_env \<Rightarrow> string \<Rightarrow> guard_policy option \<Rightarrow> physical_request \<Rightarrow> bool" where
  "request_admitted G asset data r \<longleftrightarrow> check_request_exclusions G asset data r = Continue"

definition has_request_exclusions :: "guard_env \<Rightarrow> guard_policy option \<Rightarrow> bool" where
  "has_request_exclusions G data =
     (case data of None \<Rightarrow> False
      | Some g \<Rightarrow> \<not> policy_ok G g \<or> (\<exists>r\<in>set (gp_rules g). exclusion_applicability G r (gp_target g) \<noteq> Disjoint))"

end
