(* ===== verification/Http_Safety.thy ===== *)
theory Http_Safety
  imports Exclusion_Guard
begin

text \<open>
  \<open>src/src/aidast/core/http_safety.py\<close>: researcher identity headers, the headers that carry
  credentials and how they are redacted, and the short-lived capabilities that authorize one
  POST of a manual login.  SHA-256, HMAC, base64 and JSON are functions of \<open>crypto_env\<close>; what
  the theorems need of them is stated as hypotheses.  Headers are ASCII, so \<open>casefold\<close> is
  \<open>lower\<close>, and a header mapping is the list of its items.
\<close>

section \<open>Identity headers\<close>

definition dashed :: "string \<Rightarrow> string" where
  "dashed s = map (\<lambda>c. if c = CHR ''_'' then CHR ''-'' else c) (lower s)"

definition protected_identity_headers :: "string list" where
  "protected_identity_headers =
     [''host'', ''cookie'', ''set-cookie'', ''authorization'', ''proxy-authorization'',
      ''connection'', ''keep-alive'', ''proxy-connection'', ''transfer-encoding'',
      ''content-length'', ''te'', ''trailer'', ''upgrade'', ''expect'', ''proxy-authenticate'',
      ''www-authenticate'', ''forwarded'', ''x-forwarded-host'', ''x-forwarded-for'',
      ''x-forwarded-proto'', ''via'',
      ''api-key'', ''x-api-key'', ''apikey'', ''x-apikey'', ''authentication'',
      ''x-auth'', ''x-auth-token'', ''access-token'', ''x-access-token'',
      ''x-csrf-token'', ''x-xsrf-token'']"

definition identity_name_ok :: "string \<Rightarrow> bool" where
  "identity_name_ok n \<longleftrightarrow> length n \<le> 128 \<and> token_ok n
     \<and> dashed n \<notin> set protected_identity_headers \<and> \<not> starts_with (dashed n) ''x-aidast-''"

definition identity_value_ok :: "string \<Rightarrow> bool" where
  "identity_value_ok v \<longleftrightarrow> \<not> is_blank v \<and> length v \<le> 1024
     \<and> (\<forall>c\<in>set v. 32 \<le> (of_char c :: nat) \<and> (of_char c :: nat) \<noteq> 127)"

text \<open>\<open>validate_identity_headers\<close>: the mapping itself, or None for the exception.\<close>

fun identity_items :: "string list \<Rightarrow> (string \<times> string) list \<Rightarrow> (string \<times> string) list option" where
  "identity_items seen [] = Some []"
| "identity_items seen ((n, v) # hs) =
     (if \<not> identity_name_ok n \<or> lower n \<in> set seen \<or> \<not> identity_value_ok v then None
      else map_option ((#) (n, v)) (identity_items (lower n # seen) hs))"

definition validate_identity_headers :: "(string \<times> string) list \<Rightarrow> (string \<times> string) list option" where
  "validate_identity_headers hs = (if 32 < length hs then None else identity_items [] hs)"

definition handle_char :: "char \<Rightarrow> bool" where
  "handle_char c \<longleftrightarrow> is_alnum c \<or> c \<in> set ''._-''"

definition validate_platform_username :: "string \<Rightarrow> string option" where
  "validate_platform_username v =
     (let s = strip v
      in if s \<noteq> [] \<and> length s \<le> 64 \<and> is_alnum (hd s) \<and> list_all handle_char (tl s) then Some s else None)"

definition update_all :: "(string \<times> string) list \<Rightarrow> (string \<times> string) list \<Rightarrow> (string \<times> string) list" where
  "update_all d hs = foldl (\<lambda>d (n, v). dict_set d n v) d hs"

definition merge_hackerone_identity ::
  "(string \<times> string) list \<Rightarrow> string option \<Rightarrow> (string \<times> string) list \<Rightarrow> (string \<times> string) list option" where
  "merge_hackerone_identity headers username required_headers =
     (case validate_identity_headers required_headers of
        None \<Rightarrow> None
      | Some required \<Rightarrow>
          let controlled = ''x-hackerone'' # map (lower \<circ> fst) required;
              merged = filter (\<lambda>(n, v). lower n \<notin> set controlled) headers
          in case username of
               None \<Rightarrow> Some (update_all merged required)
             | Some u \<Rightarrow> if required \<noteq> [] then Some (update_all merged required)
                 else (case validate_platform_username u of
                         None \<Rightarrow> None
                       | Some s \<Rightarrow> Some (update_all (dict_set merged ''X-HackerOne'' s) required)))"

section \<open>Credentials\<close>

definition is_sensitive_header :: "string \<Rightarrow> bool" where
  "is_sensitive_header n \<longleftrightarrow>
     dashed n \<in> {''authorization'', ''proxy-authorization'', ''cookie'', ''set-cookie'',
       ''x-intigriti-username'', ''x-hackerone'', ''x-bug-bounty''}
     \<or> (\<exists>part\<in>set [''token'', ''secret'', ''api-key'', ''apikey'', ''capability'']. contains (dashed n) part)"

definition browser_has_authentication :: "(string \<times> string) list \<Rightarrow> (string \<times> string) list \<Rightarrow> bool" where
  "browser_has_authentication headers identity \<longleftrightarrow>
     (\<exists>(n, v)\<in>set headers. \<not> (dashed n \<in> set (map (lower \<circ> fst) identity) \<or> starts_with (dashed n) ''x-aidast-'')
        \<and> \<not> is_blank v
        \<and> (dashed n \<in> {''authorization'', ''proxy-authorization'', ''cookie''} \<or> is_sensitive_header (dashed n)))"

text \<open>\<open>re.sub(r"<intigriti:[^>]*>", "<intigriti:[REDACTED]>", s, flags=IGNORECASE)\<close>.\<close>

function redact_handle :: "string \<Rightarrow> string" where
  "redact_handle [] = []"
| "redact_handle (c # s) =
     (if lower (take 11 (c # s)) = ''<intigriti:''
      then (case partition_at (CHR ''>'') (drop 11 (c # s)) of
              (_, True, rest) \<Rightarrow> ''<intigriti:[REDACTED]>'' @ redact_handle rest
            | (_, False, _) \<Rightarrow> c # redact_handle s)
      else c # redact_handle s)"
  by pat_completeness auto

lemma partition_at_shorter: "partition_at c s = (a, True, b) \<Longrightarrow> length b < length s"
  by (induction s arbitrary: a) (auto split: if_splits prod.splits)

termination redact_handle
  by (relation "measure length") (auto dest!: partition_at_shorter [OF sym])

definition sanitize_headers :: "(string \<times> string) list \<Rightarrow> (string \<times> string) list \<Rightarrow> (string \<times> string) list" where
  "sanitize_headers headers identity =
     map (\<lambda>(n, v). (n,
       if is_sensitive_header n \<or> lower n \<in> set (map (lower \<circ> fst) identity) then ''[REDACTED]''
       else if dashed n = ''user-agent'' then redact_handle v else v)) headers"

section \<open>Request capabilities\<close>

record crypto_env =
  ce_net :: net_env
  ce_sha :: "string \<Rightarrow> string"
  ce_mac :: "string \<Rightarrow> string \<Rightarrow> string"
  ce_b64 :: "string \<Rightarrow> string"
  ce_unb64 :: "string \<Rightarrow> string option"
  ce_dumps :: "pyval \<Rightarrow> string"
  ce_loads :: "string \<Rightarrow> pyval option"
  ce_decimal :: "nat \<Rightarrow> string"

definition request_binding :: "crypto_env \<Rightarrow> string \<Rightarrow> string \<Rightarrow> string option" where
  "request_binding C m url =
     (case urlsplit (ce_net C) url of
        None \<Rightarrow> None
      | Some u \<Rightarrow>
          if u_scheme u \<notin> {''http'', ''https''} \<or> or_empty (u_hostname u) = [] then None
          else if or_empty (u_username u) \<noteq> [] \<or> or_empty (u_password u) \<noteq> [] then None
          else (case u_port u of
              None \<Rightarrow> None
            | Some q \<Rightarrow> Some (ce_sha C (upper m @ [CHR 0x0A] @ lower (u_scheme u) @ [CHR 0x0A]
                @ rstrip_by (\<lambda>c. c = CHR ''.'') (lower (or_empty (u_hostname u))) @ [CHR 0x0A]
                @ ce_decimal C (or_default_port q (u_scheme u)) @ [CHR 0x0A]
                @ (if u_path u = [] then ''/'' else u_path u) @ [CHR 0x0A] @ u_query u))))"

text \<open>\<open>issue_request_capability\<close>; \<open>secrets.token_urlsafe(18)\<close> is the argument \<open>nonce\<close>.\<close>

definition capability_payload :: "string \<Rightarrow> string \<Rightarrow> int \<Rightarrow> int \<Rightarrow> string \<Rightarrow> pyval" where
  "capability_payload m t issued ttl nonce =
     PDict [(''v'', PInt 1), (''m'', PStr (upper m)), (''t'', PStr t), (''iat'', PInt issued),
            (''exp'', PInt (issued + ttl)), (''n'', PStr nonce)]"

definition capability_token :: "crypto_env \<Rightarrow> string \<Rightarrow> pyval \<Rightarrow> string" where
  "capability_token C key payload =
     (let encoded = ce_b64 C (ce_dumps C payload)
      in encoded @ ''.'' @ ce_b64 C (ce_mac C key encoded))"

definition issue_request_capability ::
  "crypto_env \<Rightarrow> string \<Rightarrow> string \<Rightarrow> string \<Rightarrow> int \<Rightarrow> int \<Rightarrow> string \<Rightarrow> string option" where
  "issue_request_capability C key m url ttl now nonce =
     (if length key < 32 \<or> upper m \<noteq> ''POST'' \<or> \<not> (1 \<le> ttl \<and> ttl \<le> 60) then None
      else (case request_binding C m url of
              None \<Rightarrow> None
            | Some t \<Rightarrow> Some (capability_token C key (capability_payload m t now ttl nonce))))"

text \<open>\<open>payload["v"] == 1\<close>, which a true and a 1.0 satisfy as well.\<close>

definition equals_one :: "pyval \<Rightarrow> bool" where
  "equals_one v \<longleftrightarrow> v \<in> {PInt 1, PBool True, PFloat 1}"

text \<open>The payload a token carries under the right signature.\<close>

definition signed_payload :: "crypto_env \<Rightarrow> string \<Rightarrow> string \<Rightarrow> (string \<times> pyval) list option" where
  "signed_payload C key token =
     (case partition_at (CHR ''.'') token of
        (_, False, _) \<Rightarrow> None
      | (encoded, True, supplied) \<Rightarrow>
          if supplied \<noteq> ce_b64 C (ce_mac C key encoded) then None
          else (case ce_unb64 C encoded of
              None \<Rightarrow> None
            | Some raw \<Rightarrow> (case ce_loads C raw of
                Some (PDict d) \<Rightarrow> if set (map fst d) = {''v'', ''m'', ''t'', ''iat'', ''exp'', ''n''} then Some d else None
              | _ \<Rightarrow> None)))"

definition payload_valid ::
  "crypto_env \<Rightarrow> string \<Rightarrow> string \<Rightarrow> int \<Rightarrow> string set \<Rightarrow> int \<Rightarrow> (string \<times> pyval) list \<Rightarrow> string option" where
  "payload_valid C m url max_ttl used now d =
     (case (dict_get d ''iat'', dict_get d ''exp'', dict_get d ''n'') of
        (Some (PInt issued), Some (PInt expires), Some (PStr nonce)) \<Rightarrow>
          if (case dict_get d ''v'' of None \<Rightarrow> False | Some v \<Rightarrow> equals_one v)
             \<and> dict_get d ''m'' = Some (PStr (upper m)) \<and> upper m = ''POST''
             \<and> (case request_binding C m url of None \<Rightarrow> False | Some t \<Rightarrow> dict_get d ''t'' = Some (PStr t))
             \<and> 0 < expires - issued \<and> expires - issued \<le> max_ttl
             \<and> issued \<le> now \<and> now \<le> expires \<and> 16 \<le> length nonce \<and> nonce \<notin> used
          then Some nonce else None
      | _ \<Rightarrow> None)"

text \<open>The verdict, and the consumed nonces afterwards.\<close>

definition validate_request_capability ::
  "crypto_env \<Rightarrow> string \<Rightarrow> int \<Rightarrow> string \<Rightarrow> string \<Rightarrow> string \<Rightarrow> int \<Rightarrow> string set \<Rightarrow> bool \<times> string set" where
  "validate_request_capability C key max_ttl token m url now used =
     (case signed_payload C key token of
        None \<Rightarrow> (False, used)
      | Some d \<Rightarrow> (case payload_valid C m url max_ttl used now d of
                      None \<Rightarrow> (False, used)
                    | Some nonce \<Rightarrow> (True, insert nonce used)))"

section \<open>Identity headers and redaction\<close>

lemma fst_dict_set: "fst ` set (dict_set d n v) = insert n (fst ` set d)"
  by (rule keys_dict_set)

lemma identity_items_same: "identity_items seen hs = Some r \<Longrightarrow> r = hs"
  by (induction seen hs arbitrary: r rule: identity_items.induct) (auto split: if_splits)

lemma validate_identity_headers_same: "validate_identity_headers hs = Some r \<Longrightarrow> r = hs"
  by (auto simp: validate_identity_headers_def dest: identity_items_same split: if_splits)

lemma identity_items_distinct:
  "identity_items seen hs = Some r \<Longrightarrow> distinct (map (lower \<circ> fst) hs) \<and> set seen \<inter> set (map (lower \<circ> fst) hs) = {}"
  by (induction seen hs arbitrary: r rule: identity_items.induct) (auto split: if_splits)

lemma get_update_all:
  assumes "distinct (map fst hs)"
  shows "dict_get (update_all d hs) n = (case dict_get hs n of Some v \<Rightarrow> Some v | None \<Rightarrow> dict_get d n)"
  using assms
proof (induction hs arbitrary: d)
  case (Cons h hs)
  obtain a b where h: "h = (a, b)" by (cases h)
  have d: "distinct (map fst hs)" and a: "dict_get hs a = None"
    using Cons.prems by (simp_all add: h dict_get_def map_of_eq_None_iff)
  have "dict_get (update_all d (h # hs)) n = dict_get (update_all (dict_set d a b) hs) n"
    by (simp add: update_all_def h)
  also have "\<dots> = (case dict_get hs n of Some v \<Rightarrow> Some v | None \<Rightarrow> if n = a then Some b else dict_get d n)"
    by (simp only: Cons.IH [OF d] dict_get_set)
  also have "\<dots> = (case dict_get (h # hs) n of Some v \<Rightarrow> Some v | None \<Rightarrow> dict_get d n)"
    using a by (auto simp: h dict_get_def split: option.splits)
  finally show ?case .
qed (simp add: update_all_def dict_get_def)

lemma keys_update_all: "fst ` set (update_all d hs) = fst ` set d \<union> fst ` set hs"
proof (induction hs arbitrary: d)
  case (Cons h hs)
  obtain a b where "h = (a, b)" by (cases h)
  with Cons [of "dict_set d a b"] show ?case by (auto simp: update_all_def keys_dict_set)
qed (simp add: update_all_def)

lemma distinct_update_all: "distinct (map fst d) \<Longrightarrow> distinct (map fst (update_all d hs))"
proof (induction hs arbitrary: d)
  case (Cons h hs)
  obtain a b where "h = (a, b)" by (cases h)
  with Cons show ?case by (simp add: update_all_def distinct_dict_set)
qed (simp add: update_all_def)

text \<open>
  The researcher identity wins over whatever the caller sent.  After
  \<open>merge_hackerone_identity\<close> with required headers, every required header has exactly the
  required value, no other spelling of its name is left, the other headers of the caller keep
  their values, and \<open>X-HackerOne\<close> in any spelling is only there when it is required.
\<close>

theorem required_identity_wins:
  assumes "merge_hackerone_identity headers username required = Some merged" and "required \<noteq> []"
    and "distinct (map fst headers)"
  shows "(\<forall>n v. dict_get required n = Some v \<longrightarrow> dict_get merged n = Some v)
    \<and> (\<forall>n\<in>set (map fst merged). lower n \<in> set (map (lower \<circ> fst) required) \<longrightarrow> n \<in> set (map fst required))
    \<and> (\<forall>n. lower n \<notin> set (''x-hackerone'' # map (lower \<circ> fst) required) \<longrightarrow> dict_get merged n = dict_get headers n)
    \<and> (\<forall>n\<in>set (map fst merged). lower n = ''x-hackerone'' \<longrightarrow> n \<in> set (map fst required))"
proof -
  have v: "validate_identity_headers required = Some required"
    using assms(1) validate_identity_headers_same by (auto simp: merge_hackerone_identity_def split: option.splits)
  let ?c = "''x-hackerone'' # map (lower \<circ> fst) required"
  let ?f = "filter (\<lambda>(n, v). lower n \<notin> set ?c) headers"
  have m: "merged = update_all ?f required"
    using assms(1,2) by (auto simp: merge_hackerone_identity_def v Let_def split: option.splits)
  have "distinct (map (lower \<circ> fst) required)"
    using v identity_items_distinct by (auto simp: validate_identity_headers_def split: if_splits)
  then have d: "distinct (map fst required)" by (metis distinct_map map_map)
  have keys: "set (map fst merged) = fst ` set ?f \<union> fst ` set required"
    unfolding m by (simp add: keys_update_all)
  have get: "dict_get merged n = (case dict_get required n of Some v \<Rightarrow> Some v | None \<Rightarrow> dict_get ?f n)" for n
    unfolding m by (rule get_update_all [OF d])
  have "dict_get merged n = dict_get headers n" if n: "lower n \<notin> set ?c" for n
  proof -
    have "dict_get required n = None" using n by (force simp: dict_get_def map_of_eq_None_iff)
    moreover have "dict_get (filter (\<lambda>(n, v). lower n \<notin> C) hs) n = dict_get hs n" if "lower n \<notin> C" for C hs
      using that by (induction hs) (auto simp: dict_get_def)
    then have "dict_get ?f n = dict_get headers n" using n by blast
    ultimately show ?thesis by (simp add: get)
  qed
  moreover have "n \<in> set (map fst required)" if "n \<in> set (map fst merged)" "lower n \<in> set ?c" for n
  proof -
    have "fst ` set (filter (\<lambda>(n, v). lower n \<notin> C) headers) \<inter> {n. lower n \<in> C} = {}" for C by auto
    then have "n \<notin> fst ` set ?f" using that(2) by blast
    with that(1) keys show ?thesis by simp
  qed
  moreover have "\<forall>n v. dict_get required n = Some v \<longrightarrow> dict_get merged n = Some v" by (simp add: get)
  ultimately show ?thesis by simp
qed

text \<open>
  Sanitized headers carry no credential.  \<open>sanitize_headers\<close> keeps the header names in
  their order, and a header whose name is sensitive or is an identity header of the policy, in
  any spelling, is stored with the value \<open>[REDACTED]\<close>.
\<close>

theorem sanitized_headers_hide_credentials:
  "map fst (sanitize_headers hs ids) = map fst hs
   \<and> filter (\<lambda>(n, v). (is_sensitive_header n \<or> lower n \<in> set (map (lower \<circ> fst) ids)) \<and> v \<noteq> ''[REDACTED]'')
       (sanitize_headers hs ids) = []"
proof -
  obtain I where I: "I = set (map (lower \<circ> fst) ids)" by blast
  show ?thesis unfolding sanitize_headers_def I [symmetric] by (auto simp: filter_empty_conv)
qed

text \<open>
  Two credential headers of the module's own list are not treated as credentials: a header
  \<open>X-Auth\<close> or \<open>Authentication\<close> is refused as an identity header because it carries credentials,
  but \<open>sanitize_headers\<close> stores its value as it is, and \<open>is_sensitive_header\<close> does not drop it.
\<close>

theorem some_credential_headers_stay_readable:
  "\<not> identity_name_ok ''X-Auth'' \<and> \<not> identity_name_ok ''Authentication''
   \<and> \<not> is_sensitive_header ''X-Auth'' \<and> \<not> is_sensitive_header ''Authentication''
   \<and> sanitize_headers [(''X-Auth'', v), (''Authentication'', w)] [] = [(''X-Auth'', v), (''Authentication'', w)]"
  by (simp add: identity_name_ok_def protected_identity_headers_def dashed_def is_sensitive_header_def
      sanitize_headers_def str_eval)

section \<open>Capabilities are bound and single-use\<close>

lemma accepted_capability:
  assumes "validate_request_capability C key max_ttl token m url now used = (True, used')"
  shows "\<exists>d nonce issued expires. signed_payload C key token = Some d \<and> dict_get d ''n'' = Some (PStr nonce)
    \<and> nonce \<notin> used \<and> used' = insert nonce used \<and> upper m = ''POST''
    \<and> dict_get d ''t'' = map_option PStr (request_binding C m url)
    \<and> dict_get d ''iat'' = Some (PInt issued) \<and> dict_get d ''exp'' = Some (PInt expires)
    \<and> issued \<le> now \<and> now \<le> expires \<and> expires - issued \<le> max_ttl"
  using assms by (auto simp: validate_request_capability_def payload_valid_def
      split: option.splits if_splits pyval.splits)

lemma used_nonce_is_refused:
  assumes "signed_payload C key token = Some d" and "dict_get d ''n'' = Some (PStr nonce)" and "nonce \<in> used"
  shows "validate_request_capability C key max_ttl token m url now used = (False, used)"
  using assms by (auto simp: validate_request_capability_def payload_valid_def
      split: option.splits if_splits pyval.splits)

lemma validation_keeps_used: "used \<subseteq> snd (validate_request_capability C key max_ttl token m url now used)"
  by (auto simp: validate_request_capability_def split: option.splits)

text \<open>The proxy validates one capability after the other against the same set of consumed nonces.\<close>

type_synonym capability_request = "string \<times> string \<times> string \<times> int"

fun capability_verdicts ::
  "crypto_env \<Rightarrow> string \<Rightarrow> int \<Rightarrow> capability_request list \<Rightarrow> string set \<Rightarrow> bool list" where
  "capability_verdicts C key max_ttl [] used = []"
| "capability_verdicts C key max_ttl ((token, m, url, now) # rs) used =
     (case validate_request_capability C key max_ttl token m url now used of
        (ok, used') \<Rightarrow> ok # capability_verdicts C key max_ttl rs used')"

lemma length_capability_verdicts [simp]: "length (capability_verdicts C key max_ttl rs used) = length rs"
  by (induction rs arbitrary: used) (auto split: prod.splits)

lemma spent_capability_never_accepted:
  assumes "signed_payload C key token = Some d" and "dict_get d ''n'' = Some (PStr nonce)" and "nonce \<in> used"
    and "j < length rs" and "fst (rs ! j) = token"
  shows "\<not> capability_verdicts C key max_ttl rs used ! j"
  using assms(3-)
proof (induction rs arbitrary: used j)
  case (Cons r rs)
  obtain tok m url now where r: "r = (tok, m, url, now)" by (cases r)
  obtain ok used' where v: "validate_request_capability C key max_ttl tok m url now used = (ok, used')" by fastforce
  show ?case
  proof (cases j)
    case 0
    with Cons.prems r v used_nonce_is_refused [OF assms(1,2) Cons.prems(1)] show ?thesis by simp
  next
    case (Suc i)
    have "nonce \<in> used'" using validation_keeps_used [of used C key max_ttl tok m url now] v Cons.prems(1) by auto
    from Cons.IH [OF this] Suc Cons.prems r v show ?thesis by simp
  qed
qed simp

text \<open>
  C12: a capability authorizes one request.  In any sequence of validations against the same set
  of consumed nonces, an accepted request is a POST, and no later request with the same token is
  accepted, whatever its target and time.
\<close>

theorem capability_is_single_use:
  assumes "capability_verdicts C key max_ttl rs used ! i" and "i < length rs"
  shows "upper (fst (snd (rs ! i))) = ''POST''
    \<and> (\<forall>j. i < j \<and> j < length rs \<and> fst (rs ! j) = fst (rs ! i) \<longrightarrow> \<not> capability_verdicts C key max_ttl rs used ! j)"
  using assms
proof (induction rs arbitrary: used i)
  case (Cons r rs)
  obtain tok m url now where r: "r = (tok, m, url, now)" by (cases r)
  obtain ok used' where v: "validate_request_capability C key max_ttl tok m url now used = (ok, used')" by fastforce
  show ?case
  proof (cases i)
    case 0
    with Cons.prems r v have "ok" by simp
    with v have "validate_request_capability C key max_ttl tok m url now used = (True, used')" by simp
    from accepted_capability [OF this] obtain d nonce where d: "signed_payload C key tok = Some d" "dict_get d ''n'' = Some (PStr nonce)"
      "used' = insert nonce used" "upper m = ''POST''"
      by blast
    have "\<not> capability_verdicts C key max_ttl (r # rs) used ! j"
      if "i < j" "j < length (r # rs)" "fst ((r # rs) ! j) = fst ((r # rs) ! i)" for j
      using spent_capability_never_accepted [OF d(1,2), of used' "j - 1" rs] d(3) that 0 r v by (cases j) auto
    moreover have "upper (fst (snd ((r # rs) ! i))) = ''POST''" using 0 d(4) r by simp
    ultimately show ?thesis by blast
  next
    case (Suc k)
    with Cons.prems r v have k: "capability_verdicts C key max_ttl rs used' ! k" "k < length rs" by simp_all
    have "\<not> capability_verdicts C key max_ttl (r # rs) used ! j"
      if "i < j" "j < length (r # rs)" "fst ((r # rs) ! j) = fst ((r # rs) ! i)" for j
      using Cons.IH [OF k] that r v Suc by (cases j) auto
    moreover have "upper (fst (snd ((r # rs) ! i))) = ''POST''" using Cons.IH [OF k] Suc by simp
    ultimately show ?thesis by blast
  qed
qed simp

lemma signed_issued:
  assumes "\<forall>x. ce_unb64 C (ce_b64 C x) = Some x \<and> CHR ''.'' \<notin> set (ce_b64 C x)"
    and "ce_loads C (ce_dumps C (capability_payload m b now ttl nonce)) = Some (capability_payload m b now ttl nonce)"
  shows "signed_payload C key (capability_token C key (capability_payload m b now ttl nonce))
    = Some [(''v'', PInt 1), (''m'', PStr (upper m)), (''t'', PStr b),
        (''iat'', PInt now), (''exp'', PInt (now + ttl)), (''n'', PStr nonce)]"
proof -
  let ?p = "capability_payload m b now ttl nonce"
  let ?e = "ce_b64 C (ce_dumps C ?p)"
  have "partition_at (CHR ''.'') (capability_token C key ?p) = (?e, True, ce_b64 C (ce_mac C key ?e))"
    using assms(1) partition_at_append [of "CHR ''.''" ?e] by (simp add: capability_token_def Let_def)
  then show ?thesis using assms by (simp add: signed_payload_def) (simp add: capability_payload_def insert_commute)
qed

text \<open>
  C34: what the manual login flow issues, the proxy accepts once.  When base64 and JSON decode
  what they encode, a token from \<open>issue_request_capability\<close> with a fresh nonce of at least 16
  characters is accepted for the same method and URL up to its expiry, by a proxy whose limit
  admits its lifetime, and that use consumes it: the same token is refused afterwards.
\<close>

theorem issued_capability_validates_once:
  assumes "issue_request_capability C key m url ttl now nonce = Some token"
    and "\<forall>x. ce_unb64 C (ce_b64 C x) = Some x \<and> CHR ''.'' \<notin> set (ce_b64 C x)"
    and "\<forall>b. ce_loads C (ce_dumps C (capability_payload m b now ttl nonce)) = Some (capability_payload m b now ttl nonce)"
    and "16 \<le> length nonce" and "nonce \<notin> used" and "ttl \<le> max_ttl" and "now \<le> t" and "t \<le> now + ttl"
  shows "validate_request_capability C key max_ttl token m url t used = (True, insert nonce used)
    \<and> \<not> fst (validate_request_capability C key max_ttl token m' url' t' (insert nonce used))"
proof -
  obtain b where b: "request_binding C m url = Some b" "upper m = ''POST''" "1 \<le> ttl"
    and tok: "token = capability_token C key (capability_payload m b now ttl nonce)"
    using assms(1) by (auto simp: issue_request_capability_def split: if_splits option.splits)
  have s: "signed_payload C key token = Some [(''v'', PInt 1), (''m'', PStr (upper m)), (''t'', PStr b),
      (''iat'', PInt now), (''exp'', PInt (now + ttl)), (''n'', PStr nonce)]"
    unfolding tok by (rule signed_issued [OF assms(2)]) (use assms(3) in blast)
  have "validate_request_capability C key max_ttl token m url t used = (True, insert nonce used)"
    using s b assms(4-8) by (simp add: validate_request_capability_def payload_valid_def dict_get_def equals_one_def)
  moreover have "validate_request_capability C key max_ttl token m' url' t' (insert nonce used)
      = (False, insert nonce used)"
    by (rule used_nonce_is_refused [OF s]) (auto simp add: dict_get_def)
  ultimately show ?thesis by simp
qed

section \<open>Examples\<close>

text \<open>A reversible encoding without dots, in the place of base64.\<close>

fun pair_up :: "string \<Rightarrow> string" where
  "pair_up [] = []"
| "pair_up (c # s) = (if c = CHR ''.'' then ''ad'' else [CHR ''b'', c]) @ pair_up s"

fun unpair :: "string \<Rightarrow> string option" where
  "unpair [] = Some []"
| "unpair (f # c # s) = map_option ((#) (if f = CHR ''a'' then CHR ''.'' else c)) (unpair s)"
| "unpair [c] = None"

lemma unpair_pair_up: "unpair (pair_up s) = Some s \<and> CHR ''.'' \<notin> set (pair_up s)"
  by (induction s) auto

definition sample_crypto :: crypto_env where
  "sample_crypto = \<lparr>ce_net = plain_env, ce_sha = (\<lambda>s. ''digest''), ce_mac = (\<lambda>k s. k @ s), ce_b64 = pair_up,
     ce_unb64 = unpair, ce_dumps = (\<lambda>v. case v of PDict d \<Rightarrow> (case dict_get d ''t'' of Some (PStr b) \<Rightarrow> b | _ \<Rightarrow> []) | _ \<Rightarrow> []),
     ce_loads = (\<lambda>s. Some (capability_payload ''POST'' s 100 20 (replicate 24 (CHR ''n'')))),
     ce_decimal = (\<lambda>n. ''443'')\<rparr>"

lemma sample_binding: "request_binding sample_crypto ''POST'' ''https://a.co/login'' = Some ''digest''"
  by (simp add: request_binding_def sample_crypto_def plain_env_def str_eval)

lemma sample_token: "issue_request_capability sample_crypto (replicate 32 (CHR ''k'')) ''POST'' ''https://a.co/login'' 20 100 (replicate 24 (CHR ''n''))
    = Some (capability_token sample_crypto (replicate 32 (CHR ''k'')) (capability_payload ''POST'' ''digest'' 100 20 (replicate 24 (CHR ''n''))))"
  by (simp add: issue_request_capability_def sample_binding str_eval)

lemma sample_codec:
  "\<forall>x. ce_unb64 sample_crypto (ce_b64 sample_crypto x) = Some x \<and> CHR ''.'' \<notin> set (ce_b64 sample_crypto x)"
  using unpair_pair_up by (simp add: sample_crypto_def)

lemma sample_json:
  "\<forall>b. ce_loads sample_crypto (ce_dumps sample_crypto (capability_payload ''POST'' b 100 20 (replicate 24 (CHR ''n''))))
     = Some (capability_payload ''POST'' b 100 20 (replicate 24 (CHR ''n'')))"
  by (simp add: sample_crypto_def capability_payload_def dict_get_def)

lemma issued_capability_validates_once_witness:
  "validate_request_capability sample_crypto (replicate 32 (CHR ''k'')) 60
     (capability_token sample_crypto (replicate 32 (CHR ''k'')) (capability_payload ''POST'' ''digest'' 100 20 (replicate 24 (CHR ''n''))))
     ''POST'' ''https://a.co/login'' 110 {} = (True, {replicate 24 (CHR ''n'')})"
  using issued_capability_validates_once [OF sample_token sample_codec sample_json, where used = "{}" and max_ttl = 60 and t = 110]
  by simp

lemma sample_verdicts:
  "capability_verdicts sample_crypto (replicate 32 (CHR ''k'')) 60
     [(capability_token sample_crypto (replicate 32 (CHR ''k'')) (capability_payload ''POST'' ''digest'' 100 20 (replicate 24 (CHR ''n''))),
       ''POST'', ''https://a.co/login'', 110),
      (capability_token sample_crypto (replicate 32 (CHR ''k'')) (capability_payload ''POST'' ''digest'' 100 20 (replicate 24 (CHR ''n''))),
       ''POST'', ''https://a.co/login'', 111)] {} ! 0"
proof -
  let ?k = "replicate 32 (CHR ''k'')" and ?n = "replicate 24 (CHR ''n'')"
  let ?t = "capability_token sample_crypto ?k (capability_payload ''POST'' ''digest'' 100 20 ?n)"
  have "signed_payload sample_crypto ?k ?t = Some [(''v'', PInt 1), (''m'', PStr (upper ''POST'')), (''t'', PStr ''digest''),
      (''iat'', PInt 100), (''exp'', PInt (100 + 20)), (''n'', PStr ?n)]"
    by (rule signed_issued [OF sample_codec]) (use sample_json in blast)
  then have "validate_request_capability sample_crypto ?k 60 ?t ''POST'' ''https://a.co/login'' 110 {} = (True, {?n})"
    by (simp add: validate_request_capability_def payload_valid_def dict_get_def equals_one_def sample_binding str_eval)
  then show ?thesis by simp
qed

lemma capability_is_single_use_witness:
  "upper ''POST'' = ''POST'' \<and> \<not> capability_verdicts sample_crypto (replicate 32 (CHR ''k'')) 60
     [(capability_token sample_crypto (replicate 32 (CHR ''k'')) (capability_payload ''POST'' ''digest'' 100 20 (replicate 24 (CHR ''n''))),
       ''POST'', ''https://a.co/login'', 110),
      (capability_token sample_crypto (replicate 32 (CHR ''k'')) (capability_payload ''POST'' ''digest'' 100 20 (replicate 24 (CHR ''n''))),
       ''POST'', ''https://a.co/login'', 111)] {} ! 1"
  using capability_is_single_use [OF sample_verdicts] by simp

lemma required_identity_wins_witness:
  "merge_hackerone_identity [(''x-bug'', ''mine''), (''A'', ''b'')] (Some ''bob'') [(''X-Bug'', ''h'')] = Some [(''A'', ''b''), (''X-Bug'', ''h'')]
   \<and> dict_get [(''A'', ''b''), (''X-Bug'', ''h'')] ''X-Bug'' = Some ''h''"
proof -
  have m: "merge_hackerone_identity [(''x-bug'', ''mine''), (''A'', ''b'')] (Some ''bob'') [(''X-Bug'', ''h'')] = Some [(''A'', ''b''), (''X-Bug'', ''h'')]"
    by (simp add: merge_hackerone_identity_def validate_identity_headers_def identity_name_ok_def identity_value_ok_def
        token_ok_def is_token_char_def dashed_def protected_identity_headers_def is_blank_iff update_all_def str_eval)
  from required_identity_wins [OF m] have "dict_get [(''A'', ''b''), (''X-Bug'', ''h'')] ''X-Bug'' = Some ''h''"
    by (simp add: dict_get_def)
  with m show ?thesis by simp
qed

end
