(* ===== verification/Exclusion_Soundness.thy ===== *)
theory Exclusion_Soundness
  imports Exclusion_Guard
begin

text \<open>
  What the exclusion guard guarantees: its three-valued conditions are sound for every way the
  unknown predicates might turn out, and its static test of disjoint assets never drops a rule
  that could concern a request.
\<close>

section \<open>Two-valued conditions\<close>

text \<open>What a condition means once every predicate has a truth value.\<close>

fun holds :: "(ex_pred \<Rightarrow> bool) \<Rightarrow> ex_expr \<Rightarrow> bool" where
  "holds t (EPred p) = t p"
| "holds t (ENot e) = (\<not> holds t e)"
| "holds t (EAll es) = list_all (holds t) es"
| "holds t (EAny es) = list_ex (holds t) es"

definition refines :: "(ex_pred \<Rightarrow> bool) \<Rightarrow> (ex_pred \<Rightarrow> bool option) \<Rightarrow> bool" where
  "refines t v \<longleftrightarrow> (\<forall>p b. v p = Some b \<longrightarrow> t p = b)"

lemma expression_value_sound:
  assumes "refines t v" and "expression_value v e = Some b"
  shows "holds t e = b"
  using assms(2)
proof (induction e arbitrary: b)
  case (EPred p)
  then show ?case using assms(1) by (simp add: refines_def)
next
  case (EAll es)
  show ?case
  proof (cases "Some False \<in> expression_value v ` set es")
    case True
    then obtain e where "e \<in> set es" "expression_value v e = Some False" by force
    with EAll True show ?thesis by (auto simp: list_all_iff Let_def)
  next
    case False
    with EAll.prems have b: "b" and known: "None \<notin> expression_value v ` set es"
      by (auto simp: Let_def split: if_splits)
    have "holds t e" if e: "e \<in> set es" for e
    proof -
      have "expression_value v e \<noteq> Some False" "expression_value v e \<noteq> None"
        using e False known by force+
      then have "expression_value v e = Some True" by (cases "expression_value v e") auto
      from EAll.IH [OF e this] show ?thesis by simp
    qed
    with b show ?thesis by (simp add: list_all_iff)
  qed
next
  case (EAny es)
  show ?case
  proof (cases "Some True \<in> expression_value v ` set es")
    case True
    then obtain e where "e \<in> set es" "expression_value v e = Some True" by force
    with EAny True show ?thesis by (auto simp: list_ex_iff Let_def)
  next
    case False
    with EAny.prems have b: "\<not> b" and known: "None \<notin> expression_value v ` set es"
      by (auto simp: Let_def split: if_splits)
    have "\<not> holds t e" if e: "e \<in> set es" for e
    proof -
      have "expression_value v e \<noteq> Some True" "expression_value v e \<noteq> None"
        using e False known by force+
      then have "expression_value v e = Some False" by (cases "expression_value v e") auto
      from EAny.IH [OF e this] show ?thesis by simp
    qed
    with b show ?thesis by (simp add: list_ex_iff)
  qed
next
  case (ENot e)
  then show ?case by auto
qed

section \<open>Envelopes\<close>

lemma path_contains_alt:
  "path_contains c m \<longleftrightarrow> (let l = rstrip_by (\<lambda>x. x = CHR ''/'') c in l = [] \<or> (\<exists>w. m = l @ w \<and> (w = [] \<or> hd w = CHR ''/'')))"
proof -
  have "m = l \<or> starts_with m (l @ ''/'') \<longleftrightarrow> (\<exists>w. m = l @ w \<and> (w = [] \<or> hd w = CHR ''/''))" for l
  proof
    assume "m = l \<or> starts_with m (l @ ''/'')"
    then show "\<exists>w. m = l @ w \<and> (w = [] \<or> hd w = CHR ''/'')" by (auto simp: starts_with_iff)
  next
    assume "\<exists>w. m = l @ w \<and> (w = [] \<or> hd w = CHR ''/'')"
    then obtain w where w: "m = l @ w" "w = [] \<or> hd w = CHR ''/''" by blast
    then show "m = l \<or> starts_with m (l @ ''/'')"
      by (cases w) (auto simp: starts_with_iff)
  qed
  then show ?thesis unfolding path_contains_def Let_def by (simp only:)
qed

lemma stripped_tail: "\<exists>t. s = rstrip_by (\<lambda>x. x = CHR ''/'') s @ t \<and> (t = [] \<or> hd t = CHR ''/'')"
proof -
  obtain t where t: "s = rstrip_by (\<lambda>x. x = CHR ''/'') s @ t" "\<forall>c\<in>set t. c = CHR ''/''"
    using rstrip_by_split by blast
  have "t = [] \<or> hd t = CHR ''/''" using t(2) by (cases t) simp_all
  with t(1) show ?thesis by blast
qed

lemma path_contains_one_way:
  assumes "rstrip_by (\<lambda>x. x = CHR ''/'') r = rstrip_by (\<lambda>x. x = CHR ''/'') l @ w"
    and "w = [] \<or> hd w = CHR ''/''"
  shows "path_contains l r"
proof -
  let ?s = "rstrip_by (\<lambda>x. x = CHR ''/'')"
  obtain t where t: "r = ?s r @ t" "t = [] \<or> hd t = CHR ''/''" using stripped_tail by blast
  have r: "r = ?s l @ (w @ t)" using t(1) unfolding assms(1) append_assoc .
  have "w @ t = [] \<or> hd (w @ t) = CHR ''/''"
    using assms(2) t(2) by (cases w) auto
  with r have "\<exists>u. r = ?s l @ u \<and> (u = [] \<or> hd u = CHR ''/'')" by blast
  then show ?thesis unfolding path_contains_alt Let_def by (rule disjI2)
qed

lemma path_contains_common:
  assumes "path_contains l p" and "path_contains r p"
  shows "path_contains l r \<or> path_contains r l"
proof -
  let ?s = "rstrip_by (\<lambda>x. x = CHR ''/'')"
  show ?thesis
  proof (cases "?s l = [] \<or> ?s r = []")
    case True
    then show ?thesis by (auto simp: path_contains_def)
  next
    case False
    with assms obtain u v where u: "p = ?s l @ u" "u = [] \<or> hd u = CHR ''/''"
      and v: "p = ?s r @ v" "v = [] \<or> hd v = CHR ''/''"
      unfolding path_contains_alt Let_def by blast
    from u(1) v(1) have "?s l @ u = ?s r @ v" by simp
    then consider (a) w where "?s l = ?s r @ w" "w @ u = v" | (b) w where "?s l @ w = ?s r" "u = w @ v"
      by (auto simp: append_eq_append_conv2)
    then show ?thesis
    proof cases
      case a
      then have "w = [] \<or> hd w = CHR ''/''" using v(2) by (cases w) auto
      with a(1) path_contains_one_way show ?thesis by blast
    next
      case b
      then have "w = [] \<or> hd w = CHR ''/''" using u(2) by (cases w) auto
      with b(1) [symmetric] path_contains_one_way show ?thesis by blast
    qed
  qed
qed

lemma dotted_tail:
  assumes "a @ ''.'' @ l = b @ ''.'' @ r" and "length b < length a"
  shows "ends_with r (''.'' @ l)"
proof -
  obtain w where w: "a = b @ w" "w @ ''.'' @ l = ''.'' @ r"
    using assms by (auto simp: append_eq_append_conv_if) (metis append_eq_conv_conj less_imp_le_nat)
  with assms(2) obtain v where "w = CHR ''.'' # v" by (cases w) auto
  with w(2) have "r = v @ ''.'' @ l" by simp
  then show ?thesis unfolding ends_with_iff by blast
qed

lemma suffix_common:
  assumes "ends_with h (''.'' @ l)" and "ends_with h (''.'' @ r)"
  shows "l = r \<or> ends_with l (''.'' @ r) \<or> ends_with r (''.'' @ l)"
proof -
  obtain a b where e: "a @ ''.'' @ l = b @ ''.'' @ r" using assms unfolding ends_with_iff by metis
  consider "length a = length b" | "length b < length a" | "length a < length b" by linarith
  then show ?thesis
  proof cases
    case 1
    then show ?thesis using e by simp
  next
    case 2
    then show ?thesis using dotted_tail [OF e] by blast
  next
    case 3
    then show ?thesis using dotted_tail [OF e [symmetric]] by blast
  qed
qed

lemma host_contains_common:
  assumes "host_contains l lw h hw" and "host_contains r rw h hw"
  shows "host_contains l lw r rw \<or> host_contains r rw l lw"
  using assms suffix_common [of h l r] by (auto simp: host_contains_def split: if_splits)

text \<open>Two envelopes with a common member intersect.\<close>

lemma common_member_intersects:
  assumes "asset_contains b q" and "asset_contains s q"
  shows "assets_intersect s b"
proof -
  have h: "host_contains (ev_host s) (ev_wild s) (ev_host q) (ev_wild q)"
      "host_contains (ev_host b) (ev_wild b) (ev_host q) (ev_wild q)"
    and p: "path_contains (ev_path s) (ev_path q)" "path_contains (ev_path b) (ev_path q)"
    using assms by (simp_all add: asset_contains_def)
  have "\<not> (ev_scheme s \<noteq> None \<and> ev_scheme b \<noteq> None \<and> ev_scheme s \<noteq> ev_scheme b)"
    "\<not> (ev_port s \<noteq> None \<and> ev_port b \<noteq> None \<and> ev_port s \<noteq> ev_port b)"
    using assms by (auto simp: asset_contains_def)
  then show ?thesis
    using host_contains_common [OF h] path_contains_common [OF p] unfolding assets_intersect_def by blast
qed

lemma scan_disjoint:
  assumes "scan_assets G sel overlap as = Disjoint"
  shows "\<not> overlap \<and> (\<forall>a\<in>set as. \<exists>s b. sel = Some s \<and> asset_envelope G a = Some b
    \<and> \<not> asset_contains b s \<and> \<not> assets_intersect s b)"
  using assms
proof (induction as arbitrary: overlap)
  case (Cons a as)
  then show ?case by (auto split: option.splits if_splits)
qed (auto split: if_splits)

section \<open>Decisions\<close>

text \<open>What the guard knows of the predicates of a rule, for a request it can read.\<close>

definition valuation :: "guard_env \<Rightarrow> guard_policy \<Rightarrow> physical_request \<Rightarrow> string \<Rightarrow> ex_pred \<Rightarrow> bool option" where
  "valuation G g r rule =
     (case (guard_url G (pq_url r), guard_method (pq_method r), guard_headers (pq_headers r)) of
        (Some o', Some m, Some hs) \<Rightarrow>
          predicate_value G g r o' m hs
            (if pq_body_available r then Some (or_empty (pq_body r)) else None)
            (if pq_body_available r \<and> pq_identity_available r
             then Some (ge_fingerprint G o' m hs (or_empty (pq_body r)) (pq_context r)) else None) rule
      | _ \<Rightarrow> \<lambda>p. None)"

text \<open>A rule concerns a request unless its assets are shown to be disjoint from it.\<close>

definition concerns :: "guard_env \<Rightarrow> guard_policy \<Rightarrow> physical_request \<Rightarrow> ex_rule \<Rightarrow> bool" where
  "concerns G g r x \<longleftrightarrow> (case exclusion_applicability G x (gp_target g) of
     Applies \<Rightarrow> True | Disjoint \<Rightarrow> False | Overlap \<Rightarrow> request_applicability G x (pq_url r) \<noteq> Disjoint)"

lemma evaluate_cases:
  assumes "evaluate_exclusions G (Some g) r = d" and "policy_ok G g" and "applicable_rules G g \<noteq> []"
  shows "d = Hold [] \<or> (let says = rule_says G (pq_url r) (valuation G g r);
      keys = (\<lambda>w. map (\<lambda>ra. xr_key (fst ra)) (filter (\<lambda>ra. says ra = w) (applicable_rules G g)))
    in d = (if keys Denied \<noteq> [] then Deny (keys Denied) else if keys Held \<noteq> [] then Hold (keys Held) else Continue))"
  using assms unfolding evaluate_exclusions_def valuation_def
  by (auto simp: Let_def split: option.splits)

lemma rule_says_sound:
  assumes "refines t (v (xr_key x))"
  shows "rule_says G url v (x, a) = Denied \<Longrightarrow> holds t (xr_condition x)"
    and "rule_says G url v (x, a) = Silent \<Longrightarrow> a \<noteq> Disjoint
      \<Longrightarrow> a = Overlap \<and> request_applicability G x url = Disjoint \<or> \<not> holds t (xr_condition x)"
  using expression_value_sound [OF assms]
  by (auto simp: rule_says_def Let_def split: if_splits option.splits bool.splits)

lemma denied_concerns:
  "rule_says G (pq_url r) v (x, exclusion_applicability G x (gp_target g)) = Denied \<Longrightarrow> concerns G g r x"
  by (auto simp: rule_says_def concerns_def Let_def split: if_splits applicability.splits)

lemma applicable_iff: "(x, a) \<in> set (applicable_rules G g)
    \<longleftrightarrow> x \<in> set (gp_rules g) \<and> a = exclusion_applicability G x (gp_target g) \<and> a \<noteq> Disjoint"
  by (auto simp: applicable_rules_def)

lemma continue_silences:
  assumes "evaluate_exclusions G (Some g) r = Continue" and "x \<in> set (gp_rules g)" and "concerns G g r x"
    and "refines t (valuation G g r (xr_key x))"
  shows "policy_ok G g \<and> \<not> holds t (xr_condition x)"
proof -
  let ?a = "exclusion_applicability G x (gp_target g)"
  have ok: "policy_ok G g" using assms(1) by (auto simp: evaluate_exclusions_def split: if_splits)
  have nd: "?a \<noteq> Disjoint" using assms(3) by (auto simp: concerns_def)
  with assms(2) have mem: "(x, ?a) \<in> set (applicable_rules G g)" by (simp add: applicable_iff)
  then have "applicable_rules G g \<noteq> []" by auto
  from evaluate_cases [OF assms(1) ok this]
  have "rule_says G (pq_url r) (valuation G g r) (x, ?a) \<noteq> Denied"
    "rule_says G (pq_url r) (valuation G g r) (x, ?a) \<noteq> Held"
    using mem by (auto simp: Let_def filter_empty_conv split: if_splits)
  then have "rule_says G (pq_url r) (valuation G g r) (x, ?a) = Silent"
    by (cases "rule_says G (pq_url r) (valuation G g r) (x, ?a)") auto
  from rule_says_sound(2) [OF assms(4) this nd] assms(3)
  have "\<not> holds t (xr_condition x)" by (auto simp: concerns_def)
  with ok show ?thesis by simp
qed

text \<open>
  C9: admission is sound.  When \<open>evaluate_exclusions\<close> answers continue under a guard snapshot,
  the snapshot validated, and no rule that concerns the request can be true: for every way the
  predicates the guard could not evaluate might turn out, the condition of the rule is false.
\<close>

theorem continue_excludes_every_rule:
  assumes "evaluate_exclusions G (Some g) r = Continue" and "x \<in> set (gp_rules g)" and "concerns G g r x"
    and "refines t (valuation G g r (xr_key x))"
  shows "policy_ok G g \<and> \<not> holds t (xr_condition x)"
  using assms by (rule continue_silences)

text \<open>
  A denial is never a guess.  When the guard denies a request it names at least one rule,
  and every rule it names concerns the request and is true however the predicates the guard
  could not evaluate turn out.
\<close>

theorem denial_names_true_rules:
  assumes "evaluate_exclusions G (Some g) r = Deny ks"
  shows "ks \<noteq> [] \<and> (\<forall>k\<in>set ks. \<exists>x\<in>set (gp_rules g). xr_key x = k \<and> concerns G g r x
    \<and> (\<forall>t. refines t (valuation G g r k) \<longrightarrow> holds t (xr_condition x)))"
proof -
  have ok: "policy_ok G g" and ne: "applicable_rules G g \<noteq> []"
    using assms by (auto simp: evaluate_exclusions_def Let_def split: if_splits)
  let ?says = "rule_says G (pq_url r) (valuation G g r)"
  have ks: "ks \<noteq> []" "ks = map (\<lambda>ra. xr_key (fst ra)) (filter (\<lambda>ra. ?says ra = Denied) (applicable_rules G g))"
    using evaluate_cases [OF assms ok ne] by (auto simp: Let_def split: if_splits)
  have "\<exists>x\<in>set (gp_rules g). xr_key x = k \<and> concerns G g r x
      \<and> (\<forall>t. refines t (valuation G g r k) \<longrightarrow> holds t (xr_condition x))" if k: "k \<in> set ks" for k
  proof -
    obtain x a where x: "k = xr_key x" "?says (x, a) = Denied" "(x, a) \<in> set (applicable_rules G g)"
      using k unfolding ks(2) by auto
    have a: "a = exclusion_applicability G x (gp_target g)" "x \<in> set (gp_rules g)"
      using x(3) by (simp_all add: applicable_iff)
    have "holds t (xr_condition x)" if "refines t (valuation G g r k)" for t
      using rule_says_sound(1) that x by blast
    with a x denied_concerns show ?thesis by blast
  qed
  with ks(1) show ?thesis by blast
qed

text \<open>
  A rule is only dropped statically when it cannot concern the target.  Where
  \<open>exclusion_applicability\<close> answers disjoint, the target is not a binding of the rule, every
  asset involved has a readable envelope, and no place (scheme, host, port, path) inside the
  target's envelope lies in the envelope of any binding of the rule.
\<close>

theorem disjoint_rules_share_no_place:
  assumes "exclusion_applicability G x target = Disjoint"
  shows "\<exists>s. asset_envelope G target = Some s \<and> xr_assets x \<noteq> [] \<and> target \<notin> set (xr_assets x)
    \<and> (\<forall>a\<in>set (xr_assets x). \<exists>b. asset_envelope G a = Some b
         \<and> (\<forall>q. asset_contains s q \<longrightarrow> \<not> asset_contains b q))"
proof -
  have ne: "xr_assets x \<noteq> []" "target \<notin> set (xr_assets x)"
    and scan: "scan_assets G (asset_envelope G target) False (xr_assets x) = Disjoint"
    using assms by (auto simp: exclusion_applicability_def split: if_splits)
  from scan_disjoint [OF scan] have each: "\<forall>a\<in>set (xr_assets x). \<exists>s b. asset_envelope G target = Some s
    \<and> asset_envelope G a = Some b \<and> \<not> asset_contains b s \<and> \<not> assets_intersect s b" by blast
  with ne(1) obtain s where s: "asset_envelope G target = Some s"
    by (meson last_in_set)
  have "\<exists>b. asset_envelope G a = Some b \<and> (\<forall>q. asset_contains s q \<longrightarrow> \<not> asset_contains b q)"
    if a: "a \<in> set (xr_assets x)" for a
  proof -
    from each a s obtain b where "asset_envelope G a = Some b" "\<not> assets_intersect s b" by auto
    with common_member_intersects show ?thesis by blast
  qed
  with s ne show ?thesis by blast
qed

section \<open>A worked snapshot\<close>

text \<open>Deleting below \<open>/admin\<close> is excluded everywhere, \<open>b.co\<close> only as a whole.\<close>

definition sample_guard_env :: guard_env where
  "sample_guard_env = \<lparr>ge_net = plain_env, ge_utf8 = (\<lambda>s. True), ge_qsl = (\<lambda>s. Some []),
     ge_loads = (\<lambda>s. None), ge_dumps = (\<lambda>v. []), ge_rules_digest = (\<lambda>rs. replicate 64 (CHR ''a'')),
     ge_fingerprint = (\<lambda>o' m hs b c. replicate 64 (CHR ''b''))\<rparr>"

definition sample_delete :: ex_rule where
  "sample_delete = \<lparr>xr_key = ''r1'', xr_label = ''delete'', xr_quote = ''no DELETE on /admin'', xr_assets = [],
     xr_condition = EAll [EPred \<lparr>eq_key = ''m'', eq_field = FMethod, eq_operator = Equals, eq_name = None, eq_value = Some ''DELETE''\<rparr>,
       EPred \<lparr>eq_key = ''p'', eq_field = FPath, eq_operator = IsPrefix, eq_name = None, eq_value = Some ''/admin''\<rparr>]\<rparr>"

definition sample_elsewhere :: ex_rule where
  "sample_elsewhere = \<lparr>xr_key = ''r2'', xr_label = ''other'', xr_quote = ''not on b.co'', xr_assets = [''b.co''],
     xr_condition = EPred \<lparr>eq_key = ''h'', eq_field = FSemantic, eq_operator = Equals, eq_name = None, eq_value = Some ''any''\<rparr>\<rparr>"

definition sample_snapshot :: guard_policy where
  "sample_snapshot = \<lparr>gp_scope_digest = replicate 64 (CHR ''a''), gp_rule_digest = replicate 64 (CHR ''a''),
     gp_evidence_digest = replicate 64 (CHR ''a''), gp_target = ''a.co'', gp_rules = [sample_delete, sample_elsewhere],
     gp_bindings = [], gp_expires = None\<rparr>"

definition sample_request :: "string \<Rightarrow> physical_request" where
  "sample_request m = \<lparr>pq_url = ''https://a.co/admin/x'', pq_method = m, pq_headers = [], pq_body = None,
     pq_body_available = True, pq_identity_available = True, pq_context = None, pq_now = 0\<rparr>"

lemma sample_env_simps [simp]:
  "ge_net sample_guard_env = plain_env" "ge_utf8 sample_guard_env s" "ge_qsl sample_guard_env s = Some []"
  "ge_dumps sample_guard_env v = []" "ge_rules_digest sample_guard_env rs = replicate 64 (CHR ''a'')"
  "idna_encode plain_env s = Some s" "ip_address plain_env s = None"
  by (simp_all add: sample_guard_env_def plain_env_def)

lemmas guard_eval = id_ok_def text_ok_def token_ok_def is_token_char_def is_odd_char_def
  host_char_def host_text_ok_def percent_decode_def is_blank_iff ends_with_def is_space_def

lemma sample_paths:
  "guard_path sample_guard_env ''/admin'' = Some ''/admin''"
  "guard_path sample_guard_env ''/admin/x'' = Some ''/admin/x''"
  "guard_path sample_guard_env ''/'' = Some ''/''"
  by (simp_all add: guard_path_def guard_eval str_eval)

lemma sample_url: "guard_url sample_guard_env ''https://a.co/admin/x'' = Some (''https'', ''a.co'', 443, ''/admin/x'', [])"
  by (simp add: guard_url_def sample_paths guard_eval str_eval)

lemma sample_methods:
  "guard_method ''DELETE'' = Some ''DELETE''" "guard_method ''GET'' = Some ''GET''"
  by (simp_all add: guard_method_def guard_eval str_eval)

lemma sample_pred_ok:
  "pred_ok sample_guard_env \<lparr>eq_key = ''m'', eq_field = FMethod, eq_operator = Equals, eq_name = None, eq_value = Some ''DELETE''\<rparr>"
  "pred_ok sample_guard_env \<lparr>eq_key = ''p'', eq_field = FPath, eq_operator = IsPrefix, eq_name = None, eq_value = Some ''/admin''\<rparr>"
  "pred_ok sample_guard_env \<lparr>eq_key = ''h'', eq_field = FSemantic, eq_operator = Equals, eq_name = None, eq_value = Some ''any''\<rparr>"
  by (simp_all add: pred_ok_def sample_paths sample_methods guard_eval str_eval)

lemma sample_rules_ok: "rule_ok sample_guard_env sample_delete" "rule_ok sample_guard_env sample_elsewhere"
  by (simp_all add: rule_ok_def sample_delete_def sample_elsewhere_def expr_ok_def sample_pred_ok literal_ok_def
      guard_eval str_eval)

lemma sample_policy_ok: "policy_ok sample_guard_env sample_snapshot"
proof -
  have "list_all (rule_ok sample_guard_env) [sample_delete, sample_elsewhere]" using sample_rules_ok by simp
  moreover have "sha_ok (replicate 64 (CHR ''a''))" by (simp add: sha_ok_def list_all_iff str_eval)
  moreover have "text_ok 4096 False ''a.co''" by (simp add: guard_eval str_eval)
  moreover have "distinct (map xr_key [sample_delete, sample_elsewhere])"
    by (simp add: sample_delete_def sample_elsewhere_def)
  ultimately show ?thesis by (simp add: policy_ok_def sample_snapshot_def)
qed

lemma sample_envelopes:
  "asset_envelope sample_guard_env ''a.co'' = Some \<lparr>ev_scheme = None, ev_host = ''a.co'', ev_wild = False, ev_port = None, ev_path = ''/''\<rparr>"
  "asset_envelope sample_guard_env ''b.co'' = Some \<lparr>ev_scheme = None, ev_host = ''b.co'', ev_wild = False, ev_port = None, ev_path = ''/''\<rparr>"
  by (simp_all add: asset_envelope_def envelope_host_def label_ok_def number_label_def rstrip_by_def sample_paths guard_eval str_eval)

lemma sample_applicability:
  "exclusion_applicability sample_guard_env sample_delete ''a.co'' = Applies"
  "exclusion_applicability sample_guard_env sample_elsewhere ''a.co'' = Disjoint"
  by (simp_all add: exclusion_applicability_def sample_delete_def sample_elsewhere_def sample_envelopes
      asset_contains_def assets_intersect_def host_contains_def)

lemma sample_decisions:
  "evaluate_exclusions sample_guard_env (Some sample_snapshot) (sample_request ''GET'') = Continue"
  "evaluate_exclusions sample_guard_env (Some sample_snapshot) (sample_request ''DELETE'') = Deny [''r1'']"
proof -
  have rules: "applicable_rules sample_guard_env sample_snapshot = [(sample_delete, Applies)]"
    by (simp add: applicable_rules_def sample_snapshot_def sample_applicability)
  show "evaluate_exclusions sample_guard_env (Some sample_snapshot) (sample_request ''GET'') = Continue"
    "evaluate_exclusions sample_guard_env (Some sample_snapshot) (sample_request ''DELETE'') = Deny [''r1'']"
    by (simp_all add: evaluate_exclusions_def sample_policy_ok rules sample_request_def sample_url sample_methods
        guard_headers_def context_ok_def rule_says_def sample_delete_def predicate_value_def value_for_def
        is_dom_action_def compare_value_def sample_paths path_contains_def rstrip_by_def or_empty_def)
qed

text \<open>The three theorems at that snapshot.\<close>

lemma continue_excludes_every_rule_witness:
  "\<not> holds (\<lambda>p. valuation sample_guard_env sample_snapshot (sample_request ''GET'') ''r1'' p = Some True)
     (xr_condition sample_delete)"
proof -
  have "refines (\<lambda>p. v p = Some True) v" for v by (simp add: refines_def)
  moreover have "concerns sample_guard_env sample_snapshot (sample_request ''GET'') sample_delete"
    by (simp add: concerns_def sample_snapshot_def sample_applicability)
  moreover have "sample_delete \<in> set (gp_rules sample_snapshot)" by (simp add: sample_snapshot_def)
  moreover have "xr_key sample_delete = ''r1''" by (simp add: sample_delete_def)
  ultimately show ?thesis using continue_excludes_every_rule [OF sample_decisions(1)] by metis
qed

lemma denial_names_true_rules_witness:
  "[''r1''] \<noteq> [] \<and> (\<exists>x\<in>set (gp_rules sample_snapshot). xr_key x = ''r1''
     \<and> concerns sample_guard_env sample_snapshot (sample_request ''DELETE'') x)"
  using denial_names_true_rules [OF sample_decisions(2)] by fastforce

lemma disjoint_rules_share_no_place_witness:
  "exclusion_applicability sample_guard_env sample_elsewhere ''a.co'' = Disjoint
   \<and> \<not> asset_contains (the (asset_envelope sample_guard_env ''b.co'')) (the (asset_envelope sample_guard_env ''a.co''))"
proof -
  have "''b.co'' \<in> set (xr_assets sample_elsewhere)" by (simp add: sample_elsewhere_def)
  moreover have "asset_contains (the (asset_envelope sample_guard_env ''a.co'')) (the (asset_envelope sample_guard_env ''a.co''))"
    by (simp add: sample_envelopes asset_contains_def host_contains_def path_contains_def rstrip_by_def)
  ultimately show ?thesis
    using disjoint_rules_share_no_place [OF sample_applicability(2)] sample_applicability(2) by force
qed

end
