(* ===== verification/Request_Broker.thy ===== *)
theory Request_Broker
  imports Target_Policy Http_Safety Exclusion_Soundness
begin

text \<open>
  \<open>src/src/aidast/core/request_broker.py\<close> and \<open>prepare_http_request\<close> of
  \<open>core/capture_receipt.py\<close>: one logical request of Recon or Validation as a bounded chain of
  physical hops.  Every hop is checked against the target policy, carries the researcher
  identity, passes the exclusion guard before and after it waits for its permit, is counted, and
  gives its permit back.  What the broker meets outside is \<open>broker_env\<close>: \<open>urljoin\<close>, the request
  governor (a permit with a time limit, or its refusal), the clock and the transport; each
  answer may depend on the whole trace of events so far.  A transport that raises, and a
  governor that fails in \<open>complete\<close>, are answers too.
\<close>

section \<open>Requests, replies and events\<close>

record wire =
  w_url :: string
  w_method :: string
  w_headers :: "(string \<times> string) list"
  w_body :: "string option"

record reply =
  rp_status :: nat
  rp_headers :: "(string \<times> string) list"
  rp_readable :: bool
  rp_body :: "string option" \<comment> \<open>None is a read that raises\<close>

datatype broker_event = Acquired string | Sent wire | Closed | Completed | CompletionFailed

datatype broker_error = PolicyError string | Raised

record broker_response =
  re_status :: nat
  re_url :: string
  re_headers :: "(string \<times> string) list"
  re_body :: string

record hop_request =
  hr_url :: string
  hr_method :: string
  hr_headers :: "(string \<times> string) list"
  hr_data :: "string option"

datatype hop = Finish "(broker_error, broker_response) result" | Follow hop_request

record broker_state =
  bs_count :: nat
  bs_trace :: "broker_event list"

record broker_env =
  be_guard :: guard_env
  be_join :: "string \<Rightarrow> string \<Rightarrow> string option"
  be_agent :: string
  be_identity :: bool
  be_acquire :: "broker_event list \<Rightarrow> string \<Rightarrow> rat \<Rightarrow> rat option"
  be_wait :: "broker_event list \<Rightarrow> bool"
  be_now :: "broker_event list \<Rightarrow> rat"
  be_transport :: "broker_event list \<Rightarrow> wire \<Rightarrow> rat \<Rightarrow> reply option"
  be_complete :: "broker_event list \<Rightarrow> bool"

record broker =
  bk_policy :: target_policy
  bk_exclusions :: "guard_policy option"
  bk_required :: "(string \<times> string) list"
  bk_username :: "string option"
  bk_max_requests :: nat
  bk_timeout :: rat
  bk_max_redirects :: nat
  bk_max_body :: nat
  bk_budget :: "nat option"
  bk_validation :: bool

text \<open>\<open>budget_limit\<close> has to be positive, \<open>budget_limit or max_requests\<close> is the limit.\<close>

definition broker_ok :: "broker \<Rightarrow> bool" where
  "broker_ok b \<longleftrightarrow> (case bk_budget b of None \<Rightarrow> True | Some n \<Rightarrow> 1 \<le> n)"

definition request_limit :: "broker \<Rightarrow> nat" where
  "request_limit b = (case bk_budget b of None \<Rightarrow> bk_max_requests b
     | Some n \<Rightarrow> if n = 0 then bk_max_requests b else n)"

abbreviation net :: "broker_env \<Rightarrow> net_env" where
  "net B \<equiv> ge_net (be_guard B)"

section \<open>The physical request\<close>

text \<open>\<open>str.title\<close> and \<open>str\<close> of an integer.\<close>

fun title_from :: "bool \<Rightarrow> string \<Rightarrow> string" where
  "title_from inside [] = []"
| "title_from inside (c # s) =
     (if is_alpha c then (if inside then lower_char c else upper_char c) else c) # title_from (is_alpha c) s"

definition title :: "string \<Rightarrow> string" where
  "title s = title_from False s"

fun decimal :: "nat \<Rightarrow> string" where
  "decimal n = (if n < 10 then [char_of (48 + n)] else decimal (n div 10) @ [char_of (48 + n mod 10)])"

declare decimal.simps [simp del]

definition set_default :: "(string \<times> string) list \<Rightarrow> string \<Rightarrow> string \<Rightarrow> (string \<times> string) list" where
  "set_default d n v = (if dict_get d n = None then dict_set d n v else d)"

definition connection_headers :: "broker_env \<Rightarrow> string \<Rightarrow> (string \<times> string) list \<Rightarrow> (string \<times> string) list" where
  "connection_headers B host d =
     (let d = dict_set d ''host'' host;
          d = set_default d ''user-agent'' (be_agent B);
          d = set_default d ''accept-encoding'' ''identity''
      in dict_set d ''connection'' ''close'')"

definition body_headers :: "bool \<Rightarrow> bool \<Rightarrow> string \<Rightarrow> (string \<times> string) list \<Rightarrow> (string \<times> string) list" where
  "body_headers typed framed len d =
     (let d = (if framed then dict_set d ''content-length'' len else d)
      in if typed then set_default d ''content-type'' ''application/x-www-form-urlencoded'' else d)"

definition prepare_http_request ::
  "broker_env \<Rightarrow> string \<Rightarrow> string \<Rightarrow> (string \<times> string) list \<Rightarrow> string option \<Rightarrow> ((string \<times> string) list \<times> string) option" where
  "prepare_http_request B url m headers body =
     (case (guard_method m, guard_headers headers, urlsplit (net B) url) of
        (Some m, Some hs, Some u) \<Rightarrow>
          let d = update_all [] hs; raw = or_empty body; host = u_netloc u
          in if dict_get d ''transfer-encoding'' \<noteq> None
                \<or> (case dict_get d ''host'' of None \<Rightarrow> False | Some h \<Rightarrow> lower h \<noteq> lower host) then None
             else
               let d = connection_headers B host d;
                   framed = body \<noteq> None \<or> m \<in> {''POST'', ''PUT'', ''PATCH''};
                   expected = (if framed then decimal (length raw) else ''0'')
               in if (case dict_get d ''content-length'' of None \<Rightarrow> False | Some n \<Rightarrow> n \<noteq> expected) then None
                  else Some (map (\<lambda>(n, v). (title n, v)) (body_headers (body \<noteq> None) framed expected d), raw)
      | _ \<Rightarrow> None)"

definition valid_target :: "broker_env \<Rightarrow> broker \<Rightarrow> string \<Rightarrow> string \<Rightarrow> bool" where
  "valid_target B b url m =
     (case urlsplit (net B) url of
        None \<Rightarrow> False
      | Some u \<Rightarrow> \<not> (truthy_text (u_username u) \<or> truthy_text (u_password u))
          \<and> (if bk_validation b then allows_validation_url (net B) (bk_policy b) url m
             else allows_url (net B) (bk_policy b) url m))"

definition origin_of :: "net_env \<Rightarrow> string \<Rightarrow> (string \<times> string option \<times> nat) option" where
  "origin_of E url =
     (case urlsplit E url of
        None \<Rightarrow> None
      | Some u \<Rightarrow> map_option (\<lambda>q. (u_scheme u, u_hostname u, or_default_port q (u_scheme u))) (u_port u))"

definition physical :: "broker_env \<Rightarrow> string \<Rightarrow> string \<Rightarrow> (string \<times> string) list \<Rightarrow> string \<Rightarrow> rat \<Rightarrow> physical_request" where
  "physical B url m headers raw now =
     \<lparr>pq_url = url, pq_method = m, pq_headers = headers, pq_body = Some raw, pq_body_available = True,
      pq_identity_available = be_identity B, pq_context = None, pq_now = now\<rparr>"

definition admitted :: "broker_env \<Rightarrow> broker \<Rightarrow> physical_request \<Rightarrow> bool" where
  "admitted B b r = request_admitted (be_guard B) (tp_asset (bk_policy b)) (bk_exclusions b) r"

definition identified :: "broker \<Rightarrow> (string \<times> string) list \<Rightarrow> (string \<times> string) list option" where
  "identified b headers =
     (if bk_required b \<noteq> [] \<or> truthy_text (bk_username b)
      then merge_hackerone_identity headers (bk_username b) (bk_required b) else Some headers)"

section \<open>One hop\<close>

definition answer :: "broker \<Rightarrow> bool \<Rightarrow> string \<Rightarrow> reply \<Rightarrow> hop" where
  "answer b capture url p =
     (case (if capture \<and> rp_readable p then rp_body p else Some []) of
        None \<Rightarrow> Finish (Inl Raised)
      | Some body \<Rightarrow> Finish (Inr \<lparr>re_status = rp_status p, re_url = url,
          re_headers = sanitize_headers (update_all [] (rp_headers p)) (bk_required b),
          re_body = take (bk_max_body b) body\<rparr>))"

definition location_of :: "reply \<Rightarrow> string option" where
  "location_of p = map_option snd (find (\<lambda>(n, v). lower n = ''location'') (update_all [] (rp_headers p)))"

definition redirects :: "reply \<Rightarrow> bool" where
  "redirects p \<longleftrightarrow> rp_status p \<in> {301, 302, 303, 307, 308} \<and> truthy_text (location_of p)"

text \<open>A redirect that turns the request into a GET drops its body and its framing headers.\<close>

definition becomes_get :: "reply \<Rightarrow> string \<Rightarrow> bool" where
  "becomes_get p m \<longleftrightarrow> rp_status p = 303 \<and> m \<noteq> ''HEAD'' \<or> rp_status p \<in> {301, 302} \<and> m = ''POST''"

definition rewritten :: "reply \<Rightarrow> hop_request \<Rightarrow> hop_request" where
  "rewritten p q = (if becomes_get p (hr_method q)
     then q\<lparr>hr_method := ''GET'', hr_data := None,
       hr_headers := filter (\<lambda>(n, v). lower n \<notin> {''content-type'', ''content-length'', ''transfer-encoding''}) (hr_headers q)\<rparr>
     else q)"

definition uncredentialed :: "(string \<times> string) list \<Rightarrow> (string \<times> string) list" where
  "uncredentialed hs = filter (\<lambda>(n, v). \<not> is_sensitive_header n \<and> lower n \<noteq> ''host'') hs"

definition after_reply :: "broker_env \<Rightarrow> broker \<Rightarrow> bool \<Rightarrow> bool \<Rightarrow> hop_request \<Rightarrow> reply \<Rightarrow> hop" where
  "after_reply B b capture final q p =
     (if \<not> redirects p then answer b capture (hr_url q) p
      else if final then Finish (Inl (PolicyError ''HTTP redirect limit exceeded''))
      else case be_join B (hr_url q) (or_empty (location_of p)) of
             None \<Rightarrow> Finish (Inl Raised)
           | Some next_url \<Rightarrow>
               let q' = rewritten p q
               in if \<not> valid_target B b next_url (hr_method q') then answer b capture (hr_url q) p
                  else (case (origin_of (net B) (hr_url q), origin_of (net B) next_url) of
                      (Some x, Some y) \<Rightarrow> Follow (q'\<lparr>hr_url := next_url,
                         hr_headers := (if x \<noteq> y then uncredentialed (hr_headers q') else hr_headers q')\<rparr>)
                    | _ \<Rightarrow> Finish (Inl Raised)))"

text \<open>
  From the permit to its completion.  \<open>complete\<close> is in a \<open>finally\<close>: it runs on every way out.
  When the governor raises there, the permit is not completed (\<open>CompletionFailed\<close>), and that
  exception is what the caller sees, whatever the hop had come to.
\<close>

definition complete :: "broker_env \<Rightarrow> hop \<times> broker_state \<Rightarrow> hop \<times> broker_state" where
  "complete B r = (case r of (h, s) \<Rightarrow>
     if be_complete B (bs_trace s) then (h, s\<lparr>bs_trace := bs_trace s @ [Completed]\<rparr>)
     else (Finish (Inl Raised), s\<lparr>bs_trace := bs_trace s @ [CompletionFailed]\<rparr>))"

definition under_permit ::
  "broker_env \<Rightarrow> broker \<Rightarrow> bool \<Rightarrow> bool \<Rightarrow> hop_request \<Rightarrow> (string \<times> string) list \<Rightarrow> string \<Rightarrow> rat
     \<Rightarrow> broker_state \<Rightarrow> hop \<times> broker_state" where
  "under_permit B b capture final q headers raw seconds s =
     complete B
      (if \<not> be_wait B (bs_trace s) then (Finish (Inl (PolicyError ''governor'')), s)
       else if \<not> admitted B b (physical B (hr_url q) (hr_method q) headers raw (be_now B (bs_trace s)))
       then (Finish (Inl (PolicyError ''exclusion'')), s)
       else let w = \<lparr>w_url = hr_url q, w_method = hr_method q, w_headers = headers,
                     w_body = (if raw = [] then None else Some raw)\<rparr>;
                s' = s\<lparr>bs_trace := bs_trace s @ [Sent w]\<rparr>
            in (case be_transport B (bs_trace s) w seconds of
                  None \<Rightarrow> (Finish (Inl Raised), s')
                | Some p \<Rightarrow> (after_reply B b capture final q p, s'\<lparr>bs_trace := bs_trace s' @ [Closed]\<rparr>)))"

definition one_hop ::
  "broker_env \<Rightarrow> broker \<Rightarrow> bool \<Rightarrow> rat \<Rightarrow> bool \<Rightarrow> hop_request \<Rightarrow> broker_state \<Rightarrow> hop \<times> broker_state" where
  "one_hop B b capture seconds final q s =
     (if \<not> valid_target B b (hr_url q) (hr_method q) then (Finish (Inl (PolicyError ''destination or method'')), s)
      else case identified b (hr_headers q) of
        None \<Rightarrow> (Finish (Inl Raised), s)
      | Some headers \<Rightarrow>
          let q = q\<lparr>hr_headers := headers\<rparr>
          in (case prepare_http_request B (hr_url q) (hr_method q) headers (hr_data q) of
                None \<Rightarrow> (Finish (Inl (PolicyError ''invalid physical request context'')), s)
              | Some (final_headers, raw) \<Rightarrow>
                  if \<not> admitted B b (physical B (hr_url q) (hr_method q) final_headers raw (be_now B (bs_trace s)))
                  then (Finish (Inl (PolicyError ''exclusion'')), s)
                  else if request_limit b \<le> bs_count s
                  then (Finish (Inl (PolicyError ''HTTP request budget exhausted'')), s)
                  else let s = s\<lparr>bs_count := Suc (bs_count s)\<rparr>
                       in (case be_acquire B (bs_trace s) (hr_url q) seconds of
                             None \<Rightarrow> (Finish (Inl (PolicyError ''governor'')), s)
                           | Some allowed \<Rightarrow> under_permit B b capture final q final_headers raw allowed
                               (s\<lparr>bs_trace := bs_trace s @ [Acquired (hr_url q)]\<rparr>))))"

section \<open>The redirect loop\<close>

text \<open>\<open>n\<close> hops are left after this one.\<close>

fun hops ::
  "broker_env \<Rightarrow> broker \<Rightarrow> bool \<Rightarrow> rat \<Rightarrow> nat \<Rightarrow> hop_request \<Rightarrow> broker_state
     \<Rightarrow> (broker_error, broker_response) result \<times> broker_state" where
  "hops B b capture seconds n q s =
     (case one_hop B b capture seconds (n = 0) q s of
        (Finish r, s') \<Rightarrow> (r, s')
      | (Follow q', s') \<Rightarrow>
          (case n of 0 \<Rightarrow> (Inl (PolicyError ''HTTP redirect limit exceeded''), s')
           | Suc k \<Rightarrow> hops B b capture seconds k q' s'))"

declare hops.simps [simp del]

definition broker_request ::
  "broker_env \<Rightarrow> broker \<Rightarrow> string \<Rightarrow> string \<Rightarrow> (string \<times> string) list \<Rightarrow> string option \<Rightarrow> rat option \<Rightarrow> bool
     \<Rightarrow> broker_state \<Rightarrow> (broker_error, broker_response) result \<times> broker_state" where
  "broker_request B b url m headers data timeout capture s =
     (if (case timeout of None \<Rightarrow> False | Some t \<Rightarrow> t \<le> 0) then (Inl (PolicyError ''timeout must be positive and finite''), s)
      else hops B b capture (case timeout of None \<Rightarrow> bk_timeout b | Some t \<Rightarrow> min t (bk_timeout b))
             (bk_max_redirects b) \<lparr>hr_url = url, hr_method = upper m, hr_headers = headers, hr_data = data\<rparr> s)"

section \<open>Header names\<close>

lemma lower_upper_char [simp]: "lower_char (upper_char c) = lower_char c"
proof (cases "97 \<le> (of_char c :: nat) \<and> of_char c \<le> (122::nat)")
  case True
  then have n: "(of_char c :: nat) - 32 < 256" "65 \<le> (of_char c :: nat) - 32" "(of_char c :: nat) - 32 \<le> 90"
    by arith+
  with True have "(of_char (char_of ((of_char c :: nat) - 32) :: char) :: nat) = of_char c - 32" by simp
  with True n show ?thesis by (simp add: upper_char_def lower_char_def)
next
  case False
  then have "upper_char c = c" by (simp only: upper_char_def if_False)
  then show ?thesis by simp
qed

lemma lower_title_from: "lower (title_from b s) = lower s"
  by (induction s arbitrary: b) (simp_all add: lower_def)

lemma lower_title [simp]: "lower (title s) = lower s"
  by (simp add: title_def lower_title_from)

lemma sensitive_lower: "lower m = lower n \<Longrightarrow> is_sensitive_header m = is_sensitive_header n"
  by (simp add: is_sensitive_header_def dashed_def)

definition controlled :: "broker \<Rightarrow> string set" where
  "controlled b = insert ''x-hackerone'' (lower ` fst ` set (bk_required b))"

text \<open>No credential but the researcher identity that the policy itself prescribes.\<close>

definition clean :: "broker \<Rightarrow> (string \<times> string) list \<Rightarrow> bool" where
  "clean b hs \<longleftrightarrow> (\<forall>n\<in>fst ` set hs. is_sensitive_header n \<longrightarrow> lower n \<in> controlled b)"

lemma clean_filter: "clean b hs \<Longrightarrow> clean b (filter p hs)"
  by (auto simp: clean_def)

lemma clean_uncredentialed: "clean b (uncredentialed hs)"
  by (auto simp: clean_def uncredentialed_def)

lemma merge_form:
  assumes "merge_hackerone_identity hs u req = Some m"
  shows "\<exists>p v. m = update_all (filter p hs) req \<or> m = update_all (dict_set (filter p hs) ''X-HackerOne'' v) req"
  using assms by (auto simp: merge_hackerone_identity_def Let_def split: option.splits if_splits
      dest!: validate_identity_headers_same)

lemma merge_keys:
  assumes "merge_hackerone_identity hs u req = Some m"
  shows "fst ` set m \<subseteq> fst ` set hs \<union> {''X-HackerOne''} \<union> fst ` set req"
proof -
  obtain p v where "m = update_all (filter p hs) req \<or> m = update_all (dict_set (filter p hs) ''X-HackerOne'' v) req"
    using merge_form [OF assms] by blast
  then have "fst ` set m \<subseteq> insert ''X-HackerOne'' (fst ` set (filter p hs)) \<union> fst ` set req"
    by (elim disjE) (simp_all only: keys_update_all keys_dict_set, blast+)
  moreover have "fst ` set (filter p hs) \<subseteq> fst ` set hs" by auto
  ultimately show ?thesis by blast
qed

lemma clean_identified:
  assumes "identified b hs = Some hs'" and "clean b hs"
  shows "clean b hs'"
proof -
  have keys: "fst ` set hs' \<subseteq> fst ` set hs \<union> {''X-HackerOne''} \<union> fst ` set (bk_required b)"
    using assms(1) merge_keys by (auto simp: identified_def split: if_splits)
  have x: "lower ''X-HackerOne'' \<in> controlled b" by (simp add: controlled_def str_eval)
  show ?thesis unfolding clean_def
  proof (intro ballI impI)
    fix n assume "n \<in> fst ` set hs'" and sens: "is_sensitive_header n"
    with keys consider "n \<in> fst ` set hs" | "n = ''X-HackerOne''" | "n \<in> fst ` set (bk_required b)" by blast
    then show "lower n \<in> controlled b"
    proof cases
      case 1
      then show ?thesis using assms(2) sens unfolding clean_def by blast
    next
      case 2
      then show ?thesis using x by simp
    next
      case 3
      then show ?thesis by (simp add: controlled_def)
    qed
  qed
qed

lemma keys_set_default: "fst ` set (set_default d n v) \<subseteq> insert n (fst ` set d)"
  unfolding set_default_def using keys_dict_set [of d n v] by (cases "dict_get d n") auto

lemma guard_headers_keys: "guard_headers hs = Some hs' \<Longrightarrow> fst ` set hs' = lower ` fst ` set hs"
  by (force simp: guard_headers_def Let_def image_iff split: if_splits)

definition framing_names :: "string set" where
  "framing_names = {''host'', ''user-agent'', ''accept-encoding'', ''connection'', ''content-length'', ''content-type''}"

lemma framing_not_sensitive: "n \<in> framing_names \<Longrightarrow> \<not> is_sensitive_header n"
  by (auto simp: framing_names_def is_sensitive_header_def dashed_def str_eval)

lemma connection_keys: "fst ` set (connection_headers B host d) \<subseteq> framing_names \<union> fst ` set d"
proof -
  let ?a = "dict_set d ''host'' host"
  let ?b = "set_default ?a ''user-agent'' (be_agent B)"
  let ?c = "set_default ?b ''accept-encoding'' ''identity''"
  have "fst ` set (connection_headers B host d) \<subseteq> insert ''connection'' (fst ` set ?c)"
    unfolding connection_headers_def Let_def keys_dict_set by (rule subset_refl)
  moreover have "fst ` set ?c \<subseteq> insert ''accept-encoding'' (fst ` set ?b)" by (rule keys_set_default)
  moreover have "fst ` set ?b \<subseteq> insert ''user-agent'' (fst ` set ?a)" by (rule keys_set_default)
  moreover have "fst ` set ?a = insert ''host'' (fst ` set d)" by (rule keys_dict_set)
  ultimately show ?thesis unfolding framing_names_def by blast
qed

lemma body_keys: "fst ` set (body_headers typed framed len d) \<subseteq> framing_names \<union> fst ` set d"
proof -
  define a where "a = (if framed then dict_set d ''content-length'' len else d)"
  have n: "''content-type'' \<in> framing_names" "''content-length'' \<in> framing_names" by (simp_all add: framing_names_def)
  have "fst ` set a = (if framed then insert ''content-length'' (fst ` set d) else fst ` set d)"
    unfolding a_def by (simp only: keys_dict_set split: if_split) simp
  with n have a: "fst ` set a \<subseteq> framing_names \<union> fst ` set d" by (cases framed) (simp_all add: subset_insertI2)
  have "body_headers typed framed len d = (if typed then set_default a ''content-type'' ''application/x-www-form-urlencoded'' else a)"
    by (simp only: body_headers_def Let_def a_def)
  then have "fst ` set (body_headers typed framed len d) \<subseteq> insert ''content-type'' (fst ` set a)"
    using keys_set_default [of a "''content-type''" "''application/x-www-form-urlencoded''"]
    by (simp only: subset_insertI split: if_split) simp
  then show ?thesis using a n(1) by (meson insert_subset subset_trans sup.coboundedI1 subset_iff Un_iff)
qed

lemma prepared_form:
  assumes "prepare_http_request B url m hs body = Some (fh, raw)"
  shows "\<exists>hs' host typed framed len. guard_headers hs = Some hs'
    \<and> fh = map (\<lambda>(n, v). (title n, v)) (body_headers typed framed len (connection_headers B host (update_all [] hs')))"
  using assms by (auto simp: prepare_http_request_def Let_def split: option.splits if_splits)

lemma prepared_keys:
  assumes "prepare_http_request B url m hs body = Some (fh, raw)"
  shows "lower ` fst ` set fh \<subseteq> lower ` (fst ` set hs \<union> framing_names)"
proof -
  obtain hs' host typed framed len where hs': "guard_headers hs = Some hs'"
    and fh: "fh = map (\<lambda>(n, v). (title n, v)) (body_headers typed framed len (connection_headers B host (update_all [] hs')))"
    (is "_ = map _ ?d")
    using prepared_form [OF assms] by blast
  have d: "fst ` set ?d \<subseteq> framing_names \<union> lower ` fst ` set hs"
  proof -
    have "fst ` set ?d \<subseteq> framing_names \<union> (framing_names \<union> fst ` set (update_all [] hs'))"
      using body_keys connection_keys by blast
    moreover have "fst ` set (update_all [] hs') = lower ` fst ` set hs"
      unfolding keys_update_all guard_headers_keys [OF hs'] by simp
    ultimately show ?thesis by blast
  qed
  have e: "lower ` fst ` set (map (\<lambda>(n, v). (title n, v)) d) = lower ` fst ` set d" for d :: "(string \<times> string) list"
    by (induction d) auto
  have "lower ` fst ` set fh = lower ` fst ` set ?d" unfolding fh by (rule e)
  also have "\<dots> \<subseteq> lower ` (framing_names \<union> lower ` fst ` set hs)" using d by blast
  also have "\<dots> = lower ` (fst ` set hs \<union> framing_names)" by (simp only: image_Un image_image lower_idem) blast
  finally show ?thesis .
qed

lemma clean_prepared:
  assumes "prepare_http_request B url m hs body = Some (fh, raw)" and "clean b hs"
  shows "clean b fh"
  unfolding clean_def
proof (intro ballI impI)
  fix n assume n: "n \<in> fst ` set fh" "is_sensitive_header n"
  then obtain k where k: "lower n = lower k" "k \<in> fst ` set hs \<union> framing_names"
    using prepared_keys [OF assms(1)] by blast
  then have "is_sensitive_header k" using n(2) sensitive_lower by blast
  with k framing_not_sensitive have "k \<in> fst ` set hs" by blast
  with \<open>is_sensitive_header k\<close> assms(2) have "lower k \<in> controlled b" unfolding clean_def by blast
  with k(1) show "lower n \<in> controlled b" by simp
qed

section \<open>What one hop leaves behind\<close>

definition sent_for :: "broker_env \<Rightarrow> broker \<Rightarrow> hop_request \<Rightarrow> wire \<Rightarrow> bool" where
  "sent_for B b q w \<longleftrightarrow> w_url w = hr_url q \<and> w_method w = hr_method q
     \<and> valid_target B b (w_url w) (w_method w)
     \<and> (\<exists>hs raw. identified b (hr_headers q) = Some hs
          \<and> prepare_http_request B (hr_url q) (hr_method q) hs (hr_data q) = Some (w_headers w, raw)
          \<and> w_body w = (if raw = [] then None else Some raw)
          \<and> (\<exists>now. admitted B b (physical B (w_url w) (w_method w) (w_headers w) raw now)))"

definition hop_log :: "broker_env \<Rightarrow> broker \<Rightarrow> hop_request \<Rightarrow> broker_event list \<Rightarrow> bool" where
  "hop_log B b q es \<longleftrightarrow> es = [] \<or> (\<exists>e. (e = Completed \<or> e = CompletionFailed)
     \<and> (es = [Acquired (hr_url q), e]
        \<or> (\<exists>w. sent_for B b q w \<and> (es = [Acquired (hr_url q), Sent w, e]
                                     \<or> es = [Acquired (hr_url q), Sent w, Closed, e]))))"

text \<open>A hop that ends with a permit it could not complete ends the request.\<close>

definition fails_with :: "broker_env \<Rightarrow> (broker_error, broker_response) result \<Rightarrow> broker_event list \<Rightarrow> bool" where
  "fails_with B r t \<longleftrightarrow> r = Inl Raised \<and> (\<exists>before. t = before @ [CompletionFailed] \<and> \<not> be_complete B before)"

text \<open>How a followed redirect changes the request.\<close>

definition follows :: "broker_env \<Rightarrow> broker \<Rightarrow> hop_request \<Rightarrow> hop_request \<Rightarrow> bool" where
  "follows B b q q' \<longleftrightarrow> valid_target B b (hr_url q') (hr_method q')
     \<and> (clean b (hr_headers q) \<longrightarrow> clean b (hr_headers q'))
     \<and> (\<exists>x y. origin_of (net B) (hr_url q) = Some x \<and> origin_of (net B) (hr_url q') = Some y
          \<and> (x \<noteq> y \<longrightarrow> clean b (hr_headers q')))"

lemma after_reply_follows:
  assumes "after_reply B b capture final q p = Follow q'"
  shows "valid_target B b (hr_url q') (hr_method q') \<and> \<not> final
     \<and> (clean b (hr_headers q) \<longrightarrow> clean b (hr_headers q'))
     \<and> (\<exists>x y. origin_of (net B) (hr_url q) = Some x \<and> origin_of (net B) (hr_url q') = Some y
          \<and> (x \<noteq> y \<longrightarrow> clean b (hr_headers q')))"
proof -
  have a: "answer b capture u p \<noteq> Follow q'" for u by (auto simp: answer_def split: option.splits)
  let ?q = "rewritten p q"
  have r: "clean b (hr_headers q) \<Longrightarrow> clean b (hr_headers ?q)" by (simp add: rewritten_def clean_filter)
  obtain n x y where n: "\<not> final" "valid_target B b n (hr_method ?q)"
    "origin_of (net B) (hr_url q) = Some x" "origin_of (net B) n = Some y"
    "q' = ?q\<lparr>hr_url := n, hr_headers := (if x \<noteq> y then uncredentialed (hr_headers ?q) else hr_headers ?q)\<rparr>"
    using assms a by (auto simp: after_reply_def Let_def split: if_splits option.splits)
  then show ?thesis using r by (auto simp: clean_uncredentialed)
qed

lemma complete_events:
  assumes "complete B (h, s) = (h', s')"
  shows "bs_count s' = bs_count s \<and> (\<exists>e. (e = Completed \<or> e = CompletionFailed) \<and> bs_trace s' = bs_trace s @ [e]
    \<and> (e = Completed \<longrightarrow> h' = h)
    \<and> (e = CompletionFailed \<longrightarrow> h' = Finish (Inl Raised) \<and> \<not> be_complete B (bs_trace s)))"
  using assms by (auto simp: complete_def split: if_splits)

lemma complete_hop:
  assumes "complete B (h, s) = (h', s')"
    and "bs_trace s = t @ es" and "\<And>e. e = Completed \<or> e = CompletionFailed \<Longrightarrow> hop_log B b q (es @ [e])"
    and "\<And>q'. h = Follow q' \<Longrightarrow> follows B b q q' \<and> \<not> final" and "CompletionFailed \<notin> set es"
  shows "\<exists>es'. bs_trace s' = t @ es' \<and> hop_log B b q es' \<and> bs_count s' = bs_count s
    \<and> (\<forall>q'. h' = Follow q' \<longrightarrow> follows B b q q' \<and> \<not> final \<and> CompletionFailed \<notin> set es')
    \<and> (CompletionFailed \<in> set es' \<longrightarrow> (\<exists>r. h' = Finish r \<and> fails_with B r (bs_trace s')))"
proof -
  obtain e where e: "e = Completed \<or> e = CompletionFailed" "bs_trace s' = bs_trace s @ [e]" "e = Completed \<longrightarrow> h' = h"
    "e = CompletionFailed \<longrightarrow> h' = Finish (Inl Raised) \<and> \<not> be_complete B (bs_trace s)" and n: "bs_count s' = bs_count s"
    using complete_events [OF assms(1)] by blast
  have "CompletionFailed \<in> set (es @ [e]) \<Longrightarrow> e = CompletionFailed" using assms(5) by simp
  with e have "CompletionFailed \<in> set (es @ [e]) \<longrightarrow> (\<exists>r. h' = Finish r \<and> fails_with B r (bs_trace s'))"
    by (auto simp: fails_with_def)
  moreover have "\<forall>q'. h' = Follow q' \<longrightarrow> follows B b q q' \<and> \<not> final \<and> CompletionFailed \<notin> set (es @ [e])"
    using e assms(4,5) by auto
  ultimately show ?thesis using e(1,2) n assms(2,3) by (intro exI [of _ "es @ [e]"]) simp
qed

lemma hop_events:
  assumes "one_hop B b capture seconds final q s = (h, s')"
  shows "\<exists>es. bs_trace s' = bs_trace s @ es \<and> hop_log B b q es
    \<and> (bs_count s' = bs_count s \<and> es = [] \<or> bs_count s' = Suc (bs_count s) \<and> bs_count s < request_limit b)
    \<and> (\<forall>q'. h = Follow q' \<longrightarrow> follows B b q q' \<and> \<not> final \<and> CompletionFailed \<notin> set es)
    \<and> (CompletionFailed \<in> set es \<longrightarrow> (\<exists>r. h = Finish r \<and> fails_with B r (bs_trace s')))"
proof (cases "s' = s \<and> (\<forall>q'. h \<noteq> Follow q')")
  case True
  then show ?thesis by (simp add: hop_log_def)
next
  case False
  with assms obtain hs fh raw where v: "valid_target B b (hr_url q) (hr_method q)" and hs: "identified b (hr_headers q) = Some hs"
    and p: "prepare_http_request B (hr_url q) (hr_method q) hs (hr_data q) = Some (fh, raw)"
    and lim: "bs_count s < request_limit b"
    and r: "(case be_acquire B (bs_trace s) (hr_url q) seconds of
         None \<Rightarrow> (Finish (Inl (PolicyError ''governor'')), s\<lparr>bs_count := Suc (bs_count s)\<rparr>)
       | Some allowed \<Rightarrow> under_permit B b capture final (q\<lparr>hr_headers := hs\<rparr>) fh raw allowed
           (s\<lparr>bs_count := Suc (bs_count s), bs_trace := bs_trace s @ [Acquired (hr_url q)]\<rparr>)) = (h, s')"
    by (auto simp: one_hop_def Let_def split: if_splits option.splits)
  show ?thesis
  proof (cases "be_acquire B (bs_trace s) (hr_url q) seconds")
    case None
    with r lim show ?thesis by (auto simp: hop_log_def)
  next
    case (Some allowed)
    let ?s = "s\<lparr>bs_count := Suc (bs_count s), bs_trace := bs_trace s @ [Acquired (hr_url q)]\<rparr>"
    let ?q = "q\<lparr>hr_headers := hs\<rparr>"
    have u: "under_permit B b capture final ?q fh raw allowed ?s = (h, s')" using r Some by simp
    let ?w = "\<lparr>w_url = hr_url q, w_method = hr_method q, w_headers = fh, w_body = (if raw = [] then None else Some raw)\<rparr>"
    show ?thesis
    proof (cases "be_wait B (bs_trace ?s) \<and> admitted B b (physical B (hr_url q) (hr_method q) fh raw (be_now B (bs_trace ?s)))")
      case False
      with u have "\<exists>e. complete B (Finish (Inl e), ?s) = (h, s')"
        unfolding under_permit_def by (simp split: if_splits) blast+
      then obtain e where "complete B (Finish (Inl e), ?s) = (h, s')" by blast
      from complete_hop [OF this, of "bs_trace s" "[Acquired (hr_url q)]" b q final] lim
      show ?thesis by (auto simp: hop_log_def)
    next
      case True
      then have w: "sent_for B b q ?w" using v hs p by (auto simp: sent_for_def)
      have c: "clean b (hr_headers q) \<longrightarrow> clean b hs" using clean_identified [OF hs] by blast
      show ?thesis
      proof (cases "be_transport B (bs_trace ?s) ?w allowed")
        case None
        with u True have "complete B (Finish (Inl Raised), ?s\<lparr>bs_trace := bs_trace ?s @ [Sent ?w]\<rparr>) = (h, s')"
          by (simp add: under_permit_def Let_def)
        from complete_hop [OF this, of "bs_trace s" "[Acquired (hr_url q), Sent ?w]" b q final] lim w
        show ?thesis by (auto simp: hop_log_def)
      next
        case (Some rep)
        with u True have e: "complete B (after_reply B b capture final ?q rep,
            ?s\<lparr>bs_trace := bs_trace ?s @ [Sent ?w, Closed]\<rparr>) = (h, s')"
          by (simp add: under_permit_def Let_def)
        have f: "follows B b q q' \<and> \<not> final" if "after_reply B b capture final ?q rep = Follow q'" for q'
          using after_reply_follows [OF that] c by (simp add: follows_def)
        have l: "hop_log B b q ([Acquired (hr_url q), Sent ?w, Closed] @ [x])" if "x = Completed \<or> x = CompletionFailed" for x
          using that w unfolding hop_log_def by (intro disjI2 exI [of _ x]) auto
        have t: "bs_trace (?s\<lparr>bs_trace := bs_trace ?s @ [Sent ?w, Closed]\<rparr>)
            = bs_trace s @ [Acquired (hr_url q), Sent ?w, Closed]" by simp
        have "CompletionFailed \<notin> set [Acquired (hr_url q), Sent ?w, Closed]" by simp
        from complete_hop [OF e t l f this] lim show ?thesis by fastforce
      qed
    qed
  qed
qed

section \<open>What a request leaves behind\<close>

fun chained_hops :: "broker_env \<Rightarrow> broker \<Rightarrow> (hop_request \<times> broker_event list) list \<Rightarrow> bool" where
  "chained_hops B b [] = True"
| "chained_hops B b [(q, es)] = hop_log B b q es"
| "chained_hops B b ((q, es) # (q', es') # c) =
     (hop_log B b q es \<and> CompletionFailed \<notin> set es \<and> follows B b q q' \<and> chained_hops B b ((q', es') # c))"

lemma hops_chain:
  assumes "hops B b capture seconds n q s = (r, s')"
  shows "\<exists>c. c \<noteq> [] \<and> fst (hd c) = q \<and> length c \<le> Suc n \<and> chained_hops B b c
    \<and> bs_trace s' = bs_trace s @ concat (map snd c)
    \<and> length (filter (\<lambda>p. snd p \<noteq> []) c) \<le> bs_count s' - bs_count s \<and> bs_count s \<le> bs_count s'
    \<and> bs_count s' \<le> bs_count s + length c \<and> (bs_count s' = bs_count s \<or> bs_count s' \<le> request_limit b)
    \<and> (CompletionFailed \<in> set (snd (last c)) \<longrightarrow> fails_with B r (bs_trace s'))"
  using assms
proof (induction n arbitrary: q s)
  case 0
  obtain h t where h: "one_hop B b capture seconds True q s = (h, t)" by fastforce
  from hop_events [OF h] obtain es where es: "bs_trace t = bs_trace s @ es" "hop_log B b q es"
    "bs_count t = bs_count s \<and> es = [] \<or> bs_count t = Suc (bs_count s) \<and> bs_count s < request_limit b"
    "\<forall>q'. h \<noteq> Follow q'" "CompletionFailed \<in> set es \<longrightarrow> (\<exists>r. h = Finish r \<and> fails_with B r (bs_trace t))" by blast
  with 0 h have "s' = t" "h = Finish r" by (auto simp: hops.simps [of B b capture seconds 0] split: hop.splits)
  with es show ?case by (intro exI [of _ "[(q, es)]"]) auto
next
  case (Suc n)
  obtain h t where h: "one_hop B b capture seconds False q s = (h, t)" by fastforce
  from hop_events [OF h] obtain es where es: "bs_trace t = bs_trace s @ es" "hop_log B b q es"
    "bs_count t = bs_count s \<and> es = [] \<or> bs_count t = Suc (bs_count s) \<and> bs_count s < request_limit b"
    "\<forall>q'. h = Follow q' \<longrightarrow> follows B b q q' \<and> CompletionFailed \<notin> set es"
    "CompletionFailed \<in> set es \<longrightarrow> (\<exists>r. h = Finish r \<and> fails_with B r (bs_trace t))" by blast
  show ?case
  proof (cases h)
    case (Finish x)
    with Suc.prems h have "s' = t" "x = r" by (simp_all add: hops.simps [of B b capture seconds "Suc n"])
    with es Finish show ?thesis by (intro exI [of _ "[(q, es)]"]) auto
  next
    case (Follow q')
    with Suc.prems h have "hops B b capture seconds n q' t = (r, s')"
      by (simp add: hops.simps [of B b capture seconds "Suc n"])
    from Suc.IH [OF this] obtain c where c: "c \<noteq> []" "fst (hd c) = q'" "length c \<le> Suc n" "chained_hops B b c"
      "bs_trace s' = bs_trace t @ concat (map snd c)"
      "length (filter (\<lambda>p. snd p \<noteq> []) c) \<le> bs_count s' - bs_count t" "bs_count t \<le> bs_count s'"
      "bs_count s' \<le> bs_count t + length c" "bs_count s' = bs_count t \<or> bs_count s' \<le> request_limit b"
      "CompletionFailed \<in> set (snd (last c)) \<longrightarrow> fails_with B r (bs_trace s')" by blast
    then obtain es' c' where c': "c = (q', es') # c'" by (cases c) auto
    have "chained_hops B b ((q, es) # c)" using c(4) es(2,4) Follow by (simp add: c')
    moreover have "length (filter (\<lambda>p. snd p \<noteq> []) ((q, es) # c)) \<le> bs_count s' - bs_count s"
      using c(6,7) es(3) by auto
    ultimately show ?thesis using c es(1,3) by (intro exI [of _ "(q, es) # c"]) auto
  qed
qed

lemma request_chain:
  assumes "broker_request B b url m headers data timeout capture s = (r, s')"
  shows "s' = s \<or> (\<exists>c. c \<noteq> [] \<and> length c \<le> Suc (bk_max_redirects b) \<and> chained_hops B b c
    \<and> bs_trace s' = bs_trace s @ concat (map snd c)
    \<and> length (filter (\<lambda>p. snd p \<noteq> []) c) \<le> bs_count s' - bs_count s \<and> bs_count s \<le> bs_count s'
    \<and> bs_count s' \<le> bs_count s + length c \<and> (bs_count s' = bs_count s \<or> bs_count s' \<le> request_limit b)
    \<and> (CompletionFailed \<in> set (snd (last c)) \<longrightarrow> fails_with B r (bs_trace s')))"
proof (cases "case timeout of None \<Rightarrow> False | Some t \<Rightarrow> t \<le> 0")
  case True
  with assms show ?thesis by (simp add: broker_request_def)
next
  case False
  with assms have "hops B b capture (case timeout of None \<Rightarrow> bk_timeout b | Some t \<Rightarrow> min t (bk_timeout b))
      (bk_max_redirects b) \<lparr>hr_url = url, hr_method = upper m, hr_headers = headers, hr_data = data\<rparr> s = (r, s')"
    by (simp only: broker_request_def if_False)
  from hops_chain [OF this] show ?thesis by blast
qed

definition new_events :: "broker_state \<Rightarrow> broker_state \<Rightarrow> broker_event list" where
  "new_events s s' = drop (length (bs_trace s)) (bs_trace s')"

fun wires :: "broker_event list \<Rightarrow> wire list" where
  "wires [] = []"
| "wires (Sent w # es) = w # wires es"
| "wires (e # es) = wires es"

lemma wires_append [simp]: "wires (es @ fs) = wires es @ wires fs"
  by (induction es rule: wires.induct) simp_all

lemma hop_wires: "hop_log B b q es \<Longrightarrow> wires es = [] \<or> (\<exists>w. wires es = [w] \<and> sent_for B b q w)"
  by (auto simp: hop_log_def)

lemma chained_logs: "chained_hops B b c \<Longrightarrow> (q, es) \<in> set c \<Longrightarrow> hop_log B b q es"
  by (induction B b c rule: chained_hops.induct) auto

lemma chain_wires:
  assumes "chained_hops B b c" and "w \<in> set (wires (concat (map snd c)))"
  shows "\<exists>q. sent_for B b q w"
  using assms
proof (induction B b c rule: chained_hops.induct)
  case (2 B b q es)
  then show ?case using hop_wires by fastforce
next
  case (3 B b q es q' es' c)
  then show ?case using hop_wires [of B b q es] by auto
qed simp

lemma chain_wire_count:
  "chained_hops B b c \<Longrightarrow> length (wires (concat (map snd c))) \<le> length (filter (\<lambda>p. snd p \<noteq> []) c)"
proof (induction B b c rule: chained_hops.induct)
  case (2 B b q es)
  then show ?case using hop_wires [of B b q es] by auto
next
  case (3 B b q es q' es' c)
  then show ?case using hop_wires [of B b q es] by auto
qed simp

lemma sent_wire_checked:
  assumes "broker_request B b url m headers data timeout capture s = (r, s')"
    and "w \<in> set (wires (new_events s s'))"
  shows "valid_target B b (w_url w) (w_method w)
    \<and> (\<exists>raw now. w_body w = (if raw = [] then None else Some raw)
         \<and> admitted B b (physical B (w_url w) (w_method w) (w_headers w) raw now))"
proof -
  obtain c where "chained_hops B b c" "bs_trace s' = bs_trace s @ concat (map snd c)"
  proof (cases "s' = s")
    case True
    with assms(2) show ?thesis by (simp add: new_events_def)
  next
    case False
    then show ?thesis using request_chain [OF assms(1)] that by blast
  qed
  then have "\<exists>q. sent_for B b q w" using chain_wires assms(2) by (simp add: new_events_def)
  then show ?thesis unfolding sent_for_def by blast
qed

text \<open>
  Nothing leaves the boundary unchecked.  Every physical request that a logical request
  sends, the first hop and every redirect, goes to a URL and with a method that the target policy
  allows for the authority of the broker, without credentials in the URL, and was admitted by the
  exclusion guard with the very headers and body it carries.
\<close>

theorem broker_sends_only_authorized:
  assumes "broker_request B b url m headers data timeout capture s = (r, s')"
    and "w \<in> set (wires (new_events s s'))"
  shows "valid_target B b (w_url w) (w_method w)
    \<and> (\<exists>raw now. w_body w = (if raw = [] then None else Some raw)
         \<and> admitted B b (physical B (w_url w) (w_method w) (w_headers w) raw now))"
  using assms by (rule sent_wire_checked)

lemma request_hops_bounded:
  assumes "broker_request B b url m headers data timeout capture s = (r, s')"
  shows "length (wires (new_events s s')) \<le> bs_count s' - bs_count s
    \<and> bs_count s' - bs_count s \<le> Suc (bk_max_redirects b)
    \<and> bs_count s' \<le> max (bs_count s) (request_limit b)"
proof (cases "s' = s")
  case True
  then show ?thesis by (simp add: new_events_def)
next
  case False
  with request_chain [OF assms] obtain c where c: "length c \<le> Suc (bk_max_redirects b)" "chained_hops B b c"
    "bs_trace s' = bs_trace s @ concat (map snd c)"
    "length (filter (\<lambda>p. snd p \<noteq> []) c) \<le> bs_count s' - bs_count s"
    "bs_count s' \<le> bs_count s + length c" "bs_count s' = bs_count s \<or> bs_count s' \<le> request_limit b" by blast
  have "length (wires (new_events s s')) \<le> bs_count s' - bs_count s"
    using chain_wire_count [OF c(2)] c(3,4) by (simp add: new_events_def)
  with c show ?thesis by auto
qed

text \<open>
  C27: the hops are bounded and paid for.  A logical request sends at most one physical request
  more than its redirect limit, counts every one of them before it is sent, and never moves the
  counter past the request limit of the broker.
\<close>

theorem broker_hops_bounded:
  assumes "broker_request B b url m headers data timeout capture s = (r, s')"
  shows "length (wires (new_events s s')) \<le> bs_count s' - bs_count s
    \<and> bs_count s' - bs_count s \<le> Suc (bk_max_redirects b)
    \<and> bs_count s' \<le> max (bs_count s) (request_limit b)"
  using assms by (rule request_hops_bounded)

text \<open>
  A well-bracketed log: one send at most per permit, and every permit is given back.  An unsettled
  permit is the same, but for the completion, which raised.
\<close>

fun permits_settled :: "broker_event list \<Rightarrow> bool" where
  "permits_settled [] = True"
| "permits_settled (Acquired u # Completed # es) = permits_settled es"
| "permits_settled (Acquired u # Sent w # Completed # es) = (w_url w = u \<and> permits_settled es)"
| "permits_settled (Acquired u # Sent w # Closed # Completed # es) = (w_url w = u \<and> permits_settled es)"
| "permits_settled _ = False"

fun permit_unsettled :: "broker_event list \<Rightarrow> bool" where
  "permit_unsettled [Acquired u, CompletionFailed] = True"
| "permit_unsettled [Acquired u, Sent w, CompletionFailed] = (w_url w = u)"
| "permit_unsettled [Acquired u, Sent w, Closed, CompletionFailed] = (w_url w = u)"
| "permit_unsettled _ = False"

lemma hop_settled:
  "hop_log B b q es \<Longrightarrow> CompletionFailed \<notin> set es \<Longrightarrow> permits_settled (es @ fs) = permits_settled fs"
  by (auto simp: hop_log_def sent_for_def)

lemma hop_unsettled: "hop_log B b q es \<Longrightarrow> CompletionFailed \<in> set es \<Longrightarrow> permit_unsettled es"
  by (auto simp: hop_log_def sent_for_def)

lemma chain_settled:
  "chained_hops B b c \<Longrightarrow> c \<noteq> [] \<Longrightarrow> \<exists>settled rest. concat (map snd c) = settled @ rest \<and> permits_settled settled
     \<and> (rest = [] \<or> permit_unsettled rest \<and> CompletionFailed \<in> set (snd (last c)))"
proof (induction B b c rule: chained_hops.induct)
  case (2 B b q es)
  then show ?case
    using hop_settled [of B b q es "[]"] hop_unsettled [of B b q es]
    by (cases "CompletionFailed \<in> set es") (auto intro: exI [of _ "[]"])
next
  case (3 B b q es q' es' c)
  then obtain settled rest where i: "concat (map snd ((q', es') # c)) = settled @ rest" "permits_settled settled"
    "rest = [] \<or> permit_unsettled rest \<and> CompletionFailed \<in> set (snd (last ((q', es') # c)))" by auto
  have "permits_settled (es @ settled)" using hop_settled [of B b q es settled] 3(2) i(2) by simp
  then show ?case using i by (intro exI [of _ "es @ settled"] exI [of _ rest]) simp
qed simp

text \<open>
  C26: every permit is used once and given back, or the request ends there.  Whatever a logical
  request runs into (a refused wait or admission, a transport or a reply that raises, a redirect
  that is denied), the events it leaves are permits that were acquired for a URL, used for at most
  one physical request to that URL, and completed before the next one is acquired and before the
  request returns.  The one exception is a last permit whose completion itself raised: then that
  failure is what the caller gets, and nothing was acquired or sent after it.
\<close>

theorem broker_settles_every_permit:
  assumes "broker_request B b url m headers data timeout capture s = (r, s')"
  shows "\<exists>settled rest. new_events s s' = settled @ rest \<and> permits_settled settled
    \<and> (rest = [] \<or> permit_unsettled rest \<and> r = Inl Raised
         \<and> (\<exists>before. bs_trace s' = before @ [CompletionFailed] \<and> \<not> be_complete B before))"
proof (cases "s' = s")
  case True
  then show ?thesis by (intro exI [of _ "[]"]) (simp add: new_events_def)
next
  case False
  with request_chain [OF assms] obtain c where c: "c \<noteq> []" "chained_hops B b c" "new_events s s' = concat (map snd c)"
    "CompletionFailed \<in> set (snd (last c)) \<longrightarrow> fails_with B r (bs_trace s')" by (auto simp: new_events_def)
  from chain_settled [OF c(2,1)] c(3,4) show ?thesis unfolding fails_with_def by metis
qed

lemma clean_chain:
  "chained_hops B b c \<Longrightarrow> c \<noteq> [] \<Longrightarrow> clean b (hr_headers (fst (hd c)))
     \<Longrightarrow> w \<in> set (wires (concat (map snd c))) \<Longrightarrow> clean b (w_headers w)"
proof (induction B b c rule: chained_hops.induct)
  case (2 B b q es)
  then show ?case using hop_wires [of B b q es] clean_identified clean_prepared by (fastforce simp: sent_for_def)
next
  case (3 B b q es q' es' c)
  have "clean b (hr_headers q')" using 3(2,4) by (simp add: follows_def)
  moreover have "clean b (w_headers w)" if "w \<in> set (wires es)"
    using that hop_wires [of B b q es] 3(2,4) clean_identified clean_prepared by (fastforce simp: sent_for_def)
  ultimately show ?case using 3 by auto
qed simp

lemma crossed_chain:
  "chained_hops B b c \<Longrightarrow> c \<noteq> [] \<Longrightarrow> w \<in> set (wires (concat (map snd c)))
     \<Longrightarrow> origin_of (net B) (w_url w) \<noteq> origin_of (net B) (hr_url (fst (hd c))) \<Longrightarrow> clean b (w_headers w)"
proof (induction B b c rule: chained_hops.induct)
  case (2 B b q es)
  then show ?case using hop_wires [of B b q es] by (auto simp: sent_for_def)
next
  case (3 B b q es q' es' c)
  have "w \<notin> set (wires es)" using 3(2,5) hop_wires [of B b q es] by (auto simp: sent_for_def)
  then have w: "w \<in> set (wires (concat (map snd ((q', es') # c))))" using 3(4) by simp
  show ?case
  proof (cases "origin_of (net B) (hr_url q) = origin_of (net B) (hr_url q')")
    case True
    with 3 w show ?thesis by simp
  next
    case False
    then have "clean b (hr_headers q')" using 3(2) by (auto simp: follows_def)
    then show ?thesis using clean_chain [of B b "(q', es') # c"] 3(2) w by simp
  qed
qed simp

lemma crossed_pairs:
  "chained_hops B b c \<Longrightarrow> ws = wires (concat (map snd c)) \<Longrightarrow> i < j \<Longrightarrow> j < length ws
     \<Longrightarrow> origin_of (net B) (w_url (ws ! j)) \<noteq> origin_of (net B) (w_url (ws ! i)) \<Longrightarrow> clean b (w_headers (ws ! j))"
proof (induction B b c arbitrary: ws i j rule: chained_hops.induct)
  case (2 B b q es)
  then show ?case using hop_wires [of B b q es] by auto
next
  case (3 B b q es q' es' c)
  let ?r = "wires (concat (map snd ((q', es') # c)))"
  have log: "hop_log B b q es" "chained_hops B b ((q', es') # c)" using 3(2) by simp_all
  from hop_wires [OF log(1)] show ?case
  proof
    assume "wires es = []"
    with 3(1) [OF log(2) refl] 3(3-) show ?thesis by simp
  next
    assume "\<exists>w. wires es = [w] \<and> sent_for B b q w"
    then obtain w where w: "ws = w # ?r" "w_url w = hr_url q" using 3(3) by (auto simp: sent_for_def)
    obtain k where k: "j = Suc k" "k < length ?r" using 3(4,5) w by (cases j) auto
    show ?thesis
    proof (cases i)
      case 0
      have "ws ! j \<in> set (wires (concat (map snd ((q, es) # (q', es') # c))))" using 3(3,5) nth_mem by blast
      moreover have "origin_of (net B) (w_url (ws ! j)) \<noteq> origin_of (net B) (hr_url q)" using 3(6) 0 w by simp
      ultimately show ?thesis using crossed_chain [OF 3(2), of "ws ! j"] by simp
    next
      case (Suc l)
      then show ?thesis using 3(1) [OF log(2) refl, of l k] k 3(4,6) w by simp
    qed
  qed
qed simp

text \<open>
  C3: credentials do not cross origins.  If two physical requests of one logical request go to
  different origins, the later one carries no sensitive header of the caller: its only sensitive
  headers are the researcher identity that the policy itself prescribes.
\<close>

theorem credentials_stay_on_their_origin:
  assumes "broker_request B b url m headers data timeout capture s = (r, s')"
    and "i < j" and "j < length (wires (new_events s s'))"
    and "origin_of (net B) (w_url (wires (new_events s s') ! j)) \<noteq> origin_of (net B) (w_url (wires (new_events s s') ! i))"
  shows "filter (\<lambda>(n, v). is_sensitive_header n \<and> lower n \<notin> controlled b) (w_headers (wires (new_events s s') ! j)) = []"
proof -
  obtain c where c: "chained_hops B b c" "bs_trace s' = bs_trace s @ concat (map snd c)"
  proof (cases "s' = s")
    case True
    with assms(3) show ?thesis by (simp add: new_events_def)
  next
    case False
    then show ?thesis using request_chain [OF assms(1)] that by blast
  qed
  then have "new_events s s' = concat (map snd c)" by (simp add: new_events_def)
  then have "clean b (w_headers (wires (new_events s s') ! j))" using crossed_pairs [OF c(1) _ assms(2)] assms(3,4) by simp
  then show ?thesis by (auto simp: clean_def filter_empty_conv)
qed

section \<open>A worked request\<close>

text \<open>A GET with a session to \<open>a.co\<close>, redirected to the allowed host \<open>b.co\<close>.\<close>

definition sample_broker :: broker where
  "sample_broker = \<lparr>bk_policy = sample_policy\<lparr>tp_hosts := [''a.co'', ''b.co'']\<rparr>, bk_exclusions = None, bk_required = [],
     bk_username = None, bk_max_requests = 5, bk_timeout = 10, bk_max_redirects = 3, bk_max_body = 100,
     bk_budget = None, bk_validation = False\<rparr>"

definition sample_reply :: "string \<Rightarrow> reply" where
  "sample_reply url = (if url = ''https://a.co/x''
     then \<lparr>rp_status = 302, rp_headers = [(''Location'', ''https://b.co/x'')], rp_readable = True, rp_body = Some []\<rparr>
     else \<lparr>rp_status = 200, rp_headers = [], rp_readable = True, rp_body = Some ''ok''\<rparr>)"

definition sample_world :: broker_env where
  "sample_world = \<lparr>be_guard = sample_guard_env, be_join = (\<lambda>u l. Some l), be_agent = ''ua'', be_identity = True,
     be_acquire = (\<lambda>t u x. Some x), be_wait = (\<lambda>t. True), be_now = (\<lambda>t. 0),
     be_transport = (\<lambda>t w x. Some (sample_reply (w_url w))), be_complete = (\<lambda>t. True)\<rparr>"

lemma sample_valid:
  "valid_target sample_world sample_broker ''https://a.co/x'' ''GET''"
  "valid_target sample_world sample_broker ''https://b.co/x'' ''GET''"
  by (simp_all add: valid_target_def sample_world_def sample_broker_def sample_policy_def truthy_text_def allows_url_def
      policy_eval str_eval)

lemma sample_admitted: "admitted sample_world sample_broker r"
  by (simp add: admitted_def request_admitted_def check_request_exclusions_def evaluate_exclusions_def sample_broker_def)

lemma sample_origins:
  "origin_of (net sample_world) ''https://a.co/x'' = Some (''https'', Some ''a.co'', 443)"
  "origin_of (net sample_world) ''https://b.co/x'' = Some (''https'', Some ''b.co'', 443)"
  by (simp_all add: origin_of_def sample_world_def str_eval)

lemma sample_prepared:
  "prepare_http_request sample_world ''https://a.co/x'' ''GET'' [(''Cookie'', ''s'')] None
     = Some ([(''Cookie'', ''s''), (''Host'', ''a.co''), (''User-Agent'', ''ua''), (''Accept-Encoding'', ''identity''), (''Connection'', ''close'')], [])"
  "prepare_http_request sample_world ''https://b.co/x'' ''GET'' [] None
     = Some ([(''Host'', ''b.co''), (''User-Agent'', ''ua''), (''Accept-Encoding'', ''identity''), (''Connection'', ''close'')], [])"
  by (simp_all add: prepare_http_request_def sample_methods guard_headers_def header_value_ok_def update_all_def set_default_def
      connection_headers_def body_headers_def dict_get_def title_def sample_world_def guard_eval str_eval)

definition sample_first :: wire where
  "sample_first = \<lparr>w_url = ''https://a.co/x'', w_method = ''GET'', w_headers = [(''Cookie'', ''s''), (''Host'', ''a.co''),
     (''User-Agent'', ''ua''), (''Accept-Encoding'', ''identity''), (''Connection'', ''close'')], w_body = None\<rparr>"

definition sample_second :: wire where
  "sample_second = \<lparr>w_url = ''https://b.co/x'', w_method = ''GET'', w_headers = [(''Host'', ''b.co''),
     (''User-Agent'', ''ua''), (''Accept-Encoding'', ''identity''), (''Connection'', ''close'')], w_body = None\<rparr>"

definition sample_trace :: "broker_event list" where
  "sample_trace = [Acquired ''https://a.co/x'', Sent sample_first, Closed, Completed,
     Acquired ''https://b.co/x'', Sent sample_second, Closed, Completed]"

lemma sample_world_simps [simp]:
  "be_acquire sample_world t u x = Some x" "be_wait sample_world t" "be_transport sample_world t w x = Some (sample_reply (w_url w))"
  "be_complete sample_world t" "be_join sample_world u l = Some l"
  by (simp_all add: sample_world_def)

lemma sample_reply_simps:
  "redirects (sample_reply ''https://a.co/x'')" "\<not> redirects (sample_reply ''https://b.co/x'')"
  "location_of (sample_reply ''https://a.co/x'') = Some ''https://b.co/x''"
  "\<not> becomes_get (sample_reply ''https://a.co/x'') ''GET''"
  by (simp_all add: redirects_def location_of_def sample_reply_def truthy_text_def update_all_def becomes_get_def str_eval)

lemma sample_broker_simps [simp]:
  "identified sample_broker hs = Some hs" "request_limit sample_broker = 5" "bk_max_redirects sample_broker = 3"
  by (simp_all add: identified_def request_limit_def sample_broker_def truthy_text_def or_empty_def)

lemma sample_run:
  "broker_request sample_world sample_broker ''https://a.co/x'' ''get'' [(''Cookie'', ''s'')] None None True
     \<lparr>bs_count = 0, bs_trace = []\<rparr>
   = (Inr \<lparr>re_status = 200, re_url = ''https://b.co/x'', re_headers = [], re_body = ''ok''\<rparr>,
      \<lparr>bs_count = 2, bs_trace = sample_trace\<rparr>)"
proof -
  have g: "upper ''get'' = ''GET''" by (simp add: str_eval)
  have n: "is_sensitive_header ''Cookie''" by (simp add: is_sensitive_header_def dashed_def str_eval)
  let ?q = "\<lparr>hr_url = ''https://a.co/x'', hr_method = ''GET'', hr_headers = [(''Cookie'', ''s'')], hr_data = None\<rparr>"
  let ?q' = "\<lparr>hr_url = ''https://b.co/x'', hr_method = ''GET'', hr_headers = [], hr_data = None\<rparr>"
  let ?s = "\<lparr>bs_count = Suc 0, bs_trace = [Acquired ''https://a.co/x'', Sent sample_first, Closed, Completed]\<rparr>"
  have one: "one_hop sample_world sample_broker True x False ?q \<lparr>bs_count = 0, bs_trace = []\<rparr> = (Follow ?q', ?s)" for x
    by (simp add: one_hop_def sample_valid sample_prepared sample_admitted under_permit_def complete_def after_reply_def
        sample_reply_simps rewritten_def sample_origins uncredentialed_def n sample_first_def Let_def or_empty_def)
  have two: "one_hop sample_world sample_broker True x False ?q' ?s
     = (Finish (Inr \<lparr>re_status = 200, re_url = ''https://b.co/x'', re_headers = [], re_body = ''ok''\<rparr>), \<lparr>bs_count = 2, bs_trace = sample_trace\<rparr>)" for x
    by (simp add: one_hop_def sample_valid sample_prepared sample_admitted under_permit_def complete_def after_reply_def
        sample_reply_simps answer_def sample_second_def sample_trace_def Let_def)
      (simp add: sample_reply_def sanitize_headers_def update_all_def sample_broker_def)
  show ?thesis
    by (simp add: broker_request_def g hops.simps [of _ _ _ _ 3] hops.simps [of _ _ _ _ 2] one two)
qed

lemma sample_wires: "wires (new_events \<lparr>bs_count = 0, bs_trace = []\<rparr> \<lparr>bs_count = 2, bs_trace = sample_trace\<rparr>)
    = [sample_first, sample_second]"
  by (simp add: new_events_def sample_trace_def)

text \<open>The four theorems at that request.\<close>

lemma broker_sends_only_authorized_witness:
  "valid_target sample_world sample_broker ''https://b.co/x'' ''GET''"
  using broker_sends_only_authorized [OF sample_run, of sample_second] unfolding sample_wires
  by (simp add: sample_second_def)

lemma broker_hops_bounded_witness:
  "length [sample_first, sample_second] \<le> Suc 3 \<and> (2::nat) \<le> max 0 5"
  using broker_hops_bounded [OF sample_run] unfolding sample_wires by simp

lemma broker_settles_every_permit_witness:
  "permits_settled (new_events \<lparr>bs_count = 0, bs_trace = []\<rparr> \<lparr>bs_count = 2, bs_trace = sample_trace\<rparr>)"
  using broker_settles_every_permit [OF sample_run] by auto

lemma credentials_stay_on_their_origin_witness:
  "filter (\<lambda>(n, v). is_sensitive_header n \<and> lower n \<notin> controlled sample_broker) (w_headers sample_second) = []
   \<and> filter (\<lambda>(n, v). is_sensitive_header n) (w_headers sample_first) = [(''Cookie'', ''s'')]"
proof -
  have "origin_of (net sample_world) (w_url sample_second) \<noteq> origin_of (net sample_world) (w_url sample_first)"
    by (simp add: sample_first_def sample_second_def sample_origins)
  then have "filter (\<lambda>(n, v). is_sensitive_header n \<and> lower n \<notin> controlled sample_broker) (w_headers sample_second) = []"
    using credentials_stay_on_their_origin [OF sample_run, of 0 1] unfolding sample_wires by simp
  moreover have "filter (\<lambda>(n, v). is_sensitive_header n) (w_headers sample_first) = [(''Cookie'', ''s'')]"
    by (simp add: sample_first_def is_sensitive_header_def dashed_def str_eval)
  ultimately show ?thesis by blast
qed

end
