(* ===== verification/Budget_Ledger.thy ===== *)
theory Budget_Ledger
  imports Interfaces Request_Broker
begin

text \<open>
  \<open>src/src/aidast/attack/authorization.py\<close> and \<open>src/src/aidast/core/policy_service.py\<close>: the signed
  approval of a run, the durable ledger that charges every observation to the budgets of its run,
  target and identity before it is dispatched, and the service that sends an approved observation
  through the request broker.  Timestamps are rationals, digests and the signature check are
  functions of \<open>approval_env\<close>, the reservation identifier is an argument.
\<close>

section \<open>Approvals\<close>

record limits =
  lm_requests :: int
  lm_bytes :: int
  lm_seconds :: rat
  lm_rate :: rat
  lm_concurrency :: int
  lm_timeout :: rat

definition limits_ok :: "limits \<Rightarrow> bool" where
  "limits_ok l \<longleftrightarrow> 1 \<le> lm_requests l \<and> 1 \<le> lm_bytes l \<and> 0 < lm_seconds l \<and> 0 < lm_rate l \<and> lm_rate l \<le> 50
     \<and> 1 \<le> lm_concurrency l \<and> lm_concurrency l \<le> 20 \<and> 0 < lm_timeout l \<and> lm_timeout l \<le> 120"

record auth_bindings =
  ab_run :: string
  ab_scan :: string
  ab_scope :: string
  ab_policy :: string
  ab_handoff :: string
  ab_plan :: string
  ab_catalog :: string
  ab_revision :: int

record request_intent = auth_bindings +
  ri_task :: string
  ri_adapter :: string
  ri_endpoint :: string
  ri_url :: string
  ri_method :: string
  ri_credential :: "string option"
  ri_identity_origin :: "string option"
  ri_identity_audience :: "string option"
  ri_identity_tenant :: "string option"
  ri_role :: "string option"
  ri_max_bytes :: int

record scoped_budget =
  sg_key :: string
  sg_budget :: limits

record run_authorization = auth_bindings +
  ra_id :: string
  ra_issued :: rat
  ra_not_before :: rat
  ra_expires :: rat
  ra_tasks :: "string list"
  ra_adapters :: "string list"
  ra_credentials :: "string list"
  ra_roles :: "string list"
  ra_intents :: "string list"
  ra_budget :: limits
  ra_target_budgets :: "scoped_budget list"
  ra_identity_budgets :: "scoped_budget list"
  ra_generation :: int
  ra_signature :: string

record approval_env =
  ae_digest :: "run_authorization \<Rightarrow> string"
  ae_intent :: "request_intent \<Rightarrow> string"
  ae_policy :: "broker \<Rightarrow> string"
  ae_verify :: "run_authorization \<Rightarrow> bool"

text \<open>The field types and \<open>validate_contract\<close>.\<close>

definition authorization_ok :: "run_authorization \<Rightarrow> bool" where
  "authorization_ok a \<longleftrightarrow>
     ra_issued a \<le> ra_not_before a \<and> ra_not_before a < ra_expires a
     \<and> ra_tasks a \<noteq> [] \<and> ra_adapters a \<noteq> []
     \<and> distinct (ra_tasks a) \<and> distinct (ra_adapters a) \<and> distinct (ra_credentials a)
     \<and> distinct (ra_roles a) \<and> distinct (ra_intents a)
     \<and> distinct (map sg_key (ra_target_budgets a)) \<and> distinct (map sg_key (ra_identity_budgets a))
     \<and> limits_ok (ra_budget a) \<and> list_all (limits_ok \<circ> sg_budget) (ra_target_budgets a @ ra_identity_budgets a)
     \<and> 0 \<le> ra_generation a"

definition intent_ok :: "request_intent \<Rightarrow> bool" where
  "intent_ok i \<longleftrightarrow> ri_task i \<noteq> [] \<and> ri_adapter i \<noteq> [] \<and> ri_endpoint i \<noteq> [] \<and> ri_url i \<noteq> []
     \<and> ri_method i \<in> safe_methods \<and> 0 \<le> ri_max_bytes i \<and> ri_max_bytes i \<le> 200000"

datatype approval_error = AuthErr string | BudgetErr string | BrokerErr broker_error

definition validate_authorization ::
  "approval_env \<Rightarrow> run_authorization \<Rightarrow> auth_bindings \<Rightarrow> rat \<Rightarrow> int \<Rightarrow> (approval_error, unit) result" where
  "validate_authorization V a bindings now generation =
     (if \<not> authorization_ok a then Inl (AuthErr ''invalid authorization'')
      else if \<not> ae_verify V a then Inl (AuthErr ''authorization issuer or signature is not trusted'')
      else if \<not> (ra_issued a \<le> ra_not_before a \<and> ra_not_before a \<le> now \<and> now < ra_expires a)
      then Inl (AuthErr ''authorization has not started or has expired'')
      else if ra_generation a \<noteq> generation then Inl (AuthErr ''authorization has been revoked'')
      else if auth_bindings.truncate a \<noteq> bindings then Inl (AuthErr ''authorization binding mismatch'')
      else Inr ())"

definition approved_in :: "string option \<Rightarrow> string list \<Rightarrow> bool" where
  "approved_in x xs = (case x of None \<Rightarrow> True | Some y \<Rightarrow> y \<in> set xs)"

definition validate_intent ::
  "approval_env \<Rightarrow> run_authorization \<Rightarrow> request_intent \<Rightarrow> (approval_error, unit) result" where
  "validate_intent V a i =
     (if \<not> intent_ok i then Inl (AuthErr ''invalid intent'')
      else if auth_bindings.truncate a \<noteq> auth_bindings.truncate i then Inl (AuthErr ''request binding mismatch'')
      else if ri_task i \<notin> set (ra_tasks a) \<or> ri_adapter i \<notin> set (ra_adapters a)
      then Inl (AuthErr ''task or adapter is not approved'')
      else if \<not> approved_in (ri_credential i) (ra_credentials a) then Inl (AuthErr ''credential reference is not approved'')
      else if \<not> approved_in (ri_role i) (ra_roles a) then Inl (AuthErr ''identity role is not approved'')
      else if ae_intent V i \<notin> set (ra_intents a) then Inl (AuthErr ''exact request intent is not approved'')
      else Inr ())"

section \<open>The ledger\<close>

datatype reservation_status = RsReserved | RsCompleted | RsFailed | RsUnknown

record policy_auth =
  pa_id :: string
  pa_digest :: string
  pa_run :: string
  pa_generation :: int

record policy_reservation =
  pv_id :: string
  pv_auth :: string
  pv_run :: string
  pv_target :: string
  pv_identity :: string
  pv_intent :: string
  pv_at :: rat
  pv_bytes :: int
  pv_status :: reservation_status

record policy_receipt =
  pt_id :: string
  pt_status :: reservation_status
  pt_bytes :: int
  pt_at :: rat

record budget_db =
  bd_auths :: "policy_auth list"
  bd_reservations :: "policy_reservation list"
  bd_receipts :: "policy_receipt list"

record reservation =
  rv_id :: string
  rv_bytes :: int
  rv_timeout :: rat

text \<open>
  Every operation is one SQLite transaction (\<open>with connection\<close>): it commits, or it is rolled back
  and a \<open>sqlite3.Error\<close> becomes the \<open>BudgetError\<close> of the operation.  The error can come before
  the body has found anything (connecting, \<open>BEGIN IMMEDIATE\<close> on a locked ledger, the first
  statement), or after the body's own checks, in its last statements or in the commit.
\<close>

datatype sqlite_io = Works | Fails | CommitFails

definition in_tx :: "string \<Rightarrow> sqlite_io \<Rightarrow> (approval_error, 'a) result \<Rightarrow> (approval_error, 'a) result" where
  "in_tx message io body =
     (case io of
        Works \<Rightarrow> body
      | Fails \<Rightarrow> Inl (BudgetErr message)
      | CommitFails \<Rightarrow> bindR body (\<lambda>_. Inl (BudgetErr message)))"

lemma in_tx_Inr [simp]: "in_tx message io body = Inr x \<longleftrightarrow> io = Works \<and> body = Inr x"
  by (cases io; cases body) (auto simp: in_tx_def)

lemma in_tx_Works [simp]: "in_tx message Works body = body"
  by (simp add: in_tx_def)

lemma in_tx_isl: "io \<noteq> Works \<Longrightarrow> isl (in_tx message io body)"
  by (cases io; cases body) (auto simp: in_tx_def)

definition enroll :: "sqlite_io \<Rightarrow> approval_env \<Rightarrow> run_authorization \<Rightarrow> budget_db \<Rightarrow> (approval_error, budget_db) result" where
  "enroll io V a D = in_tx ''cannot persist authorization'' io
     (case find_row pa_id (ra_id a) (bd_auths D) of
        Some row \<Rightarrow> if pa_digest row \<noteq> ae_digest V a
          then Inl (BudgetErr ''authorization ID already binds a different document'') else Inr D
      | None \<Rightarrow> Inr (D\<lparr>bd_auths := bd_auths D @ [\<lparr>pa_id = ra_id a, pa_digest = ae_digest V a,
                  pa_run = ab_run a, pa_generation = ra_generation a\<rparr>]\<rparr>))"

definition generation :: "sqlite_io \<Rightarrow> string \<Rightarrow> budget_db \<Rightarrow> (approval_error, int) result" where
  "generation io ident D = in_tx ''cannot read revocation state'' io
     (case find_row pa_id ident (bd_auths D) of
        None \<Rightarrow> Inl (BudgetErr ''authorization is not enrolled'')
      | Some row \<Rightarrow> Inr (pa_generation row))"

definition revoke :: "sqlite_io \<Rightarrow> string \<Rightarrow> budget_db \<Rightarrow> (approval_error, budget_db) result" where
  "revoke io ident D = in_tx ''cannot persist revocation'' io
     (if rowcount (\<lambda>r. pa_id r = ident) (bd_auths D) \<noteq> 1 then Inl (BudgetErr ''authorization is not enrolled'')
      else Inr (D\<lparr>bd_auths := update_where (\<lambda>r. pa_id r = ident)
                  (\<lambda>r. r\<lparr>pa_generation := pa_generation r + 1\<rparr>) (bd_auths D)\<rparr>))"

text \<open>\<open>_origin\<close> of a URL as a text; None is a ValueError.\<close>

definition origin_text :: "net_env \<Rightarrow> string \<Rightarrow> string option" where
  "origin_text E url =
     (case urlsplit E url of
        None \<Rightarrow> None
      | Some u \<Rightarrow> (case u_port u of
          None \<Rightarrow> None
        | Some q \<Rightarrow>
            let host = or_empty (u_hostname u);
                host = (if CHR '':'' \<in> set host then ''['' @ host @ '']'' else host)
            in Some (u_scheme u @ ''://'' @ host @ '':'' @ decimal (or_default_port q (u_scheme u)))))"

definition earliest :: "policy_reservation list \<Rightarrow> rat option" where
  "earliest rows = (case map pv_at rows of [] \<Rightarrow> None | x # xs \<Rightarrow> Some (foldl min x xs))"

definition latest :: "policy_reservation list \<Rightarrow> rat option" where
  "latest rows = (case map pv_at rows of [] \<Rightarrow> None | x # xs \<Rightarrow> Some (foldl max x xs))"

definition check_scope ::
  "limits \<Rightarrow> rat \<Rightarrow> int \<Rightarrow> policy_reservation list \<Rightarrow> rat \<Rightarrow> (approval_error, rat) result" where
  "check_scope l now amount rows timeout =
     (if lm_requests l \<le> int (length rows) \<or> lm_bytes l < sum_list (map pv_bytes rows) + amount
      then Inl (BudgetErr ''request or byte budget exhausted'')
      else if lm_concurrency l \<le> int (rowcount (\<lambda>r. pv_status r = RsReserved) rows)
      then Inl (BudgetErr ''concurrency budget exhausted'')
      else if (case earliest rows of None \<Rightarrow> False | Some t \<Rightarrow> lm_seconds l \<le> now - t)
      then Inl (BudgetErr ''elapsed time budget exhausted'')
      else if (case latest rows of None \<Rightarrow> False | Some t \<Rightarrow> now - t < 1 / lm_rate l)
      then Inl (BudgetErr ''request rate budget exhausted'')
      else Inr (min (min timeout (lm_timeout l))
             (case earliest rows of None \<Rightarrow> lm_seconds l | Some t \<Rightarrow> lm_seconds l - (now - t))))"

definition budget_for :: "string \<Rightarrow> scoped_budget list \<Rightarrow> limits \<Rightarrow> limits" where
  "budget_for key bs own = (case find (\<lambda>b. sg_key b = key) bs of None \<Rightarrow> own | Some b \<Rightarrow> sg_budget b)"

definition run_rows :: "string \<Rightarrow> budget_db \<Rightarrow> policy_reservation list" where
  "run_rows run D = filter (\<lambda>r. pv_run r = run) (bd_reservations D)"

definition reserve ::
  "sqlite_io \<Rightarrow> net_env \<Rightarrow> approval_env \<Rightarrow> string \<Rightarrow> run_authorization \<Rightarrow> request_intent \<Rightarrow> rat \<Rightarrow> budget_db
     \<Rightarrow> (approval_error, reservation \<times> budget_db) result" where
  "reserve io E V fresh a i now D =
     (case origin_text E (ri_url i) of
        None \<Rightarrow> Inl (AuthErr ''invalid URL'')
      | Some target \<Rightarrow>
          let identity = (if truthy_text (ri_credential i) then or_empty (ri_credential i) else ''anonymous'');
              rows = run_rows (ab_run a) D
          in in_tx ''cannot reserve durable request budget'' io (case find_row pa_id (ra_id a) (bd_auths D) of
                None \<Rightarrow> Inl (BudgetErr ''authorization changed or was revoked'')
              | Some stored \<Rightarrow>
                  if pa_digest stored \<noteq> ae_digest V a \<or> pa_generation stored \<noteq> ra_generation a
                  then Inl (BudgetErr ''authorization changed or was revoked'')
                  else if \<not> (ra_not_before a \<le> now \<and> now < ra_expires a)
                  then Inl (BudgetErr ''authorization is outside its validity interval'')
                  else
                    bindR (check_scope (ra_budget a) now (ri_max_bytes i) rows
                             (min (lm_timeout (ra_budget a)) (ra_expires a - now))) (\<lambda>t1.
                    bindR (check_scope (budget_for target (ra_target_budgets a) (ra_budget a)) now (ri_max_bytes i)
                             (filter (\<lambda>r. pv_target r = target) rows) t1) (\<lambda>t2.
                    bindR (check_scope (budget_for identity (ra_identity_budgets a) (ra_budget a)) now (ri_max_bytes i)
                             (filter (\<lambda>r. pv_identity r = identity) rows) t2) (\<lambda>t3.
                      if fresh \<in> pv_id ` set (bd_reservations D) \<or> fresh \<in> pt_id ` set (bd_receipts D)
                      then Inl (BudgetErr ''cannot reserve durable request budget'')
                      else Inr (\<lparr>rv_id = fresh, rv_bytes = ri_max_bytes i, rv_timeout = t3\<rparr>,
                        D\<lparr>bd_reservations := bd_reservations D @ [\<lparr>pv_id = fresh, pv_auth = ra_id a, pv_run = ab_run a,
                             pv_target = target, pv_identity = identity, pv_intent = ae_intent V i, pv_at = now,
                             pv_bytes = ri_max_bytes i, pv_status = RsReserved\<rparr>],
                          bd_receipts := bd_receipts D @ [\<lparr>pt_id = fresh, pt_status = RsReserved, pt_bytes = 0, pt_at = now\<rparr>]\<rparr>))))))"

definition settle ::
  "sqlite_io \<Rightarrow> reservation \<Rightarrow> reservation_status \<Rightarrow> int \<Rightarrow> rat \<Rightarrow> budget_db \<Rightarrow> (approval_error, budget_db) result" where
  "settle io v status amount now D =
     (if status = RsReserved \<or> \<not> (0 \<le> amount \<and> amount \<le> rv_bytes v) then Inl (BudgetErr ''invalid broker receipt'')
      else in_tx ''cannot persist broker receipt'' io
      (if rowcount (\<lambda>r. pv_id r = rv_id v \<and> pv_status r = RsReserved) (bd_reservations D) \<noteq> 1
      then Inl (BudgetErr ''reservation is missing or already completed'')
      else if rowcount (\<lambda>r. pt_id r = rv_id v \<and> pt_status r = RsReserved) (bd_receipts D) \<noteq> 1
      then Inl (BudgetErr ''pending broker receipt is missing'')
      else Inr (D\<lparr>bd_reservations := update_where (\<lambda>r. pv_id r = rv_id v \<and> pv_status r = RsReserved)
                    (\<lambda>r. r\<lparr>pv_status := status\<rparr>) (bd_reservations D),
                  bd_receipts := update_where (\<lambda>r. pt_id r = rv_id v \<and> pt_status r = RsReserved)
                    (\<lambda>r. r\<lparr>pt_status := status, pt_bytes := amount, pt_at := now\<rparr>) (bd_receipts D)\<rparr>)))"

section \<open>The service\<close>

text \<open>
  A service holds one approval, what it was approved for, and the policy, as the broker it builds
  for each observation: no redirects, the body limit of the intent, the limits of the policy.
  \<open>external\<close> is the run store: no reader, a reader that fails, or its generation.
\<close>

record policy_service =
  ps_auth :: run_authorization
  ps_bindings :: auth_bindings
  ps_policy :: broker

definition observation_broker :: "policy_service \<Rightarrow> request_intent \<Rightarrow> broker" where
  "observation_broker P i = (ps_policy P)\<lparr>bk_max_redirects := 0, bk_max_body := nat (ri_max_bytes i),
     bk_budget := None, bk_validation := False\<rparr>"

definition external_ok :: "policy_service \<Rightarrow> int option option \<Rightarrow> (approval_error, unit) result" where
  "external_ok P external =
     (case external of
        None \<Rightarrow> Inr ()
      | Some None \<Rightarrow> Inl (AuthErr ''external revocation state is unavailable'')
      | Some (Some g) \<Rightarrow> if g \<noteq> ra_generation (ps_auth P)
          then Inl (AuthErr ''external revocation generation does not match authorization'') else Inr ())"

definition new_service ::
  "sqlite_io \<Rightarrow> approval_env \<Rightarrow> policy_service \<Rightarrow> rat \<Rightarrow> rat \<Rightarrow> int \<Rightarrow> int option option \<Rightarrow> budget_db \<Rightarrow> (approval_error, budget_db) result" where
  "new_service io V P now policy_rate policy_concurrency external D =
     bindR (validate_authorization V (ps_auth P) (ps_bindings P) now (ra_generation (ps_auth P))) (\<lambda>_.
       if ae_policy V (ps_policy P) \<noteq> ab_policy (ps_bindings P) then Inl (AuthErr ''TargetPolicy digest mismatch'')
       else if int (bk_max_requests (ps_policy P)) < lm_requests (ra_budget (ps_auth P))
         \<or> policy_rate < lm_rate (ra_budget (ps_auth P)) \<or> policy_concurrency < lm_concurrency (ra_budget (ps_auth P))
       then Inl (AuthErr ''authorization budget exceeds TargetPolicy'')
       else bindR (external_ok P external) (\<lambda>_. enroll io V (ps_auth P) D))"

text \<open>Everything \<open>request\<close> checks before it charges a budget.\<close>

definition before_charge ::
  "sqlite_io \<Rightarrow> broker_env \<Rightarrow> approval_env \<Rightarrow> policy_service \<Rightarrow> request_intent \<Rightarrow> rat option \<Rightarrow> rat \<Rightarrow> int option option \<Rightarrow> budget_db
     \<Rightarrow> (approval_error, unit) result" where
  "before_charge io B V P i timeout now external D =
     (let b = observation_broker P i in
      bindR (generation io (ra_id (ps_auth P)) D) (\<lambda>g.
      bindR (validate_authorization V (ps_auth P) (ps_bindings P) now g) (\<lambda>_.
      bindR (validate_intent V (ps_auth P) i) (\<lambda>_.
        if ae_policy V (ps_policy P) \<noteq> ab_policy (ps_bindings P) then Inl (AuthErr ''TargetPolicy changed after approval'')
        else if ri_credential i \<noteq> None \<or> truthy_text (ri_identity_origin i) \<or> truthy_text (ri_identity_audience i)
                \<or> truthy_text (ri_identity_tenant i)
        then Inl (AuthErr ''credential-bound observations require an unavailable identity resolver'')
        else if \<not> allows_url (net B) (bk_policy b) (ri_url i) (ri_method i)
        then Inl (BrokerErr (PolicyError ''TargetPolicy does not allow the observation''))
        else if \<not> valid_target B b (ri_url i) (ri_method i) then Inl (BrokerErr (PolicyError ''destination or method''))
        else if (case timeout of None \<Rightarrow> False | Some t \<Rightarrow> t \<le> 0)
        then Inl (BrokerErr (PolicyError ''timeout must be positive and finite''))
        else (case merge_hackerone_identity [] (bk_username b) (bk_required b) of
            None \<Rightarrow> Inl (BrokerErr Raised)
          | Some hs \<Rightarrow> (case prepare_http_request B (ri_url i) (ri_method i) hs None of
              None \<Rightarrow> Inl (BrokerErr Raised)
            | Some (headers, raw) \<Rightarrow>
                if \<not> admitted B b (physical B (ri_url i) (ri_method i) headers raw now)
                then Inl (BrokerErr (PolicyError ''exclusion''))
                else external_ok P external))))))"

text \<open>How the three transactions of a request fare: the read, the reservation, the receipt.\<close>

record ledger_io =
  li_read :: sqlite_io
  li_reserve :: sqlite_io
  li_settle :: sqlite_io

definition service_request ::
  "ledger_io \<Rightarrow> broker_env \<Rightarrow> approval_env \<Rightarrow> policy_service \<Rightarrow> string \<Rightarrow> request_intent \<Rightarrow> rat option \<Rightarrow> rat \<Rightarrow> rat
     \<Rightarrow> int option option \<Rightarrow> budget_db
     \<Rightarrow> (approval_error, broker_response \<times> string) result \<times> budget_db \<times> broker_event list" where
  "service_request L B V P fresh i timeout now later external D =
     (case bindR (before_charge (li_read L) B V P i timeout now external D)
             (\<lambda>_. reserve (li_reserve L) (net B) V fresh (ps_auth P) i now D) of
        Inl e \<Rightarrow> (Inl e, D, [])
      | Inr (v, D1) \<Rightarrow>
          (case broker_request B (observation_broker P i) (ri_url i) (ri_method i) [] None
                  (Some (min (case timeout of None \<Rightarrow> rv_timeout v | Some t \<Rightarrow> t) (rv_timeout v))) True
                  \<lparr>bs_count = 0, bs_trace = []\<rparr> of
             (Inl e, s) \<Rightarrow>
               (case settle (li_settle L) v RsUnknown 0 later D1 of
                  Inl e' \<Rightarrow> (Inl e', D1, bs_trace s)
                | Inr D2 \<Rightarrow> (Inl (BrokerErr e), D2, bs_trace s))
           | (Inr r, s) \<Rightarrow>
               (case settle (li_settle L) v RsCompleted (int (length (re_body r))) later D1 of
                  Inl e' \<Rightarrow> (Inl e', D1, bs_trace s)
                | Inr D2 \<Rightarrow> (Inr (r, rv_id v), D2, bs_trace s))))"

definition observe_intent ::
  "request_intent list \<Rightarrow> string \<Rightarrow> string \<Rightarrow> string \<Rightarrow> string \<Rightarrow> (approval_error, request_intent) result" where
  "observe_intent intents endpoint m task adapter =
     (case filter (\<lambda>i. (ri_endpoint i, ri_method i, ri_task i, ri_adapter i) = (endpoint, m, task, adapter)) intents of
        [i] \<Rightarrow> Inr i
      | _ \<Rightarrow> Inl (AuthErr ''observation must resolve to one approved request intent''))"

section \<open>The transactions on one ledger\<close>

text \<open>What the instances of one approval do to the ledger; revocation may hit any approval.\<close>

datatype budget_op =
    BEnroll sqlite_io
  | BRevoke sqlite_io string
  | BReserve sqlite_io string request_intent rat
  | BSettle sqlite_io reservation reservation_status int rat

fun budget_step ::
  "net_env \<Rightarrow> approval_env \<Rightarrow> run_authorization \<Rightarrow> budget_op \<Rightarrow> budget_db \<Rightarrow> (approval_error, budget_db) result" where
  "budget_step E V a (BEnroll io) D = enroll io V a D"
| "budget_step E V a (BRevoke io x) D = revoke io x D"
| "budget_step E V a (BReserve io fresh i now) D =
     (if intent_ok i then bindR (reserve io E V fresh a i now D) (\<lambda>r. Inr (snd r)) else Inl (AuthErr ''invalid intent''))"
| "budget_step E V a (BSettle io v st n now) D = settle io v st n now D"

section \<open>What a reservation does\<close>

lemma reserve_Inr:
  assumes "reserve io E V fresh a i now D = Inr (v, D')"
  shows "\<exists>stored target ident t0 t1. find_row pa_id (ra_id a) (bd_auths D) = Some stored
    \<and> pa_digest stored = ae_digest V a \<and> pa_generation stored = ra_generation a
    \<and> ra_not_before a \<le> now \<and> now < ra_expires a
    \<and> check_scope (ra_budget a) now (ri_max_bytes i) (run_rows (ab_run a) D) t0 = Inr t1
    \<and> fresh \<notin> pv_id ` set (bd_reservations D) \<and> fresh \<notin> pt_id ` set (bd_receipts D)
    \<and> rv_id v = fresh \<and> rv_bytes v = ri_max_bytes i
    \<and> D' = D\<lparr>bd_reservations := bd_reservations D @ [\<lparr>pv_id = fresh, pv_auth = ra_id a, pv_run = ab_run a,
              pv_target = target, pv_identity = ident, pv_intent = ae_intent V i, pv_at = now,
              pv_bytes = ri_max_bytes i, pv_status = RsReserved\<rparr>],
            bd_receipts := bd_receipts D @ [\<lparr>pt_id = fresh, pt_status = RsReserved, pt_bytes = 0, pt_at = now\<rparr>]\<rparr>"
  using assms unfolding reserve_def Let_def
  by (auto simp: bindR_eq_Inr split: option.splits if_splits)

lemma check_scope_Inr:
  assumes "check_scope l now amount rows t = Inr t'"
  shows "int (length rows) < lm_requests l \<and> sum_list (map pv_bytes rows) + amount \<le> lm_bytes l
    \<and> int (rowcount (\<lambda>r. pv_status r = RsReserved) rows) < lm_concurrency l
    \<and> (\<forall>x. latest rows = Some x \<longrightarrow> 1 / lm_rate l \<le> now - x)"
  using assms by (auto simp: check_scope_def split: if_splits option.splits)

lemma enroll_keeps: "enroll io V a D = Inr D' \<Longrightarrow> bd_reservations D' = bd_reservations D"
  by (auto simp: enroll_def split: option.splits if_splits)

lemma revoke_keeps: "revoke io x D = Inr D' \<Longrightarrow> bd_reservations D' = bd_reservations D"
  by (auto simp: revoke_def split: if_splits)

lemma settle_Inr:
  assumes "settle io v st n now D = Inr D'"
  shows "st \<noteq> RsReserved \<and> bd_auths D' = bd_auths D
    \<and> bd_reservations D' = update_where (\<lambda>r. pv_id r = rv_id v \<and> pv_status r = RsReserved) (\<lambda>r. r\<lparr>pv_status := st\<rparr>) (bd_reservations D)"
  using assms by (auto simp: settle_def split: if_splits)

lemma filter_update_where:
  assumes "\<And>r. q (f r) = q r"
  shows "filter q (update_where p f t) = update_where p f (filter q t)"
  using assms by (induction t) auto

lemma settle_run_rows:
  assumes "settle io v st n now D = Inr D'"
  shows "run_rows run D' = update_where (\<lambda>r. pv_id r = rv_id v \<and> pv_status r = RsReserved) (\<lambda>r. r\<lparr>pv_status := st\<rparr>) (run_rows run D)"
  using settle_Inr [OF assms] by (simp add: run_rows_def filter_update_where)

text \<open>The effect of a transaction on the reservations of the run.\<close>

lemma run_rows_step:
  assumes "budget_step E V a x D = Inr D'"
  shows "(\<exists>io fresh i now t0 t1 row. x = BReserve io fresh i now \<and> intent_ok i
      \<and> check_scope (ra_budget a) now (ri_max_bytes i) (run_rows (ab_run a) D) t0 = Inr t1
      \<and> pv_at row = now \<and> pv_bytes row = ri_max_bytes i \<and> pv_status row = RsReserved
      \<and> run_rows (ab_run a) D' = run_rows (ab_run a) D @ [row])
    \<or> (\<forall>io fresh i now. x \<noteq> BReserve io fresh i now)
      \<and> (\<exists>p st. st \<noteq> RsReserved \<and> run_rows (ab_run a) D' = update_where p (\<lambda>r. r\<lparr>pv_status := st\<rparr>) (run_rows (ab_run a) D))"
proof (cases x)
  case (BEnroll io)
  then have "run_rows (ab_run a) D' = run_rows (ab_run a) D" using assms enroll_keeps by (simp add: run_rows_def)
  then have "run_rows (ab_run a) D' = update_where (\<lambda>r. False) (\<lambda>r. r\<lparr>pv_status := RsFailed\<rparr>) (run_rows (ab_run a) D)"
    by (simp add: update_where_def)
  with BEnroll show ?thesis by blast
next
  case (BRevoke io y)
  then have "run_rows (ab_run a) D' = run_rows (ab_run a) D" using assms revoke_keeps by (simp add: run_rows_def)
  then have "run_rows (ab_run a) D' = update_where (\<lambda>r. False) (\<lambda>r. r\<lparr>pv_status := RsFailed\<rparr>) (run_rows (ab_run a) D)"
    by (simp add: update_where_def)
  with BRevoke show ?thesis by blast
next
  case (BReserve io fresh i now)
  then obtain v where "reserve io E V fresh a i now D = Inr (v, D')" and "intent_ok i"
    using assms by (auto simp: bindR_eq_Inr split: if_splits)
  then show ?thesis using reserve_Inr [of io E V fresh a i now D v D'] BReserve by (fastforce simp: run_rows_def)
next
  case (BSettle io v st n now)
  then show ?thesis using assms settle_run_rows settle_Inr by simp blast
qed

section \<open>Budgets\<close>

fun request_cost :: "budget_op \<Rightarrow> int" where
  "request_cost (BReserve io fresh i now) = 1"
| "request_cost _ = 0"

fun byte_cost :: "budget_op \<Rightarrow> int" where
  "byte_cost (BReserve io fresh i now) = ri_max_bytes i"
| "byte_cost _ = 0"

definition run_requests :: "run_authorization \<Rightarrow> budget_db \<Rightarrow> int" where
  "run_requests a D = int (length (run_rows (ab_run a) D))"

definition run_bytes :: "run_authorization \<Rightarrow> budget_db \<Rightarrow> int" where
  "run_bytes a D = sum_list (map pv_bytes (run_rows (ab_run a) D))"

lemma no_reserve_cost: "\<forall>io fresh i now. x \<noteq> BReserve io fresh i now \<Longrightarrow> request_cost x = 0 \<and> byte_cost x = 0"
  by (cases x) auto

lemma requests_step:
  assumes "budget_step E V a x D = Inr D'"
  shows "run_requests a D' = run_requests a D + request_cost x
    \<and> (0 < request_cost x \<longrightarrow> run_requests a D' \<le> lm_requests (ra_budget a))"
  using run_rows_step [OF assms]
proof (elim disjE exE conjE)
  fix io fresh i now t0 t1 row
  assume "x = BReserve io fresh i now" "run_rows (ab_run a) D' = run_rows (ab_run a) D @ [row]"
    "check_scope (ra_budget a) now (ri_max_bytes i) (run_rows (ab_run a) D) t0 = Inr t1"
  then show ?thesis using check_scope_Inr by (fastforce simp: run_requests_def)
qed (use no_reserve_cost in \<open>auto simp: run_requests_def\<close>)

lemma bytes_step:
  assumes "budget_step E V a x D = Inr D'"
  shows "run_bytes a D' = run_bytes a D + byte_cost x
    \<and> (0 < byte_cost x \<longrightarrow> run_bytes a D' \<le> lm_bytes (ra_budget a)) \<and> 0 \<le> byte_cost x"
  using run_rows_step [OF assms]
proof (elim disjE exE conjE)
  fix io fresh i now t0 t1 row
  assume "x = BReserve io fresh i now" "run_rows (ab_run a) D' = run_rows (ab_run a) D @ [row]" "intent_ok i"
    "check_scope (ra_budget a) now (ri_max_bytes i) (run_rows (ab_run a) D) t0 = Inr t1" "pv_bytes row = ri_max_bytes i"
  then show ?thesis using check_scope_Inr by (fastforce simp: run_bytes_def intent_ok_def)
next
  fix p st
  assume "\<forall>io fresh i now. x \<noteq> BReserve io fresh i now"
    and r: "run_rows (ab_run a) D' = update_where p (\<lambda>r. r\<lparr>pv_status := st\<rparr>) (run_rows (ab_run a) D)"
  moreover have "map pv_bytes (run_rows (ab_run a) D') = map pv_bytes (run_rows (ab_run a) D)"
    unfolding r by (rule map_update_where) simp
  ultimately show ?thesis using no_reserve_cost by (simp add: run_bytes_def)
qed

interpretation approval_requests: spend_ledger "budget_step E V a" "run_requests a" request_cost "lm_requests (ra_budget a)"
proof unfold_locales
  fix x and D D' :: budget_db
  assume s: "budget_step E V a x D = Inr D'"
  show "run_requests a D' = run_requests a D + request_cost x" using requests_step [OF s] by simp
  show "0 \<le> request_cost x" by (cases x) simp_all
  show "0 < request_cost x \<Longrightarrow> run_requests a D' \<le> lm_requests (ra_budget a)" using requests_step [OF s] by simp
qed

interpretation approval_bytes: spend_ledger "budget_step E V a" "run_bytes a" byte_cost "lm_bytes (ra_budget a)"
proof unfold_locales
  fix x and D D' :: budget_db
  assume s: "budget_step E V a x D = Inr D'"
  show "run_bytes a D' = run_bytes a D + byte_cost x" using bytes_step [OF s] by simp
  show "0 \<le> byte_cost x" using bytes_step [OF s] by simp
  show "0 < byte_cost x \<Longrightarrow> run_bytes a D' \<le> lm_bytes (ra_budget a)" using bytes_step [OF s] by simp
qed

text \<open>
  C6: an approval is never overspent.  Whatever the instances of an approval do to the ledger, in
  any order and with any clocks, refused transactions and revocations included, the reservations
  of its run stay within its number of requests and within its number of bytes, where every
  reservation counts with the largest response it allows, whatever came back.
\<close>

theorem approval_never_overspent:
  assumes "run_requests a D \<le> lm_requests (ra_budget a)" and "run_bytes a D \<le> lm_bytes (ra_budget a)"
  shows "run_requests a (run_ops (budget_step E V a) ops D) \<le> lm_requests (ra_budget a)
    \<and> run_bytes a (run_ops (budget_step E V a) ops D) \<le> lm_bytes (ra_budget a)"
  using approval_requests.run_within_cap [OF assms(1)] approval_bytes.run_within_cap [OF assms(2)] by blast

section \<open>Pacing and concurrency\<close>

lemma foldl_max_ge: "x \<le> foldl max x xs \<and> (\<forall>y\<in>set xs. y \<le> foldl max (x :: rat) xs)"
proof (induction xs arbitrary: x)
  case (Cons y xs)
  have "max x y \<le> foldl max (max x y) xs" "\<forall>z\<in>set xs. z \<le> foldl max (max x y) xs" using Cons by blast+
  then show ?case by (auto intro: order_trans [of _ "max x y"])
qed simp

lemma latest_bound: "r \<in> set rows \<Longrightarrow> \<exists>t. latest rows = Some t \<and> pv_at r \<le> t"
proof -
  assume r: "r \<in> set rows"
  then obtain x xs where "map pv_at rows = x # xs" by (cases rows) auto
  with r foldl_max_ge [where x = x and xs = xs] show ?thesis
    by (auto simp: latest_def)
qed

definition paced :: "run_authorization \<Rightarrow> budget_db \<Rightarrow> bool" where
  "paced a D \<longleftrightarrow> sorted_wrt (\<lambda>s t. 1 / lm_rate (ra_budget a) \<le> t - s) (map pv_at (run_rows (ab_run a) D))
     \<and> int (rowcount (\<lambda>r. pv_status r = RsReserved) (run_rows (ab_run a) D)) \<le> lm_concurrency (ra_budget a)"

lemma paced_step:
  assumes "budget_step E V a x D = Inr D'" and "paced a D"
  shows "paced a D'"
  using run_rows_step [OF assms(1)]
proof (elim disjE exE conjE)
  fix io fresh i now t0 t1 row
  assume r: "run_rows (ab_run a) D' = run_rows (ab_run a) D @ [row]" "pv_at row = now" "pv_status row = RsReserved"
    and c: "check_scope (ra_budget a) now (ri_max_bytes i) (run_rows (ab_run a) D) t0 = Inr t1"
  have "1 / lm_rate (ra_budget a) \<le> now - pv_at q" if "q \<in> set (run_rows (ab_run a) D)" for q
    using latest_bound [OF that] check_scope_Inr [OF c] by fastforce
  then show ?thesis
    using assms(2) r check_scope_Inr [OF c] by (auto simp: paced_def sorted_wrt_append rowcount_def)
next
  fix p st
  assume r: "run_rows (ab_run a) D' = update_where p (\<lambda>r. r\<lparr>pv_status := st\<rparr>) (run_rows (ab_run a) D)"
    and st: "st \<noteq> RsReserved"
  have same: "map pv_at (run_rows (ab_run a) D') = map pv_at (run_rows (ab_run a) D)"
    unfolding r by (rule map_update_where) simp
  have fewer: "rowcount (\<lambda>r. pv_status r = RsReserved) (update_where p (\<lambda>r. r\<lparr>pv_status := st\<rparr>) rows)
      \<le> rowcount (\<lambda>r. pv_status r = RsReserved) rows" for rows
    using st by (induction rows) (auto simp: rowcount_def)
  have le: "int (rowcount (\<lambda>r. pv_status r = RsReserved) (run_rows (ab_run a) D'))
      \<le> int (rowcount (\<lambda>r. pv_status r = RsReserved) (run_rows (ab_run a) D))"
    unfolding r of_nat_le_iff by (rule fewer)
  show ?thesis using assms(2) le unfolding paced_def same by linarith
qed

text \<open>
  Observations of a run are paced.  Under every sequence of transactions of an approval, any
  two reservations of its run are at least one over the approved rate apart, in the order in which
  they were made, and the reservations without a receipt never exceed the approved concurrency.
\<close>

theorem observations_are_paced:
  assumes "paced a D"
  shows "paced a (run_ops (budget_step E V a) ops D)"
  using assms by (rule run_ops_invariant) (rule paced_step)

section \<open>Revocation\<close>

definition revoked_row :: "run_authorization \<Rightarrow> budget_db \<Rightarrow> bool" where
  "revoked_row a D \<longleftrightarrow> (\<exists>row. find_row pa_id (ra_id a) (bd_auths D) = Some row \<and> ra_generation a < pa_generation row)"

lemma revoked_step:
  assumes "budget_step E V a x D = Inr D'" and "revoked_row a D"
  shows "revoked_row a D'"
proof (cases x)
  case (BEnroll io)
  then have "bd_auths D' = bd_auths D" using assms by (auto simp: enroll_def revoked_row_def split: if_splits)
  then show ?thesis using assms(2) by (simp add: revoked_row_def)
next
  case (BRevoke io y)
  then have "bd_auths D' = update_where (\<lambda>r. pa_id r = y) (\<lambda>r. r\<lparr>pa_generation := pa_generation r + 1\<rparr>) (bd_auths D)"
    using assms(1) by (auto simp: revoke_def split: if_splits)
  then have "find_row pa_id (ra_id a) (bd_auths D')
      = map_option (\<lambda>r. if pa_id r = y then r\<lparr>pa_generation := pa_generation r + 1\<rparr> else r) (find_row pa_id (ra_id a) (bd_auths D))"
    by (simp add: find_row_update_where)
  moreover obtain row where "find_row pa_id (ra_id a) (bd_auths D) = Some row" "ra_generation a < pa_generation row"
    using assms(2) unfolding revoked_row_def by blast
  ultimately show ?thesis by (cases "pa_id row = y") (simp_all add: revoked_row_def)
next
  case (BReserve io fresh i now)
  then obtain v where "reserve io E V fresh a i now D = Inr (v, D')"
    using assms by (auto simp: bindR_eq_Inr split: if_splits)
  then have "bd_auths D' = bd_auths D" using reserve_Inr [of io E V fresh a i now D v D'] by auto
  then show ?thesis using assms(2) by (simp add: revoked_row_def)
next
  case (BSettle io v st n now)
  then have "bd_auths D' = bd_auths D" using assms(1) settle_Inr by simp
  then show ?thesis using assms(2) by (simp add: revoked_row_def)
qed

text \<open>
  C10: a revoked approval never sends again.  Once an enrolled approval is revoked, no later
  reservation under it succeeds, whatever transactions come between (enrolling it again included),
  whatever the request and the time.
\<close>

theorem revoked_approval_never_reserves:
  assumes "find_row pa_id (ra_id a) (bd_auths D) = Some row" and "ra_generation a \<le> pa_generation row"
    and "revoke rio (ra_id a) D = Inr D1"
  shows "\<exists>e. reserve io E V fresh a i now (run_ops (budget_step E V a) ops D1) = Inl e"
proof -
  have "revoked_row a D1"
    using assms find_row_Some [OF assms(1)] by (auto simp: revoke_def revoked_row_def find_row_update_where split: if_splits)
  then have r: "revoked_row a (run_ops (budget_step E V a) ops D1)" (is "revoked_row a ?D")
    by (rule run_ops_invariant) (rule revoked_step)
  have "reserve io E V fresh a i now ?D \<noteq> Inr p" for p
    using r reserve_Inr [of io E V fresh a i now ?D "fst p" "snd p"] by (auto simp: revoked_row_def)
  then show ?thesis by (cases "reserve io E V fresh a i now ?D") auto
qed

section \<open>The service\<close>

lemma rowcount_fresh: "k \<notin> key ` set t \<Longrightarrow> rowcount (\<lambda>r. key r = k \<and> p r) t = 0"
  by (auto simp: rowcount_def filter_empty_conv)

text \<open>The pending row and receipt of a reservation, and what settling makes of them.\<close>

definition pending :: "string \<Rightarrow> run_authorization \<Rightarrow> request_intent \<Rightarrow> policy_reservation \<Rightarrow> policy_receipt \<Rightarrow> bool" where
  "pending fresh a i row receipt \<longleftrightarrow> pv_id row = fresh \<and> pt_id receipt = fresh \<and> pv_run row = ab_run a
     \<and> pv_bytes row = ri_max_bytes i \<and> pv_status row = RsReserved \<and> pt_status receipt = RsReserved"

lemma reserve_pending:
  assumes "reserve io E V fresh a i now D = Inr (v, D1)"
  shows "\<exists>row receipt. pending fresh a i row receipt \<and> rv_id v = fresh \<and> rv_bytes v = ri_max_bytes i
    \<and> fresh \<notin> pv_id ` set (bd_reservations D) \<and> fresh \<notin> pt_id ` set (bd_receipts D)
    \<and> D1 = D\<lparr>bd_reservations := bd_reservations D @ [row], bd_receipts := bd_receipts D @ [receipt]\<rparr>"
  using reserve_Inr [OF assms] unfolding pending_def by force

lemma settle_pending:
  assumes "pending fresh a i row receipt" and "rv_id v = fresh" and "rv_bytes v = ri_max_bytes i"
    and "fresh \<notin> pv_id ` set (bd_reservations D)" and "fresh \<notin> pt_id ` set (bd_receipts D)"
    and "st \<noteq> RsReserved" and "0 \<le> n" and "n \<le> ri_max_bytes i"
  shows "settle io v st n later (D\<lparr>bd_reservations := bd_reservations D @ [row], bd_receipts := bd_receipts D @ [receipt]\<rparr>)
    = (if io = Works then Inr (D\<lparr>bd_reservations := bd_reservations D @ [row\<lparr>pv_status := st\<rparr>],
           bd_receipts := bd_receipts D @ [receipt\<lparr>pt_status := st, pt_bytes := n, pt_at := later\<rparr>]\<rparr>)
       else Inl (BudgetErr ''cannot persist broker receipt''))"
proof -
  have rows: "update_where (\<lambda>r. pv_id r = fresh \<and> pv_status r = RsReserved) g (bd_reservations D) = bd_reservations D" for g
    unfolding update_where_def using assms(4) by (intro map_idI) auto
  have receipts: "update_where (\<lambda>r. pt_id r = fresh \<and> pt_status r = RsReserved) g (bd_receipts D) = bd_receipts D" for g
    unfolding update_where_def using assms(5) by (intro map_idI) auto
  have p: "pv_id row = fresh" "pv_status row = RsReserved" "pt_id receipt = fresh" "pt_status receipt = RsReserved"
    using assms(1) by (simp_all add: pending_def)
  have one: "rowcount (\<lambda>r. pv_id r = fresh \<and> pv_status r = RsReserved) (bd_reservations D @ [row]) = 1"
    "rowcount (\<lambda>r. pt_id r = fresh \<and> pt_status r = RsReserved) (bd_receipts D @ [receipt]) = 1"
    using rowcount_fresh [OF assms(4)] rowcount_fresh [OF assms(5)] p by (simp_all add: rowcount_def)
  show ?thesis
    by (cases io) (simp_all add: settle_def in_tx_def assms(2,3,6-) one [unfolded One_nat_def] rows receipts p)
qed

lemma broker_body_bound:
  assumes "broker_request B b url m headers data timeout capture s = (Inr r, s')"
  shows "length (re_body r) \<le> bk_max_body b"
proof -
  have a: "answer b capture u p = Finish (Inr x) \<Longrightarrow> length (re_body x) \<le> bk_max_body b" for u p x
    by (auto simp: answer_def split: option.splits)
  have after: "after_reply B b capture final q p = Finish (Inr x) \<Longrightarrow> length (re_body x) \<le> bk_max_body b" for final q p x
    using a by (auto simp: after_reply_def Let_def split: if_splits option.splits)
  have under: "fst (under_permit B b capture final q hs raw t s1) = Finish (Inr x) \<Longrightarrow> length (re_body x) \<le> bk_max_body b"
    for final q hs raw t s1 x
    using after by (auto simp: under_permit_def complete_def Let_def split: if_splits option.splits)
  have one: "fst (one_hop B b capture t final q s1) = Finish (Inr x) \<Longrightarrow> length (re_body x) \<le> bk_max_body b" for t final q s1 x
    using under by (auto simp: one_hop_def Let_def split: if_splits option.splits)
  have "hops B b capture t n q s1 = (Inr r, s') \<Longrightarrow> length (re_body r) \<le> bk_max_body b" for t n q s1
  proof (induction n arbitrary: q s1)
    case 0
    then show ?case using one [of t True q s1] by (auto simp: hops.simps [of _ _ _ _ 0] split: prod.splits hop.splits)
  next
    case (Suc n)
    then show ?case using one [of t False q s1]
      by (auto simp: hops.simps [of _ _ _ _ "Suc n"] split: prod.splits hop.splits)
  qed
  then show ?thesis using assms by (auto simp: broker_request_def split: if_splits)
qed

lemma before_charge_intent: "before_charge io B V P i timeout now external D = Inr u \<Longrightarrow> intent_ok i"
  by (auto simp: before_charge_def Let_def bindR_eq_Inr validate_intent_def split: if_splits)

text \<open>
  C11: every dispatch is charged and accounted for, or visibly left open.  A request of the
  service either fails, changes nothing and sends nothing; or it appends exactly one reservation
  and one receipt, charged to the run with the largest response it allows, and sends at most one
  physical request.  When the ledger can record the outcome, the reservation is completed, with the
  size of the body, if the caller gets a response, and its outcome unknown if the broker raised.
  When it cannot, the caller gets that error and nothing else, and the reservation stays reserved:
  it remains charged and it keeps its concurrency slot.
\<close>

theorem service_accounts_for_its_dispatch:
  assumes "service_request L B V P fresh i timeout now later external D = (r, D', es)"
  shows "(isl r \<and> D' = D \<and> es = [])
    \<or> (\<exists>row receipt. fresh \<notin> pv_id ` set (bd_reservations D)
         \<and> D' = D\<lparr>bd_reservations := bd_reservations D @ [row], bd_receipts := bd_receipts D @ [receipt]\<rparr>
         \<and> pv_id row = fresh \<and> pt_id receipt = fresh \<and> pv_run row = ab_run (ps_auth P) \<and> pv_bytes row = ri_max_bytes i
         \<and> pt_status receipt = pv_status row \<and> length (wires es) \<le> 1
         \<and> (if li_settle L = Works
            then (case r of
                    Inr (resp, ident) \<Rightarrow> ident = fresh \<and> pv_status row = RsCompleted
                      \<and> pt_bytes receipt = int (length (re_body resp)) \<and> pt_bytes receipt \<le> ri_max_bytes i
                  | Inl e \<Rightarrow> (\<exists>b. e = BrokerErr b) \<and> pv_status row = RsUnknown)
            else r = Inl (BudgetErr ''cannot persist broker receipt'') \<and> pv_status row = RsReserved))"
proof (cases "bindR (before_charge (li_read L) B V P i timeout now external D)
    (\<lambda>_. reserve (li_reserve L) (net B) V fresh (ps_auth P) i now D)")
  case (Inl e)
  then show ?thesis using assms by (auto simp: service_request_def)
next
  case charged: (Inr p)
  obtain v D1 where p: "p = (v, D1)" by (cases p)
  have res: "reserve (li_reserve L) (net B) V fresh (ps_auth P) i now D = Inr (v, D1)" and i: "intent_ok i"
    using charged p before_charge_intent by (auto simp: bindR_eq_Inr)
  have nn: "0 \<le> ri_max_bytes i" using i by (simp add: intent_ok_def)
  obtain row receipt where pend: "pending fresh (ps_auth P) i row receipt" "rv_id v = fresh" "rv_bytes v = ri_max_bytes i"
    "fresh \<notin> pv_id ` set (bd_reservations D)" "fresh \<notin> pt_id ` set (bd_receipts D)"
    and D1: "D1 = D\<lparr>bd_reservations := bd_reservations D @ [row], bd_receipts := bd_receipts D @ [receipt]\<rparr>"
    using reserve_pending [OF res] by blast
  note settled = settle_pending [OF pend, where io = "li_settle L", folded D1]
  obtain x s where run: "broker_request B (observation_broker P i) (ri_url i) (ri_method i) [] None
      (Some (min (case timeout of None \<Rightarrow> rv_timeout v | Some t \<Rightarrow> t) (rv_timeout v))) True \<lparr>bs_count = 0, bs_trace = []\<rparr> = (x, s)"
    by fastforce
  have w: "length (wires (bs_trace s)) \<le> 1"
    using request_hops_bounded [OF run] by (simp add: new_events_def observation_broker_def)
  note step = assms [unfolded service_request_def, unfolded charged p, simplified, unfolded run, simplified]
  show ?thesis
  proof (cases x)
    case (Inl e)
    note s = settled [of RsUnknown 0 later, simplified, OF nn]
    show ?thesis
    proof (cases "li_settle L = Works")
      case True
      with step s Inl have "r = Inl (BrokerErr e)" "es = bs_trace s"
        "D' = D\<lparr>bd_reservations := bd_reservations D @ [row\<lparr>pv_status := RsUnknown\<rparr>],
           bd_receipts := bd_receipts D @ [receipt\<lparr>pt_status := RsUnknown, pt_bytes := 0, pt_at := later\<rparr>]\<rparr>" by simp_all
      with pend w True show ?thesis unfolding pending_def
          by (intro disjI2 exI [of _ "row\<lparr>pv_status := RsUnknown\<rparr>"] exI [of _ "receipt\<lparr>pt_status := RsUnknown, pt_bytes := 0, pt_at := later\<rparr>"]) simp
    next
      case False
      with step s Inl D1 have "r = Inl (BudgetErr ''cannot persist broker receipt'')" "D' = D1" "es = bs_trace s" by simp_all
      with pend w False D1 show ?thesis unfolding pending_def
          by (intro disjI2 exI [of _ "row"] exI [of _ "receipt"]) simp
    qed
  next
    case (Inr y)
    have y: "int (length (re_body y)) \<le> ri_max_bytes i"
      using broker_body_bound run Inr nn by (fastforce simp: observation_broker_def)
    note s = settled [of RsCompleted "int (length (re_body y))" later, simplified, OF y]
    show ?thesis
    proof (cases "li_settle L = Works")
      case True
      with step s Inr pend(2) have "r = Inr (y, fresh)" "es = bs_trace s"
        "D' = D\<lparr>bd_reservations := bd_reservations D @ [row\<lparr>pv_status := RsCompleted\<rparr>],
           bd_receipts := bd_receipts D @ [receipt\<lparr>pt_status := RsCompleted, pt_bytes := int (length (re_body y)), pt_at := later\<rparr>]\<rparr>"
        by simp_all
      with pend w True y show ?thesis unfolding pending_def
          by (intro disjI2 exI [of _ "row\<lparr>pv_status := RsCompleted\<rparr>"] exI [of _ "receipt\<lparr>pt_status := RsCompleted, pt_bytes := int (length (re_body y)), pt_at := later\<rparr>"]) simp
    next
      case False
      with step s Inr D1 have "r = Inl (BudgetErr ''cannot persist broker receipt'')" "D' = D1" "es = bs_trace s" by simp_all
      with pend w False D1 show ?thesis unfolding pending_def
          by (intro disjI2 exI [of _ "row"] exI [of _ "receipt"]) simp
    qed
  qed
qed

section \<open>A worked approval\<close>

definition sample_limits :: limits where
  "sample_limits = \<lparr>lm_requests = 2, lm_bytes = 100, lm_seconds = 60, lm_rate = 1, lm_concurrency = 1, lm_timeout = 10\<rparr>"

definition sample_intent :: request_intent where
  "sample_intent = \<lparr>ab_run = ''run'', ab_scan = ''scan'', ab_scope = ''s'', ab_policy = ''p'', ab_handoff = ''h'', ab_plan = ''l'',
     ab_catalog = ''c'', ab_revision = 1, ri_task = ''t'', ri_adapter = ''a'', ri_endpoint = ''e'', ri_url = ''https://b.co/x'',
     ri_method = ''GET'', ri_credential = None, ri_identity_origin = None, ri_identity_audience = None,
     ri_identity_tenant = None, ri_role = None, ri_max_bytes = 40\<rparr>"

definition sample_approval :: run_authorization where
  "sample_approval = \<lparr>ab_run = ''run'', ab_scan = ''scan'', ab_scope = ''s'', ab_policy = ''p'', ab_handoff = ''h'', ab_plan = ''l'',
     ab_catalog = ''c'', ab_revision = 1, ra_id = ''A'', ra_issued = 0, ra_not_before = 0, ra_expires = 100,
     ra_tasks = [''t''], ra_adapters = [''a''], ra_credentials = [], ra_roles = [], ra_intents = [''intent''],
     ra_budget = sample_limits, ra_target_budgets = [], ra_identity_budgets = [], ra_generation = 0, ra_signature = []\<rparr>"

definition sample_approvals :: approval_env where
  "sample_approvals = \<lparr>ae_digest = (\<lambda>a. ''doc''), ae_intent = (\<lambda>i. ''intent''), ae_policy = (\<lambda>b. ''p''), ae_verify = (\<lambda>a. True)\<rparr>"

definition sample_ledger :: budget_db where
  "sample_ledger = \<lparr>bd_auths = [\<lparr>pa_id = ''A'', pa_digest = ''doc'', pa_run = ''run'', pa_generation = 0\<rparr>],
     bd_reservations = [], bd_receipts = []\<rparr>"

lemma sample_target: "origin_text plain_env ''https://b.co/x'' = Some ''https://b.co:443''"
  by (simp add: origin_text_def decimal.simps str_eval)

lemma sample_reserve:
  "reserve Works plain_env sample_approvals ''r1'' sample_approval sample_intent 10 sample_ledger
   = Inr (\<lparr>rv_id = ''r1'', rv_bytes = 40, rv_timeout = 10\<rparr>, sample_ledger\<lparr>
       bd_reservations := [\<lparr>pv_id = ''r1'', pv_auth = ''A'', pv_run = ''run'', pv_target = ''https://b.co:443'',
          pv_identity = ''anonymous'', pv_intent = ''intent'', pv_at = 10, pv_bytes = 40, pv_status = RsReserved\<rparr>],
       bd_receipts := [\<lparr>pt_id = ''r1'', pt_status = RsReserved, pt_bytes = 0, pt_at = 10\<rparr>]\<rparr>)"
  by (simp add: reserve_def sample_target sample_approvals_def sample_approval_def sample_intent_def sample_ledger_def
      sample_limits_def truthy_text_def or_empty_def run_rows_def find_row_def check_scope_def budget_for_def
      earliest_def latest_def rowcount_def)

lemma sample_intent_ok: "intent_ok sample_intent"
  by (simp add: intent_ok_def sample_intent_def safe_methods_def)

definition sample_ops :: "budget_op list" where
  "sample_ops = [BEnroll Works, BReserve Works ''r1'' sample_intent 10, BReserve Works ''r2'' sample_intent 10]"

lemma sample_step: "\<not> isl (budget_step plain_env sample_approvals sample_approval (BReserve Works ''r1'' sample_intent 10) sample_ledger)"
  by (simp add: sample_intent_ok sample_reserve)

lemma sample_within:
  "run_requests sample_approval sample_ledger \<le> lm_requests (ra_budget sample_approval)"
  "run_bytes sample_approval sample_ledger \<le> lm_bytes (ra_budget sample_approval)"
  "paced sample_approval sample_ledger"
  by (simp_all add: run_requests_def run_bytes_def paced_def run_rows_def rowcount_def sample_ledger_def sample_approval_def
      sample_limits_def)

lemma approval_never_overspent_witness:
  "run_requests sample_approval (run_ops (budget_step plain_env sample_approvals sample_approval) sample_ops sample_ledger)
     \<le> lm_requests (ra_budget sample_approval)"
  using approval_never_overspent [OF sample_within(1,2), where ops = sample_ops] by blast

lemma observations_are_paced_witness:
  "paced sample_approval (run_ops (budget_step plain_env sample_approvals sample_approval) sample_ops sample_ledger)"
  by (rule observations_are_paced [OF sample_within(3)])

lemma revoked_approval_never_reserves_witness:
  "\<not> isl (reserve Works plain_env sample_approvals ''r1'' sample_approval sample_intent 10 sample_ledger)
   \<and> isl (reserve Works plain_env sample_approvals ''r1'' sample_approval sample_intent 10
       (run_ops (budget_step plain_env sample_approvals sample_approval) sample_ops
         (sample_ledger\<lparr>bd_auths := [\<lparr>pa_id = ''A'', pa_digest = ''doc'', pa_run = ''run'', pa_generation = 1\<rparr>]\<rparr>)))"
proof -
  have "find_row pa_id (ra_id sample_approval) (bd_auths sample_ledger)
      = Some \<lparr>pa_id = ''A'', pa_digest = ''doc'', pa_run = ''run'', pa_generation = 0\<rparr>"
    by (simp add: find_row_def sample_ledger_def sample_approval_def)
  moreover have "revoke Works (ra_id sample_approval) sample_ledger
      = Inr (sample_ledger\<lparr>bd_auths := [\<lparr>pa_id = ''A'', pa_digest = ''doc'', pa_run = ''run'', pa_generation = 1\<rparr>]\<rparr>)"
    by (simp add: revoke_def rowcount_def sample_ledger_def sample_approval_def)
  moreover have "ra_generation sample_approval \<le> 0" by (simp add: sample_approval_def)
  ultimately obtain e where "reserve Works plain_env sample_approvals ''r1'' sample_approval sample_intent 10
       (run_ops (budget_step plain_env sample_approvals sample_approval) sample_ops
         (sample_ledger\<lparr>bd_auths := [\<lparr>pa_id = ''A'', pa_digest = ''doc'', pa_run = ''run'', pa_generation = 1\<rparr>]\<rparr>)) = Inl e"
    using revoked_approval_never_reserves by force
  then show ?thesis by (simp add: sample_reserve)
qed

definition sample_service :: policy_service where
  "sample_service = \<lparr>ps_auth = sample_approval, ps_bindings = auth_bindings.truncate sample_approval, ps_policy = sample_broker\<rparr>"

lemma sample_net: "net sample_world = plain_env"
  by (simp add: sample_world_def)

lemma sample_observation:
  "bk_policy (observation_broker sample_service sample_intent) = bk_policy sample_broker"
  "bk_validation (observation_broker sample_service sample_intent) = False"
  "identified (observation_broker sample_service sample_intent) hs = Some hs"
  "request_limit (observation_broker sample_service sample_intent) = 5"
  "bk_max_redirects (observation_broker sample_service sample_intent) = 0"
  "bk_required (observation_broker sample_service sample_intent) = []"
  "bk_username (observation_broker sample_service sample_intent) = None"
  "admitted sample_world (observation_broker sample_service sample_intent) r"
  by (simp_all add: observation_broker_def sample_service_def sample_broker_def identified_def request_limit_def truthy_text_def
      or_empty_def admitted_def request_admitted_def check_request_exclusions_def evaluate_exclusions_def)

lemma sample_observation_valid:
  "valid_target sample_world (observation_broker sample_service sample_intent) ''https://b.co/x'' ''GET''"
proof -
  have "bk_validation sample_broker = False" by (simp add: sample_broker_def)
  then have "bk_validation sample_broker = bk_validation (observation_broker sample_service sample_intent)"
    by (simp add: sample_observation)
  with sample_valid(2) show ?thesis unfolding valid_target_def sample_observation(1) by (simp only:)
qed

lemma sample_before_charge:
  "before_charge Works sample_world sample_approvals sample_service sample_intent None 10 None sample_ledger = Inr ()"
proof -
  have g: "generation Works (ra_id (ps_auth sample_service)) sample_ledger = Inr 0"
    by (simp add: generation_def sample_service_def sample_approval_def sample_ledger_def find_row_def)
  have a: "validate_authorization sample_approvals (ps_auth sample_service) (ps_bindings sample_service) 10 0 = Inr ()"
    by (simp add: validate_authorization_def authorization_ok_def limits_ok_def sample_service_def sample_approval_def
        sample_limits_def sample_approvals_def)
  have i: "validate_intent sample_approvals (ps_auth sample_service) sample_intent = Inr ()"
    using sample_intent_ok by (simp add: validate_intent_def sample_service_def sample_approval_def sample_intent_def
        sample_approvals_def approved_in_def auth_bindings.truncate_def)
  have u: "allows_url plain_env (bk_policy sample_broker) ''https://b.co/x'' ''GET''"
    using sample_observation_valid unfolding valid_target_def sample_observation if_False sample_net
    by (simp split: option.splits)
  have p: "merge_hackerone_identity [] None [] = Some []"
    by (simp add: merge_hackerone_identity_def validate_identity_headers_def update_all_def)
  have f: "ri_url sample_intent = ''https://b.co/x''" "ri_method sample_intent = ''GET''" "ri_credential sample_intent = None"
    "ri_identity_origin sample_intent = None" "ri_identity_audience sample_intent = None" "ri_identity_tenant sample_intent = None"
    "ae_policy sample_approvals (ps_policy sample_service) = ab_policy (ps_bindings sample_service)"
    by (simp_all add: sample_intent_def sample_approvals_def sample_service_def sample_approval_def auth_bindings.truncate_def)
  show ?thesis
    by (simp add: before_charge_def g a i f u p sample_net sample_observation sample_observation_valid sample_prepared
        truthy_text_def or_empty_def external_ok_def Let_def)
qed

text \<open>An observation whose receipt is recorded, and one whose receipt cannot be.\<close>

definition sample_dispatch :: "sqlite_io \<Rightarrow> (approval_error, broker_response \<times> string) result \<times> budget_db \<times> broker_event list" where
  "sample_dispatch io = service_request \<lparr>li_read = Works, li_reserve = Works, li_settle = io\<rparr> sample_world sample_approvals
     sample_service ''r1'' sample_intent None 10 11 None sample_ledger"

lemma sample_service_run:
  "\<exists>D'. sample_dispatch Works = (Inr (\<lparr>re_status = 200, re_url = ''https://b.co/x'', re_headers = [], re_body = ''ok''\<rparr>, ''r1''), D',
     [Acquired ''https://b.co/x'', Sent sample_second, Closed, Completed])"
  "\<exists>D'. sample_dispatch Fails = (Inl (BudgetErr ''cannot persist broker receipt''), D',
     [Acquired ''https://b.co/x'', Sent sample_second, Closed, Completed])"
proof -
  let ?b = "observation_broker sample_service sample_intent"
  have g: "upper ''GET'' = ''GET''" by (simp add: str_eval)
  have f: "ri_url sample_intent = ''https://b.co/x''" "ri_method sample_intent = ''GET''" "ps_auth sample_service = sample_approval"
    by (simp_all add: sample_intent_def sample_service_def)
  have mb: "bk_max_body ?b = 40" "bk_timeout ?b = 10"
    by (simp_all add: observation_broker_def sample_intent_def sample_service_def sample_broker_def)
  have one: "one_hop sample_world ?b True t True
      \<lparr>hr_url = ''https://b.co/x'', hr_method = ''GET'', hr_headers = [], hr_data = None\<rparr> \<lparr>bs_count = 0, bs_trace = []\<rparr>
     = (Finish (Inr \<lparr>re_status = 200, re_url = ''https://b.co/x'', re_headers = [], re_body = ''ok''\<rparr>),
        \<lparr>bs_count = 1, bs_trace = [Acquired ''https://b.co/x'', Sent sample_second, Closed, Completed]\<rparr>)" for t
    by (simp add: one_hop_def sample_observation_valid sample_observation sample_prepared under_permit_def complete_def
        after_reply_def sample_reply_simps answer_def sample_second_def mb Let_def)
      (simp add: sample_reply_def sanitize_headers_def update_all_def mb)
  have run: "broker_request sample_world ?b ''https://b.co/x'' ''GET'' [] None (Some 10) True \<lparr>bs_count = 0, bs_trace = []\<rparr>
     = (Inr \<lparr>re_status = 200, re_url = ''https://b.co/x'', re_headers = [], re_body = ''ok''\<rparr>,
        \<lparr>bs_count = 1, bs_trace = [Acquired ''https://b.co/x'', Sent sample_second, Closed, Completed]\<rparr>)"
    by (simp add: broker_request_def g sample_observation hops.simps [of _ _ _ _ 0] one)
  have w: "li_read \<lparr>li_read = Works, li_reserve = Works, li_settle = io\<rparr> = Works" for io by simp
  show "\<exists>D'. sample_dispatch Works = (Inr (\<lparr>re_status = 200, re_url = ''https://b.co/x'', re_headers = [], re_body = ''ok''\<rparr>, ''r1''), D',
     [Acquired ''https://b.co/x'', Sent sample_second, Closed, Completed])"
    by (simp add: sample_dispatch_def service_request_def sample_before_charge f sample_net sample_reserve run settle_def rowcount_def)
  show "\<exists>D'. sample_dispatch Fails = (Inl (BudgetErr ''cannot persist broker receipt''), D',
     [Acquired ''https://b.co/x'', Sent sample_second, Closed, Completed])"
    by (simp add: sample_dispatch_def service_request_def sample_before_charge f sample_net sample_reserve run settle_def in_tx_def)
qed

lemma service_accounts_for_its_dispatch_witness:
  "(\<exists>(row :: policy_reservation) (receipt :: policy_receipt).
     bd_reservations (fst (snd (sample_dispatch Works))) = [row] \<and> pv_status row = RsCompleted \<and> pv_bytes row = 40
     \<and> bd_receipts (fst (snd (sample_dispatch Works))) = [receipt] \<and> pt_bytes receipt = 2)
   \<and> (\<exists>(row :: policy_reservation). bd_reservations (fst (snd (sample_dispatch Fails))) = [row]
     \<and> pv_status row = RsReserved \<and> pv_bytes row = 40)"
proof -
  have e: "bd_reservations sample_ledger = []" "bd_receipts sample_ledger = []" "ri_max_bytes sample_intent = 40"
    by (simp_all add: sample_ledger_def sample_intent_def)
  obtain D1 D2 where r: "sample_dispatch Works = (Inr (\<lparr>re_status = 200, re_url = ''https://b.co/x'', re_headers = [], re_body = ''ok''\<rparr>, ''r1''), D1,
     [Acquired ''https://b.co/x'', Sent sample_second, Closed, Completed])"
    "sample_dispatch Fails = (Inl (BudgetErr ''cannot persist broker receipt''), D2,
     [Acquired ''https://b.co/x'', Sent sample_second, Closed, Completed])" using sample_service_run by blast
  show ?thesis
  proof (rule conjI, goal_cases)
    case 1
    show ?case using service_accounts_for_its_dispatch [OF r(1) [unfolded sample_dispatch_def]] by (auto simp: r(1) e)
  next
    case 2
    show ?case using service_accounts_for_its_dispatch [OF r(2) [unfolded sample_dispatch_def]] by (auto simp: r(2) e)
  qed
qed

end
