(* ===== verification/Work_Queue.thy ===== *)
theory Work_Queue
  imports Coverage
begin

text \<open>
  \<open>src/src/aidast/attack/work_queue.py\<close>: the queue of leads that follow new evidence of the attack
  graph.  Each lead points at a coverage item; a batch takes some of its items from the queue and
  the rest in breadth order, and the queue is reconciled with the coverage ledger afterwards.
  \<open>lead_id\<close> is the digest that names a lead.  The identifiers in the metadata of a graph node are
  strings; timestamps that nothing reads are left out.
\<close>

section \<open>Tables\<close>

record graph_node =
  gn_id :: string
  gn_scan :: string
  gn_kind :: string
  gn_priority :: int
  gn_active :: bool
  gn_updated :: string
  gn_meta :: "(string \<times> string) list"

datatype lead_state = LeadQueued | LeadClaimed | LeadCompleted | LeadDeferred | LeadCancelled

record lead_row =
  lq_id :: string
  lq_scan :: string
  lq_source :: string
  lq_item :: string
  lq_endpoint :: string
  lq_vuln :: string
  lq_skill :: string
  lq_priority :: int
  lq_state :: lead_state
  lq_reason :: string
  lq_revision :: "string option"
  lq_run :: "string option"
  lq_task :: "string option"
  lq_created :: string

record queue_db =
  wq_cov :: cov_db
  wq_nodes :: "graph_node list"
  wq_revisions :: "(string \<times> string) list"
  wq_leads :: "lead_row list"

section \<open>Refreshing the queue\<close>

definition claimable_status :: "cov_item \<Rightarrow> bool" where
  "claimable_status c \<longleftrightarrow> cv_status c \<in> {CPending, CErrorRetryable}"

text \<open>Which items a source makes worth a follow-up, and the reason recorded with them.\<close>

definition follow_ups :: "graph_node \<Rightarrow> (cov_item \<Rightarrow> bool) \<times> string" where
  "follow_ups g =
     (if gn_kind g = ''credential''
      then (\<lambda>c. cv_role c \<noteq> ''unauthenticated'', ''credential evidence can satisfy an authenticated coverage prerequisite'')
      else if gn_kind g \<in> {''object'', ''identity''}
      then (\<lambda>c. cv_vuln c \<in> {''idor'', ''business_logic'', ''auth_bypass'', ''race_condition'', ''session''},
            ''owned identity or object evidence enables a boundary follow-up'')
      else if gn_kind g = ''finding''
      then (\<lambda>c. dict_get (gn_meta g) ''endpoint_id'' = Some (cv_endpoint c),
            ''a finding on this endpoint enables an immediate related hypothesis'')
      else if gn_kind g = ''lead''
      then (\<lambda>c. cv_task c \<noteq> None \<and> dict_get (gn_meta g) ''task_id'' = cv_task c,
            ''a reproducible lead should be resolved before breadth-only work'')
      else (\<lambda>c. dict_get (gn_meta g) ''source_endpoint_id'' = Some (cv_endpoint c),
            ''a new endpoint fact changes the next attack hypothesis''))"

definition lead_sources :: "string \<Rightarrow> queue_db \<Rightarrow> graph_node list" where
  "lead_sources scan D = sort_key (\<lambda>g. (- gn_priority g, gn_updated g, gn_id g))
     (filter (\<lambda>g. gn_scan g = scan \<and> gn_active g
        \<and> gn_kind g \<in> {''lead'', ''finding'', ''credential'', ''object'', ''identity'', ''fact''}) (wq_nodes D))"

definition follow_up_items :: "string \<Rightarrow> graph_node \<Rightarrow> queue_db \<Rightarrow> cov_item list" where
  "follow_up_items scan g D = take 32 (sort_key (\<lambda>c. (cv_attempts c, cv_updated c, cv_id c))
     (filter (\<lambda>c. cv_scan c = scan \<and> claimable_status c \<and> fst (follow_ups g) c) (cb_items (wq_cov D))))"

definition insert_lead :: "lead_row \<Rightarrow> queue_db \<Rightarrow> queue_db" where
  "insert_lead q D =
     (if (\<exists>r\<in>set (wq_leads D). lq_id r = lq_id q
            \<or> (lq_scan r, lq_source r, lq_item r) = (lq_scan q, lq_source q, lq_item q))
         \<or> sql_blank (lq_vuln q) \<or> sql_blank (lq_skill q) \<or> \<not> (0 \<le> lq_priority q \<and> lq_priority q \<le> 100)
      then D else D\<lparr>wq_leads := wq_leads D @ [q]\<rparr>)"

definition new_lead :: "(string \<Rightarrow> string \<Rightarrow> string \<Rightarrow> string) \<Rightarrow> string \<Rightarrow> string \<Rightarrow> graph_node \<Rightarrow> queue_db \<Rightarrow> cov_item \<Rightarrow> lead_row" where
  "new_lead lead_id ts scan g D c =
     \<lparr>lq_id = lead_id scan (gn_id g) (cv_id c), lq_scan = scan, lq_source = gn_id g, lq_item = cv_id c,
      lq_endpoint = cv_endpoint c, lq_vuln = cv_vuln c, lq_skill = cv_skill c,
      lq_priority = min 100 (max (gn_priority g) 70), lq_state = LeadQueued, lq_reason = snd (follow_ups g),
      lq_revision = map_option snd (find (\<lambda>r. fst r = scan) (rev (wq_revisions D))),
      lq_run = None, lq_task = None, lq_created = ts\<rparr>"

definition refresh_lead_queue ::
  "(string \<Rightarrow> string \<Rightarrow> string \<Rightarrow> string) \<Rightarrow> string \<Rightarrow> string \<Rightarrow> queue_db \<Rightarrow> queue_db" where
  "refresh_lead_queue lead_id ts scan D =
     fold (\<lambda>g. fold (\<lambda>c. insert_lead (new_lead lead_id ts scan g D c)) (follow_up_items scan g D)) (lead_sources scan D) D"

section \<open>Selecting, claiming and reconciling\<close>

record queue_selection =
  qs_preferred :: "string list"
  qs_leads :: "string list"
  qs_lead_slots :: nat
  qs_coverage_slots :: nat

definition selectable :: "string \<Rightarrow> queue_db \<Rightarrow> lead_row list" where
  "selectable scan D = sort_key (\<lambda>q. (- lq_priority q, lq_created q, lq_id q))
     (filter (\<lambda>q. lq_scan q = scan \<and> lq_state q = LeadQueued
        \<and> (case item_of (lq_item q) (wq_cov D) of None \<Rightarrow> False | Some c \<Rightarrow> claimable_status c)) (wq_leads D))"

definition lead_share :: "nat \<Rightarrow> lead_row list \<Rightarrow> nat" where
  "lead_share batch queued =
     (if queued = [] \<or> batch = 1 then min (length queued) batch
      else let target = (if \<exists>q\<in>set queued. 95 \<le> lq_priority q then (batch + 1) div 2 else max 1 (batch div 3))
           in min (min (length queued) target) (batch - 1))"

definition select_dual_queue :: "string \<Rightarrow> nat \<Rightarrow> queue_db \<Rightarrow> (db_error, queue_selection) result" where
  "select_dual_queue scan batch D =
     (if \<not> (1 \<le> batch \<and> batch \<le> 50) then Inl (ValueErr ''batch size must be between 1 and 50'')
      else let queued = selectable scan D; n = lead_share batch queued; chosen = take n queued
           in Inr \<lparr>qs_preferred = dedupe (map lq_item chosen), qs_leads = map lq_id chosen,
                   qs_lead_slots = n, qs_coverage_slots = batch - n\<rparr>)"

text \<open>\<open>tasks\<close> are the claimed items with their tasks.\<close>

definition mark_lead :: "string \<Rightarrow> string \<Rightarrow> (string \<times> string) list \<Rightarrow> string \<Rightarrow> queue_db \<Rightarrow> queue_db" where
  "mark_lead scan run tasks q D =
     (case find (\<lambda>r. lq_id r = q \<and> lq_scan r = scan) (wq_leads D) of
        None \<Rightarrow> D
      | Some row \<Rightarrow> (case map_of (rev tasks) (lq_item row) of
          None \<Rightarrow> D
        | Some task \<Rightarrow> D\<lparr>wq_leads := update_where (\<lambda>r. lq_id r = q \<and> lq_state r = LeadQueued)
            (\<lambda>r. r\<lparr>lq_state := LeadClaimed, lq_run := Some run, lq_task := Some task\<rparr>) (wq_leads D)\<rparr>))"

definition mark_claimed_leads :: "string \<Rightarrow> string \<Rightarrow> (string \<times> string) list \<Rightarrow> queue_selection \<Rightarrow> queue_db \<Rightarrow> queue_db" where
  "mark_claimed_leads scan run tasks sel D = fold (mark_lead scan run tasks) (qs_leads sel) D"

definition reconciled_lead :: "cov_status \<Rightarrow> lead_row \<Rightarrow> lead_row" where
  "reconciled_lead s r =
     (if s \<in> {CPending, CErrorRetryable} then r\<lparr>lq_state := LeadQueued, lq_run := None, lq_task := None\<rparr>
      else if s = CRunning then r\<lparr>lq_state := LeadClaimed, lq_run := None, lq_task := None\<rparr>
      else if s = CBlockedAuth then r\<lparr>lq_state := LeadDeferred\<rparr>
      else r\<lparr>lq_state := LeadCompleted\<rparr>)"

definition reconcile_lead_queue :: "string \<Rightarrow> string \<Rightarrow> queue_db \<Rightarrow> queue_db" where
  "reconcile_lead_queue scan run D =
     (let rows = filter (\<lambda>q. lq_scan q = scan \<and> lq_run q = Some run \<and> lq_state q = LeadClaimed
                           \<and> item_of (lq_item q) (wq_cov D) \<noteq> None) (wq_leads D)
      in fold (\<lambda>q D'. D'\<lparr>wq_leads := update_where (\<lambda>r. lq_id r = lq_id q)
                 (reconciled_lead (cv_status (the (item_of (lq_item q) (wq_cov D))))) (wq_leads D')\<rparr>) rows D)"

section \<open>The share of the leads\<close>

lemma lead_share_bounds:
  assumes "1 \<le> batch"
  shows "lead_share batch queued \<le> length queued" and "lead_share batch queued \<le> batch"
    and "queued \<noteq> [] \<Longrightarrow> 1 \<le> lead_share batch queued"
    and "1 < batch \<Longrightarrow> lead_share batch queued < batch"
  using assms by (auto simp: lead_share_def Let_def Suc_le_eq min_def)

text \<open>
  C36: the dual queue serves both queues.  A selection splits the batch between leads and breadth;
  a waiting lead is always served, and unless the batch is a single item at least one item is left
  to breadth.  The leads chosen are queued leads of the scan whose items can be claimed, and no
  waiting lead has a higher priority than a chosen one.
\<close>

theorem dual_queue_serves_both:
  assumes "select_dual_queue scan batch D = Inr sel"
  shows "qs_lead_slots sel + qs_coverage_slots sel = batch \<and> length (qs_leads sel) = qs_lead_slots sel
    \<and> (selectable scan D \<noteq> [] \<longrightarrow> 1 \<le> qs_lead_slots sel) \<and> (1 < batch \<longrightarrow> 1 \<le> qs_coverage_slots sel)
    \<and> distinct (qs_preferred sel)
    \<and> (\<exists>chosen waiting. selectable scan D = chosen @ waiting \<and> qs_leads sel = map lq_id chosen
         \<and> set (qs_preferred sel) = lq_item ` set chosen
         \<and> (\<forall>q\<in>set chosen. \<forall>r\<in>set waiting. lq_priority r \<le> lq_priority q))"
proof -
  let ?q = "selectable scan D" and ?n = "lead_share batch (selectable scan D)"
  have b: "1 \<le> batch" and sel: "sel = \<lparr>qs_preferred = dedupe (map lq_item (take ?n ?q)), qs_leads = map lq_id (take ?n ?q),
      qs_lead_slots = ?n, qs_coverage_slots = batch - ?n\<rparr>"
    using assms by (auto simp: select_dual_queue_def Let_def split: if_splits)
  note bounds = lead_share_bounds [OF b, of ?q]
  have "sorted (map (\<lambda>q. (- lq_priority q, lq_created q, lq_id q)) (take ?n ?q @ drop ?n ?q))"
    by (simp add: selectable_def)
  then have "\<forall>q\<in>set (take ?n ?q). \<forall>r\<in>set (drop ?n ?q).
      (- lq_priority q, lq_created q, lq_id q) \<le> (- lq_priority r, lq_created r, lq_id r)"
    unfolding map_append sorted_append by auto
  then have "\<forall>q\<in>set (take ?n ?q). \<forall>r\<in>set (drop ?n ?q). lq_priority r \<le> lq_priority q"
    by fastforce
  moreover have "?q = take ?n ?q @ drop ?n ?q" by simp
  ultimately have "\<exists>chosen waiting. ?q = chosen @ waiting \<and> qs_leads sel = map lq_id chosen
      \<and> set (qs_preferred sel) = lq_item ` set chosen
      \<and> (\<forall>q\<in>set chosen. \<forall>r\<in>set waiting. lq_priority r \<le> lq_priority q)"
    unfolding sel by (intro exI [of _ "take ?n ?q"] exI [of _ "drop ?n ?q"]) simp
  then show ?thesis using bounds unfolding sel by (simp add: Suc_le_eq)
qed

section \<open>Reconciling the queue\<close>

lemma fold_update_leads:
  "fold (\<lambda>q D'. D'\<lparr>wq_leads := update_where (p q) (f q) (wq_leads D')\<rparr>) rows D
     = D\<lparr>wq_leads := fold (\<lambda>q. update_where (p q) (f q)) rows (wq_leads D)\<rparr>"
  by (induction rows arbitrary: D) simp_all

lemma fold_update_by_key:
  assumes "\<And>q r. key (f q r) = key r" and "distinct (map key rows)"
  shows "fold (\<lambda>q. update_where (\<lambda>r. key r = key q) (f q)) rows t
     = map (\<lambda>r. case find_row key (key r) rows of None \<Rightarrow> r | Some q \<Rightarrow> f q r) t"
  using assms(2)
proof (induction rows arbitrary: t)
  case Nil
  then show ?case by (simp add: find_row_def)
next
  case (Cons q rows)
  have "find_row key (key q) rows = None" using Cons.prems by (simp add: find_row_None)
  then show ?case using Cons assms(1)
    by (auto simp: find_row_def update_where_def split: option.splits)
qed

lemma find_row_filter:
  assumes "distinct (map key t)" and "r \<in> set t"
  shows "find_row key (key r) (filter p t) = (if p r then Some r else None)"
  using assms
proof (induction t)
  case (Cons x t)
  show ?case
  proof (cases "r = x")
    case True
    then have "\<forall>y\<in>set t. key y \<noteq> key r" using Cons.prems by (force simp: image_iff)
    with True show ?thesis by (auto simp: find_row_def find_None_iff)
  next
    case False
    then have "key x \<noteq> key r" using Cons.prems by auto
    with False Cons show ?thesis by (simp add: find_row_def)
  qed
qed simp

lemma reconciled_id [simp]: "lq_id (reconciled_lead s r) = lq_id r"
  by (simp add: reconciled_lead_def)

definition due_lead :: "string \<Rightarrow> string \<Rightarrow> queue_db \<Rightarrow> lead_row \<Rightarrow> bool" where
  "due_lead scan run D q \<longleftrightarrow> lq_scan q = scan \<and> lq_run q = Some run \<and> lq_state q = LeadClaimed
     \<and> item_of (lq_item q) (wq_cov D) \<noteq> None"

lemma reconciled_leads:
  assumes "distinct (map lq_id (wq_leads D))"
  shows "wq_leads (reconcile_lead_queue scan run D) = map (\<lambda>q. if due_lead scan run D q
    then reconciled_lead (cv_status (the (item_of (lq_item q) (wq_cov D)))) q else q) (wq_leads D)"
proof -
  let ?rows = "filter (due_lead scan run D) (wq_leads D)"
  let ?f = "\<lambda>q. reconciled_lead (cv_status (the (item_of (lq_item q) (wq_cov D))))"
  have d: "distinct (map lq_id ?rows)" using assms by (simp add: distinct_map_filter)
  have "wq_leads (reconcile_lead_queue scan run D)
      = fold (\<lambda>q. update_where (\<lambda>r. lq_id r = lq_id q) (?f q)) ?rows (wq_leads D)"
    by (simp add: reconcile_lead_queue_def Let_def fold_update_leads due_lead_def [abs_def])
  also have "\<dots> = map (\<lambda>r. case find_row lq_id (lq_id r) ?rows of None \<Rightarrow> r | Some q \<Rightarrow> ?f q r) (wq_leads D)"
    by (rule fold_update_by_key [OF _ d]) simp
  also have "\<dots> = map (\<lambda>q. if due_lead scan run D q then ?f q q else q) (wq_leads D)"
    using find_row_filter [OF assms] by (intro map_cong [OF refl]) simp
  finally show ?thesis .
qed

text \<open>
  A batch gives its leads back.  After \<open>reconcile_lead_queue\<close> for the stage run of a batch, a
  lead that the batch had claimed is queued again, without run and task, if its coverage item can be
  retried, deferred if the item waits for a credential, and completed if the item has any other
  disposition; the leads of other batches are untouched.
\<close>

theorem reconciled_leads_follow_coverage:
  assumes "distinct (map lq_id (wq_leads D))" and "q \<in> set (wq_leads D)"
    and "item_of (lq_item q) (wq_cov D) = Some c" and "cv_status c \<noteq> CRunning"
  shows "\<exists>q'\<in>set (wq_leads (reconcile_lead_queue scan run D)). lq_id q' = lq_id q
    \<and> (if lq_scan q = scan \<and> lq_run q = Some run \<and> lq_state q = LeadClaimed
       then lq_state q' = (if claimable_status c then LeadQueued else if cv_status c = CBlockedAuth then LeadDeferred else LeadCompleted)
         \<and> (claimable_status c \<longrightarrow> lq_run q' = None \<and> lq_task q' = None)
       else q' = q)"
proof -
  let ?g = "\<lambda>q. if due_lead scan run D q then reconciled_lead (cv_status (the (item_of (lq_item q) (wq_cov D)))) q else q"
  have "?g q \<in> set (wq_leads (reconcile_lead_queue scan run D))"
    using assms(2) unfolding reconciled_leads [OF assms(1)] by auto
  then show ?thesis
    using assms(3,4) by (intro bexI [of _ "?g q"]) (auto simp: due_lead_def reconciled_lead_def claimable_status_def)
qed

section \<open>Shelved leads\<close>

text \<open>
  A lead is shelved when it is deferred, completed or cancelled, or claimed by no run: nothing that
  happens to the queue ever changes that.
\<close>

definition shelved_row :: "string \<Rightarrow> lead_state \<Rightarrow> lead_row \<Rightarrow> bool" where
  "shelved_row i st r \<longleftrightarrow> lq_id r = i \<and> lq_state r = st \<and> st \<noteq> LeadQueued \<and> (st = LeadClaimed \<longrightarrow> lq_run r = None)"

definition shelved :: "string \<Rightarrow> lead_state \<Rightarrow> lead_row list \<Rightarrow> bool" where
  "shelved i st leads \<longleftrightarrow> distinct (map lq_id leads) \<and> (\<exists>r\<in>set leads. shelved_row i st r)"

lemma shelved_update:
  assumes "shelved i st leads" "\<And>r. lq_id (f r) = lq_id r"
    and "\<And>r. r \<in> set leads \<Longrightarrow> p r \<Longrightarrow> shelved_row i st r \<Longrightarrow> shelved_row i st (f r)"
  shows "shelved i st (update_where p f leads)"
proof -
  from assms(1) obtain r where r: "r \<in> set leads" "shelved_row i st r" by (auto simp: shelved_def)
  have "(if p r then f r else r) \<in> set (update_where p f leads)" using r(1) by (auto simp: update_where_def)
  moreover have "shelved_row i st (if p r then f r else r)" using assms(3) [OF r(1)] r(2) by simp
  moreover have "map lq_id (update_where p f leads) = map lq_id leads" by (rule map_update_where) (rule assms(2))
  ultimately show ?thesis using assms(1) unfolding shelved_def by auto
qed

lemma shelved_append: "shelved i st leads \<Longrightarrow> lq_id q \<notin> lq_id ` set leads \<Longrightarrow> shelved i st (leads @ [q])"
  by (auto simp: shelved_def)

lemma shelved_insert: "shelved i st (wq_leads D) \<Longrightarrow> shelved i st (wq_leads (insert_lead r D))"
  by (cases "lq_id r \<in> lq_id ` set (wq_leads D)")
    (simp_all add: insert_lead_def shelved_append, metis image_iff)

lemma shelved_refresh: assumes "shelved i st (wq_leads D)" shows "shelved i st (wq_leads (refresh_lead_queue lead_id ts scan D))"
proof -
  have inner: "shelved i st (wq_leads D1) \<Longrightarrow> shelved i st (wq_leads (fold (\<lambda>c. insert_lead (h c)) cs D1))" for h and cs :: "cov_item list" and D1
    by (induction cs arbitrary: D1) (simp_all add: shelved_insert)
  have "shelved i st (wq_leads D1) \<Longrightarrow> shelved i st (wq_leads (fold (\<lambda>g. fold (\<lambda>c. insert_lead (h g c)) (k g)) gs D1))"
    for h and k :: "graph_node \<Rightarrow> cov_item list" and gs D1
    by (induction gs arbitrary: D1) (simp_all add: inner)
  note outer = this
  show ?thesis unfolding refresh_lead_queue_def by (rule outer [OF assms])
qed

lemma shelved_mark: "shelved i st (wq_leads D) \<Longrightarrow> shelved i st (wq_leads (mark_lead scan run tasks q D))"
  by (auto simp: mark_lead_def shelved_row_def intro!: shelved_update split: option.split)

lemma shelved_marks: "shelved i st (wq_leads D) \<Longrightarrow> shelved i st (wq_leads (mark_claimed_leads scan run tasks sel D))"
proof -
  have "shelved i st (wq_leads D) \<Longrightarrow> shelved i st (wq_leads (fold (mark_lead scan run tasks) qs D))" for qs D
    by (induction qs arbitrary: D) (simp_all add: shelved_mark)
  then show "shelved i st (wq_leads D) \<Longrightarrow> ?thesis" by (simp add: mark_claimed_leads_def)
qed

lemma shelved_reconcile:
  assumes "shelved i st (wq_leads D)"
  shows "shelved i st (wq_leads (reconcile_lead_queue scan run D))"
proof -
  let ?g = "\<lambda>q. if due_lead scan run D q then reconciled_lead (cv_status (the (item_of (lq_item q) (wq_cov D)))) q else q"
  have d: "distinct (map lq_id (wq_leads D))" using assms by (simp add: shelved_def)
  obtain r where r: "r \<in> set (wq_leads D)" "shelved_row i st r" using assms by (auto simp: shelved_def)
  then have "\<not> due_lead scan run D r" by (auto simp: shelved_row_def due_lead_def)
  then have "r \<in> ?g ` set (wq_leads D)" using r(1) by (intro image_eqI [where x = r]) simp_all
  moreover have "map lq_id (map ?g (wq_leads D)) = map lq_id (wq_leads D)" by simp
  ultimately have "distinct (map lq_id (map ?g (wq_leads D)))" "r \<in> set (map ?g (wq_leads D))"
    using d by (simp_all only: set_map)
  then show ?thesis using r(2) unfolding reconciled_leads [OF d] shelved_def by blast
qed

lemma shelved_not_selectable:
  assumes "shelved i st (wq_leads D)"
  shows "\<forall>r\<in>set (selectable scan D). lq_id r \<noteq> i"
proof
  fix r assume r: "r \<in> set (selectable scan D)"
  obtain q where q: "q \<in> set (wq_leads D)" "shelved_row i st q" using assms by (auto simp: shelved_def)
  show "lq_id r \<noteq> i"
  proof
    assume "lq_id r = i"
    with r q assms have "r = q" by (auto simp: selectable_def shelved_def shelved_row_def distinct_map dest: inj_onD)
    with r q(2) show False by (auto simp: selectable_def shelved_row_def)
  qed
qed

text \<open>Reconciling a running item strands its lead: claimed, but by no run.\<close>

lemma running_item_strands_its_lead:
  assumes "distinct (map lq_id (wq_leads D))" and "q \<in> set (wq_leads D)" and "lq_scan q = scan" and "lq_run q = Some run"
    and "lq_state q = LeadClaimed" and "item_of (lq_item q) (wq_cov D) = Some c" and "cv_status c = CRunning"
  shows "shelved (lq_id q) LeadClaimed (wq_leads (reconcile_lead_queue scan run D))"
proof -
  let ?q = "q\<lparr>lq_state := LeadClaimed, lq_run := None, lq_task := None\<rparr>"
  have due: "due_lead scan run D q" using assms by (simp add: due_lead_def)
  have r: "reconciled_lead (cv_status (the (item_of (lq_item q) (wq_cov D)))) q = ?q"
    using assms by (simp add: reconciled_lead_def)
  have "?q \<in> set (wq_leads (reconcile_lead_queue scan run D))"
    unfolding reconciled_leads [OF assms(1)] set_map
    by (rule image_eqI [OF _ assms(2)]) (simp only: due r if_True)
  moreover have "map lq_id (wq_leads (reconcile_lead_queue scan run D)) = map lq_id (wq_leads D)"
    unfolding reconciled_leads [OF assms(1)] by simp
  moreover have "shelved_row (lq_id q) LeadClaimed ?q" by (simp add: shelved_row_def)
  ultimately show ?thesis using assms(1) unfolding shelved_def by metis
qed

section \<open>A worked queue\<close>

definition sample_lead :: lead_row where
  "sample_lead = \<lparr>lq_id = ''l'', lq_scan = ''s'', lq_source = ''g'', lq_item = ''a'', lq_endpoint = ''e'', lq_vuln = ''xss'',
     lq_skill = ''hunt-xss'', lq_priority = 80, lq_state = LeadQueued, lq_reason = ''r'', lq_revision = None,
     lq_run = None, lq_task = None, lq_created = ''t''\<rparr>"

definition sample_queue :: "cov_status \<Rightarrow> lead_row \<Rightarrow> queue_db" where
  "sample_queue s q = \<lparr>wq_cov = sample_cov [sample_item ''a'' s], wq_nodes = [], wq_revisions = [], wq_leads = [q]\<rparr>"

lemma sample_queue_item: "item_of ''a'' (wq_cov (sample_queue s q)) = Some (sample_item ''a'' s)"
  by (simp add: item_of_def find_row_def sample_queue_def sample_cov_def sample_item_def)

lemma sample_selectable: "selectable ''s'' (sample_queue CPending sample_lead) = [sample_lead]"
proof -
  have "item_of (lq_item sample_lead) (wq_cov (sample_queue CPending sample_lead)) = Some (sample_item ''a'' CPending)"
    using sample_queue_item by (simp add: sample_lead_def)
  moreover have "wq_leads (sample_queue CPending sample_lead) = [sample_lead]" by (simp add: sample_queue_def)
  ultimately show ?thesis
    by (simp add: selectable_def) (simp add: claimable_status_def sample_item_def sample_lead_def)
qed

lemma dual_queue_serves_both_witness:
  "\<exists>sel. select_dual_queue ''s'' 4 (sample_queue CPending sample_lead) = Inr sel
     \<and> 1 \<le> qs_lead_slots sel \<and> 1 \<le> qs_coverage_slots sel"
proof -
  obtain sel where sel: "select_dual_queue ''s'' 4 (sample_queue CPending sample_lead) = Inr sel"
    by (simp add: select_dual_queue_def Let_def)
  with dual_queue_serves_both [OF sel] show ?thesis by (simp add: sample_selectable)
qed

lemma sample_claimed:
  "distinct (map lq_id (wq_leads (sample_queue s (sample_lead\<lparr>lq_state := LeadClaimed, lq_run := Some ''r''\<rparr>))))"
  "sample_lead\<lparr>lq_state := LeadClaimed, lq_run := Some ''r''\<rparr> \<in> set (wq_leads (sample_queue s (sample_lead\<lparr>lq_state := LeadClaimed, lq_run := Some ''r''\<rparr>)))"
  "item_of (lq_item (sample_lead\<lparr>lq_state := LeadClaimed, lq_run := Some ''r''\<rparr>)) (wq_cov (sample_queue s x)) = Some (sample_item ''a'' s)"
  using sample_queue_item by (simp_all add: sample_queue_def sample_lead_def)

lemma reconciled_leads_follow_coverage_witness:
  "\<exists>q\<in>set (wq_leads (reconcile_lead_queue ''s'' ''r''
      (sample_queue CBlockedAuth (sample_lead\<lparr>lq_state := LeadClaimed, lq_run := Some ''r''\<rparr>)))).
     lq_id q = ''l'' \<and> lq_state q = LeadDeferred"
proof -
  have "cv_status (sample_item ''a'' CBlockedAuth) \<noteq> CRunning" by (simp add: sample_item_def)
  from reconciled_leads_follow_coverage [OF sample_claimed(1) sample_claimed(2) sample_claimed(3) this, of "''s''" "''r''"]
  show ?thesis by (simp add: sample_lead_def claimable_status_def sample_item_def)
qed

end
