(* ===== verification/Preconditions.thy ===== *)
theory Preconditions
  imports Coverage
begin

text \<open>
  \<open>src/src/aidast/attack/preconditions.py\<close>: what blocks a coverage item becomes a durable
  precondition row, resolved from credential references and attack facts, or an action for the
  operator; an item whose preconditions are settled goes back to pending.  Digests, the JSON text of
  a requirement and the credential resolver are functions of \<open>pre_env\<close>; \<open>pe_foreign\<close> says whether
  the connection enforces foreign keys (the batch coordinator does, the dashboard does not).  The
  Korean texts of the actions, which nothing reads, and the Korean markers, which no ASCII reason
  contains, are left out.
\<close>

section \<open>Tables\<close>

datatype need_kind = UsableSession | RequiredRole | SecondIdentity | OwnedObject | FreshToken | PriorState

datatype requirement =
    NeedReferences string nat
  | NeedObjects nat
  | NeedFacts nat

datatype pre_state = PreRequired | PreSatisfied | PreWaived | PreRetired

record pre_row =
  pr_id :: string
  pr_scan :: string
  pr_item :: string
  pr_kind :: need_kind
  pr_state :: pre_state
  pr_requirement :: requirement
  pr_resolution :: "(string \<times> string) option"

datatype action_kind =
  Login | ProvideRole | ProvideSecondIdentity | CreateOwnedObject | RefreshToken | EstablishState

datatype act_status = ActPending | ActAcknowledged | ActCompleted | ActExpired | ActCancelled

record action_row =
  ac_id :: string
  ac_scan :: string
  ac_pre :: string
  ac_kind :: action_kind
  ac_status :: act_status
  ac_by :: "string option"
  ac_created :: string

record fact_row =
  af_id :: string
  af_scan :: string
  af_type :: string
  af_key :: string
  af_value :: "string option"
  af_confidence :: rat
  af_endpoint :: "string option"
  af_finding :: "string option"
  af_created :: string

record pre_db =
  pd_cov :: cov_db
  pd_rows :: "pre_row list"
  pd_actions :: "action_row list"
  pd_facts :: "fact_row list"

record pre_env =
  pe_net :: net_env
  pe_usable :: "string \<Rightarrow> string option \<Rightarrow> bool"
  pe_id :: "string \<Rightarrow> string \<Rightarrow> need_kind \<Rightarrow> string"
  pe_action :: "string \<Rightarrow> string"
  pe_json :: "requirement \<Rightarrow> string"
  pe_foreign :: bool

record resolution_counts =
  rc_discovered :: nat
  rc_satisfied :: nat
  rc_actions :: nat
  rc_requeued :: nat

section \<open>What an item needs\<close>

definition action_of :: "need_kind \<Rightarrow> action_kind" where
  "action_of k = (case k of
     UsableSession \<Rightarrow> Login | RequiredRole \<Rightarrow> ProvideRole | SecondIdentity \<Rightarrow> ProvideSecondIdentity
   | OwnedObject \<Rightarrow> CreateOwnedObject | FreshToken \<Rightarrow> RefreshToken | PriorState \<Rightarrow> EstablishState)"

definition mentions :: "string \<Rightarrow> string list \<Rightarrow> bool" where
  "mentions reason markers \<longleftrightarrow> (\<exists>m\<in>set markers. contains reason m)"

text \<open>The kinds are distinct, so the final \<open>dict\<close> of the code keeps the list as it is.\<close>

definition needed_preconditions :: "cov_item \<Rightarrow> (need_kind \<times> requirement) list" where
  "needed_preconditions c =
     (let reason = squeeze_spaces (lower (or_blank (cv_reason c)));
          role = (if cv_role c = '''' then ''unauthenticated'' else cv_role c)
      in (if cv_status c = CBlockedAuth \<or> role \<noteq> ''unauthenticated''
          then [(if role \<notin> {''authenticated'', ''unknown'', ''unauthenticated''} then RequiredRole else UsableSession,
                 NeedReferences role 1)] else [])
       @ (if cv_vuln c = ''idor'' \<and> (cv_status c = CBlockedAuth
               \<or> mentions reason [''second identity'', ''two identit'', ''2 identit''])
          then [(SecondIdentity, NeedReferences role 2)] else [])
       @ (if mentions reason [''owned object'', ''owned test object'', ''scanner-owned'', ''scanner created'', ''test fixture'']
          then [(OwnedObject, NeedObjects 1)] else [])
       @ (if mentions reason [''fresh token'', ''expired token'', ''csrf token'', ''nonce'']
          then [(FreshToken, NeedFacts 1)] else [])
       @ (if mentions reason [''prior state'', ''required state'', ''precondition state'', ''workflow state'']
          then [(PriorState, NeedFacts 1)] else []))"

section \<open>What resolves a need\<close>

definition credential_resolution ::
  "pre_env \<Rightarrow> string \<Rightarrow> cov_item \<Rightarrow> string \<Rightarrow> nat \<Rightarrow> cov_db \<Rightarrow> (db_error, (string \<times> string) option) result" where
  "credential_resolution E origin c role minimum D =
     bindR (credential_references (pe_net E) (pe_usable E) (cv_scan c)
              (if role = '''' then ''authenticated'' else role) True (Some origin) D)
       (\<lambda>refs. Inr (if length refs < minimum then None
                   else Some (''credential_reference'', cr_id (refs ! (minimum - 1)))))"

definition fact_types :: "need_kind \<Rightarrow> string set" where
  "fact_types k = (case k of
     OwnedObject \<Rightarrow> {''owned_test_object''}
   | FreshToken \<Rightarrow> {''fresh_token'', ''csrf_token'', ''auth_behavior''}
   | PriorState \<Rightarrow> {''test_state'', ''workflow_state'', ''owned_test_object''}
   | _ \<Rightarrow> {})"

definition fact_before :: "fact_row \<Rightarrow> fact_row \<Rightarrow> bool" where
  "fact_before f g \<longleftrightarrow> af_confidence g < af_confidence f \<or> af_confidence g = af_confidence f \<and>
     (af_created g < af_created f \<or> af_created g = af_created f \<and> af_id f < af_id g)"

fun first_fact :: "fact_row list \<Rightarrow> fact_row option" where
  "first_fact [] = None"
| "first_fact (f # fs) = (case first_fact fs of None \<Rightarrow> Some f | Some g \<Rightarrow> Some (if fact_before g f then g else f))"

definition fact_resolution :: "string \<Rightarrow> need_kind \<Rightarrow> fact_row list \<Rightarrow> (string \<times> string) option" where
  "fact_resolution scan k facts =
     map_option (\<lambda>f. (''attack_fact'', af_id f))
       (first_fact (filter (\<lambda>f. af_scan f = scan \<and> af_type f \<in> fact_types k) facts))"

definition need_resolution ::
  "pre_env \<Rightarrow> string \<Rightarrow> string \<Rightarrow> cov_item \<Rightarrow> need_kind \<times> requirement \<Rightarrow> pre_db
     \<Rightarrow> (db_error, (string \<times> string) option) result" where
  "need_resolution E scan origin c need D =
     (case need of
        (_, NeedReferences role minimum) \<Rightarrow> credential_resolution E origin c role minimum (pd_cov D)
      | (k, _) \<Rightarrow> Inr (fact_resolution scan k (pd_facts D)))"

section \<open>The rows of a need\<close>

definition insert_precondition ::
  "pre_env \<Rightarrow> string \<Rightarrow> string \<Rightarrow> need_kind \<times> requirement \<Rightarrow> pre_db \<Rightarrow> pre_db \<times> nat" where
  "insert_precondition E scan i need D =
     (let p = pe_id E scan i (fst need)
      in if (\<exists>r\<in>set (pd_rows D). pr_id r = p \<or> (pr_scan r, pr_item r, pr_kind r) = (scan, i, fst need))
            \<or> 4096 < length (pe_json E (snd need))
         then (D, 0)
         else (D\<lparr>pd_rows := pd_rows D @ [\<lparr>pr_id = p, pr_scan = scan, pr_item = i, pr_kind = fst need,
                   pr_state = PreRequired, pr_requirement = snd need, pr_resolution = None\<rparr>]\<rparr>, 1))"

definition satisfy :: "string \<Rightarrow> string \<times> string \<Rightarrow> pre_db \<Rightarrow> pre_db \<times> nat" where
  "satisfy p res D =
     (let (D1, n) = (case find_row pr_id p (pd_rows D) of
            None \<Rightarrow> (D, 0)
          | Some r \<Rightarrow> if pr_state r = PreSatisfied then (D, 0)
              else (D\<lparr>pd_rows := update_where (\<lambda>r. pr_id r = p)
                     (\<lambda>r. r\<lparr>pr_state := PreSatisfied, pr_resolution := Some res\<rparr>) (pd_rows D)\<rparr>, 1))
      in (D1\<lparr>pd_actions := update_where (\<lambda>a. ac_pre a = p \<and> ac_status a \<in> {ActPending, ActAcknowledged})
                (\<lambda>a. a\<lparr>ac_status := ActCompleted\<rparr>) (pd_actions D1)\<rparr>, n))"

definition insert_action ::
  "pre_env \<Rightarrow> string \<Rightarrow> string \<Rightarrow> string \<Rightarrow> need_kind \<Rightarrow> pre_db \<Rightarrow> (db_error, pre_db \<times> nat) result" where
  "insert_action E ts scan p k D =
     (if \<exists>a\<in>set (pd_actions D). ac_id a = pe_action E p \<or> ac_pre a = p then Inr (D, 0)
      else if pe_foreign E \<and> p \<notin> pr_id ` set (pd_rows D) then Inl (IntegrityErr ''FOREIGN KEY constraint failed'')
      else Inr (D\<lparr>pd_actions := pd_actions D @ [\<lparr>ac_id = pe_action E p, ac_scan = scan, ac_pre = p,
                  ac_kind = action_of k, ac_status = ActPending, ac_by = None, ac_created = ts\<rparr>]\<rparr>, 1))"

record sweep =
  sw_db :: pre_db
  sw_counts :: resolution_counts
  sw_touched :: "string list"

definition resolve_need ::
  "pre_env \<Rightarrow> string \<Rightarrow> string \<Rightarrow> string \<Rightarrow> cov_item \<Rightarrow> need_kind \<times> requirement \<Rightarrow> sweep \<Rightarrow> (db_error, sweep) result" where
  "resolve_need E ts scan origin c need s =
     (let p = pe_id E scan (cv_id c) (fst need);
          (D1, new) = insert_precondition E scan (cv_id c) need (sw_db s);
          n = (sw_counts s)\<lparr>rc_discovered := rc_discovered (sw_counts s) + new\<rparr>;
          touched = sw_touched s @ [p]
      in bindR (need_resolution E scan origin c need D1) (\<lambda>res.
           case res of
             Some x \<Rightarrow> (let (D2, k) = satisfy p x D1
                        in Inr \<lparr>sw_db = D2, sw_counts = n\<lparr>rc_satisfied := rc_satisfied n + k\<rparr>, sw_touched = touched\<rparr>)
           | None \<Rightarrow> bindR (insert_action E ts scan p (fst need) D1) (\<lambda>(D2, k).
               Inr \<lparr>sw_db = D2, sw_counts = n\<lparr>rc_actions := rc_actions n + k\<rparr>, sw_touched = touched\<rparr>)))"

definition open_status :: "cov_item \<Rightarrow> bool" where
  "open_status c \<longleftrightarrow> cv_status c \<in> {CPending, CErrorRetryable, CBlockedAuth, CUnsupported}"

definition open_items :: "string \<Rightarrow> cov_db \<Rightarrow> (cov_item \<times> string) list" where
  "open_items scan D = List.map_filter (\<lambda>c. map_option (\<lambda>e. (c, ep_origin e)) (endpoint_of D c))
     (sort_key cv_id (select_items (\<lambda>c. cv_scan c = scan \<and> open_status c) D))"

definition sweep_items :: "pre_env \<Rightarrow> string \<Rightarrow> string \<Rightarrow> pre_db \<Rightarrow> (db_error, sweep) result" where
  "sweep_items E ts scan D =
     foldR (\<lambda>(c, origin). foldR (resolve_need E ts scan origin c) (needed_preconditions c)) (open_items scan (pd_cov D))
       \<lparr>sw_db = D, sw_counts = \<lparr>rc_discovered = 0, rc_satisfied = 0, rc_actions = 0, rc_requeued = 0\<rparr>, sw_touched = []\<rparr>"

definition retire_untouched :: "string \<Rightarrow> string list \<Rightarrow> pre_db \<Rightarrow> pre_db" where
  "retire_untouched scan touched D =
     (if touched = [] then D
      else D\<lparr>pd_rows := update_where (\<lambda>r. pr_scan r = scan \<and> pr_state r = PreRequired \<and> pr_id r \<notin> set touched)
                (\<lambda>r. r\<lparr>pr_state := PreRetired\<rparr>) (pd_rows D)\<rparr>)"

definition settled_items :: "string \<Rightarrow> pre_db \<Rightarrow> cov_item list" where
  "settled_items scan D = select_items (\<lambda>c. cv_scan c = scan \<and> cv_status c \<in> {CBlockedAuth, CUnsupported}
      \<and> (\<exists>r\<in>set (pd_rows D). pr_item r = cv_id c)
      \<and> \<not> (\<exists>r\<in>set (pd_rows D). pr_item r = cv_id c \<and> pr_state r = PreRequired)) (pd_cov D)"

definition requeue_settled :: "string \<Rightarrow> cov_item \<Rightarrow> cov_db \<Rightarrow> (db_error, cov_db) result" where
  "requeue_settled ts c D = transition_coverage ts (cv_id c) CPending
     ''all durable attack preconditions are satisfied'' (cv_run c) (cv_task c) (cv_finding c) D"

definition resolve_attack_preconditions ::
  "pre_env \<Rightarrow> string \<Rightarrow> string \<Rightarrow> pre_db \<Rightarrow> (db_error, pre_db \<times> resolution_counts) result" where
  "resolve_attack_preconditions E ts scan D =
     bindR (sweep_items E ts scan D) (\<lambda>s.
       let D1 = retire_untouched scan (sw_touched s) (sw_db s);
           rows = settled_items scan D1
       in bindR (foldR (requeue_settled ts) rows (pd_cov D1)) (\<lambda>C.
            Inr (D1\<lparr>pd_cov := C\<rparr>, (sw_counts s)\<lparr>rc_requeued := length rows\<rparr>)))"

section \<open>Operator actions\<close>

definition action_rank :: "act_status \<Rightarrow> nat" where
  "action_rank s = (case s of ActPending \<Rightarrow> 0 | ActAcknowledged \<Rightarrow> 1 | _ \<Rightarrow> 2)"

definition list_operator_actions :: "string \<Rightarrow> pre_db \<Rightarrow> (action_row \<times> pre_row \<times> cov_item \<times> endpoint_row) list" where
  "list_operator_actions scan D =
     List.map_filter (\<lambda>a. Option.bind (find_row pr_id (ac_pre a) (pd_rows D)) (\<lambda>p.
         Option.bind (item_of (pr_item p) (pd_cov D)) (\<lambda>c.
           map_option (\<lambda>e. (a, p, c, e)) (endpoint_of (pd_cov D) c))))
       (sort_key (\<lambda>a. (action_rank (ac_status a), ac_created a, ac_id a))
          (filter (\<lambda>a. ac_scan a = scan) (pd_actions D)))"

text \<open>The missing action is a \<open>KeyError\<close>, the exhausted \<open>next\<close> a \<open>StopIteration\<close>; both are \<open>ValueErr\<close> here.\<close>

definition acknowledge_operator_action ::
  "pre_env \<Rightarrow> string \<Rightarrow> string \<Rightarrow> string \<Rightarrow> string \<Rightarrow> pre_db
     \<Rightarrow> (db_error, pre_db \<times> (action_row \<times> pre_row \<times> cov_item \<times> endpoint_row) \<times> resolution_counts) result" where
  "acknowledge_operator_action E ts scan action operator D =
     (case find (\<lambda>a. ac_scan a = scan \<and> ac_id a = action) (pd_actions D) of
        None \<Rightarrow> Inl (ValueErr action)
      | Some a \<Rightarrow>
          if ac_status a \<in> {ActExpired, ActCancelled} then Inl (ValueErr ''operator action is no longer active'')
          else let D1 = (if ac_status a = ActCompleted then D
                 else D\<lparr>pd_actions := update_where (\<lambda>a. ac_id a = action)
                        (\<lambda>a. a\<lparr>ac_status := ActAcknowledged, ac_by := Some (take 120 operator)\<rparr>) (pd_actions D)\<rparr>)
               in bindR (resolve_attack_preconditions E ts scan D1) (\<lambda>(D2, n).
                    case find (\<lambda>x. ac_id (fst x) = action) (list_operator_actions scan D2) of
                      None \<Rightarrow> Inl (ValueErr ''StopIteration'')
                    | Some x \<Rightarrow> Inr (D2, x, n)))"

section \<open>The sweep\<close>

definition row_state :: "string \<Rightarrow> pre_db \<Rightarrow> pre_state option" where
  "row_state p D = map_option pr_state (find_row pr_id p (pd_rows D))"

text \<open>The digest that names a row tells scan, item and kind apart.\<close>

definition collision_free :: "pre_env \<Rightarrow> bool" where
  "collision_free E \<longleftrightarrow> inj (\<lambda>(s, i, k). pe_id E s i k)"

definition short_requirements :: "pre_env \<Rightarrow> cov_item \<Rightarrow> bool" where
  "short_requirements E c \<longleftrightarrow> (\<forall>need\<in>set (needed_preconditions c). length (pe_json E (snd need)) \<le> 4096)"

text \<open>The rows carry the digest of their key, and belong to the scan of their item.\<close>

definition named_rows :: "pre_env \<Rightarrow> pre_db \<Rightarrow> bool" where
  "named_rows E D \<longleftrightarrow> distinct (map pr_id (pd_rows D))
     \<and> (\<forall>r\<in>set (pd_rows D). pr_id r = pe_id E (pr_scan r) (pr_item r) (pr_kind r))"

definition pre_ok :: "pre_env \<Rightarrow> pre_db \<Rightarrow> bool" where
  "pre_ok E D \<longleftrightarrow> named_rows E D \<and> distinct (map cv_id (cb_items (pd_cov D)))
     \<and> (\<forall>c\<in>set (cb_items (pd_cov D)). endpoint_of (pd_cov D) c \<noteq> None \<and> short_requirements E c
          \<and> (\<forall>r\<in>set (pd_rows D). pr_item r = cv_id c \<longrightarrow> pr_scan r = cv_scan c))"

lemma optional_kinds_distinct:
  "distinct (map fst ((if a then [(if f then RequiredRole else UsableSession, u)] else [])
     @ (if b then [(SecondIdentity, v)] else []) @ (if c then [(OwnedObject, w)] else [])
     @ (if d then [(FreshToken, x)] else []) @ (if e then [(PriorState, y)] else [])))"
  by (cases a; cases b; cases c; cases d; cases e; cases f) simp_all

lemma need_kinds_distinct: "distinct (map fst (needed_preconditions c))"
  unfolding needed_preconditions_def Let_def by (rule optional_kinds_distinct)

lemma blocked_item_needs: "cv_status c = CBlockedAuth \<Longrightarrow> needed_preconditions c \<noteq> []"
  unfolding needed_preconditions_def Let_def by simp

lemma collision_freeD:
  "collision_free E \<Longrightarrow> pe_id E s i k = pe_id E s' i' k' \<longleftrightarrow> s = s' \<and> i = i' \<and> k = k'"
  using inj_eq [of "\<lambda>(s, i, k). pe_id E s i k" "(s, i, k)" "(s', i', k')"] by (auto simp: collision_free_def)

text \<open>One need, as the states of the rows see it.\<close>

type_synonym job = "cov_item \<times> string \<times> need_kind \<times> requirement"

definition job_id :: "pre_env \<Rightarrow> string \<Rightarrow> job \<Rightarrow> string" where
  "job_id E scan j = (case j of (c, _, k, _) \<Rightarrow> pe_id E scan (cv_id c) k)"

definition job_resolution :: "pre_env \<Rightarrow> string \<Rightarrow> pre_db \<Rightarrow> job \<Rightarrow> (db_error, (string \<times> string) option) result" where
  "job_resolution E scan D j = (case j of (c, origin, need) \<Rightarrow> need_resolution E scan origin c need D)"

definition run_job :: "pre_env \<Rightarrow> string \<Rightarrow> string \<Rightarrow> job \<Rightarrow> sweep \<Rightarrow> (db_error, sweep) result" where
  "run_job E ts scan j = (case j of (c, origin, need) \<Rightarrow> resolve_need E ts scan origin c need)"

definition jobs :: "string \<Rightarrow> cov_db \<Rightarrow> job list" where
  "jobs scan D = concat (map (\<lambda>(c, origin). map (\<lambda>need. (c, origin, need)) (needed_preconditions c)) (open_items scan D))"

lemma foldR_nested:
  "foldR (\<lambda>x. foldR (f x) (g x)) xs s = foldR (\<lambda>(x, y). f x y) (concat (map (\<lambda>x. map (Pair x) (g x)) xs)) s"
proof (induction xs arbitrary: s)
  case (Cons x xs)
  have "foldR (\<lambda>(x, y). f x y) (map (Pair x) ys) s = foldR (f x) ys s" for ys s
  proof (induction ys arbitrary: s)
    case (Cons y ys)
    then show ?case by (cases "f x y s") simp_all
  qed simp
  then show ?case using Cons by (simp add: foldR_append bindR_def split: sum.splits)
qed simp

lemma foldR_map: "foldR f (map g xs) s = foldR (\<lambda>x. f (g x)) xs s"
proof (induction xs arbitrary: s)
  case (Cons x xs)
  then show ?case by (cases "f (g x) s") simp_all
qed simp

lemma sweep_items_jobs:
  "sweep_items E ts scan D = foldR (run_job E ts scan) (jobs scan (pd_cov D))
     \<lparr>sw_db = D, sw_counts = \<lparr>rc_discovered = 0, rc_satisfied = 0, rc_actions = 0, rc_requeued = 0\<rparr>, sw_touched = []\<rparr>"
proof -
  let ?pairs = "concat (map (\<lambda>x. map (Pair x) (needed_preconditions (fst x))) (open_items scan (pd_cov D)))"
  let ?f = "\<lambda>x need. run_job E ts scan (fst x, snd x, need)"
  have "(\<lambda>(c, origin). foldR (resolve_need E ts scan origin c) (needed_preconditions c))
      = (\<lambda>x. foldR (?f x) (needed_preconditions (fst x)))"
    by (simp add: fun_eq_iff run_job_def)
  then have "sweep_items E ts scan D = foldR (\<lambda>(x, need). ?f x need) ?pairs
     \<lparr>sw_db = D, sw_counts = \<lparr>rc_discovered = 0, rc_satisfied = 0, rc_actions = 0, rc_requeued = 0\<rparr>, sw_touched = []\<rparr>"
    unfolding sweep_items_def foldR_nested [symmetric] by simp
  moreover have "jobs scan (pd_cov D) = map (\<lambda>(x, need). (fst x, snd x, need)) ?pairs"
    by (simp add: jobs_def map_concat comp_def case_prod_unfold)
  ultimately show ?thesis by (simp add: foldR_map case_prod_unfold)
qed

lemma insert_precondition_rows:
  assumes "collision_free E" and "named_rows E D" and "length (pe_json E (snd need)) \<le> 4096"
    and "insert_precondition E scan i need D = (D1, n)"
  shows "pd_cov D1 = pd_cov D" "pd_facts D1 = pd_facts D" "named_rows E D1"
    and "row_state q D1 = (if q = pe_id E scan i (fst need) \<and> row_state q D = None then Some PreRequired else row_state q D)"
proof -
  let ?p = "pe_id E scan i (fst need)"
  have "(\<exists>r\<in>set (pd_rows D). pr_id r = ?p \<or> (pr_scan r, pr_item r, pr_kind r) = (scan, i, fst need))
      \<longleftrightarrow> ?p \<in> pr_id ` set (pd_rows D)"
    using assms(2) by (force simp: named_rows_def)
  then have D1: "D1 = (if ?p \<in> pr_id ` set (pd_rows D) then D
      else D\<lparr>pd_rows := pd_rows D @ [\<lparr>pr_id = ?p, pr_scan = scan, pr_item = i, pr_kind = fst need,
                   pr_state = PreRequired, pr_requirement = snd need, pr_resolution = None\<rparr>]\<rparr>)"
    using assms(3,4) by (simp add: insert_precondition_def Let_def split: if_splits)
  show "pd_cov D1 = pd_cov D" "pd_facts D1 = pd_facts D" by (simp_all add: D1)
  show "named_rows E D1" using assms(2) by (auto simp: D1 named_rows_def)
  show "row_state q D1 = (if q = ?p \<and> row_state q D = None then Some PreRequired else row_state q D)"
    by (auto simp: D1 row_state_def find_row_snoc_new find_row_None)
qed

lemma satisfy_rows:
  assumes "satisfy p x D = (D1, n)" and "named_rows E D"
  shows "pd_cov D1 = pd_cov D" "pd_facts D1 = pd_facts D" "named_rows E D1"
    and "row_state q D1 = (if q = p \<and> row_state p D \<noteq> None then Some PreSatisfied else row_state q D)"
proof -
  let ?f = "\<lambda>r. r\<lparr>pr_state := PreSatisfied, pr_resolution := Some x\<rparr>"
  have rows: "pd_rows D1 = (case find_row pr_id p (pd_rows D) of None \<Rightarrow> pd_rows D
      | Some r \<Rightarrow> if pr_state r = PreSatisfied then pd_rows D else update_where (\<lambda>r. pr_id r = p) ?f (pd_rows D))"
    and same: "pd_cov D1 = pd_cov D" "pd_facts D1 = pd_facts D"
    using assms(1) by (auto simp: satisfy_def Let_def split: option.splits if_splits)
  show "pd_cov D1 = pd_cov D" "pd_facts D1 = pd_facts D" by (simp_all add: same)
  show "named_rows E D1" using assms(2)
    by (auto simp: named_rows_def rows map_update_where in_update_where split: option.splits if_splits)
  show "row_state q D1 = (if q = p \<and> row_state p D \<noteq> None then Some PreSatisfied else row_state q D)"
    by (auto simp: row_state_def rows find_row_update_key split: option.splits if_splits)
qed

lemma run_job_rows:
  assumes "run_job E ts scan j s = Inr s'" and "collision_free E" and "named_rows E (sw_db s)"
    and "length (pe_json E (snd (snd (snd j)))) \<le> 4096"
  shows "pd_cov (sw_db s') = pd_cov (sw_db s) \<and> pd_facts (sw_db s') = pd_facts (sw_db s) \<and> named_rows E (sw_db s')
    \<and> sw_touched s' = sw_touched s @ [job_id E scan j]
    \<and> (\<exists>res. job_resolution E scan (sw_db s) j = Inr res
       \<and> (\<forall>q. row_state q (sw_db s') = (if q \<noteq> job_id E scan j then row_state q (sw_db s)
            else if res \<noteq> None then Some PreSatisfied
            else if row_state q (sw_db s) = None then Some PreRequired else row_state q (sw_db s))))"
proof -
  obtain c origin need where j: "j = (c, origin, need)" by (cases j) auto
  let ?p = "pe_id E scan (cv_id c) (fst need)"
  have id: "job_id E scan (c, origin, need) = ?p" by (simp add: job_id_def case_prod_unfold)
  obtain D1 n where ins: "insert_precondition E scan (cv_id c) need (sw_db s) = (D1, n)" by fastforce
  note D1 = insert_precondition_rows [OF assms(2,3) _ ins]
  have len: "length (pe_json E (snd need)) \<le> 4096" using assms(4) by (simp add: j)
  have same: "need_resolution E scan origin c need D1 = need_resolution E scan origin c need (sw_db s)"
    using D1(1,2) [OF len] by (simp add: need_resolution_def split: prod.splits requirement.splits)
  obtain res where res: "need_resolution E scan origin c need (sw_db s) = Inr res"
    using assms(1) same by (auto simp: run_job_def j resolve_need_def ins Let_def elim: bindR_InrE)
  show ?thesis
  proof (cases res)
    case (Some x)
    obtain D2 k where sat: "satisfy ?p x D1 = (D2, k)" by fastforce
    have "sw_db s' = D2" "sw_touched s' = sw_touched s @ [?p]"
      using assms(1) by (auto simp: run_job_def j resolve_need_def ins Let_def same res Some sat)
    then show ?thesis
      using satisfy_rows [OF sat D1(3) [OF len]] D1 [OF len] res Some
      by (auto simp: id job_resolution_def j)
  next
    case None
    obtain D2 k where act: "insert_action E ts scan ?p (fst need) D1 = Inr (D2, k)"
      and s': "sw_db s' = D2" "sw_touched s' = sw_touched s @ [?p]"
      using assms(1) by (auto simp: run_job_def j resolve_need_def ins Let_def same res None elim!: bindR_InrE)
    have "pd_cov D2 = pd_cov D1" "pd_facts D2 = pd_facts D1" "pd_rows D2 = pd_rows D1"
      using act by (auto simp: insert_action_def split: if_splits)
    then have "named_rows E D2 = named_rows E D1" "\<And>q. row_state q D2 = row_state q D1"
      "pd_cov D2 = pd_cov D1" "pd_facts D2 = pd_facts D1"
      by (simp_all add: named_rows_def row_state_def)
    then show ?thesis using D1 [OF len] res None s'
      by (simp add: id job_resolution_def j)
  qed
qed

text \<open>What the whole sweep leaves: every need is resolved from the tables as they stood.\<close>

lemma run_jobs_rows:
  assumes "foldR (run_job E ts scan) js s = Inr s'" and "collision_free E" and "named_rows E (sw_db s)"
    and "\<forall>j\<in>set js. length (pe_json E (snd (snd (snd j)))) \<le> 4096"
  shows "pd_cov (sw_db s') = pd_cov (sw_db s) \<and> pd_facts (sw_db s') = pd_facts (sw_db s) \<and> named_rows E (sw_db s')
    \<and> sw_touched s' = sw_touched s @ map (job_id E scan) js
    \<and> (\<forall>j\<in>set js. \<exists>res. job_resolution E scan (sw_db s) j = Inr res)
    \<and> (\<forall>q. row_state q (sw_db s') = (if q \<notin> job_id E scan ` set js then row_state q (sw_db s)
         else if \<exists>j\<in>set js. job_id E scan j = q \<and> job_resolution E scan (sw_db s) j \<noteq> Inr None then Some PreSatisfied
         else if row_state q (sw_db s) = None then Some PreRequired else row_state q (sw_db s)))"
  using assms
proof (induction js arbitrary: s)
  case (Cons j js)
  obtain t where t: "run_job E ts scan j s = Inr t" and rest: "foldR (run_job E ts scan) js t = Inr s'"
    using Cons.prems(1) by (auto elim: bindR_InrE)
  have len: "length (pe_json E (snd (snd (snd j)))) \<le> 4096" using Cons.prems(4) by simp
  from run_job_rows [OF t Cons.prems(2,3) len]
  obtain res where one: "pd_cov (sw_db t) = pd_cov (sw_db s)" "pd_facts (sw_db t) = pd_facts (sw_db s)"
    "named_rows E (sw_db t)" "sw_touched t = sw_touched s @ [job_id E scan j]"
    "job_resolution E scan (sw_db s) j = Inr res"
    "\<And>q. row_state q (sw_db t) = (if q \<noteq> job_id E scan j then row_state q (sw_db s)
            else if res \<noteq> None then Some PreSatisfied
            else if row_state q (sw_db s) = None then Some PreRequired else row_state q (sw_db s))" by blast
  have same: "job_resolution E scan (sw_db t) k = job_resolution E scan (sw_db s) k" for k
    using one(1,2) by (simp add: job_resolution_def need_resolution_def split: prod.splits requirement.splits)
  have "\<forall>j\<in>set js. length (pe_json E (snd (snd (snd j)))) \<le> 4096" using Cons.prems(4) by simp
  note IH = Cons.IH [OF rest Cons.prems(2) one(3) this, unfolded same one(1,2,4)]
  have ne: "Inr res \<noteq> Inr None \<longleftrightarrow> res \<noteq> None" by simp
  have "row_state q (sw_db s') = (if q \<notin> job_id E scan ` set (j # js) then row_state q (sw_db s)
         else if \<exists>j\<in>set (j # js). job_id E scan j = q \<and> job_resolution E scan (sw_db s) j \<noteq> Inr None then Some PreSatisfied
         else if row_state q (sw_db s) = None then Some PreRequired else row_state q (sw_db s))" for q
  proof -
    define A where "A \<longleftrightarrow> q \<in> job_id E scan ` set js"
    define X where "X \<longleftrightarrow> (\<exists>j\<in>set js. job_id E scan j = q \<and> job_resolution E scan (sw_db s) j \<noteq> Inr None)"
    have imp: "X \<Longrightarrow> A" by (auto simp: A_def X_def)
    have e1: "q \<in> job_id E scan ` set (j # js) \<longleftrightarrow> q = job_id E scan j \<or> A" by (auto simp: A_def)
    have e2: "(\<exists>j\<in>set (j # js). job_id E scan j = q \<and> job_resolution E scan (sw_db s) j \<noteq> Inr None)
        \<longleftrightarrow> (job_id E scan j = q \<and> res \<noteq> None) \<or> X" using one(5) by (simp add: X_def)
    have e3: "row_state q (sw_db s') = (if \<not> A then row_state q (sw_db t) else if X then Some PreSatisfied
        else if row_state q (sw_db t) = None then Some PreRequired else row_state q (sw_db t))"
      using IH by (simp add: A_def X_def)
    show ?thesis unfolding e1 e2 e3 one(6) [of q] using imp by auto
  qed
  with IH one(5) show ?case by auto
qed simp

section \<open>Which items are settled\<close>

text \<open>A need is met when it can be resolved now, or when its row stands in a state other than required.\<close>

definition need_met :: "pre_env \<Rightarrow> string \<Rightarrow> pre_db \<Rightarrow> cov_item \<Rightarrow> need_kind \<times> requirement \<Rightarrow> bool" where
  "need_met E scan D c need \<longleftrightarrow>
     (case endpoint_of (pd_cov D) c of None \<Rightarrow> False
      | Some e \<Rightarrow> (case need_resolution E scan (ep_origin e) c need D of Inr (Some _) \<Rightarrow> True | _ \<Rightarrow> False))
     \<or> row_state (pe_id E scan (cv_id c) (fst need)) D \<notin> {None, Some PreRequired}"

lemma in_jobs:
  "j \<in> set (jobs scan D) \<longleftrightarrow> (\<exists>c e need. j = (c, ep_origin e, need) \<and> c \<in> set (cb_items D) \<and> cv_scan c = scan
     \<and> open_status c \<and> endpoint_of D c = Some e
     \<and> need \<in> set (needed_preconditions c))"
proof -
  have "(c, u) \<in> set (open_items scan D) \<longleftrightarrow> c \<in> set (cb_items D) \<and> cv_scan c = scan \<and> open_status c
      \<and> (\<exists>e. endpoint_of D c = Some e \<and> u = ep_origin e)" for c u
    by (force simp: open_items_def List.map_filter_def select_items_def)
  then show ?thesis unfolding jobs_def by fastforce
qed

lemma sweep_result:
  assumes "sweep_items E ts scan D = Inr s" and "collision_free E" and "pre_ok E D"
  shows "pd_cov (sw_db s) = pd_cov D" "named_rows E (sw_db s)" "sw_touched s = map (job_id E scan) (jobs scan (pd_cov D))"
    and "j \<in> set (jobs scan (pd_cov D)) \<Longrightarrow> \<exists>res. job_resolution E scan D j = Inr res"
    and "row_state q (sw_db s) = (if q \<notin> job_id E scan ` set (jobs scan (pd_cov D)) then row_state q D
         else if \<exists>j\<in>set (jobs scan (pd_cov D)). job_id E scan j = q \<and> job_resolution E scan D j \<noteq> Inr None
         then Some PreSatisfied else if row_state q D = None then Some PreRequired else row_state q D)"
proof -
  have "\<forall>j\<in>set (jobs scan (pd_cov D)). length (pe_json E (snd (snd (snd j)))) \<le> 4096"
  proof
    fix j assume "j \<in> set (jobs scan (pd_cov D))"
    then obtain c e need where "j = (c, e, need)" "c \<in> set (cb_items (pd_cov D))" "need \<in> set (needed_preconditions c)"
      unfolding in_jobs by blast
    then show "length (pe_json E (snd (snd (snd j)))) \<le> 4096"
      using assms(3) unfolding pre_ok_def short_requirements_def by simp
  qed
  moreover have "named_rows E D" using assms(3) by (simp add: pre_ok_def)
  ultimately have r: "pd_cov (sw_db s) = pd_cov D \<and> pd_facts (sw_db s) = pd_facts D \<and> named_rows E (sw_db s)
    \<and> sw_touched s = map (job_id E scan) (jobs scan (pd_cov D))
    \<and> (\<forall>j\<in>set (jobs scan (pd_cov D)). \<exists>res. job_resolution E scan D j = Inr res)
    \<and> (\<forall>q. row_state q (sw_db s) = (if q \<notin> job_id E scan ` set (jobs scan (pd_cov D)) then row_state q D
         else if \<exists>j\<in>set (jobs scan (pd_cov D)). job_id E scan j = q \<and> job_resolution E scan D j \<noteq> Inr None then Some PreSatisfied
         else if row_state q D = None then Some PreRequired else row_state q D))"
    using run_jobs_rows [OF assms(1) [unfolded sweep_items_jobs] assms(2)] unfolding sweep.select_convs append_Nil by blast
  then show "pd_cov (sw_db s) = pd_cov D" "named_rows E (sw_db s)" "sw_touched s = map (job_id E scan) (jobs scan (pd_cov D))"
    "j \<in> set (jobs scan (pd_cov D)) \<Longrightarrow> \<exists>res. job_resolution E scan D j = Inr res"
    by blast+
  from r show "row_state q (sw_db s) = (if q \<notin> job_id E scan ` set (jobs scan (pd_cov D)) then row_state q D
         else if \<exists>j\<in>set (jobs scan (pd_cov D)). job_id E scan j = q \<and> job_resolution E scan D j \<noteq> Inr None
         then Some PreSatisfied else if row_state q D = None then Some PreRequired else row_state q D)" by blast
qed

lemma same_job:
  assumes "collision_free E" and "pre_ok E D" and "j \<in> set (jobs scan (pd_cov D))"
    and "c \<in> set (cb_items (pd_cov D))" and "endpoint_of (pd_cov D) c = Some e"
    and "need \<in> set (needed_preconditions c)" and "job_id E scan j = pe_id E scan (cv_id c) (fst need)"
  shows "j = (c, ep_origin e, need)"
proof -
  obtain c' e' need' where j: "j = (c', ep_origin e', need')" "c' \<in> set (cb_items (pd_cov D))"
    "endpoint_of (pd_cov D) c' = Some e'" "need' \<in> set (needed_preconditions c')"
    using assms(3) by (auto simp: in_jobs)
  have "cv_id c' = cv_id c" "fst need' = fst need"
    using assms(7) by (auto simp: j(1) job_id_def case_prod_unfold collision_freeD [OF assms(1)])
  moreover have "distinct (map cv_id (cb_items (pd_cov D)))" using assms(2) by (simp add: pre_ok_def)
  ultimately have "c' = c" using j(2) assms(4) by (auto simp: distinct_map inj_on_def)
  moreover from this have "need' = need"
    using \<open>fst need' = fst need\<close> j(4) assms(6) need_kinds_distinct [of c] by (metis eq_key_imp_eq_value prod.collapse)
  ultimately show ?thesis using j assms(5) by simp
qed

text \<open>The state of the row of a need after the sweep.\<close>

lemma row_of_need:
  assumes "sweep_items E ts scan D = Inr s" and "collision_free E" and "pre_ok E D"
    and "c \<in> set (cb_items (pd_cov D))" and "cv_scan c = scan"
    and "open_status c" and "need \<in> set (needed_preconditions c)"
  shows "row_state (pe_id E scan (cv_id c) (fst need)) (sw_db s) \<noteq> None"
    and "row_state (pe_id E scan (cv_id c) (fst need)) (sw_db s) = Some PreRequired \<longleftrightarrow> \<not> need_met E scan D c need"
    and "pe_id E scan (cv_id c) (fst need) \<in> set (sw_touched s)"
proof -
  let ?p = "pe_id E scan (cv_id c) (fst need)"
  obtain e where e: "endpoint_of (pd_cov D) c = Some e" using assms(3,4) by (auto simp: pre_ok_def)
  let ?j = "(c, ep_origin e, need)"
  have j: "?j \<in> set (jobs scan (pd_cov D))" using assms(4-7) e by (auto simp: in_jobs)
  have id: "job_id E scan ?j = ?p" by (simp add: job_id_def case_prod_unfold)
  have only: "(\<exists>k\<in>set (jobs scan (pd_cov D)). job_id E scan k = ?p \<and> job_resolution E scan D k \<noteq> Inr None)
      \<longleftrightarrow> job_resolution E scan D ?j \<noteq> Inr None"
    using same_job [OF assms(2,3) _ assms(4) e assms(7)] j id by blast
  have touched: "?p \<in> job_id E scan ` set (jobs scan (pd_cov D))" using j id by (metis image_eqI)
  obtain res where res: "job_resolution E scan D ?j = Inr res" using sweep_result(4) [OF assms(1-3) j] by blast
  have met: "need_met E scan D c need \<longleftrightarrow> res \<noteq> None \<or> row_state ?p D \<notin> {None, Some PreRequired}"
    using res by (auto simp: need_met_def e job_resolution_def split: option.splits)
  have st: "row_state ?p (sw_db s) = (if res \<noteq> None then Some PreSatisfied
      else if row_state ?p D = None then Some PreRequired else row_state ?p D)"
    using sweep_result(5) [OF assms(1-3), of ?p] touched unfolding only res by simp
  show "row_state ?p (sw_db s) \<noteq> None" by (simp add: st)
  show "row_state ?p (sw_db s) = Some PreRequired \<longleftrightarrow> \<not> need_met E scan D c need"
    unfolding st met by auto
  show "?p \<in> set (sw_touched s)" using touched sweep_result(3) [OF assms(1-3)] by simp
qed

lemma row_stateD: "row_state p D = Some x \<Longrightarrow> \<exists>r\<in>set (pd_rows D). pr_id r = p \<and> pr_state r = x"
  by (auto simp: row_state_def dest: find_row_Some)

lemma row_state_in:
  assumes "named_rows E D" and "r \<in> set (pd_rows D)"
  shows "row_state (pr_id r) D = Some (pr_state r)"
  using assms find_row_unique [of pr_id "pd_rows D" r] by (simp add: named_rows_def row_state_def)

text \<open>After the sweep the only required rows of an item with needs are those of its unmet needs.\<close>

lemma required_row_unmet:
  assumes "sweep_items E ts scan D = Inr s" and "collision_free E" and "pre_ok E D"
    and "c \<in> set (cb_items (pd_cov D))" and "cv_scan c = scan" and "sw_touched s \<noteq> []"
    and "r \<in> set (pd_rows (retire_untouched scan (sw_touched s) (sw_db s)))"
    and "pr_item r = cv_id c" and "pr_state r = PreRequired"
  shows "\<exists>need\<in>set (needed_preconditions c). \<not> need_met E scan D c need"
proof -
  have r: "r \<in> set (pd_rows (sw_db s))" and kept: "pr_scan r \<noteq> scan \<or> pr_id r \<in> set (sw_touched s)"
  proof -
    define P where "P = (\<lambda>r :: pre_row. pr_scan r = scan \<and> pr_state r = PreRequired \<and> pr_id r \<notin> set (sw_touched s))"
    obtain r0 where r0: "r0 \<in> set (pd_rows (sw_db s))" "r = (if P r0 then r0\<lparr>pr_state := PreRetired\<rparr> else r0)"
      using assms(6,7) by (auto simp: retire_untouched_def in_update_where P_def [symmetric])
    with assms(9) have "\<not> P r0" by auto
    with r0 have "r \<in> set (pd_rows (sw_db s))" "\<not> P r" by simp_all
    with assms(9) show "r \<in> set (pd_rows (sw_db s))" "pr_scan r \<noteq> scan \<or> pr_id r \<in> set (sw_touched s)"
      by (auto simp: P_def)
  qed
  note sw = sweep_result [OF assms(1-3)]
  have name: "pr_id r = pe_id E (pr_scan r) (pr_item r) (pr_kind r)" using sw(2) r by (simp add: named_rows_def)
  have req: "row_state (pr_id r) (sw_db s) = Some PreRequired" using row_state_in [OF sw(2) r] assms(9) by simp
  have "pr_id r \<in> set (sw_touched s)"
  proof (rule ccontr)
    assume new: "pr_id r \<notin> set (sw_touched s)"
    then have "row_state (pr_id r) D = Some PreRequired" using req sw(3) sw(5) [of "pr_id r"] by (simp split: if_splits)
    then obtain r' where r': "r' \<in> set (pd_rows D)" "pr_id r' = pr_id r" using row_stateD by blast
    then have "pr_id r' = pe_id E (pr_scan r') (pr_item r') (pr_kind r')"
      using assms(3) by (simp add: pre_ok_def named_rows_def)
    then have "pr_scan r' = pr_scan r" "pr_item r' = cv_id c"
      using r'(2) name assms(8) collision_freeD [OF assms(2)] by simp_all
    then have "pr_scan r = scan" using assms(3-5) r'(1) by (auto simp: pre_ok_def)
    with new kept show False by blast
  qed
  then obtain j where j: "j \<in> set (jobs scan (pd_cov D))" "job_id E scan j = pr_id r" unfolding sw(3) by auto
  then obtain c' need and e :: endpoint_row where c': "j = (c', ep_origin e, need)" "c' \<in> set (cb_items (pd_cov D))" "cv_scan c' = scan"
    "open_status c'" "need \<in> set (needed_preconditions c')"
    unfolding in_jobs by blast
  have p: "pr_id r = pe_id E scan (cv_id c') (fst need)" using j(2) by (simp add: c'(1) job_id_def case_prod_unfold)
  then have "cv_id c' = cv_id c" using name assms(8) collision_freeD [OF assms(2)] by simp
  then have "c' = c" using assms(3,4) c'(2) by (auto simp: pre_ok_def distinct_map inj_on_def)
  with row_of_need(2) [OF assms(1-3) c'(2-5)] req p c'(5) show ?thesis by auto
qed

lemma settled_iff:
  assumes "sweep_items E ts scan D = Inr s" and "collision_free E" and "pre_ok E D"
    and "c \<in> set (cb_items (pd_cov D))" and "cv_scan c = scan" and "cv_status c \<in> {CBlockedAuth, CUnsupported}"
    and "needed_preconditions c \<noteq> []"
  shows "c \<in> set (settled_items scan (retire_untouched scan (sw_touched s) (sw_db s)))
    \<longleftrightarrow> (\<forall>need\<in>set (needed_preconditions c). need_met E scan D c need)"
proof -
  let ?D = "retire_untouched scan (sw_touched s) (sw_db s)"
  have st: "open_status c" using assms(6) by (auto simp: open_status_def)
  note row = row_of_need [OF assms(1-5) st]
  have cov: "pd_cov ?D = pd_cov D" using sweep_result(1) [OF assms(1-3)] by (simp add: retire_untouched_def)
  have row_in: "\<exists>r\<in>set (pd_rows ?D). pr_item r = cv_id c \<and> Some (pr_state r) = row_state (pe_id E scan (cv_id c) (fst need)) (sw_db s)"
    if need: "need \<in> set (needed_preconditions c)" for need
  proof -
    let ?p = "pe_id E scan (cv_id c) (fst need)"
    obtain r where r: "r \<in> set (pd_rows (sw_db s))" "pr_id r = ?p" "Some (pr_state r) = row_state ?p (sw_db s)"
      using row(1) [OF need] row_stateD by (metis not_None_eq)
    moreover from this have "pr_item r = cv_id c"
      using sweep_result(2) [OF assms(1-3)] collision_freeD [OF assms(2)] by (auto simp: named_rows_def)
    moreover have "r \<in> set (pd_rows ?D)"
      using r(1,2) row(3) [OF need] by (force simp: retire_untouched_def in_update_where)
    ultimately show ?thesis by auto
  qed
  obtain n0 where n0: "n0 \<in> set (needed_preconditions c)" using assms(7) by (meson last_in_set)
  have ne: "sw_touched s \<noteq> []" using row(3) [OF n0] by auto
  have "c \<in> set (settled_items scan ?D) \<longleftrightarrow> \<not> (\<exists>r\<in>set (pd_rows ?D). pr_item r = cv_id c \<and> pr_state r = PreRequired)"
    using row_in [OF n0] assms(4-6) by (auto simp: settled_items_def select_items_def cov)
  moreover have "(\<exists>r\<in>set (pd_rows ?D). pr_item r = cv_id c \<and> pr_state r = PreRequired)
      \<longleftrightarrow> (\<exists>need\<in>set (needed_preconditions c). \<not> need_met E scan D c need)"
    using required_row_unmet [OF assms(1-5) ne] row(2) row_in by (metis option.inject)
  ultimately show ?thesis by blast
qed

section \<open>Requeueing the settled items\<close>

lemma requeue_fold:
  assumes "foldR (requeue_settled ts) rows C = Inr C'"
  shows "cov_moved m C C'" and "c \<in> set rows \<Longrightarrow> cov_state C' (cv_id c) = Some CPending"
    and "i \<notin> cv_id ` set rows \<Longrightarrow> item_of i C' = item_of i C"
proof -
  have "cov_moved m C C' \<and> (\<forall>c\<in>set rows. cov_state C' (cv_id c) = Some CPending)
      \<and> (\<forall>i. i \<notin> cv_id ` set rows \<longrightarrow> item_of i C' = item_of i C)"
    using assms
  proof (induction rows arbitrary: C)
    case (Cons c rows)
    obtain C1 where one: "requeue_settled ts c C = Inr C1" and rest: "foldR (requeue_settled ts) rows C1 = Inr C'"
      using Cons.prems by (auto elim: bindR_InrE)
    note move = transition_moved [OF one [unfolded requeue_settled_def]]
    note IH = Cons.IH [OF rest]
    have "cov_state C' (cv_id c) = Some CPending"
      using IH move(3) by (cases "cv_id c \<in> cv_id ` set rows") (auto simp: cov_state_def)
    moreover have "item_of i C' = item_of i C" if "i \<notin> cv_id ` set (c # rows)" for i
      using IH move(2) [of i] that by simp
    ultimately show ?case using IH cov_moved_trans [OF move(1)] by simp
  qed simp
  then show "cov_moved m C C'" "c \<in> set rows \<Longrightarrow> cov_state C' (cv_id c) = Some CPending"
    "i \<notin> cv_id ` set rows \<Longrightarrow> item_of i C' = item_of i C" by blast+
qed

lemma requeue_unsupported_raises:
  assumes "c \<in> set rows" and "distinct (map cv_id rows)" and "item_of (cv_id c) C = Some c" and "cv_status c = CUnsupported"
  shows "\<exists>e. foldR (requeue_settled ts) rows C = Inl e"
  using assms
proof (induction rows arbitrary: C)
  case (Cons d rows)
  show ?case
  proof (cases "requeue_settled ts d C")
    case (Inr C1)
    have "d \<noteq> c" using Inr Cons.prems(3,4) by (auto simp: requeue_settled_def transition_coverage_def)
    then have mem: "c \<in> set rows" using Cons.prems(1) by simp
    then have "cv_id c \<in> cv_id ` set rows" by (rule imageI)
    then have "cv_id c \<noteq> cv_id d" using Cons.prems(2) by auto
    then have "item_of (cv_id c) C1 = Some c"
      using transition_moved(2) [OF Inr [unfolded requeue_settled_def]] Cons.prems(3) by metis
    with Cons.IH [OF mem] Cons.prems(2,4) Inr show ?thesis by simp
  qed simp
qed simp

lemma resolve_Inr:
  assumes "resolve_attack_preconditions E ts scan D = Inr (D', n)"
  obtains s where "sweep_items E ts scan D = Inr s"
    and "foldR (requeue_settled ts) (settled_items scan (retire_untouched scan (sw_touched s) (sw_db s))) (pd_cov (sw_db s)) = Inr (pd_cov D')"
proof -
  have same: "pd_cov (retire_untouched scan t d) = pd_cov d" for t d by (simp add: retire_untouched_def)
  obtain s where "sweep_items E ts scan D = Inr s"
    "foldR (requeue_settled ts) (settled_items scan (retire_untouched scan (sw_touched s) (sw_db s))) (pd_cov (sw_db s)) = Inr (pd_cov D')"
    using assms by (auto simp: resolve_attack_preconditions_def Let_def same elim!: bindR_InrE)
  then show thesis by (rule that)
qed

section \<open>Properties\<close>

text \<open>
  C30: which blocked items go back to the queue.  When \<open>resolve_attack_preconditions\<close> succeeds, a
  blocked item of the scan becomes pending exactly when every precondition it needs can be resolved
  from the credentials and facts of the database, or already has a row that is not in the state
  required; otherwise it keeps its row.  A row that was retired counts as settled: when the need
  arises again, nothing makes it required again.
\<close>

theorem blocked_item_requeued_iff:
  assumes "resolve_attack_preconditions E ts scan D = Inr (D', n)" and "collision_free E" and "pre_ok E D"
    and "c \<in> set (cb_items (pd_cov D))" and "cv_scan c = scan" and "cv_status c = CBlockedAuth"
  shows "if \<exists>need\<in>set (needed_preconditions c). \<not> need_met E scan D c need
    then item_of (cv_id c) (pd_cov D') = Some c else cov_state (pd_cov D') (cv_id c) = Some CPending"
proof -
  obtain s where s: "sweep_items E ts scan D = Inr s"
    and q: "foldR (requeue_settled ts) (settled_items scan (retire_untouched scan (sw_touched s) (sw_db s))) (pd_cov (sw_db s)) = Inr (pd_cov D')"
    by (rule resolve_Inr [OF assms(1)])
  let ?rows = "settled_items scan (retire_untouched scan (sw_touched s) (sw_db s))"
  have iff: "c \<in> set ?rows \<longleftrightarrow> (\<forall>need\<in>set (needed_preconditions c). need_met E scan D c need)"
    using settled_iff [OF s assms(2-5)] assms(6) blocked_item_needs by simp
  have d: "distinct (map cv_id (cb_items (pd_cov D)))" using assms(3) by (simp add: pre_ok_def)
  have sub: "set ?rows \<subseteq> set (cb_items (pd_cov D))" using sweep_result(1) [OF s assms(2,3)]
    by (auto simp: settled_items_def select_items_def retire_untouched_def)
  have "item_of (cv_id c) (pd_cov D) = Some c" using find_row_unique [OF d assms(4)] by (simp add: item_of_def)
  moreover have "cv_id c \<notin> cv_id ` set ?rows" if "c \<notin> set ?rows"
    using that sub assms(4) d by (auto simp: distinct_map inj_on_def)
  ultimately show ?thesis
    using iff requeue_fold(2) [OF q] requeue_fold(3) [OF q] sweep_result(1) [OF s assms(2,3)] by auto
qed

text \<open>
  A settled unsupported item stops the resolution.  The query selects items with status
  unsupported too, but the status machine has no move out of it: if every precondition of an
  unsupported item is met, \<open>resolve_attack_preconditions\<close> raises, so nothing is resolved for the
  whole scan and the batch that called it does not start.
\<close>

theorem settled_unsupported_item_raises:
  assumes "collision_free E" and "pre_ok E D" and "c \<in> set (cb_items (pd_cov D))" and "cv_scan c = scan"
    and "cv_status c = CUnsupported" and "needed_preconditions c \<noteq> []"
    and "\<forall>need\<in>set (needed_preconditions c). need_met E scan D c need"
  shows "\<exists>e. resolve_attack_preconditions E ts scan D = Inl e"
proof (cases "sweep_items E ts scan D")
  case (Inr s)
  let ?rows = "settled_items scan (retire_untouched scan (sw_touched s) (sw_db s))"
  have mem: "c \<in> set ?rows" using settled_iff [OF Inr assms(1-4)] assms(5-7) by simp
  have cov: "pd_cov (retire_untouched scan (sw_touched s) (sw_db s)) = pd_cov D"
    using sweep_result(1) [OF Inr assms(1,2)] by (simp add: retire_untouched_def)
  have d: "distinct (map cv_id (cb_items (pd_cov D)))" using assms(2) by (simp add: pre_ok_def)
  then have "distinct (map cv_id ?rows)" by (simp add: settled_items_def select_items_def cov distinct_map_filter)
  moreover have "item_of (cv_id c) (pd_cov D) = Some c" using find_row_unique [OF d assms(3)] by (simp add: item_of_def)
  ultimately have "\<exists>e. foldR (requeue_settled ts) ?rows (pd_cov D) = Inl e"
    using requeue_unsupported_raises [OF mem] assms(5) by blast
  then show ?thesis by (auto simp: resolve_attack_preconditions_def Inr Let_def cov)
qed (simp add: resolve_attack_preconditions_def)

text \<open>A blocked item whose role is unauthenticated asks for a session that no credential gives.\<close>

lemma anonymous_session_never_resolved:
  "need_resolution E scan origin c (UsableSession, NeedReferences ''unauthenticated'' 1) D = Inr None"
  by (simp add: need_resolution_def credential_resolution_def credential_references_def)

text \<open>
  Resolving moves the coverage ledger only along its own events.
\<close>

lemma resolving_moves_coverage:
  assumes "resolve_attack_preconditions E ts scan D = Inr (D', n)" and "collision_free E" and "pre_ok E D"
  shows "cov_moved m (pd_cov D) (pd_cov D')"
proof -
  obtain s where s: "sweep_items E ts scan D = Inr s"
    and q: "foldR (requeue_settled ts) (settled_items scan (retire_untouched scan (sw_touched s) (sw_db s))) (pd_cov (sw_db s)) = Inr (pd_cov D')"
    by (rule resolve_Inr [OF assms(1)])
  with requeue_fold(1) [OF q] sweep_result(1) [OF s assms(2,3)] show ?thesis by simp
qed

section \<open>A blocked item, worked through\<close>

definition kind_number :: "need_kind \<Rightarrow> nat" where
  "kind_number k = (case k of UsableSession \<Rightarrow> 0 | RequiredRole \<Rightarrow> 1 | SecondIdentity \<Rightarrow> 2 | OwnedObject \<Rightarrow> 3
     | FreshToken \<Rightarrow> 4 | PriorState \<Rightarrow> 5)"

definition unary :: "nat \<Rightarrow> string \<Rightarrow> string" where
  "unary n s = replicate n CHR ''a'' @ CHR ''b'' # s"

definition plain_id :: "string \<Rightarrow> string \<Rightarrow> need_kind \<Rightarrow> string" where
  "plain_id s i k = unary (kind_number k) (unary (length s) (s @ i))"

definition sample_pre_env :: pre_env where
  "sample_pre_env = \<lparr>pe_net = plain_env, pe_usable = (\<lambda>_ _. False), pe_id = plain_id, pe_action = (\<lambda>p. p),
     pe_json = (\<lambda>_. ''{}''), pe_foreign = True\<rparr>"

lemma unary_eq: "unary n s = unary m t \<longleftrightarrow> n = m \<and> s = t"
proof (induction n arbitrary: m)
  case 0
  then show ?case by (cases m) (auto simp: unary_def)
next
  case (Suc n)
  then show ?case by (cases m) (auto simp: unary_def)
qed

lemma sample_collision_free: "collision_free sample_pre_env"
proof -
  have "kind_number k = kind_number k' \<longleftrightarrow> k = k'" for k k'
    by (cases k) (cases k'; simp add: kind_number_def)+
  then have "plain_id s i k = plain_id s' i' k' \<longleftrightarrow> s = s' \<and> i = i' \<and> k = k'" for s i k s' i' k'
    by (auto simp: plain_id_def unary_eq)
  then show ?thesis by (auto simp: collision_free_def inj_on_def sample_pre_env_def)
qed

definition sample_pre :: "cov_item \<Rightarrow> pre_state \<Rightarrow> pre_db" where
  "sample_pre c st = \<lparr>pd_cov = sample_cov [c],
     pd_rows = [\<lparr>pr_id = plain_id ''s'' (cv_id c) UsableSession, pr_scan = ''s'', pr_item = cv_id c, pr_kind = UsableSession,
        pr_state = st, pr_requirement = NeedReferences (cv_role c) 1, pr_resolution = None\<rparr>],
     pd_actions = [], pd_facts = []\<rparr>"

lemma sample_needs:
  "cv_status c = CBlockedAuth \<or> cv_role c = ''authenticated'' \<Longrightarrow> cv_vuln c = ''xss'' \<Longrightarrow> cv_reason c = None
     \<Longrightarrow> cv_role c \<in> {''authenticated'', ''unauthenticated''}
     \<Longrightarrow> needed_preconditions c = [(UsableSession, NeedReferences (cv_role c) 1)]"
  by (auto simp: needed_preconditions_def or_blank_def lower_def squeeze_spaces_def mentions_def Let_def)

lemma sample_pre_ok: "cv_scan c = ''s'' \<Longrightarrow> cv_endpoint c = ''e'' \<Longrightarrow> pre_ok sample_pre_env (sample_pre c st)"
  by (simp add: pre_ok_def named_rows_def sample_pre_def sample_cov_def endpoint_of_def find_row_def short_requirements_def
      sample_pre_env_def)

lemma sample_met:
  "st \<noteq> PreRequired \<Longrightarrow> need_met sample_pre_env ''s'' (sample_pre c st) c (UsableSession, x)"
  by (simp add: need_met_def row_state_def find_row_def sample_pre_def sample_pre_env_def)

lemma sample_resolves:
  "\<exists>D' n. resolve_attack_preconditions sample_pre_env ''t'' ''s'' (sample_pre (sample_item ''a'' CBlockedAuth) PreRetired) = Inr (D', n)"
proof -
  let ?c = "sample_item ''a'' CBlockedAuth"
  let ?D = "sample_pre ?c PreRetired"
  have needs: "needed_preconditions ?c = [(UsableSession, NeedReferences ''unauthenticated'' 1)]"
    using sample_needs [of ?c] by (simp add: sample_item_def)
  have items: "open_items ''s'' (pd_cov ?D) = [(?c, ''http://h'')]"
    by (simp add: open_items_def open_status_def sample_pre_def sample_cov_def select_items_def endpoint_of_def find_row_def
        List.map_filter_def sample_item_def)
  have id: "cv_id ?c = ''a''" by (simp add: sample_item_def)
  have ins: "insert_precondition sample_pre_env ''s'' ''a'' (UsableSession, x) ?D = (?D, 0)" for x
    by (simp add: insert_precondition_def sample_pre_env_def sample_pre_def id)
  obtain D1 k where act: "insert_action sample_pre_env ''t'' ''s'' (pe_id sample_pre_env ''s'' ''a'' UsableSession) UsableSession ?D = Inr (D1, k)"
    "pd_cov D1 = pd_cov ?D" "pd_rows D1 = pd_rows ?D"
    by (simp add: insert_action_def sample_pre_env_def sample_pre_def id)
  obtain s where s: "sweep_items sample_pre_env ''t'' ''s'' ?D = Inr s" "pd_cov (sw_db s) = pd_cov ?D" "pd_rows (sw_db s) = pd_rows ?D"
    unfolding sweep_items_def items foldR.simps prod.case needs resolve_need_def id
    by (simp add: ins anonymous_session_never_resolved [simplified] act Let_def)
  have rows: "settled_items ''s'' (retire_untouched ''s'' t (sw_db s)) = [?c]" for t
    by (simp add: settled_items_def select_items_def retire_untouched_def s sample_pre_def sample_cov_def sample_item_def)
  have cov: "pd_cov (retire_untouched ''s'' t (sw_db s)) = pd_cov ?D" for t by (simp add: retire_untouched_def s)
  have "item_of ''a'' (sample_cov [?c]) = Some ?c" by (simp add: item_of_def find_row_def sample_cov_def sample_item_def)
  then obtain C where "requeue_settled ''t'' ?c (pd_cov ?D) = Inr C"
    by (simp add: requeue_settled_def transition_coverage_def sample_pre_def put_event_def sample_item_def is_blank_iff
        is_space_def sql_blank_def)
  then show ?thesis by (simp add: resolve_attack_preconditions_def s rows cov Let_def)
qed

text \<open>The row was retired and no credential is known, yet the item goes back to the queue.\<close>

lemma blocked_item_requeued_iff_witness:
  "\<exists>(D' :: pre_db) n. resolve_attack_preconditions sample_pre_env ''t'' ''s'' (sample_pre (sample_item ''a'' CBlockedAuth) PreRetired) = Inr (D', n)
     \<and> cov_state (pd_cov D') ''a'' = Some CPending"
proof -
  let ?c = "sample_item ''a'' CBlockedAuth"
  obtain D' n where run: "resolve_attack_preconditions sample_pre_env ''t'' ''s'' (sample_pre ?c PreRetired) = Inr (D', n)"
    using sample_resolves by blast
  have ok: "pre_ok sample_pre_env (sample_pre ?c PreRetired)" by (rule sample_pre_ok) (simp_all add: sample_item_def)
  have c: "?c \<in> set (cb_items (pd_cov (sample_pre ?c PreRetired)))" "cv_scan ?c = ''s''" "cv_status ?c = CBlockedAuth" "cv_id ?c = ''a''"
    by (simp_all add: sample_pre_def sample_cov_def sample_item_def)
  have "needed_preconditions ?c = [(UsableSession, NeedReferences ''unauthenticated'' 1)]"
    using sample_needs [of ?c] by (simp add: sample_item_def)
  with blocked_item_requeued_iff [OF run sample_collision_free ok c(1-3)] sample_met
  have "cov_state (pd_cov D') ''a'' = Some CPending" by (simp add: c(4))
  with run show ?thesis by blast
qed

lemma settled_unsupported_item_raises_witness:
  "\<exists>e. resolve_attack_preconditions sample_pre_env ''t'' ''s''
     (sample_pre ((sample_item ''a'' CUnsupported)\<lparr>cv_role := ''authenticated''\<rparr>) PreSatisfied) = Inl e"
proof -
  let ?c = "(sample_item ''a'' CUnsupported)\<lparr>cv_role := ''authenticated''\<rparr>"
  have ok: "pre_ok sample_pre_env (sample_pre ?c PreSatisfied)" by (rule sample_pre_ok) (simp_all add: sample_item_def)
  have c: "?c \<in> set (cb_items (pd_cov (sample_pre ?c PreSatisfied)))" "cv_scan ?c = ''s''" "cv_status ?c = CUnsupported"
    by (simp_all add: sample_pre_def sample_cov_def sample_item_def)
  have needs: "needed_preconditions ?c = [(UsableSession, NeedReferences ''authenticated'' 1)]"
    using sample_needs [of ?c] by (simp add: sample_item_def)
  show ?thesis
    by (rule settled_unsupported_item_raises [OF sample_collision_free ok c]) (simp_all add: needs sample_met)
qed

end
