(* ===== verification/Capture_Receipt.thy ===== *)
theory Capture_Receipt
  imports Exclusion_Soundness
begin

text \<open>
  \<open>src/src/aidast/core/capture_receipt.py\<close>: the receipt that says a stored transaction was captured
  completely, and its validation against the stored bytes; and \<open>request_key\<close> of
  \<open>core/exclusion_guard.py\<close>.  SHA-256 and the conversion of an integer to a float are functions of
  \<open>capture_env\<close>.  The preparation of a request is in Request_Broker, which sends it.
\<close>

record capture_env =
  cs_guard :: guard_env
  cs_sha :: "string \<Rightarrow> string"
  cs_float :: "int \<Rightarrow> rat"

definition request_key ::
  "guard_env \<Rightarrow> string \<Rightarrow> string \<Rightarrow> (string \<times> string) list \<Rightarrow> string option \<Rightarrow> pyval option \<Rightarrow> string option" where
  "request_key G url m headers body ctx =
     (case (guard_url G url, guard_method m, guard_headers headers) of
        (Some o', Some m', Some hs) \<Rightarrow>
          if context_ok G ctx then Some (ge_fingerprint G o' m' hs (or_empty body) ctx) else None
      | _ \<Rightarrow> None)"

text \<open>A positive finite \<open>int\<close> or \<open>float\<close>; an integer beyond the floats overflows, a \<open>bool\<close> is neither.\<close>

definition time_ok :: "pyval \<Rightarrow> bool" where
  "time_ok v = (case v of PInt i \<Rightarrow> 0 < i \<and> i < 2 ^ 1024 - 2 ^ 970 | PFloat q \<Rightarrow> 0 < q | _ \<Rightarrow> False)"

definition as_float :: "capture_env \<Rightarrow> pyval \<Rightarrow> pyval" where
  "as_float V v = (case v of PInt i \<Rightarrow> PFloat (cs_float V i) | _ \<Rightarrow> v)"

text \<open>A body or response that is not \<open>bytes\<close> is None; the result None is the raised \<open>ValueError\<close>.\<close>

definition make_capture_receipt ::
  "capture_env \<Rightarrow> string \<Rightarrow> string \<Rightarrow> (string \<times> string) list \<Rightarrow> string option \<Rightarrow> string option \<Rightarrow> pyval \<Rightarrow> pyval option
     \<Rightarrow> pyval option" where
  "make_capture_receipt V url m headers body response captured ctx =
     (case (body, response) of
        (Some raw, Some resp) \<Rightarrow>
          if \<not> time_ok captured then None
          else (case (request_key (cs_guard V) url m headers (Some raw) ctx, guard_method m) of
              (Some key, Some m') \<Rightarrow> Some (PDict
                [(''version'', PStr ''1''), (''complete'', PBool True), (''request_key'', PStr key),
                 (''url_sha256'', PStr (cs_sha V url)), (''method'', PStr m'),
                 (''body_sha256'', PStr (cs_sha V raw)), (''body_bytes'', PInt (int (length raw))),
                 (''response_sha256'', PStr (cs_sha V resp)), (''response_bytes'', PInt (int (length resp))),
                 (''captured_at'', as_float V captured)])
            | _ \<Rightarrow> None)
      | _ \<Rightarrow> None)"

definition receipt_fields :: "string list" where
  "receipt_fields = [''version'', ''complete'', ''request_key'', ''url_sha256'', ''method'', ''body_sha256'',
     ''body_bytes'', ''response_sha256'', ''response_bytes'', ''captured_at'']"

definition digest_ok :: "pyval option \<Rightarrow> bool" where
  "digest_ok v = (case v of Some (PStr s) \<Rightarrow> sha_ok s | _ \<Rightarrow> False)"

definition count_ok :: "pyval option \<Rightarrow> bool" where
  "count_ok v = (case v of Some (PInt n) \<Rightarrow> 0 \<le> n | _ \<Rightarrow> False)"

definition validate_capture_receipt ::
  "capture_env \<Rightarrow> pyval \<Rightarrow> string \<Rightarrow> string \<Rightarrow> string \<Rightarrow> (string \<times> pyval) list option" where
  "validate_capture_receipt V value url m response =
     (case value of
        PDict d \<Rightarrow>
          if set (map fst d) \<noteq> set receipt_fields \<or> dict_get d ''version'' \<noteq> Some (PStr ''1'')
             \<or> dict_get d ''complete'' \<noteq> Some (PBool True)
             \<or> \<not> list_all (\<lambda>f. digest_ok (dict_get d f)) [''request_key'', ''url_sha256'', ''body_sha256'', ''response_sha256'']
             \<or> \<not> list_all (\<lambda>f. count_ok (dict_get d f)) [''body_bytes'', ''response_bytes'']
             \<or> (case dict_get d ''captured_at'' of None \<Rightarrow> True | Some t \<Rightarrow> \<not> time_ok t)
          then None
          else if dict_get d ''url_sha256'' = Some (PStr (cs_sha V url))
               \<and> (case guard_method m of None \<Rightarrow> False | Some m' \<Rightarrow> dict_get d ''method'' = Some (PStr m'))
               \<and> dict_get d ''response_sha256'' = Some (PStr (cs_sha V response))
               \<and> dict_get d ''response_bytes'' = Some (PInt (int (length response)))
          then Some d else None
      | _ \<Rightarrow> None)"

text \<open>\<open>urllib_request_data\<close>.\<close>

definition urllib_request_data :: "string \<Rightarrow> string option" where
  "urllib_request_data raw = (if raw = [] then None else Some raw)"

section \<open>Properties\<close>

text \<open>
  A receipt validates against its own transaction.  If digests are 64 hexadecimal digits and
  positive integers convert to positive floats, then every receipt that \<open>make_capture_receipt\<close>
  issues is accepted for the URL, the method and the response bytes it was issued for, unchanged.
\<close>

theorem issued_receipt_validates:
  assumes "make_capture_receipt V url m headers body (Some response) captured ctx = Some r"
    and "\<And>s. sha_ok (cs_sha V s)" and "\<And>o' m h b c. sha_ok (ge_fingerprint (cs_guard V) o' m h b c)"
    and "\<And>i. 0 < i \<Longrightarrow> 0 < cs_float V i"
  shows "\<exists>d. r = PDict d \<and> validate_capture_receipt V r url m response = Some d"
proof -
  obtain raw key m' where r: "time_ok captured" "request_key (cs_guard V) url m headers (Some raw) ctx = Some key"
    "guard_method m = Some m'"
    "r = PDict [(''version'', PStr ''1''), (''complete'', PBool True), (''request_key'', PStr key),
                 (''url_sha256'', PStr (cs_sha V url)), (''method'', PStr m'),
                 (''body_sha256'', PStr (cs_sha V raw)), (''body_bytes'', PInt (int (length raw))),
                 (''response_sha256'', PStr (cs_sha V response)), (''response_bytes'', PInt (int (length response))),
                 (''captured_at'', as_float V captured)]"
    using assms(1) by (auto simp: make_capture_receipt_def split: option.splits if_splits)
  have "sha_ok key" using r(2) assms(3) by (auto simp: request_key_def split: option.splits if_splits)
  moreover have "time_ok (as_float V captured)"
    using r(1) assms(4) by (auto simp: time_ok_def as_float_def split: pyval.splits)
  ultimately show ?thesis
    using assms(2) r(3) by (simp add: r(4) validate_capture_receipt_def receipt_fields_def dict_get_def digest_ok_def count_ok_def)
qed

text \<open>A receipt that validates for two transactions binds them to the same digests and length.\<close>

lemma validated_receipt_binds:
  assumes "validate_capture_receipt V r url m response = Some d" and "validate_capture_receipt V r url2 m2 response2 = Some d2"
  shows "cs_sha V url = cs_sha V url2 \<and> guard_method m = guard_method m2
    \<and> cs_sha V response = cs_sha V response2 \<and> length response = length response2"
  using assms by (auto simp: validate_capture_receipt_def split: pyval.splits if_splits option.splits)

definition sample_capture_env :: capture_env where
  "sample_capture_env = \<lparr>cs_guard = sample_guard_env, cs_sha = (\<lambda>s. replicate 64 (CHR ''c'')), cs_float = of_int\<rparr>"

lemma sample_receipt:
  "\<exists>r. make_capture_receipt sample_capture_env ''https://a.co/admin/x'' ''DELETE'' [] (Some []) (Some ''ok'') (PInt 7) None = Some r"
  by (simp add: make_capture_receipt_def request_key_def sample_capture_env_def sample_url sample_methods guard_headers_def
      context_ok_def time_ok_def)

lemma issued_receipt_validates_witness:
  "\<exists>(d :: (string \<times> pyval) list) (V :: capture_env) r. make_capture_receipt V ''https://a.co/admin/x'' ''DELETE'' [] (Some []) (Some ''ok'') (PInt 7) None = Some r
     \<and> validate_capture_receipt V r ''https://a.co/admin/x'' ''DELETE'' ''ok'' = Some d"
proof -
  obtain r where r: "make_capture_receipt sample_capture_env ''https://a.co/admin/x'' ''DELETE'' [] (Some []) (Some ''ok'') (PInt 7) None = Some r"
    using sample_receipt by blast
  have "\<exists>d. r = PDict d \<and> validate_capture_receipt sample_capture_env r ''https://a.co/admin/x'' ''DELETE'' ''ok'' = Some d"
    by (rule issued_receipt_validates [OF r])
      (simp_all add: sample_capture_env_def sample_guard_env_def sha_ok_def list_all_iff is_digit_def)
  with r show ?thesis by blast
qed

end
