(* ===== verification/Proxy_Rules.thy ===== *)
theory Proxy_Rules
  imports Target_Policy Http_Safety
begin

text \<open>
  The rule file of the capturing proxy: \<open>TargetPolicy.mitm_rules\<close> of \<open>src/src/aidast/recon/policy.py\<close>
  writes it, \<open>validate_scope_rules\<close> of \<open>core/http_safety.py\<close> reads it in the proxy process, which knows
  nothing of the policy classes.  The loopback test of the same module is here too.  The dumps of
  the exclusion snapshot and the governor binding, which the proxy validates elsewhere, are
  arguments.
\<close>

section \<open>Writing the rules\<close>

record proxy_policy =
  pp_policy :: target_policy
  pp_exclusions :: "pyval option"
  pp_governor :: "pyval option"
  pp_identity :: "(string \<times> string) list"
  pp_username :: "string option"
  pp_max_requests :: int
  pp_timeout :: int
  pp_capture_bodies :: bool

definition texts :: "string list \<Rightarrow> pyval" where
  "texts xs = PList (map PStr xs)"

definition mitm_rules :: "proxy_policy \<Rightarrow> (string \<times> pyval) list" where
  "mitm_rules q =
     (let p = pp_policy q
      in [(''enforcement_required'', PBool True)]
       @ (case pp_exclusions q of None \<Rightarrow> [] | Some x \<Rightarrow> [(''asset'', PStr (tp_asset p)), (''request_exclusions'', x)])
       @ (case tp_exec_methods p of None \<Rightarrow> [] | Some ms \<Rightarrow> [(''execution_allowed_methods'', texts ms)])
       @ (case pp_governor q of None \<Rightarrow> [] | Some g \<Rightarrow> [(''request_governor'', g)])
       @ [(''required_identity_headers'', PDict (map (\<lambda>(n, v). (n, PStr v)) (pp_identity q))),
          (''hackerone_username'', (case pp_username q of None \<Rightarrow> PNone | Some u \<Rightarrow> PStr u)),
          (''allowed_schemes'', texts (tp_schemes p)), (''allowed_hosts'', texts (tp_hosts p)),
          (''excluded_hosts'', texts (tp_excluded_hosts p)), (''include_subdomains'', PBool (tp_subdomains p)),
          (''allowed_ports'', PList (map (\<lambda>n. PInt (int n)) (tp_ports p))),
          (''allowed_path_prefixes'', texts (tp_prefixes p)),
          (''excluded_path_prefixes'', texts (tp_excluded_prefixes p)),
          (''allowed_methods'', texts (tp_methods p)), (''max_requests'', PInt (pp_max_requests q)),
          (''timeout_seconds'', PInt (pp_timeout q)), (''mitm_capture_bodies'', PBool (pp_capture_bodies q))])"

text \<open>The field constraints of \<open>PolicyLimits\<close> and \<open>TargetPolicy\<close> that the rules depend on.\<close>

definition proxy_policy_ok :: "proxy_policy \<Rightarrow> bool" where
  "proxy_policy_ok q \<longleftrightarrow> controls_ok (pp_policy q)
     \<and> 1 \<le> pp_max_requests q \<and> pp_max_requests q \<le> 100000 \<and> 1 \<le> pp_timeout q \<and> pp_timeout q \<le> 120
     \<and> validate_identity_headers (pp_identity q) = Some (pp_identity q)
     \<and> (case pp_username q of None \<Rightarrow> True | Some u \<Rightarrow> validate_platform_username u = Some u)"

section \<open>Reading the rules\<close>

text \<open>An exception is an \<open>Inl\<close>; a test \<open>x in {...}\<close> of an unhashable value is a \<open>TypeError\<close>.\<close>

definition list_of :: "pyval option \<Rightarrow> pyval list option" where
  "list_of v = (case v of Some (PList xs) \<Rightarrow> Some xs | _ \<Rightarrow> None)"

definition hashable :: "pyval \<Rightarrow> bool" where
  "hashable v = (case v of PList _ \<Rightarrow> False | PDict _ \<Rightarrow> False | _ \<Rightarrow> True)"

fun one_of :: "string list \<Rightarrow> pyval list \<Rightarrow> (string, bool) result" where
  "one_of names [] = Inr True"
| "one_of names (v # vs) =
     (if \<not> hashable v then Inl ''TypeError'' else if v \<notin> PStr ` set names then Inr False else one_of names vs)"

definition is_text :: "(string \<Rightarrow> bool) \<Rightarrow> pyval \<Rightarrow> bool" where
  "is_text f v = (case v of PStr s \<Rightarrow> f s | _ \<Rightarrow> False)"

definition port_ok :: "pyval \<Rightarrow> bool" where
  "port_ok v = (v = PStr ''*'' \<or> (case v of PInt n \<Rightarrow> 1 \<le> n \<and> n \<le> 65535 | _ \<Rightarrow> False))"

definition require :: "bool \<Rightarrow> string \<Rightarrow> (string, unit) result" where
  "require b message = (if b then Inr () else Inl message)"

text \<open>A key that is absent, or present with the value None, passes.\<close>

definition optional_ok :: "(pyval \<Rightarrow> bool) \<Rightarrow> pyval option \<Rightarrow> bool" where
  "optional_ok f v = (case v of None \<Rightarrow> True | Some PNone \<Rightarrow> True | Some x \<Rightarrow> f x)"

definition flag_ok :: "pyval option \<Rightarrow> bool" where
  "flag_ok v = (case v of None \<Rightarrow> True | Some (PBool _) \<Rightarrow> True | Some _ \<Rightarrow> False)"

definition int_between :: "int \<Rightarrow> int \<Rightarrow> pyval \<Rightarrow> bool" where
  "int_between a b v = (case v of PInt n \<Rightarrow> a \<le> n \<and> n \<le> b | _ \<Rightarrow> False)"

definition positive_int :: "pyval \<Rightarrow> bool" where
  "positive_int v = (case v of PInt n \<Rightarrow> 1 \<le> n | _ \<Rightarrow> False)"

definition rate_ok :: "pyval \<Rightarrow> bool" where
  "rate_ok v = (case v of PInt n \<Rightarrow> 0 < n \<and> n \<le> 50 | PFloat q \<Rightarrow> 0 < q \<and> q \<le> 50 | _ \<Rightarrow> False)"

text \<open>\<open>validate_identity_headers\<close> of an untyped value.\<close>

definition identity_value :: "pyval \<Rightarrow> bool" where
  "identity_value v = (case v of
     PDict d \<Rightarrow> list_all (\<lambda>(_, x). is_text (\<lambda>_. True) x) d
       \<and> validate_identity_headers (map (\<lambda>(n, x). (n, case x of PStr s \<Rightarrow> s | _ \<Rightarrow> [])) d) \<noteq> None
   | _ \<Rightarrow> False)"

definition validate_scope_rules :: "pyval \<Rightarrow> (string, (string \<times> pyval) list) result" where
  "validate_scope_rules rules =
     (case rules of
        PDict d \<Rightarrow>
          bindR (require (list_all (\<lambda>k. case list_of (dict_get d k) of None \<Rightarrow> False | Some xs \<Rightarrow> xs \<noteq> [])
              [''allowed_hosts'', ''allowed_schemes'', ''allowed_ports'', ''allowed_path_prefixes'', ''allowed_methods''])
            ''scope rules require a nonempty list'') (\<lambda>_.
          let items = (\<lambda>k. case list_of (dict_get d k) of None \<Rightarrow> [] | Some xs \<Rightarrow> xs);
              optional_list = (\<lambda>k. dict_get d k = None \<or> list_of (dict_get d k) \<noteq> None)
          in bindR (require (list_all (is_text (\<lambda>h. h \<noteq> [] \<and> \<not> contains h ''://'' \<and> CHR ''/'' \<notin> set h)) (items ''allowed_hosts''))
            ''invalid allowed hosts'') (\<lambda>_.
          bindR (require (optional_list ''excluded_hosts'' \<and> list_all (is_text valid_host_pattern) (items ''excluded_hosts''))
            ''invalid excluded hosts'') (\<lambda>_.
          bindR (one_of [''http'', ''https''] (items ''allowed_schemes'')) (\<lambda>b. bindR (require b ''invalid allowed schemes'') (\<lambda>_.
          bindR (require (list_all port_ok (items ''allowed_ports'')) ''invalid allowed ports'') (\<lambda>_.
          bindR (one_of [''GET'', ''HEAD'', ''OPTIONS'', ''POST'', ''PUT'', ''PATCH'', ''DELETE''] (items ''allowed_methods''))
            (\<lambda>b. bindR (require b ''invalid allowed methods'') (\<lambda>_.
          bindR (require (optional_list ''excluded_path_prefixes''
              \<and> list_all (is_text (\<lambda>x. starts_with x ''/'')) (items ''allowed_path_prefixes'' @ items ''excluded_path_prefixes''))
            ''invalid path prefixes'') (\<lambda>_.
          bindR (require (list_all (\<lambda>k. flag_ok (dict_get d k)) [''include_subdomains'', ''enforcement_required'', ''mitm_capture_bodies''])
            ''invalid flag'') (\<lambda>_.
          bindR (require (optional_ok (is_text (\<lambda>t. 16 \<le> length t)) (dict_get d ''browser_context_token''))
            ''invalid browser context token'') (\<lambda>_.
          bindR (require (optional_ok positive_int (dict_get d ''max_requests''))
            ''scope rules require a positive max_requests when supplied'') (\<lambda>_.
          bindR (require (optional_ok rate_ok (dict_get d ''max_rps'')) ''invalid max_rps'') (\<lambda>_.
          bindR (require (optional_ok (int_between 1 20) (dict_get d ''max_concurrency'')) ''invalid max_concurrency'') (\<lambda>_.
          bindR (require (optional_ok (int_between 1 120) (dict_get d ''timeout_seconds'')) ''invalid timeout_seconds'') (\<lambda>_.
          bindR (require (case dict_get d ''required_identity_headers'' of None \<Rightarrow> True | Some v \<Rightarrow> identity_value v)
            ''invalid identity headers'') (\<lambda>_.
          bindR (require (optional_ok (is_text (\<lambda>u. validate_platform_username u \<noteq> None)) (dict_get d ''hackerone_username''))
            ''invalid HackerOne handle'') (\<lambda>_. Inr d)))))))))))))))))
      | _ \<Rightarrow> Inl ''scope rules must be an object'')"

section \<open>Loopback scopes\<close>

text \<open>\<open>loopback h\<close> says that \<open>ip_address(h)\<close> parses and is a loopback address.\<close>

definition scope_uses_loopback_host :: "(string \<Rightarrow> bool) \<Rightarrow> pyval \<Rightarrow> bool" where
  "scope_uses_loopback_host loopback hosts =
     (case hosts of
        PList hs \<Rightarrow> (\<exists>h\<in>set hs. is_text (\<lambda>s. norm_host s = ''localhost'' \<or> ends_with (norm_host s) ''.localhost''
                                             \<or> loopback (norm_host s)) h)
      | _ \<Rightarrow> False)"

section \<open>What is written can be read\<close>

lemma mitm_lookup:
  assumes "k \<notin> {''asset'', ''request_exclusions'', ''execution_allowed_methods'', ''request_governor''}"
  shows "dict_get (mitm_rules q) k = map_of
    [(''enforcement_required'', PBool True),
     (''required_identity_headers'', PDict (map (\<lambda>(n, v). (n, PStr v)) (pp_identity q))),
     (''hackerone_username'', (case pp_username q of None \<Rightarrow> PNone | Some u \<Rightarrow> PStr u)),
     (''allowed_schemes'', texts (tp_schemes (pp_policy q))), (''allowed_hosts'', texts (tp_hosts (pp_policy q))),
     (''excluded_hosts'', texts (tp_excluded_hosts (pp_policy q))), (''include_subdomains'', PBool (tp_subdomains (pp_policy q))),
     (''allowed_ports'', PList (map (\<lambda>n. PInt (int n)) (tp_ports (pp_policy q)))),
     (''allowed_path_prefixes'', texts (tp_prefixes (pp_policy q))),
     (''excluded_path_prefixes'', texts (tp_excluded_prefixes (pp_policy q))),
     (''allowed_methods'', texts (tp_methods (pp_policy q))), (''max_requests'', PInt (pp_max_requests q)),
     (''timeout_seconds'', PInt (pp_timeout q)), (''mitm_capture_bodies'', PBool (pp_capture_bodies q))] k"
proof -
  have skip: "map_of (xs @ ys) k = map_of ys k" if "k \<notin> fst ` set xs" for xs ys :: "(string \<times> pyval) list"
    using that by (simp add: map_add_def map_of_eq_None_iff [THEN iffD2])
  have n: "k \<notin> fst ` set (case pp_exclusions q of None \<Rightarrow> [] | Some x \<Rightarrow> [(''asset'', PStr (tp_asset (pp_policy q))), (''request_exclusions'', x)])"
    "k \<notin> fst ` set (case tp_exec_methods (pp_policy q) of None \<Rightarrow> [] | Some ms \<Rightarrow> [(''execution_allowed_methods'', texts ms)])"
    "k \<notin> fst ` set (case pp_governor q of None \<Rightarrow> [] | Some g \<Rightarrow> [(''request_governor'', g)])"
    using assms by (cases "pp_exclusions q"; simp) (use assms in \<open>cases "tp_exec_methods (pp_policy q)"; simp\<close>,
      use assms in \<open>cases "pp_governor q"; simp\<close>)
  show ?thesis
    unfolding mitm_rules_def Let_def dict_get_def append_Cons append_Nil map_of.simps(2) fun_upd_apply
      skip [OF n(1)] skip [OF n(2)] skip [OF n(3)] by (rule refl)
qed

lemma mitm_fields:
  "dict_get (mitm_rules q) ''allowed_hosts'' = Some (texts (tp_hosts (pp_policy q)))"
  "dict_get (mitm_rules q) ''allowed_schemes'' = Some (texts (tp_schemes (pp_policy q)))"
  "dict_get (mitm_rules q) ''allowed_ports'' = Some (PList (map (\<lambda>n. PInt (int n)) (tp_ports (pp_policy q))))"
  "dict_get (mitm_rules q) ''allowed_path_prefixes'' = Some (texts (tp_prefixes (pp_policy q)))"
  "dict_get (mitm_rules q) ''allowed_methods'' = Some (texts (tp_methods (pp_policy q)))"
  "dict_get (mitm_rules q) ''excluded_hosts'' = Some (texts (tp_excluded_hosts (pp_policy q)))"
  "dict_get (mitm_rules q) ''excluded_path_prefixes'' = Some (texts (tp_excluded_prefixes (pp_policy q)))"
  "dict_get (mitm_rules q) ''include_subdomains'' = Some (PBool (tp_subdomains (pp_policy q)))"
  "dict_get (mitm_rules q) ''enforcement_required'' = Some (PBool True)"
  "dict_get (mitm_rules q) ''mitm_capture_bodies'' = Some (PBool (pp_capture_bodies q))"
  "dict_get (mitm_rules q) ''browser_context_token'' = None"
  "dict_get (mitm_rules q) ''max_requests'' = Some (PInt (pp_max_requests q))"
  "dict_get (mitm_rules q) ''max_rps'' = None"
  "dict_get (mitm_rules q) ''max_concurrency'' = None"
  "dict_get (mitm_rules q) ''timeout_seconds'' = Some (PInt (pp_timeout q))"
  "dict_get (mitm_rules q) ''required_identity_headers'' = Some (PDict (map (\<lambda>(n, v). (n, PStr v)) (pp_identity q)))"
  "dict_get (mitm_rules q) ''hackerone_username'' = Some (case pp_username q of None \<Rightarrow> PNone | Some u \<Rightarrow> PStr u)"
  by (simp_all add: mitm_lookup)

lemma list_of_texts [simp]: "list_of (Some (texts xs)) = Some (map PStr xs)"
  by (simp add: list_of_def texts_def)

lemma is_text_map: "list_all (is_text f) (map PStr xs) = list_all f xs"
  by (induction xs) (simp_all add: is_text_def)

lemma one_of_texts: "one_of names (map PStr xs) = Inr (set xs \<subseteq> set names)"
  by (induction xs) (auto simp: hashable_def)

lemma identity_texts: "identity_value (PDict (map (\<lambda>(n, v). (n, PStr v)) hs)) \<longleftrightarrow> validate_identity_headers hs \<noteq> None"
  by (simp add: identity_value_def is_text_def list_all_iff comp_def case_prod_unfold)

lemma require_Inr [simp]: "bindR (require b e) f = Inr x \<longleftrightarrow> b \<and> f () = Inr x"
  by (simp add: require_def)

text \<open>
  C35: a checked policy writes rules the proxy accepts.  For a policy that satisfies the constraints
  of its class, \<open>validate_scope_rules\<close> accepts what \<open>mitm_rules\<close> writes, and returns it unchanged,
  exactly if schemes, ports, path prefixes and methods are not empty, which the class does not ask
  for; otherwise the proxy refuses the rules.
\<close>

theorem checked_policy_writes_valid_rules:
  assumes "proxy_policy_ok q"
  shows "validate_scope_rules (PDict (mitm_rules q)) = Inr (mitm_rules q) \<longleftrightarrow>
    [] \<notin> {tp_schemes (pp_policy q), tp_prefixes (pp_policy q), tp_methods (pp_policy q)} \<and> tp_ports (pp_policy q) \<noteq> []"
proof -
  let ?p = "pp_policy q"
  have methods: "all_methods = set [''GET'', ''HEAD'', ''OPTIONS'', ''POST'', ''PUT'', ''PATCH'', ''DELETE'']"
    by (simp add: all_methods_def)
  have schemes: "{''http'', ''https''} = set [''http'', ''https'']" by simp
  note checked = conjunct1 [OF assms [unfolded proxy_policy_ok_def], unfolded controls_ok_def methods schemes]
  have ok: "set (tp_schemes ?p) \<subseteq> set [''http'', ''https'']" "tp_hosts ?p \<noteq> []"
    "list_all (\<lambda>n. 1 \<le> n \<and> n \<le> 65535) (tp_ports ?p)"
    "set (tp_methods ?p) \<subseteq> set [''GET'', ''HEAD'', ''OPTIONS'', ''POST'', ''PUT'', ''PATCH'', ''DELETE'']"
    "list_all (\<lambda>h. h \<noteq> [] \<and> \<not> contains h ''://'' \<and> CHR ''/'' \<notin> set h) (tp_hosts ?p)"
    "list_all valid_host_pattern (tp_excluded_hosts ?p)"
    "list_all (\<lambda>x. starts_with x ''/'') (tp_prefixes ?p @ tp_excluded_prefixes ?p)"
    by (insert checked) (elim conjE, assumption)+
  have ports: "list_all port_ok (map (\<lambda>n. PInt (int n)) (tp_ports ?p))"
    using ok(3) by (simp add: list_all_iff port_ok_def)
  have user: "optional_ok (is_text (\<lambda>u. validate_platform_username u \<noteq> None)) (Some (case pp_username q of None \<Rightarrow> PNone | Some u \<Rightarrow> PStr u))"
    using assms by (simp add: proxy_policy_ok_def optional_ok_def is_text_def split: option.splits)
  have rest: "optional_ok positive_int (Some (PInt (pp_max_requests q)))" "optional_ok (int_between 1 120) (Some (PInt (pp_timeout q)))"
    "validate_identity_headers (pp_identity q) \<noteq> None"
    using assms by (simp_all add: proxy_policy_ok_def optional_ok_def positive_int_def int_between_def)
  have none: "optional_ok f None" "flag_ok (Some (PBool b))" for f b by (simp_all add: optional_ok_def flag_ok_def)
  have ports_list: "list_of (Some (PList (map (\<lambda>n. PInt (int n)) (tp_ports ?p)))) = Some (map (\<lambda>n. PInt (int n)) (tp_ports ?p))"
    by (simp add: list_of_def)
  show ?thesis
    unfolding validate_scope_rules_def Let_def pyval.case require_Inr list.pred_inject mitm_fields list_of_texts ports_list
      option.case
    using ok ports user rest none
    by (auto simp: is_text_map one_of_texts identity_texts simp flip: map_append)
qed

definition sample_proxy :: proxy_policy where
  "sample_proxy = \<lparr>pp_policy = sample_policy, pp_exclusions = None, pp_governor = None, pp_identity = [], pp_username = None,
     pp_max_requests = 2000, pp_timeout = 20, pp_capture_bodies = True\<rparr>"

lemma checked_policy_writes_valid_rules_witness:
  "validate_scope_rules (PDict (mitm_rules sample_proxy)) = Inr (mitm_rules sample_proxy)"
proof -
  have "controls_ok sample_policy"
    by (simp add: controls_ok_def sample_policy_def all_methods_def)
  then have "proxy_policy_ok sample_proxy"
    by (simp add: proxy_policy_ok_def sample_proxy_def validate_identity_headers_def)
  from checked_policy_writes_valid_rules [OF this] show ?thesis by (simp add: sample_proxy_def sample_policy_def)
qed

end
