(* ===== verification/Evidence_Gate.thy ===== *)
theory Evidence_Gate
  imports Coverage
begin

text \<open>
  \<open>src/src/aidast/validation/core/integrity.py\<close>: which Attack evidence Validation accepts as the
  source of a case.  Modelled are the bindings of a reproduction specification to its finding,
  attempts, requests and credentials; the optional runtime, development and impact contracts of a
  specification, and the assembly of the blind case, are not.  \<open>canonical_sha256\<close> is the function
  \<open>gk_canon\<close>; identifiers and roles in a specification are strings, a column that should hold a
  list and does not is None.
\<close>

section \<open>Payload structure\<close>

text \<open>
  \<open>_normalize\<close> of \<open>validation/core/matching.py\<close>: every slot marker is reduced to its name.  ASCII text
  is its own NFC form.
\<close>

definition slot_named :: "string \<Rightarrow> string" where
  "slot_named n = ''<slot:'' @ n @ ''>''"

definition angle_slot :: "string \<Rightarrow> (string \<times> string) option" where
  "angle_slot s =
     (if \<not> starts_with s ''<slot:'' then None
      else let body = takeWhile (\<lambda>c. c \<notin> set ''<>'') (drop 6 s); rest = drop (6 + length body) s; parts = split_on (CHR '':'') body
           in if starts_with rest ''>'' \<and> length parts \<le> 2 \<and> [] \<notin> set parts then Some (last parts, drop 1 rest) else None)"

definition brace_slot :: "string \<Rightarrow> (string \<times> string) option" where
  "brace_slot s =
     (if \<not> starts_with s ''{{'' then None
      else let body = takeWhile (\<lambda>c. c \<notin> set ''{}'') (drop 2 s); rest = drop (2 + length body) s; parts = split_on (CHR '':'') body
           in if starts_with rest ''}}'' \<and> length parts = 2 \<and> [] \<notin> set parts then Some (last parts, drop 2 rest) else None)"

lemma slot_shorter:
  "angle_slot s = Some (n, r) \<Longrightarrow> length r < length s" "brace_slot s = Some (n, r) \<Longrightarrow> length r < length s"
  by (cases s; auto simp: angle_slot_def brace_slot_def Let_def split: if_splits)+

function normalize_text :: "string \<Rightarrow> string" where
  "normalize_text [] = []"
| "normalize_text (c # s) =
     (case angle_slot (c # s) of
        Some (n, r) \<Rightarrow> slot_named n @ normalize_text r
      | None \<Rightarrow> (case brace_slot (c # s) of
          Some (n, r) \<Rightarrow> slot_named n @ normalize_text r
        | None \<Rightarrow> c # normalize_text s))"
  by pat_completeness auto
termination
  by (relation "measure length") (auto dest: slot_shorter [OF sym] slot_shorter)

text \<open>A key that two keys of an object normalize to keeps its first place and its last value.\<close>

definition as_dict :: "(string \<times> pyval) list \<Rightarrow> (string \<times> pyval) list" where
  "as_dict d = foldl (\<lambda>m (k, v). dict_set m k v) [] d"

fun normalize_value :: "pyval \<Rightarrow> pyval" where
  "normalize_value (PStr s) = PStr (normalize_text s)"
| "normalize_value (PList vs) = PList (map normalize_value vs)"
| "normalize_value (PDict d) = PDict (as_dict (map (\<lambda>(k, v). (k, normalize_value v)) d))"
| "normalize_value v = v"

section \<open>Tables\<close>

record gate_finding =
  gf_id :: string
  gf_scan :: string
  gf_endpoint :: string
  gf_method :: string
  gf_base :: string

record gate_spec =
  gs_finding :: string
  gs_skill :: string
  gs_endpoint :: string
  gs_method :: string
  gs_template :: string
  gs_location :: string
  gs_param :: string
  gs_payload :: pyval
  gs_roles :: "string list option"
  gs_attempts :: "string list option"
  gs_requests :: "string list option"
  gs_structure :: string
  gs_policy :: string
  gs_digest :: string

record ledger_request =
  lr_id :: string
  lr_scan :: string
  lr_task :: string
  lr_fingerprint :: string
  lr_method :: string
  lr_policy :: "string option"
  lr_status :: string
  lr_url :: string
  lr_auth :: "string option"
  lr_response :: "int option"
  lr_result :: "pyval option"

record gate_db =
  gd_pipe :: pipe_db
  gd_attempts :: "attempt_row list"
  gd_requests :: "ledger_request list"
  gd_findings :: "gate_finding list"
  gd_specs :: "gate_spec list"
  gd_evidence :: "(string \<times> string) list"

record gate_env =
  gk_net :: net_env
  gk_canon :: "pyval \<Rightarrow> string"
  gk_profile :: "string \<Rightarrow> bool"

section \<open>Resumed stages\<close>

text \<open>A run, its status and the run it resumes: the joined rows of the Attack stages of a scan.\<close>

type_synonym lineage_row = "string \<times> job_status \<times> string option"

definition resumed_from :: "attack_task \<Rightarrow> string option" where
  "resumed_from t = (case dict_get (at_payload t) ''resume_from_stage_run_id'' of Some (PStr p) \<Rightarrow> Some p | _ \<Rightarrow> None)"

definition lineage_rows :: "string \<Rightarrow> pipe_db \<Rightarrow> lineage_row list" where
  "lineage_rows scan D = concat (map (\<lambda>s. map (\<lambda>t. (sr_id s, sr_status s, resumed_from t))
       (filter (\<lambda>t. at_run t = sr_id s \<and> at_scan t = sr_scan s) (d_tasks D)))
     (filter (\<lambda>s. sr_scan s = scan \<and> sr_stage s = ''attack'') (d_stages D)))"

definition children :: "lineage_row list \<Rightarrow> string \<Rightarrow> lineage_row list" where
  "children rows p = filter (\<lambda>(_, _, from). from = Some p) rows"

text \<open>The frontier and the visited runs are sets in the code; the answer does not depend on the order.\<close>

function reaches_completed :: "lineage_row list \<Rightarrow> string list \<Rightarrow> string list \<Rightarrow> bool" where
  "reaches_completed rows visited [] = False"
| "reaches_completed rows visited (p # frontier) =
     (if p \<in> set visited then reaches_completed rows visited frontier
      else if \<exists>(_, st, _)\<in>set (children rows p). st = JCompleted then True
      else reaches_completed rows (p # visited)
             (map fst (filter (\<lambda>(i, st, _). st = JFailed \<and> i \<notin> set (p # visited)) (children rows p)) @ frontier))"
  by pat_completeness auto
termination
proof (relation "measures [\<lambda>(rows, visited, frontier). card (set frontier \<union> fst ` set rows - set visited),
    \<lambda>(rows, visited, frontier). length frontier]", goal_cases)
  case (2 rows visited p frontier)
  have "set frontier \<union> fst ` set rows - set visited \<subseteq> set (p # frontier) \<union> fst ` set rows - set visited" by auto
  then have "card (set frontier \<union> fst ` set rows - set visited) \<le> card (set (p # frontier) \<union> fst ` set rows - set visited)"
    by (intro card_mono) auto
  then show ?case by auto
next
  case (3 rows visited p frontier)
  let ?kids = "map fst (filter (\<lambda>(i, st, _). st = JFailed \<and> i \<notin> set (p # visited)) (children rows p))"
  have "set (?kids @ frontier) \<union> fst ` set rows - set (p # visited) \<subset> set (p # frontier) \<union> fst ` set rows - set visited"
    using 3(1) by (auto simp: children_def)
  then have "card (set (?kids @ frontier) \<union> fst ` set rows - set (p # visited)) < card (set (p # frontier) \<union> fst ` set rows - set visited)"
    by (intro psubset_card_mono) auto
  then show ?case by simp
qed auto

definition has_completed_resume_lineage :: "pipe_db \<Rightarrow> string \<Rightarrow> string \<Rightarrow> bool" where
  "has_completed_resume_lineage D scan run = reaches_completed (lineage_rows scan D) [] [run]"

section \<open>Source attempts\<close>

definition ids_ok :: "string list option \<Rightarrow> bool" where
  "ids_ok ids = (case ids of None \<Rightarrow> False | Some xs \<Rightarrow> xs \<noteq> [] \<and> distinct xs)"

definition timed_out_source :: "gate_db \<Rightarrow> string \<Rightarrow> string option \<Rightarrow> stage_run \<Rightarrow> attack_task \<Rightarrow> bool" where
  "timed_out_source G scan task s t \<longleftrightarrow> sr_status s = JFailed \<and> sr_error s = Some ''native Attack Agent timed out''
     \<and> at_status t \<in> {JCompleted, JCancelled}
     \<and> \<not> (\<exists>r\<in>set (gd_requests G). lr_scan r = scan \<and> Some (lr_task r) = task \<and> lr_status r \<noteq> ''completed'')"

text \<open>The stage of the task that made an attempt must have finished, or have been taken over.\<close>

definition durable_attempt :: "gate_db \<Rightarrow> string \<Rightarrow> attempt_row \<Rightarrow> bool" where
  "durable_attempt G scan a =
     (case find (\<lambda>t. Some (at_id t) = aa_task a \<and> at_scan t = scan) (d_tasks (gd_pipe G)) of
        None \<Rightarrow> False
      | Some t \<Rightarrow> (case find_row sr_id (at_run t) (d_stages (gd_pipe G)) of
          None \<Rightarrow> False
        | Some s \<Rightarrow> sr_stage s = ''attack''
            \<and> (at_status t = JCompleted \<and> (sr_status s = JCompleted
                  \<or> has_completed_resume_lineage (gd_pipe G) scan (sr_id s))
               \<or> timed_out_source G scan (aa_task a) s t)))"

definition source_attempts :: "gate_db \<Rightarrow> string \<Rightarrow> string \<Rightarrow> string list option \<Rightarrow> (string, attempt_row list) result" where
  "source_attempts G scan finding ids =
     (if \<not> ids_ok ids then Inl ''source_attempt_ids''
      else let rows = filter (\<lambda>a. aa_scan a = scan \<and> aa_finding a = Some finding \<and> aa_outcome a = ''confirmed''
                                \<and> aa_id a \<in> set (the ids)) (gd_attempts G)
           in if length rows \<noteq> length (the ids) then Inl ''confirmed_attempts''
              else if list_all (durable_attempt G scan) rows then Inr rows else Inl ''durable_attack_stage'')"

section \<open>Source requests\<close>

text \<open>The pattern of an endpoint template: a slot \<open>{name}\<close> stands for one nonempty path segment part.\<close>

datatype path_token = Exactly char | Segment

function template_tokens :: "string \<Rightarrow> path_token list" where
  "template_tokens [] = []"
| "template_tokens (c # s) =
     (let name = takeWhile (\<lambda>c. c \<notin> set ''{}'') s; rest = drop (length name) s
      in if c = CHR ''{'' \<and> name \<noteq> [] \<and> starts_with rest ''}'' then Segment # template_tokens (drop 1 rest)
         else Exactly c # template_tokens s)"
  by pat_completeness auto
termination by (relation "measure length") auto

fun path_fits :: "path_token list \<Rightarrow> string \<Rightarrow> bool" where
  "path_fits [] p = (p = [])"
| "path_fits (Exactly c # ts) [] = False"
| "path_fits (Exactly c # ts) (d # p) = (c = d \<and> path_fits ts p)"
| "path_fits (Segment # ts) [] = False"
| "path_fits (Segment # ts) (d # p) = (d \<noteq> CHR ''/'' \<and> (path_fits ts p \<or> path_fits (Segment # ts) p))"

definition url_path :: "net_env \<Rightarrow> string \<Rightarrow> string" where
  "url_path E url = (case urlsplit E url of None \<Rightarrow> [] | Some u \<Rightarrow> u_path u)"

definition bound_request ::
  "net_env \<Rightarrow> gate_spec \<Rightarrow> attempt_row list \<Rightarrow> string \<Rightarrow> ledger_request \<Rightarrow> (string, bool) result" where
  "bound_request E sp attempts base r =
     (if \<not> (\<exists>a\<in>set attempts. aa_task a = Some (lr_task r) \<and> aa_fingerprint a = lr_fingerprint r)
         \<or> upper (lr_method r) \<noteq> upper (gs_method sp) \<or> lr_policy r \<noteq> Some (gs_policy sp) \<or> lr_status r \<noteq> ''completed''
      then Inr False
      else (case same_origin E (lr_url r) base of
          Inl e \<Rightarrow> Inl ''ValueError''
        | Inr same \<Rightarrow> Inr (same \<and> path_fits (template_tokens (gs_template sp)) (url_path E (lr_url r)))))"

definition authorized_source :: "ledger_request \<Rightarrow> bool" where
  "authorized_source r =
     (if upper (lr_method r) \<in> {''GET'', ''HEAD'', ''OPTIONS''} then lr_auth r \<in> {None, Some ''scope_safe_method''}
      else lr_auth r = Some ''scope_active_mutation'')"

fun all_bound :: "(ledger_request \<Rightarrow> (string, bool) result) \<Rightarrow> ledger_request list \<Rightarrow> (string, unit) result" where
  "all_bound f [] = Inr ()"
| "all_bound f (r # rs) = bindR (f r) (\<lambda>b. if b then all_bound f rs else Inl ''request_attempt_policy_binding'')"

definition source_requests ::
  "net_env \<Rightarrow> gate_db \<Rightarrow> string \<Rightarrow> gate_spec \<Rightarrow> attempt_row list \<Rightarrow> string \<Rightarrow> (string, ledger_request list) result" where
  "source_requests E G scan sp attempts base =
     (if \<not> ids_ok (gs_requests sp) then Inl ''source_request_ids''
      else let rows = filter (\<lambda>r. lr_scan r = scan \<and> lr_id r \<in> set (the (gs_requests sp))) (gd_requests G)
           in if length rows \<noteq> length (the (gs_requests sp)) then Inl ''source_requests''
              else bindR (all_bound (bound_request E sp attempts base) rows) (\<lambda>_.
                if list_all authorized_source rows then Inr rows else Inl ''source_request_authorization''))"

section \<open>Credentials\<close>

definition request_reference :: "ledger_request \<Rightarrow> (string, string option) result" where
  "request_reference r =
     (case lr_result r of
        None \<Rightarrow> Inr None
      | Some (PDict d) \<Rightarrow> (case dict_get d ''credential_reference_id'' of
          None \<Rightarrow> Inr None
        | Some PNone \<Rightarrow> Inr None
        | Some (PStr i) \<Rightarrow> Inr (Some i)
        | Some _ \<Rightarrow> Inl ''source_request_identity'')
      | Some _ \<Rightarrow> Inl ''source_request_identity'')"

fun source_references :: "string set \<Rightarrow> ledger_request list \<Rightarrow> (string, string set) result" where
  "source_references available [] = Inr {}"
| "source_references available (r # rs) =
     bindR (request_reference r) (\<lambda>i. bindR (source_references available rs) (\<lambda>more. Inr (set_option i \<inter> available \<union> more)))"

definition only_element :: "'a set \<Rightarrow> 'a list \<Rightarrow> 'a option" where
  "only_element A xs = find (\<lambda>x. x \<in> A) xs"

definition role_reference :: "gate_db \<Rightarrow> string \<Rightarrow> ledger_request list \<Rightarrow> string \<Rightarrow> (string, string) result" where
  "role_reference G scan requests role =
     (let available = sort (map cr_id (filter (\<lambda>c. cr_scan c = scan \<and> cr_role c = role) (d_credentials (gd_pipe G))))
      in if available = [] then Inl ''credential_resolution''
         else bindR (source_references (set available) requests) (\<lambda>used.
           if 1 < card used then Inl ''source_request_identity_ambiguous''
           else if used \<noteq> {} then (case only_element used available of Some i \<Rightarrow> Inr i | None \<Rightarrow> Inl ''unreachable'')
           else if card (set available) = 1 then Inr (hd available)
           else Inl ''source_request_identity_ambiguous''))"

section \<open>The gate\<close>

text \<open>The fields \<open>SPEC_DIGEST_FIELDS\<close> names, in its order.\<close>

definition texts_or_null :: "string list option \<Rightarrow> pyval" where
  "texts_or_null xs = (case xs of None \<Rightarrow> PNone | Some ys \<Rightarrow> PList (map PStr ys))"

definition spec_document :: "gate_spec \<Rightarrow> pyval" where
  "spec_document sp = PDict
     [(''finding_id'', PStr (gs_finding sp)), (''attack_skill_name'', PStr (gs_skill sp)), (''endpoint_id'', PStr (gs_endpoint sp)),
      (''method'', PStr (gs_method sp)), (''endpoint_template'', PStr (gs_template sp)),
      (''injection_location'', PStr (gs_location sp)), (''parameter_name'', PStr (gs_param sp)),
      (''payload_template'', gs_payload sp), (''required_identity_roles'', texts_or_null (gs_roles sp)),
      (''source_attempt_ids'', texts_or_null (gs_attempts sp)), (''source_request_ids'', texts_or_null (gs_requests sp)),
      (''payload_structure_sha256'', PStr (gs_structure sp)), (''source_policy_sha256'', PStr (gs_policy sp))]"

definition reproduction_spec_digest :: "gate_env \<Rightarrow> gate_spec \<Rightarrow> string" where
  "reproduction_spec_digest K sp = gk_canon K (spec_document sp)"

text \<open>\<open>canonical_reproduction_spec\<close>: what Attack persists with a finding.\<close>

definition canonical_reproduction_spec :: "gate_env \<Rightarrow> gate_spec \<Rightarrow> gate_spec" where
  "canonical_reproduction_spec K sp =
     (let sp = sp\<lparr>gs_method := upper (gs_method sp)\<rparr>;
          sp = sp\<lparr>gs_structure := gk_canon K (normalize_value (gs_payload sp))\<rparr>
      in sp\<lparr>gs_digest := reproduction_spec_digest K sp\<rparr>)"

record evidence =
  ev_finding :: gate_finding
  ev_spec :: gate_spec
  ev_attempts :: "attempt_row list"
  ev_requests :: "ledger_request list"
  ev_references :: "string list"
  ev_links :: "string list"

definition validate_evidence :: "gate_env \<Rightarrow> gate_db \<Rightarrow> string \<Rightarrow> string \<Rightarrow> (string, evidence) result" where
  "validate_evidence K G scan finding =
     (case find (\<lambda>f. gf_id f = finding \<and> gf_scan f = scan) (gd_findings G) of
        None \<Rightarrow> Inl ''finding_scan_endpoint''
      | Some f \<Rightarrow> (case find_row gs_finding finding (gd_specs G) of
          None \<Rightarrow> Inl ''reproduction_spec_present''
        | Some sp \<Rightarrow>
            if reproduction_spec_digest K sp \<noteq> gs_digest sp then Inl ''spec_sha256''
            else if gk_canon K (normalize_value (gs_payload sp)) \<noteq> gs_structure sp then Inl ''payload_structure_sha256''
            else if gs_endpoint sp \<noteq> gf_endpoint f then Inl ''endpoint_binding''
            else if gf_method f \<noteq> [] \<and> upper (gf_method f) \<noteq> upper (gs_method sp) then Inl ''endpoint_method''
            else bindR (source_attempts G scan finding (gs_attempts sp)) (\<lambda>attempts.
              if \<not> list_all (\<lambda>a. aa_endpoint a = gs_endpoint sp) attempts then Inl ''attempt_endpoint_binding''
              else if \<not> list_all (\<lambda>a. aa_skill a = gs_skill sp) attempts then Inl ''confirmed_skill_binding''
              else bindR (source_requests (gk_net K) G scan sp attempts (gf_base f)) (\<lambda>requests.
                if \<not> gk_profile K (gs_skill sp) then Inl ''skill_profile_binding''
                else (case gs_roles sp of
                    None \<Rightarrow> Inl ''identity_roles''
                  | Some roles \<Rightarrow>
                      if \<not> distinct roles \<or> [] \<in> set roles then Inl ''identity_roles''
                      else bindR (mapR (role_reference G scan requests) roles) (\<lambda>refs.
                        let links = sort (map fst (filter (\<lambda>(_, target). target = finding) (gd_evidence G)))
                        in if links = [] then Inl ''attack_evidence''
                           else Inr \<lparr>ev_finding = f, ev_spec = sp, ev_attempts = attempts, ev_requests = requests,
                                     ev_references = refs, ev_links = links\<rparr>))))))"

section \<open>Resumption lineages\<close>

text \<open>
  A failed run is adopted when a completed run resumes it, directly or through other failed runs.
\<close>

inductive lineage :: "lineage_row list \<Rightarrow> string \<Rightarrow> bool" for rows where
  lineage_completed: "(i, JCompleted, Some p) \<in> set rows \<Longrightarrow> lineage rows p"
| lineage_resumed: "(i, JFailed, Some p) \<in> set rows \<Longrightarrow> lineage rows i \<Longrightarrow> lineage rows p"

inductive_cases lineageE: "lineage rows p"

lemma in_children: "x \<in> set (children rows p) \<longleftrightarrow> x \<in> set rows \<and> snd (snd x) = Some p"
  by (cases x) (auto simp: children_def)

lemma reaches_completed_sound: "reaches_completed rows visited frontier \<Longrightarrow> \<exists>p\<in>set frontier. lineage rows p"
proof (induction rows visited frontier rule: reaches_completed.induct)
  case (2 rows visited p frontier)
  show ?case
  proof (cases "p \<in> set visited")
    case True
    with 2 show ?thesis by auto
  next
    case new: False
    show ?thesis
    proof (cases "\<exists>(_, st, _)\<in>set (children rows p). st = JCompleted")
      case True
      then have "lineage rows p" by (auto simp: in_children intro: lineage_completed)
      then show ?thesis by simp
    next
      case False
      with new 2(3) have "reaches_completed rows (p # visited)
          (map fst (filter (\<lambda>(i, st, _). st = JFailed \<and> i \<notin> set (p # visited)) (children rows p)) @ frontier)"
        by simp
      from 2(2) [OF new False this] obtain q where q: "lineage rows q"
        "q \<in> set frontier \<or> (q, JFailed, Some p) \<in> set rows"
        by (auto simp: in_children)
      then have "lineage rows p \<or> q \<in> set frontier" by (auto intro: lineage_resumed)
      with q show ?thesis by auto
    qed
  qed
qed simp

text \<open>What the search keeps of the runs it has visited, for as long as it has not succeeded.\<close>

definition explored :: "lineage_row list \<Rightarrow> string set \<Rightarrow> string set \<Rightarrow> bool" where
  "explored rows V F \<longleftrightarrow> (\<forall>p\<in>V. \<forall>(i, st, from)\<in>set rows. from = Some p \<longrightarrow> st \<noteq> JCompleted \<and> (st = JFailed \<longrightarrow> i \<in> V \<union> F))"

lemma explored_closed: assumes "explored rows V {}" "lineage rows p" shows "p \<notin> V"
  using assms(2,1) by (induction rule: lineage.induct) (fastforce simp: explored_def)+

lemma reaches_completed_complete:
  "\<not> reaches_completed rows visited frontier \<Longrightarrow> explored rows (set visited) (set frontier)
   \<Longrightarrow> p \<in> set visited \<union> set frontier \<Longrightarrow> \<not> lineage rows p"
proof (induction rows visited frontier rule: reaches_completed.induct)
  case (1 rows visited)
  then show ?case using explored_closed by fastforce
next
  case (2 rows visited q frontier)
  show ?case
  proof (cases "q \<in> set visited")
    case True
    with 2(4) have "explored rows (set visited) (set frontier)" by (auto simp: explored_def)
    with True 2 show ?thesis by auto
  next
    case new: False
    let ?kids = "map fst (filter (\<lambda>(i, st, _). st = JFailed \<and> i \<notin> set (q # visited)) (children rows q))"
    from new 2(3) have none: "\<not> (\<exists>(_, st, _)\<in>set (children rows q). st = JCompleted)"
      and rest: "\<not> reaches_completed rows (q # visited) (?kids @ frontier)" by (auto split: if_splits)
    have kids: "x \<in> set ?kids \<longleftrightarrow> (x, JFailed, Some q) \<in> set rows \<and> x \<notin> set (q # visited)" for x
      by (auto simp: in_children image_iff)
    have "st \<noteq> JCompleted" if "(i, st, Some q) \<in> set rows" for i st
      using none that by (force simp: in_children)
    with 2(4) kids have "explored rows (set (q # visited)) (set (?kids @ frontier))"
      unfolding explored_def by fastforce
    from 2(2) [OF new none rest this] 2(5) show ?thesis by auto
  qed
qed

lemma reaches_completed_iff: "reaches_completed rows [] [p] \<longleftrightarrow> lineage rows p"
proof
  show "lineage rows p" if "reaches_completed rows [] [p]" using reaches_completed_sound [OF that] by simp
  have "explored rows (set []) (set [p])" by (simp add: explored_def)
  then show "reaches_completed rows [] [p]" if "lineage rows p"
    using reaches_completed_complete [of rows "[]" "[p]" p] that by fastforce
qed

text \<open>
  C23: the search for a completed resumption is exact.  \<open>_has_completed_resume_lineage\<close> finds a run
  exactly when some completed Attack run of the scan resumes it through a chain of failed runs, each
  of which was itself resumed; cycles among the resumption links neither trap the search nor forge
  an adoption.
\<close>

theorem resume_lineage_iff:
  "has_completed_resume_lineage D scan run \<longleftrightarrow> lineage (lineage_rows scan D) run"
  unfolding has_completed_resume_lineage_def by (rule reaches_completed_iff)

section \<open>What accepted evidence is worth\<close>

lemma all_bound_Inr: "all_bound f rs = Inr () \<longleftrightarrow> (\<forall>r\<in>set rs. f r = Inr True)"
  by (induction rs) (auto simp: bindR_eq_Inr split: if_splits)

lemma same_length_filter:
  assumes "distinct ids" "length (filter (\<lambda>r. P r \<and> key r \<in> set ids) rows) = length ids" "distinct (map key rows)"
  shows "key ` set (filter (\<lambda>r. P r \<and> key r \<in> set ids) rows) = set ids"
proof (rule card_subset_eq)
  show "key ` set (filter (\<lambda>r. P r \<and> key r \<in> set ids) rows) \<subseteq> set ids" by auto
  have "distinct (map key (filter (\<lambda>r. P r \<and> key r \<in> set ids) rows))" using assms(3) by (rule distinct_map_filter)
  then show "card (key ` set (filter (\<lambda>r. P r \<and> key r \<in> set ids) rows)) = card (set ids)"
    using assms(1,2) by (metis distinct_card length_map set_map)
qed simp

text \<open>An attempt is durable when its run completed, was adopted, or timed out with nothing unknown.\<close>

definition durable_source :: "gate_db \<Rightarrow> string \<Rightarrow> attempt_row \<Rightarrow> bool" where
  "durable_source G scan a \<longleftrightarrow> (\<exists>t\<in>set (d_tasks (gd_pipe G)). \<exists>s\<in>set (d_stages (gd_pipe G)).
     aa_task a = Some (at_id t) \<and> at_scan t = scan \<and> at_run t = sr_id s \<and> sr_stage s = ''attack''
     \<and> (at_status t = JCompleted \<and> (sr_status s = JCompleted \<or> lineage (lineage_rows scan (gd_pipe G)) (sr_id s))
        \<or> sr_status s = JFailed \<and> sr_error s = Some ''native Attack Agent timed out''
           \<and> at_status t \<in> {JCompleted, JCancelled}
           \<and> (\<forall>r\<in>set (gd_requests G). lr_scan r = scan \<and> aa_task a = Some (lr_task r) \<longrightarrow> lr_status r = ''completed'')))"

lemma durable_attempt_source: assumes "durable_attempt G scan a" shows "durable_source G scan a"
proof -
  from assms obtain t s where t: "find (\<lambda>t. Some (at_id t) = aa_task a \<and> at_scan t = scan) (d_tasks (gd_pipe G)) = Some t"
    and s: "find_row sr_id (at_run t) (d_stages (gd_pipe G)) = Some s" and stage: "sr_stage s = ''attack''"
    and how: "at_status t = JCompleted \<and> (sr_status s = JCompleted \<or> has_completed_resume_lineage (gd_pipe G) scan (sr_id s))
       \<or> timed_out_source G scan (aa_task a) s t"
    unfolding durable_attempt_def by (auto split: option.splits)
  from t have "t \<in> set (d_tasks (gd_pipe G))" "aa_task a = Some (at_id t)" "at_scan t = scan"
    by (auto simp: find_Some_iff)
  moreover from find_row_Some [OF s] have "s \<in> set (d_stages (gd_pipe G))" "at_run t = sr_id s" by auto
  moreover have "at_status t = JCompleted \<and> (sr_status s = JCompleted \<or> lineage (lineage_rows scan (gd_pipe G)) (sr_id s))
        \<or> sr_status s = JFailed \<and> sr_error s = Some ''native Attack Agent timed out''
           \<and> at_status t \<in> {JCompleted, JCancelled}
           \<and> (\<forall>r\<in>set (gd_requests G). lr_scan r = scan \<and> aa_task a = Some (lr_task r) \<longrightarrow> lr_status r = ''completed'')"
    using how unfolding timed_out_source_def has_completed_resume_lineage_def reaches_completed_iff by metis
  ultimately show ?thesis using stage unfolding durable_source_def by blast
qed

definition source_attempt :: "gate_db \<Rightarrow> string \<Rightarrow> gate_spec \<Rightarrow> string \<Rightarrow> attempt_row \<Rightarrow> bool" where
  "source_attempt G scan sp finding a \<longleftrightarrow> a \<in> set (gd_attempts G) \<and> aa_scan a = scan \<and> aa_finding a = Some finding
     \<and> aa_outcome a = ''confirmed'' \<and> aa_endpoint a = gs_endpoint sp \<and> aa_skill a = gs_skill sp \<and> durable_source G scan a"

definition source_request ::
  "net_env \<Rightarrow> gate_db \<Rightarrow> string \<Rightarrow> gate_spec \<Rightarrow> attempt_row list \<Rightarrow> string \<Rightarrow> ledger_request \<Rightarrow> bool" where
  "source_request E G scan sp attempts base r \<longleftrightarrow> r \<in> set (gd_requests G) \<and> lr_scan r = scan
     \<and> lr_status r = ''completed'' \<and> lr_policy r = Some (gs_policy sp) \<and> upper (lr_method r) = upper (gs_method sp)
     \<and> (\<exists>a\<in>set attempts. aa_task a = Some (lr_task r) \<and> aa_fingerprint a = lr_fingerprint r)
     \<and> same_origin E (lr_url r) base = Inr True \<and> path_fits (template_tokens (gs_template sp)) (url_path E (lr_url r))
     \<and> (upper (lr_method r) \<in> {''GET'', ''HEAD'', ''OPTIONS''} \<or> lr_auth r = Some ''scope_active_mutation'')"

lemma bound_request_source:
  assumes "bound_request E sp attempts base r = Inr True" "authorized_source r" "r \<in> set (gd_requests G)" "lr_scan r = scan"
  shows "source_request E G scan sp attempts base r"
proof -
  define safe where "safe = {''GET'', ''HEAD'', ''OPTIONS''}"
  have "upper (lr_method r) \<in> safe \<or> lr_auth r = Some ''scope_active_mutation''"
    using assms(2) unfolding authorized_source_def safe_def [symmetric] by metis
  then show ?thesis using assms(3,4) assms(1) [unfolded bound_request_def] unfolding source_request_def safe_def [symmetric]
    by (simp split: if_split_asm sum.split_asm)
qed

lemma source_attempts_Inr:
  assumes "source_attempts G scan finding ids = Inr rows" "distinct (map aa_id (gd_attempts G))"
  shows "\<exists>xs. ids = Some xs \<and> xs \<noteq> [] \<and> aa_id ` set rows = set xs"
    and "\<forall>a\<in>set rows. a \<in> set (gd_attempts G) \<and> aa_scan a = scan \<and> aa_finding a = Some finding
       \<and> aa_outcome a = ''confirmed'' \<and> durable_attempt G scan a"
proof -
  define P where "P a \<longleftrightarrow> aa_scan a = scan \<and> aa_finding a = Some finding \<and> aa_outcome a = ''confirmed''" for a :: attempt_row
  from assms(1) obtain xs where xs: "ids = Some xs" "xs \<noteq> []" "distinct xs"
    and rows: "rows = filter (\<lambda>a. P a \<and> aa_id a \<in> set xs) (gd_attempts G)" "length rows = length xs"
      "list_all (durable_attempt G scan) rows"
    unfolding source_attempts_def ids_ok_def Let_def P_def by (auto split: if_splits option.splits simp: conj_assoc)
  from same_length_filter [OF xs(3), of P aa_id "gd_attempts G"] rows assms(2)
  have "aa_id ` set rows = set xs" by simp
  with xs show "\<exists>xs. ids = Some xs \<and> xs \<noteq> [] \<and> aa_id ` set rows = set xs" by blast
  show "\<forall>a\<in>set rows. a \<in> set (gd_attempts G) \<and> aa_scan a = scan \<and> aa_finding a = Some finding
       \<and> aa_outcome a = ''confirmed'' \<and> durable_attempt G scan a"
    using rows by (auto simp: P_def list_all_iff)
qed

lemma source_requests_Inr:
  assumes "source_requests E G scan sp attempts base = Inr rows" "distinct (map lr_id (gd_requests G))"
  shows "\<exists>xs. gs_requests sp = Some xs \<and> xs \<noteq> [] \<and> lr_id ` set rows = set xs"
    and "\<forall>r\<in>set rows. source_request E G scan sp attempts base r"
proof -
  define P where "P r \<longleftrightarrow> lr_scan r = scan" for r :: ledger_request
  from assms(1) obtain xs where xs: "gs_requests sp = Some xs" "xs \<noteq> []" "distinct xs"
    and rows: "rows = filter (\<lambda>r. P r \<and> lr_id r \<in> set xs) (gd_requests G)" "length rows = length xs"
      "all_bound (bound_request E sp attempts base) rows = Inr ()" "list_all authorized_source rows"
    unfolding source_requests_def ids_ok_def Let_def P_def by (auto split: if_splits option.splits simp: bindR_eq_Inr)
  from same_length_filter [OF xs(3), of P lr_id "gd_requests G"] rows assms(2)
  have "lr_id ` set rows = set xs" by simp
  with xs show "\<exists>xs. gs_requests sp = Some xs \<and> xs \<noteq> [] \<and> lr_id ` set rows = set xs" by blast
  show "\<forall>r\<in>set rows. source_request E G scan sp attempts base r"
    using rows by (auto simp: P_def list_all_iff all_bound_Inr intro: bound_request_source)
qed

lemma validate_evidence_Inr:
  assumes "validate_evidence K G scan finding = Inr ev"
  shows "find (\<lambda>f. gf_id f = finding \<and> gf_scan f = scan) (gd_findings G) = Some (ev_finding ev)"
    and "find_row gs_finding finding (gd_specs G) = Some (ev_spec ev)"
    and "reproduction_spec_digest K (ev_spec ev) = gs_digest (ev_spec ev)"
    and "gs_endpoint (ev_spec ev) = gf_endpoint (ev_finding ev)"
    and "source_attempts G scan finding (gs_attempts (ev_spec ev)) = Inr (ev_attempts ev)"
    and "\<forall>a\<in>set (ev_attempts ev). aa_endpoint a = gs_endpoint (ev_spec ev) \<and> aa_skill a = gs_skill (ev_spec ev)"
    and "source_requests (gk_net K) G scan (ev_spec ev) (ev_attempts ev) (gf_base (ev_finding ev)) = Inr (ev_requests ev)"
    and "\<exists>roles. gs_roles (ev_spec ev) = Some roles \<and> distinct roles
           \<and> mapR (role_reference G scan (ev_requests ev)) roles = Inr (ev_references ev)"
    and "ev_links ev \<noteq> []"
  using assms unfolding validate_evidence_def Let_def
  by (auto split: option.splits if_splits simp: bindR_eq_Inr list_all_iff)

text \<open>
  C21: evidence Attack hands over is durable, bound and authorized.  When the gate accepts a finding,
  its reproduction specification is unaltered; the source attempts are exactly the listed ones, each
  a confirmed attempt of this finding on its endpoint and skill, made in an Attack run that
  completed, was adopted by a completed resumption, or failed because the native Attack Agent timed
  out (no other failure counts) after every request of its task had completed; and the
  source requests are exactly the listed ones, each a completed request of one of these attempts
  under the named policy, of the method, origin and path of the specification, where a request with
  a mutating method carries the authority of the Scope itself.
\<close>

theorem accepted_evidence_is_durable:
  assumes "validate_evidence K G scan finding = Inr ev"
    and "distinct (map aa_id (gd_attempts G))" and "distinct (map lr_id (gd_requests G))"
  shows "reproduction_spec_digest K (ev_spec ev) = gs_digest (ev_spec ev) \<and> gs_finding (ev_spec ev) = finding
    \<and> gs_attempts (ev_spec ev) \<noteq> None \<and> aa_id ` set (ev_attempts ev) = set (the (gs_attempts (ev_spec ev))) \<and> ev_attempts ev \<noteq> []
    \<and> (\<forall>a\<in>set (ev_attempts ev). source_attempt G scan (ev_spec ev) finding a)
    \<and> gs_requests (ev_spec ev) \<noteq> None \<and> lr_id ` set (ev_requests ev) = set (the (gs_requests (ev_spec ev))) \<and> ev_requests ev \<noteq> []
    \<and> (\<forall>r\<in>set (ev_requests ev).
         source_request (gk_net K) G scan (ev_spec ev) (ev_attempts ev) (gf_base (ev_finding ev)) r)"
proof -
  note gate = validate_evidence_Inr [OF assms(1)]
  obtain xs where xs: "gs_attempts (ev_spec ev) = Some xs" "xs \<noteq> []" "aa_id ` set (ev_attempts ev) = set xs"
    using source_attempts_Inr(1) [OF gate(5) assms(2)] by blast
  obtain ys where ys: "gs_requests (ev_spec ev) = Some ys" "ys \<noteq> []" "lr_id ` set (ev_requests ev) = set ys"
    using source_requests_Inr(1) [OF gate(7) assms(3)] by blast
  have "\<forall>a\<in>set (ev_attempts ev). source_attempt G scan (ev_spec ev) finding a"
    using source_attempts_Inr(2) [OF gate(5) assms(2)] gate(6) durable_attempt_source unfolding source_attempt_def by blast
  moreover have "gs_finding (ev_spec ev) = finding" using find_row_Some [OF gate(2)] by simp
  ultimately show ?thesis
    using gate(3) xs ys source_requests_Inr(2) [OF gate(7) assms(3)] by auto
qed

section \<open>Credentials of a replay\<close>

definition role_references :: "gate_db \<Rightarrow> string \<Rightarrow> string \<Rightarrow> string set" where
  "role_references G scan role = {cr_id c |c. c \<in> set (d_credentials (gd_pipe G)) \<and> cr_scan c = scan \<and> cr_role c = role}"

lemma source_references_Inr:
  "source_references A rs = Inr used \<Longrightarrow> used = {i \<in> A. \<exists>r\<in>set rs. request_reference r = Inr (Some i)}"
proof (induction rs arbitrary: used)
  case (Cons r rs)
  then obtain i more where "request_reference r = Inr i" "source_references A rs = Inr more" "used = set_option i \<inter> A \<union> more"
    by (auto simp: bindR_eq_Inr)
  with Cons.IH show ?case by auto
qed simp

lemma role_reference_Inr:
  assumes "role_reference G scan rs role = Inr i"
  shows "i \<in> role_references G scan role \<and> (\<forall>r\<in>set rs. \<forall>j. request_reference r = Inr (Some j) \<longrightarrow> j \<in> role_references G scan role \<longrightarrow> j = i)"
proof -
  define available where "available = sort (map cr_id (filter (\<lambda>c. cr_scan c = scan \<and> cr_role c = role) (d_credentials (gd_pipe G))))"
  have roles: "set available = role_references G scan role" by (auto simp: available_def role_references_def)
  from assms have some: "available \<noteq> []"
    unfolding role_reference_def available_def [symmetric] Let_def by (auto split: if_splits)
  with assms obtain used where used: "source_references (set available) rs = Inr used"
    and pick: "(if 1 < card used then Inl ''source_request_identity_ambiguous''
         else if used \<noteq> {} then (case only_element used available of Some i \<Rightarrow> Inr i | None \<Rightarrow> Inl ''unreachable'')
         else if card (set available) = 1 then Inr (hd available) else Inl ''source_request_identity_ambiguous'') = Inr i"
    unfolding role_reference_def available_def [symmetric] Let_def by (auto simp only: bindR_eq_Inr if_False)
  have u: "used = {i \<in> set available. \<exists>r\<in>set rs. request_reference r = Inr (Some i)}" by (rule source_references_Inr [OF used])
  show ?thesis
  proof (cases "used = {}")
    case True
    with pick have "i = hd available" by (simp split: if_splits)
    with some have "i \<in> set available" by simp
    with True u roles show ?thesis by blast
  next
    case False
    with pick have small: "card used \<le> 1" and "only_element used available = Some i"
      by (auto split: if_splits option.splits)
    then have i: "i \<in> used" "i \<in> set available" by (auto simp: only_element_def find_Some_iff)
    have "finite used" using u by auto
    with small i(1) have "used = {i}" by (auto simp: card_le_Suc0_iff_eq)
    with u i roles show ?thesis by auto
  qed
qed

text \<open>
  C22: the replay acts under the identities the attack used.  Accepted evidence names one credential
  reference for each required role, in the order of the roles; each is a credential of that role in
  this scan, and whenever a source request used a credential of the role, it is that one.
\<close>

theorem replay_keeps_source_identity:
  assumes "validate_evidence K G scan finding = Inr ev"
  shows "gs_roles (ev_spec ev) \<noteq> None \<and> distinct (the (gs_roles (ev_spec ev)))
    \<and> list_all2 (\<lambda>role i. i \<in> role_references G scan role
          \<and> (\<forall>r\<in>set (ev_requests ev). \<forall>j. request_reference r = Inr (Some j) \<longrightarrow> j \<in> role_references G scan role \<longrightarrow> j = i))
        (the (gs_roles (ev_spec ev))) (ev_references ev)"
proof -
  obtain roles where roles: "gs_roles (ev_spec ev) = Some roles" "distinct roles"
    and refs: "mapR (role_reference G scan (ev_requests ev)) roles = Inr (ev_references ev)"
    using validate_evidence_Inr(8) [OF assms] by blast
  have "list_all2 (\<lambda>role i. role_reference G scan (ev_requests ev) role = Inr i) roles (ev_references ev)"
    using refs by (rule mapR_list_all2)
  then have "list_all2 (\<lambda>role i. i \<in> role_references G scan role
          \<and> (\<forall>r\<in>set (ev_requests ev). \<forall>j. request_reference r = Inr (Some j) \<longrightarrow> j \<in> role_references G scan role \<longrightarrow> j = i))
        roles (ev_references ev)"
    by (rule list_all2_mono) (rule role_reference_Inr)
  with roles show ?thesis by simp
qed

section \<open>An accepted example\<close>

text \<open>A finding of a run that failed and was resumed by one that completed.\<close>

definition sample_gate_env :: gate_env where
  "sample_gate_env = \<lparr>gk_net = plain_env, gk_canon = (\<lambda>v. case v of PDict _ \<Rightarrow> ''object'' | _ \<Rightarrow> ''value''), gk_profile = (\<lambda>s. s = ''hunt-idor'')\<rparr>"

definition sample_gate_spec :: gate_spec where
  "sample_gate_spec = canonical_reproduction_spec sample_gate_env
     \<lparr>gs_finding = ''f'', gs_skill = ''hunt-idor'', gs_endpoint = ''e'', gs_method = ''post'', gs_template = ''/u/{id}'',
      gs_location = ''path'', gs_param = ''id'', gs_payload = PStr ''{{int:id}}'', gs_roles = Some [''user''],
      gs_attempts = Some [''a''], gs_requests = Some [''q''], gs_structure = [], gs_policy = ''p'', gs_digest = []\<rparr>"

definition sample_run :: "string \<Rightarrow> job_status \<Rightarrow> stage_run" where
  "sample_run i st = \<lparr>sr_id = i, sr_scan = ''s'', sr_stage = ''attack'', sr_status = st, sr_manifest = None, sr_error = None,
     sr_started = None, sr_finished = None\<rparr>"

definition sample_task :: "string \<Rightarrow> string \<Rightarrow> (string \<times> pyval) list \<Rightarrow> attack_task" where
  "sample_task i run p = \<lparr>at_id = i, at_run = run, at_scan = ''s'', at_skill = ''hunt-idor'', at_endpoint = Some ''e'',
     at_payload = p, at_status = JCompleted, at_error = None, at_started = None, at_finished = None\<rparr>"

definition sample_gate_pipe :: pipe_db where
  "sample_gate_pipe = (fresh_db [''s''])\<lparr>
     d_stages := [sample_run ''r1'' JFailed, sample_run ''r2'' JCompleted],
     d_tasks := [sample_task ''t1'' ''r1'' [], sample_task ''t2'' ''r2'' [(''resume_from_stage_run_id'', PStr ''r1'')]],
     d_credentials := [\<lparr>cr_id = ''c1'', cr_scan = ''s'', cr_session = None, cr_label = ''x'', cr_uri = ''env:x'', cr_role = ''user''\<rparr>,
       \<lparr>cr_id = ''c2'', cr_scan = ''s'', cr_session = None, cr_label = ''y'', cr_uri = ''env:y'', cr_role = ''user''\<rparr>]\<rparr>"

definition sample_gate :: gate_db where
  "sample_gate = \<lparr>gd_pipe = sample_gate_pipe,
     gd_attempts = [\<lparr>aa_id = ''a'', aa_scan = ''s'', aa_task = Some ''t1'', aa_skill = ''hunt-idor'', aa_outcome = ''confirmed'',
       aa_finding = Some ''f'', aa_endpoint = ''e'', aa_fingerprint = ''fp'', aa_response = Some 200, aa_identity = ''user'',
       aa_variant = ''v'', aa_resolution = None, aa_resolved = None, aa_created = ''t''\<rparr>],
     gd_requests = [\<lparr>lr_id = ''q'', lr_scan = ''s'', lr_task = ''t1'', lr_fingerprint = ''fp'', lr_method = ''POST'', lr_policy = Some ''p'',
       lr_status = ''completed'', lr_url = ''https://a.co/u/7'', lr_auth = Some ''scope_active_mutation'', lr_response = Some 200,
       lr_result = Some (PDict [(''credential_reference_id'', PStr ''c2'')])\<rparr>],
     gd_findings = [\<lparr>gf_id = ''f'', gf_scan = ''s'', gf_endpoint = ''e'', gf_method = ''POST'', gf_base = ''https://a.co''\<rparr>],
     gd_specs = [sample_gate_spec], gd_evidence = [(''w'', ''f'')]\<rparr>"

lemma sample_adopted: "has_completed_resume_lineage sample_gate_pipe ''s'' ''r1''"
  by (simp add: has_completed_resume_lineage_def lineage_rows_def resumed_from_def sample_gate_pipe_def sample_run_def sample_task_def
      children_def dict_get_def)

lemma sample_source_attempts: "source_attempts sample_gate ''s'' ''f'' (Some [''a'']) = Inr (gd_attempts sample_gate)"
proof -
  have "durable_attempt sample_gate ''s'' (hd (gd_attempts sample_gate))"
    using sample_adopted by (simp add: durable_attempt_def sample_gate_def sample_gate_pipe_def sample_run_def sample_task_def find_row_def)
  then show ?thesis by (simp add: source_attempts_def ids_ok_def sample_gate_def)
qed

lemma sample_path: "path_fits (template_tokens ''/u/{id}'') (url_path plain_env ''https://a.co/u/7'')"
  by (simp add: url_path_def str_eval)

lemma sample_bound: "bound_request plain_env sample_gate_spec (gd_attempts sample_gate) ''https://a.co'' (hd (gd_requests sample_gate)) = Inr True"
proof -
  have "same_origin plain_env ''https://a.co/u/7'' ''https://a.co'' = Inr True"
    by (simp add: same_origin_def url_origin_def str_eval)
  then show ?thesis using sample_path
    by (simp add: bound_request_def sample_gate_def sample_gate_spec_def canonical_reproduction_spec_def Let_def str_eval)
qed

lemma sample_source_requests:
  "source_requests plain_env sample_gate ''s'' sample_gate_spec (gd_attempts sample_gate) ''https://a.co'' = Inr (gd_requests sample_gate)"
proof -
  have "authorized_source (hd (gd_requests sample_gate))" by (simp add: authorized_source_def sample_gate_def str_eval)
  with sample_bound show ?thesis
    by (simp add: source_requests_def ids_ok_def sample_gate_def sample_gate_spec_def canonical_reproduction_spec_def Let_def)
qed

lemma sample_reference: "role_reference sample_gate ''s'' (gd_requests sample_gate) ''user'' = Inr ''c2''"
  by (simp add: role_reference_def request_reference_def sample_gate_def sample_gate_pipe_def dict_get_def only_element_def insort_key_def
     list_less_def)

lemma canonical_spec_passes:
  "reproduction_spec_digest K (canonical_reproduction_spec K sp) = gs_digest (canonical_reproduction_spec K sp)"
  "gk_canon K (normalize_value (gs_payload (canonical_reproduction_spec K sp))) = gs_structure (canonical_reproduction_spec K sp)"
  by (simp_all add: canonical_reproduction_spec_def reproduction_spec_digest_def spec_document_def Let_def)

definition sample_evidence :: evidence where
  "sample_evidence = \<lparr>ev_finding = hd (gd_findings sample_gate), ev_spec = sample_gate_spec, ev_attempts = gd_attempts sample_gate,
     ev_requests = gd_requests sample_gate, ev_references = [''c2''], ev_links = [''w'']\<rparr>"

lemma sample_accepted: "validate_evidence sample_gate_env sample_gate ''s'' ''f'' = Inr sample_evidence"
proof -
  have spec: "gs_finding sample_gate_spec = ''f''" "gs_endpoint sample_gate_spec = ''e''" "gs_skill sample_gate_spec = ''hunt-idor''"
    "upper (gs_method sample_gate_spec) = ''POST''" "gs_roles sample_gate_spec = Some [''user'']" "gs_attempts sample_gate_spec = Some [''a'']"
    by (simp_all add: sample_gate_spec_def canonical_reproduction_spec_def Let_def str_eval)
  have ok: "reproduction_spec_digest sample_gate_env sample_gate_spec = gs_digest sample_gate_spec"
    "gk_canon sample_gate_env (normalize_value (gs_payload sample_gate_spec)) = gs_structure sample_gate_spec"
    unfolding sample_gate_spec_def by (rule canonical_spec_passes)+
  have finding: "find (\<lambda>f. gf_id f = ''f'' \<and> gf_scan f = ''s'') (gd_findings sample_gate) = Some (hd (gd_findings sample_gate))"
    "find_row gs_finding ''f'' (gd_specs sample_gate) = Some sample_gate_spec"
    "gf_endpoint (hd (gd_findings sample_gate)) = ''e''" "upper (gf_method (hd (gd_findings sample_gate))) = ''POST''"
    "gf_base (hd (gd_findings sample_gate)) = ''https://a.co''" "gk_net sample_gate_env = plain_env" "gk_profile sample_gate_env ''hunt-idor''"
    using spec(1) by (simp_all add: sample_gate_def find_row_def sample_gate_env_def str_eval)
  have lists: "list_all (\<lambda>a. aa_endpoint a = ''e'') (gd_attempts sample_gate)" "list_all (\<lambda>a. aa_skill a = ''hunt-idor'') (gd_attempts sample_gate)"
    "sort (map fst (filter (\<lambda>(_, target). target = ''f'') (gd_evidence sample_gate))) = [''w'']"
    by (simp_all add: sample_gate_def)
  show ?thesis
    unfolding validate_evidence_def
    by (simp only: finding spec ok lists sample_source_attempts sample_source_requests sample_reference bindR_simps mapR.simps
        option.case Let_def list.simps distinct.simps sample_evidence_def if_False if_True HOL.simp_thms list.set empty_iff insert_iff)
qed

lemma sample_keys: "distinct (map aa_id (gd_attempts sample_gate))" "distinct (map lr_id (gd_requests sample_gate))"
  by (simp_all add: sample_gate_def)

lemma accepted_evidence_is_durable_witness:
  "aa_id ` set (ev_attempts sample_evidence) = {''a''} \<and> source_attempt sample_gate ''s'' sample_gate_spec ''f'' (hd (gd_attempts sample_gate))"
  using accepted_evidence_is_durable [OF sample_accepted sample_keys]
  by (simp add: sample_evidence_def sample_gate_def)

lemma replay_keeps_source_identity_witness:
  "list_all2 (\<lambda>role i. i \<in> role_references sample_gate ''s'' role) [''user''] (ev_references sample_evidence)"
proof -
  have "gs_roles (ev_spec sample_evidence) = Some [''user'']"
    by (simp add: sample_evidence_def sample_gate_spec_def canonical_reproduction_spec_def Let_def)
  with replay_keeps_source_identity [OF sample_accepted] have "list_all2 (\<lambda>role i. i \<in> role_references sample_gate ''s'' role
      \<and> (\<forall>r\<in>set (ev_requests sample_evidence). \<forall>j. request_reference r = Inr (Some j) \<longrightarrow> j \<in> role_references sample_gate ''s'' role \<longrightarrow> j = i))
     [''user''] (ev_references sample_evidence)" by simp
  then show ?thesis by (rule list_all2_mono) simp
qed

end
