(* ===== verification/Attack_Graph.thy ===== *)
theory Attack_Graph
  imports Preconditions Work_Queue
begin

text \<open>
  \<open>src/src/aidast/attack/graph.py\<close>: the graph of the attack, projected from the evidence tables.
  \<open>project\<close> lists the nodes and edges the evidence calls for, in the order of the code;
  \<open>synchronize_attack_graph\<close> writes them, records an event for every change, and a planner revision
  when the graph is one it has not seen.  \<open>gr_id\<close>, \<open>gr_digest\<close> and \<open>gr_json\<close> are \<open>_identifier\<close>,
  \<open>_digest\<close> and \<open>_json\<close>; event identifiers and timestamps nothing reads are left out.
\<close>

section \<open>Evidence\<close>

record site_row =
  st_id :: string
  st_scan :: string
  st_origin :: string
  st_method :: "string option"
  st_path :: string
  st_auth :: bool
  st_verification :: "string option"
  st_excluded :: bool

record param_row =
  pm_id :: string
  pm_endpoint :: string
  pm_name :: string
  pm_location :: string
  pm_role :: "string option"
  pm_type :: "string option"
  pm_example :: "string option"
  pm_identifier :: bool

record graph_finding =
  fi_id :: string
  fi_scan :: string
  fi_endpoint :: "string option"
  fi_vuln :: string
  fi_severity :: string
  fi_title :: string
  fi_description :: "string option"
  fi_status :: string
  fi_created :: string

datatype chain_state = ChQueued | ChRunning | ChCompleted | ChRetired

record chain_lead =
  ch_id :: string
  ch_scan :: string
  ch_finding :: string
  ch_item :: string
  ch_relationship :: string
  ch_state :: chain_state
  ch_priority :: int
  ch_run :: "string option"

record tool_run =
  tr_id :: string
  tr_scan :: string
  tr_task :: string
  tr_adapter :: string
  tr_status :: string
  tr_planned :: int
  tr_completed :: int
  tr_summary :: pyval

section \<open>The graph\<close>

record node_row =
  nd_id :: string
  nd_scan :: string
  nd_kind :: string
  nd_key :: string
  nd_state :: string
  nd_priority :: int
  nd_meta :: "(string \<times> pyval) list"
  nd_content :: string
  nd_updated :: string

record edge_row =
  ed_id :: string
  ed_scan :: string
  ed_from :: string
  ed_to :: string
  ed_relationship :: string
  ed_content :: string

datatype graph_change = NodeAdded string | NodeChanged string | EdgeAdded string | EdgeChanged string | PlannerRevision string

record graph_event =
  ge_scan :: string
  ge_run :: "string option"
  ge_change :: graph_change

record revision_row =
  rv_ident :: string
  rv_scan :: string
  rv_sha :: string
  rv_nodes :: nat
  rv_edges :: nat
  rv_run :: "string option"
  rv_trigger :: string

record graph_db =
  gb_pre :: pre_db
  gb_sites :: "site_row list"
  gb_params :: "param_row list"
  gb_findings :: "graph_finding list"
  gb_chains :: "chain_lead list"
  gb_tools :: "tool_run list"
  gb_nodes :: "node_row list"
  gb_edges :: "edge_row list"
  gb_events :: "graph_event list"
  gb_revisions :: "revision_row list"
  gb_leads :: "lead_row list"

record graph_env =
  gr_id :: "string \<Rightarrow> string list \<Rightarrow> string"
  gr_digest :: "pyval \<Rightarrow> string"
  gr_json :: "pyval \<Rightarrow> string"

abbreviation gb_cov :: "graph_db \<Rightarrow> cov_db" where "gb_cov D \<equiv> pd_cov (gb_pre D)"
abbreviation gb_pipe :: "graph_db \<Rightarrow> pipe_db" where "gb_pipe D \<equiv> cb_pipe (gb_cov D)"

section \<open>Writing nodes and edges\<close>

text \<open>What the constraints of the tables refuse; a node refers to a scan, an event also to its run.\<close>

definition graph_keys_ok :: "graph_db \<Rightarrow> string \<Rightarrow> string option \<Rightarrow> bool" where
  "graph_keys_ok D scan run \<longleftrightarrow> scan \<in> set (d_scans (gb_pipe D))
     \<and> (case run of None \<Rightarrow> True | Some r \<Rightarrow> r \<in> sr_id ` set (d_stages (gb_pipe D)))"

definition add_graph_event :: "string \<Rightarrow> string option \<Rightarrow> graph_change \<Rightarrow> graph_db \<Rightarrow> (db_error, graph_db) result" where
  "add_graph_event scan run change D =
     (if graph_keys_ok D scan run
      then Inr (D\<lparr>gb_events := gb_events D @ [\<lparr>ge_scan = scan, ge_run = run, ge_change = change\<rparr>]\<rparr>)
      else Inl (IntegrityErr ''FOREIGN KEY constraint failed''))"

record node_cmd =
  nc_kind :: string
  nc_key :: string
  nc_state :: string
  nc_priority :: int
  nc_meta :: "(string \<times> pyval) list"

definition node_ident :: "graph_env \<Rightarrow> string \<Rightarrow> string \<Rightarrow> string \<Rightarrow> string" where
  "node_ident E scan kind key = gr_id E ''graph_node'' [scan, kind, key]"

definition node_content :: "graph_env \<Rightarrow> node_cmd \<Rightarrow> string" where
  "node_content E c = gr_digest E (PList [PStr (nc_state c), PInt (nc_priority c), PDict (nc_meta c)])"

definition node_fits :: "graph_env \<Rightarrow> node_cmd \<Rightarrow> bool" where
  "node_fits E c \<longleftrightarrow> \<not> sql_blank (nc_key c) \<and> 0 \<le> nc_priority c \<and> nc_priority c \<le> 100
     \<and> length (gr_json E (PDict (nc_meta c))) \<le> 8192"

definition put_node ::
  "graph_env \<Rightarrow> string \<Rightarrow> string option \<Rightarrow> string \<Rightarrow> node_cmd \<Rightarrow> graph_db \<Rightarrow> (db_error, graph_db) result" where
  "put_node E scan run ts c D =
     (let i = node_ident E scan (nc_kind c) (nc_key c); content = node_content E c
      in case find_row nd_id i (gb_nodes D) of
        None \<Rightarrow>
          if node_fits E c \<and> scan \<in> set (d_scans (gb_pipe D))
             \<and> (scan, nc_kind c, nc_key c) \<notin> (\<lambda>r. (nd_scan r, nd_kind r, nd_key r)) ` set (gb_nodes D)
          then add_graph_event scan run (NodeAdded i) (D\<lparr>gb_nodes := gb_nodes D @ [\<lparr>nd_id = i, nd_scan = scan, nd_kind = nc_kind c,
                 nd_key = nc_key c, nd_state = nc_state c, nd_priority = nc_priority c, nd_meta = nc_meta c,
                 nd_content = content, nd_updated = ts\<rparr>]\<rparr>)
          else Inl (IntegrityErr ''constraint failed'')
      | Some r \<Rightarrow>
          if nd_content r = content then Inr D
          else if node_fits E c
          then add_graph_event scan run (NodeChanged i) (D\<lparr>gb_nodes := update_where (\<lambda>r. nd_id r = i)
                 (\<lambda>r. r\<lparr>nd_state := nc_state c, nd_priority := nc_priority c, nd_meta := nc_meta c,
                        nd_content := content, nd_updated := ts\<rparr>) (gb_nodes D)\<rparr>)
          else Inl (IntegrityErr ''CHECK constraint failed''))"

text \<open>Every edge the code draws is active and carries no evidence document.\<close>

definition edge_ident :: "graph_env \<Rightarrow> string \<Rightarrow> string \<Rightarrow> string \<Rightarrow> string \<Rightarrow> string" where
  "edge_ident E scan source target rel = gr_id E ''graph_edge'' [scan, source, target, rel]"

definition edge_content :: "graph_env \<Rightarrow> string" where
  "edge_content E = gr_digest E (PList [PStr ''active'', PDict []])"

definition put_edge ::
  "graph_env \<Rightarrow> string \<Rightarrow> string option \<Rightarrow> string \<Rightarrow> string \<Rightarrow> string \<Rightarrow> graph_db \<Rightarrow> (db_error, graph_db) result" where
  "put_edge E scan run source target rel D =
     (let i = edge_ident E scan source target rel
      in case find_row ed_id i (gb_edges D) of
        None \<Rightarrow>
          if {source, target} \<subseteq> nd_id ` set (gb_nodes D) \<and> scan \<in> set (d_scans (gb_pipe D))
             \<and> (scan, source, target, rel) \<notin> (\<lambda>r. (ed_scan r, ed_from r, ed_to r, ed_relationship r)) ` set (gb_edges D)
          then add_graph_event scan run (EdgeAdded i) (D\<lparr>gb_edges := gb_edges D @ [\<lparr>ed_id = i, ed_scan = scan, ed_from = source,
                 ed_to = target, ed_relationship = rel, ed_content = edge_content E\<rparr>]\<rparr>)
          else Inl (IntegrityErr ''constraint failed'')
      | Some r \<Rightarrow>
          if ed_content r = edge_content E then Inr D
          else add_graph_event scan run (EdgeChanged i) (D\<lparr>gb_edges := update_where (\<lambda>r. ed_id r = i)
                 (\<lambda>r. r\<lparr>ed_content := edge_content E\<rparr>) (gb_edges D)\<rparr>))"

section \<open>What the evidence calls for\<close>

datatype graph_cmd = DrawNode node_cmd | DrawEdge string string string

fun draw :: "graph_env \<Rightarrow> string \<Rightarrow> string option \<Rightarrow> string \<Rightarrow> graph_cmd \<Rightarrow> graph_db \<Rightarrow> (db_error, graph_db) result" where
  "draw E scan run ts (DrawNode c) D = put_node E scan run ts c D"
| "draw E scan run ts (DrawEdge source target rel) D = put_edge E scan run source target rel D"

definition text_or_null :: "string option \<Rightarrow> pyval" where
  "text_or_null s = (case s of None \<Rightarrow> PNone | Some t \<Rightarrow> PStr t)"

text \<open>An edge is only drawn when its other end has a node: \<open>endpoint_nodes.get(...)\<close> and the like.\<close>

definition link_if :: "bool \<Rightarrow> string \<Rightarrow> string \<Rightarrow> string \<Rightarrow> graph_cmd list" where
  "link_if known source target rel = (if known then [DrawEdge source target rel] else [])"

definition known_endpoint :: "string \<Rightarrow> graph_db \<Rightarrow> string option \<Rightarrow> bool" where
  "known_endpoint scan D i \<longleftrightarrow> (\<exists>s\<in>set (gb_sites D). Some (st_id s) = i \<and> st_scan s = scan \<and> \<not> st_excluded s)"

definition known_item :: "string \<Rightarrow> graph_db \<Rightarrow> string \<Rightarrow> bool" where
  "known_item scan D i \<longleftrightarrow> (\<exists>c\<in>set (cb_items (gb_cov D)). cv_id c = i \<and> cv_scan c = scan)"

definition known_finding :: "string \<Rightarrow> graph_db \<Rightarrow> string option \<Rightarrow> bool" where
  "known_finding scan D i \<longleftrightarrow> (\<exists>f\<in>set (gb_findings D). Some (fi_id f) = i \<and> fi_scan f = scan)"

definition site_node :: "site_row \<Rightarrow> node_cmd" where
  "site_node s = \<lparr>nc_kind = ''endpoint'', nc_key = st_id s, nc_state = ''active'', nc_priority = 60,
     nc_meta = [(''endpoint_id'', PStr (st_id s)), (''method'', text_or_null (st_method s)), (''normalized_path'', PStr (st_path s)),
     (''auth_required'', PBool (st_auth s)), (''verification_status'', text_or_null (st_verification s))]\<rparr>"

definition site_cmds :: "string \<Rightarrow> graph_db \<Rightarrow> graph_cmd list" where
  "site_cmds scan D = map (\<lambda>s. DrawNode (site_node s))
     (sort_key st_id (filter (\<lambda>s. st_scan s = scan \<and> \<not> st_excluded s) (gb_sites D)))"

definition param_node :: "param_row \<Rightarrow> node_cmd" where
  "param_node p = \<lparr>nc_kind = ''parameter'', nc_key = pm_id p, nc_state = ''active'', nc_priority = 45,
     nc_meta = [(''parameter_id'', PStr (pm_id p)), (''endpoint_id'', PStr (pm_endpoint p)), (''name'', PStr (pm_name p)),
     (''location'', PStr (pm_location p)), (''role'', text_or_null (pm_role p)), (''data_type'', text_or_null (pm_type p)),
     (''is_identifier'', PBool (pm_identifier p))]\<rparr>"

definition param_cmds :: "graph_env \<Rightarrow> string \<Rightarrow> graph_db \<Rightarrow> graph_cmd list" where
  "param_cmds E scan D = concat (map (\<lambda>p.
       [DrawNode (param_node p),
        DrawEdge (node_ident E scan ''endpoint'' (pm_endpoint p)) (node_ident E scan ''parameter'' (pm_id p)) ''accepts_parameter''])
     (sort_key pm_id (filter (\<lambda>p. known_endpoint scan D (Some (pm_endpoint p))) (gb_params D))))"

definition item_state :: "cov_status \<Rightarrow> string" where
  "item_state s =
     (if s \<in> {CTestedNegative, CCandidate, CConfirmed, CPolicyExcluded, CUnsupported, CErrorTerminal} then ''resolved''
      else if s = CBlockedAuth then ''blocked'' else if s = CRunning then ''running'' else ''queued'')"

definition item_node :: "cov_item \<Rightarrow> node_cmd" where
  "item_node c = \<lparr>nc_kind = ''coverage'', nc_key = cv_id c, nc_state = item_state (cv_status c),
     nc_priority = (if cv_status c \<in> {CCandidate, CErrorRetryable} then 85 else 55),
     nc_meta = [(''coverage_id'', PStr (cv_id c)), (''endpoint_id'', PStr (cv_endpoint c)), (''vuln_class'', PStr (cv_vuln c)),
       (''skill_name'', PStr (cv_skill c)), (''status'', PStr (cov_name (cv_status c))),
       (''required_identity_role'', PStr (cv_role c)), (''attempt_count'', PInt (int (cv_attempts c))),
       (''finding_id'', text_or_null (cv_finding c))]\<rparr>"

definition item_cmds :: "graph_env \<Rightarrow> string \<Rightarrow> graph_db \<Rightarrow> graph_cmd list" where
  "item_cmds E scan D = concat (map (\<lambda>c. DrawNode (item_node c) #
       link_if (known_endpoint scan D (Some (cv_endpoint c))) (node_ident E scan ''endpoint'' (cv_endpoint c))
         (node_ident E scan ''coverage'' (cv_id c)) ''has_coverage_hypothesis'')
     (sort_key cv_id (filter (\<lambda>c. cv_scan c = scan) (cb_items (gb_cov D)))))"

fun need_name :: "need_kind \<Rightarrow> string" where
  "need_name UsableSession = ''usable_session''"
| "need_name RequiredRole = ''required_role''"
| "need_name SecondIdentity = ''second_identity''"
| "need_name OwnedObject = ''scanner_owned_object''"
| "need_name FreshToken = ''fresh_token''"
| "need_name PriorState = ''prior_state''"

fun pre_name :: "pre_state \<Rightarrow> string" where
  "pre_name PreRequired = ''required''"
| "pre_name PreSatisfied = ''satisfied''"
| "pre_name PreWaived = ''waived''"
| "pre_name PreRetired = ''retired''"

fun action_name :: "action_kind \<Rightarrow> string" where
  "action_name Login = ''login''"
| "action_name ProvideRole = ''provide_role''"
| "action_name ProvideSecondIdentity = ''provide_second_identity''"
| "action_name CreateOwnedObject = ''create_owned_object''"
| "action_name RefreshToken = ''refresh_token''"
| "action_name EstablishState = ''establish_state''"

fun act_name :: "act_status \<Rightarrow> string" where
  "act_name ActPending = ''pending''"
| "act_name ActAcknowledged = ''acknowledged''"
| "act_name ActCompleted = ''completed''"
| "act_name ActExpired = ''expired''"
| "act_name ActCancelled = ''cancelled''"

text \<open>The table allows one action for a precondition.\<close>

definition need_node :: "graph_db \<Rightarrow> pre_row \<Rightarrow> node_cmd" where
  "need_node D p = (let act = find_row ac_pre (pr_id p) (pd_actions (gb_pre D)) in \<lparr>nc_kind = ''precondition'', nc_key = pr_id p,
     nc_state = (if pr_state p = PreSatisfied then ''satisfied'' else if pr_state p = PreRetired then ''retired'' else ''blocked''),
     nc_priority = (if pr_state p = PreRequired then 90 else 40),
     nc_meta = [(''precondition_id'', PStr (pr_id p)), (''coverage_id'', PStr (pr_item p)), (''kind'', PStr (need_name (pr_kind p))),
     (''state'', PStr (pre_name (pr_state p))), (''resolution_reference_type'', text_or_null (map_option fst (pr_resolution p))),
     (''action_id'', text_or_null (map_option ac_id act)),
     (''action_kind'', text_or_null (map_option (action_name \<circ> ac_kind) act)),
     (''action_status'', text_or_null (map_option (act_name \<circ> ac_status) act))]\<rparr>)"

definition need_cmds :: "graph_env \<Rightarrow> string \<Rightarrow> graph_db \<Rightarrow> graph_cmd list" where
  "need_cmds E scan D = concat (map (\<lambda>p. DrawNode (need_node D p) #
       link_if (known_item scan D (pr_item p)) (node_ident E scan ''coverage'' (pr_item p))
         (node_ident E scan ''precondition'' (pr_id p)) ''requires_precondition'')
     (sort_key pr_id (filter (\<lambda>p. pr_scan p = scan) (pd_rows (gb_pre D)))))"

definition finding_node :: "graph_finding \<Rightarrow> node_cmd" where
  "finding_node f = \<lparr>nc_kind = ''finding'', nc_key = fi_id f,
     nc_state = (if fi_status f \<in> {''rejected'', ''resolved''} then ''resolved'' else ''active''), nc_priority = 100,
     nc_meta = [(''finding_id'', PStr (fi_id f)), (''endpoint_id'', text_or_null (fi_endpoint f)), (''vuln_type'', PStr (fi_vuln f)),
     (''severity'', PStr (fi_severity f)), (''title'', PStr (fi_title f)), (''status'', PStr (fi_status f))]\<rparr>"

definition finding_cmds :: "graph_env \<Rightarrow> string \<Rightarrow> graph_db \<Rightarrow> graph_cmd list" where
  "finding_cmds E scan D = concat (map (\<lambda>f.
       DrawNode (finding_node f) #
       link_if (known_endpoint scan D (fi_endpoint f)) (node_ident E scan ''endpoint'' (the (fi_endpoint f)))
         (node_ident E scan ''finding'' (fi_id f)) ''produced_finding'')
     (sort_key fi_id (filter (\<lambda>f. fi_scan f = scan) (gb_findings D))))"

fun chain_name :: "chain_state \<Rightarrow> string" where
  "chain_name ChQueued = ''queued''"
| "chain_name ChRunning = ''running''"
| "chain_name ChCompleted = ''completed''"
| "chain_name ChRetired = ''retired''"

definition chain_node :: "chain_lead \<Rightarrow> node_cmd" where
  "chain_node l = \<lparr>nc_kind = ''chain'', nc_key = ch_id l,
     nc_state = (if ch_state l = ChCompleted then ''resolved'' else if ch_state l = ChRunning then ''running'' else ''queued''),
     nc_priority = ch_priority l,
     nc_meta = [(''chain_lead_id'', PStr (ch_id l)), (''source_finding_id'', PStr (ch_finding l)),
     (''followup_coverage_id'', PStr (ch_item l)), (''relationship'', PStr (ch_relationship l)),
     (''state'', PStr (chain_name (ch_state l))), (''priority'', PInt (ch_priority l))]\<rparr>"

definition chain_cmds :: "graph_env \<Rightarrow> string \<Rightarrow> graph_db \<Rightarrow> graph_cmd list" where
  "chain_cmds E scan D = concat (map (\<lambda>l.
       DrawNode (chain_node l) #
       link_if (known_finding scan D (Some (ch_finding l))) (node_ident E scan ''finding'' (ch_finding l))
         (node_ident E scan ''chain'' (ch_id l)) ''opens_chain_branch'' @
       link_if (known_item scan D (ch_item l)) (node_ident E scan ''chain'' (ch_id l))
         (node_ident E scan ''coverage'' (ch_item l)) ''schedules_followup'')
     (sort_key ch_id (filter (\<lambda>l. ch_scan l = scan) (gb_chains D))))"

text \<open>The LEFT JOIN gives a tool run one row for each coverage item its task was the last of, and one if there is none.\<close>

definition tool_node :: "tool_run \<Rightarrow> node_cmd" where
  "tool_node r = \<lparr>nc_kind = ''tool_run'', nc_key = tr_id r,
     nc_state = (if tr_status r \<in> {''completed'', ''failed''} then ''resolved'' else if tr_status r = ''running'' then ''running'' else ''blocked''),
     nc_priority = 70,
     nc_meta = [(''tool_run_id'', PStr (tr_id r)), (''task_id'', PStr (tr_task r)), (''adapter_id'', PStr (tr_adapter r)),
       (''status'', PStr (tr_status r)), (''planned_request_count'', PInt (tr_planned r)),
       (''completed_request_count'', PInt (tr_completed r))]\<rparr>"

definition tool_cmds :: "graph_env \<Rightarrow> string \<Rightarrow> graph_db \<Rightarrow> graph_cmd list" where
  "tool_cmds E scan D = concat (map (\<lambda>r.
       let items = filter (\<lambda>c. cv_scan c = tr_scan r \<and> cv_task c = Some (tr_task r)) (cb_items (gb_cov D))
       in if items = [] then [DrawNode (tool_node r)]
          else concat (map (\<lambda>c. [DrawNode (tool_node r),
                 DrawEdge (node_ident E scan ''coverage'' (cv_id c)) (node_ident E scan ''tool_run'' (tr_id r)) ''executed_tool_adapter'']) items))
     (sort_key tr_id (filter (\<lambda>r. tr_scan r = scan) (gb_tools D))))"

definition checkpoint_key :: "checkpoint \<Rightarrow> string" where
  "checkpoint_key k = ''intent-checkpoint:'' @ ck_id k"

definition checkpoint_node :: "checkpoint \<Rightarrow> node_cmd" where
  "checkpoint_node k = \<lparr>nc_kind = ''fact'', nc_key = checkpoint_key k,
     nc_state = (if ck_quality k \<in> {''adequate'', ''strong''} then ''resolved'' else ''active''), nc_priority = 80,
     nc_meta = [(''checkpoint_id'', PStr (ck_id k)), (''coverage_id'', PStr (ck_coverage k)), (''task_id'', PStr (ck_task k)),
     (''sequence'', PInt (int (ck_sequence k))), (''evidence_quality'', PStr (ck_quality k)),
     (''strategy_count'', PInt (int (length (ck_strategies k)))), (''payload_count'', PInt (int (length (ck_payloads k)))),
     (''response_feature_count'', PInt (int (length (ck_features k)))), (''control_count'', PInt (int (length (ck_controls k)))),
     (''remaining_count'', PInt (int (length (ck_todos k))))]\<rparr>"

definition checkpoint_cmds :: "graph_env \<Rightarrow> string \<Rightarrow> graph_db \<Rightarrow> graph_cmd list" where
  "checkpoint_cmds E scan D = concat (map (\<lambda>k.
       DrawNode (checkpoint_node k) #
       link_if (known_item scan D (ck_coverage k)) (node_ident E scan ''coverage'' (ck_coverage k))
         (node_ident E scan ''fact'' (checkpoint_key k)) ''has_intent_checkpoint'')
     (sort_key (\<lambda>k. (ck_coverage k, ck_sequence k)) (filter (\<lambda>k. ck_scan k = scan) (cb_checkpoints (gb_cov D)))))"

definition lead_node :: "attempt_row \<Rightarrow> node_cmd" where
  "lead_node a = \<lparr>nc_kind = ''lead'', nc_key = aa_id a,
     nc_state = (if aa_resolved a \<notin> {None, Some []} \<or> aa_finding a \<notin> {None, Some []} then ''resolved'' else ''active''), nc_priority = 95,
     nc_meta = [(''attempt_id'', PStr (aa_id a)), (''endpoint_id'', PStr (aa_endpoint a)), (''skill_name'', PStr (aa_skill a)),
     (''outcome'', PStr (aa_outcome a)), (''finding_id'', text_or_null (aa_finding a)), (''task_id'', text_or_null (aa_task a))]\<rparr>"

definition lead_cmds :: "graph_env \<Rightarrow> string \<Rightarrow> graph_db \<Rightarrow> graph_cmd list" where
  "lead_cmds E scan D = concat (map (\<lambda>a.
       DrawNode (lead_node a) #
       link_if (known_endpoint scan D (Some (aa_endpoint a))) (node_ident E scan ''endpoint'' (aa_endpoint a))
         (node_ident E scan ''lead'' (aa_id a)) ''produced_lead'' @
       link_if (known_finding scan D (aa_finding a)) (node_ident E scan ''lead'' (aa_id a))
         (node_ident E scan ''finding'' (the (aa_finding a))) ''promoted_to'')
     (sort_key aa_id (filter (\<lambda>a. aa_scan a = scan \<and> aa_outcome a = ''lead'') (cb_attempts (gb_cov D)))))"

definition fact_kind :: "fact_row \<Rightarrow> string" where
  "fact_kind f = (if af_type f = ''owned_test_object'' then ''object''
     else if af_type f \<in> {''session'', ''identity'', ''role''} then ''identity'' else ''fact'')"

definition fact_node :: "fact_row \<Rightarrow> node_cmd" where
  "fact_node f = \<lparr>nc_kind = fact_kind f, nc_key = af_id f, nc_state = ''active'',
     nc_priority = (if fact_kind f \<in> {''object'', ''identity''} then 90 else 70),
     nc_meta = [(''fact_id'', PStr (af_id f)), (''fact_type'', PStr (af_type f)), (''fact_key'', PStr (af_key f)),
     (''confidence'', PFloat (af_confidence f)), (''source_endpoint_id'', text_or_null (af_endpoint f)),
     (''source_finding_id'', text_or_null (af_finding f))]\<rparr>"

definition fact_cmds :: "graph_env \<Rightarrow> string \<Rightarrow> graph_db \<Rightarrow> graph_cmd list" where
  "fact_cmds E scan D = concat (map (\<lambda>f.
       DrawNode (fact_node f) #
       link_if (known_endpoint scan D (af_endpoint f)) (node_ident E scan ''endpoint'' (the (af_endpoint f)))
         (node_ident E scan (fact_kind f) (af_id f)) ''observed_fact'' @
       link_if (known_finding scan D (af_finding f)) (node_ident E scan ''finding'' (the (af_finding f)))
         (node_ident E scan (fact_kind f) (af_id f)) ''established_fact'')
     (sort_key af_id (filter (\<lambda>f. af_scan f = scan) (pd_facts (gb_pre D)))))"

definition credential_node :: "credential_ref \<Rightarrow> node_cmd" where
  "credential_node c = \<lparr>nc_kind = ''credential'', nc_key = cr_id c, nc_state = ''active'', nc_priority = 90,
     nc_meta = [(''credential_reference_id'', PStr (cr_id c)), (''label'', PStr (cr_label c)),
     (''identity_role'', PStr (cr_role c)), (''session_id'', text_or_null (cr_session c))]\<rparr>"

definition role_node :: "string \<Rightarrow> node_cmd" where
  "role_node r = \<lparr>nc_kind = ''role'', nc_key = r, nc_state = ''active'', nc_priority = 75,
     nc_meta = [(''identity_role'', PStr (r))]\<rparr>"

definition credential_cmds :: "graph_env \<Rightarrow> string \<Rightarrow> graph_db \<Rightarrow> graph_cmd list" where
  "credential_cmds E scan D = concat (map (\<lambda>c.
       [DrawNode (credential_node c),
        DrawNode (role_node (cr_role c)),
        DrawEdge (node_ident E scan ''credential'' (cr_id c)) (node_ident E scan ''role'' (cr_role c)) ''grants_role''])
     (sort_key cr_id (filter (\<lambda>c. cr_scan c = scan) (d_credentials (gb_pipe D)))))"

definition project :: "graph_env \<Rightarrow> string \<Rightarrow> graph_db \<Rightarrow> graph_cmd list" where
  "project E scan D = site_cmds scan D @ param_cmds E scan D @ item_cmds E scan D @ need_cmds E scan D
     @ finding_cmds E scan D @ chain_cmds E scan D @ tool_cmds E scan D @ checkpoint_cmds E scan D
     @ lead_cmds E scan D @ fact_cmds E scan D @ credential_cmds E scan D"

section \<open>Synchronizing\<close>

record sync_result =
  sy_revision :: "string option"
  sy_sha :: string

definition graph_sha :: "graph_env \<Rightarrow> string \<Rightarrow> graph_db \<Rightarrow> string" where
  "graph_sha E scan D = gr_digest E (PList
     [PList (map (\<lambda>r. PList [PStr (nd_id r), PStr (nd_content r)]) (sort_key nd_id (filter (\<lambda>r. nd_scan r = scan) (gb_nodes D)))),
      PList (map (\<lambda>r. PList [PStr (ed_id r), PStr (ed_content r)]) (sort_key ed_id (filter (\<lambda>r. ed_scan r = scan) (gb_edges D))))])"

definition record_revision ::
  "graph_env \<Rightarrow> string \<Rightarrow> string option \<Rightarrow> string \<Rightarrow> graph_db \<Rightarrow> (db_error, graph_db \<times> sync_result) result" where
  "record_revision E scan run trigger D =
     (let sha = graph_sha E scan D; rev = gr_id E ''graph_revision'' [scan, sha]
      in if \<exists>r\<in>set (gb_revisions D). rv_scan r = scan \<and> rv_sha r = sha
         then Inr (D, \<lparr>sy_revision = None, sy_sha = sha\<rparr>)
         else if sql_blank trigger \<or> rev \<in> rv_ident ` set (gb_revisions D) then Inl (IntegrityErr ''constraint failed'')
         else bindR (add_graph_event scan run (PlannerRevision rev) (D\<lparr>gb_revisions := gb_revisions D @
                [\<lparr>rv_ident = rev, rv_scan = scan, rv_sha = sha,
                  rv_nodes = length (filter (\<lambda>r. nd_scan r = scan) (gb_nodes D)),
                  rv_edges = length (filter (\<lambda>r. ed_scan r = scan) (gb_edges D)), rv_run = run, rv_trigger = trigger\<rparr>]\<rparr>))
           (\<lambda>D. Inr (D, \<lparr>sy_revision = Some rev, sy_sha = sha\<rparr>)))"

definition synchronize_attack_graph ::
  "graph_env \<Rightarrow> string \<Rightarrow> string option \<Rightarrow> string \<Rightarrow> string \<Rightarrow> graph_db \<Rightarrow> (db_error, graph_db \<times> sync_result) result" where
  "synchronize_attack_graph E ts run trigger scan D =
     bindR (foldR (draw E scan run ts) (project E scan D) D) (record_revision E scan run trigger)"

section \<open>The context of a task\<close>

record graph_context =
  gc_revision :: "string option"
  gc_nodes :: "node_row list"
  gc_edges :: "edge_row list"

definition graph_context_for_endpoint :: "string \<Rightarrow> string \<Rightarrow> nat \<Rightarrow> graph_db \<Rightarrow> (db_error, graph_context) result" where
  "graph_context_for_endpoint scan endpoint limit D =
     (if \<not> (1 \<le> limit \<and> limit \<le> 128) then Inl (ValueErr ''graph context limit must be between 1 and 128'')
      else case find (\<lambda>r. nd_scan r = scan \<and> nd_kind r = ''endpoint'' \<and> nd_key r = endpoint) (gb_nodes D) of
        None \<Rightarrow> Inr \<lparr>gc_revision = None, gc_nodes = [], gc_edges = []\<rparr>
      | Some r \<Rightarrow>
          let here = nd_id r;
              near = (\<lambda>n. n = here \<or> (\<exists>e\<in>set (gb_edges D). ed_scan e = scan \<and> (ed_from e = n \<or> ed_to e = n)
                                       \<and> (ed_from e = here \<or> ed_to e = here)));
              nodes = take limit (sort_key (\<lambda>n. (- nd_priority n, nd_kind n, nd_id n))
                        (filter (\<lambda>n. nd_scan n = scan \<and> near (nd_id n)) (gb_nodes D)));
              ids = set (map nd_id nodes)
          in Inr \<lparr>gc_revision = map_option rv_ident (find (\<lambda>v. rv_scan v = scan) (rev (gb_revisions D))),
                  gc_nodes = nodes,
                  gc_edges = take (2 * limit) (sort_key (\<lambda>e. (ed_relationship e, ed_id e))
                     (filter (\<lambda>e. ed_scan e = scan \<and> (ed_from e \<in> ids \<or> ed_to e \<in> ids)) (gb_edges D)))\<rparr>)"

section \<open>Synchronizing again\<close>

text \<open>A command is drawn when the graph already shows what it would write.\<close>

fun drawn :: "graph_env \<Rightarrow> string \<Rightarrow> graph_cmd \<Rightarrow> graph_db \<Rightarrow> bool" where
  "drawn E scan (DrawNode c) D = (\<exists>r. find_row nd_id (node_ident E scan (nc_kind c) (nc_key c)) (gb_nodes D) = Some r
     \<and> nd_content r = node_content E c)"
| "drawn E scan (DrawEdge source target rel) D =
     (\<exists>r. find_row ed_id (edge_ident E scan source target rel) (gb_edges D) = Some r \<and> ed_content r = edge_content E)"

fun agree :: "graph_env \<Rightarrow> string \<Rightarrow> graph_cmd \<Rightarrow> graph_cmd \<Rightarrow> bool" where
  "agree E scan (DrawNode c) (DrawNode c') = (node_ident E scan (nc_kind c) (nc_key c) = node_ident E scan (nc_kind c') (nc_key c')
     \<longrightarrow> node_content E c = node_content E c')"
| "agree E scan _ _ = True"

lemma graph_event_Inr:
  "add_graph_event scan run ch D = Inr D' \<longleftrightarrow> graph_keys_ok D scan run
     \<and> D' = D\<lparr>gb_events := gb_events D @ [\<lparr>ge_scan = scan, ge_run = run, ge_change = ch\<rparr>]\<rparr>"
  by (auto simp: add_graph_event_def)

lemma drawn_skips: "drawn E scan c D \<Longrightarrow> draw E scan run ts c D = Inr D"
  by (cases c) (auto simp: put_node_def put_edge_def Let_def)

lemma put_node_Inr:
  assumes "put_node E scan run ts c D = Inr D'"
  shows "D' = D \<and> drawn E scan (DrawNode c) D \<or>
    (D' = D\<lparr>gb_nodes := gb_nodes D', gb_events := gb_events D'\<rparr>
       \<and> (gb_events D' = gb_events D @ [\<lparr>ge_scan = scan, ge_run = run, ge_change = NodeAdded (node_ident E scan (nc_kind c) (nc_key c))\<rparr>]
          \<or> gb_events D' = gb_events D @ [\<lparr>ge_scan = scan, ge_run = run, ge_change = NodeChanged (node_ident E scan (nc_kind c) (nc_key c))\<rparr>])
       \<and> (\<exists>r. find_row nd_id (node_ident E scan (nc_kind c) (nc_key c)) (gb_nodes D') = Some r \<and> nd_content r = node_content E c
            \<and> nd_state r = nc_state c \<and> nd_priority r = nc_priority c \<and> nd_meta r = nc_meta c)
       \<and> (\<forall>i. i \<noteq> node_ident E scan (nc_kind c) (nc_key c) \<longrightarrow> find_row nd_id i (gb_nodes D') = find_row nd_id i (gb_nodes D)))"
proof -
  let ?i = "node_ident E scan (nc_kind c) (nc_key c)"
  show ?thesis
  proof (cases "find_row nd_id ?i (gb_nodes D)")
    case None
    with assms show ?thesis
      by (auto simp: put_node_def Let_def graph_event_Inr find_row_append split: if_splits option.splits) (auto simp: find_row_def)
  next
    case (Some r)
    show ?thesis
    proof (cases "nd_content r = node_content E c")
      case True
      with Some assms show ?thesis by (auto simp: put_node_def Let_def)
    next
      case False
      with Some assms show ?thesis
        by (auto simp: put_node_def Let_def graph_event_Inr find_row_update_key split: if_splits)
    qed
  qed
qed

lemma put_edge_Inr:
  assumes "put_edge E scan run s t rel D = Inr D'"
  shows "D' = D \<and> drawn E scan (DrawEdge s t rel) D \<or>
    (D' = D\<lparr>gb_edges := gb_edges D', gb_events := gb_events D'\<rparr>
       \<and> (gb_events D' = gb_events D @ [\<lparr>ge_scan = scan, ge_run = run, ge_change = EdgeAdded (edge_ident E scan s t rel)\<rparr>]
          \<or> gb_events D' = gb_events D @ [\<lparr>ge_scan = scan, ge_run = run, ge_change = EdgeChanged (edge_ident E scan s t rel)\<rparr>])
       \<and> (\<exists>r. find_row ed_id (edge_ident E scan s t rel) (gb_edges D') = Some r \<and> ed_content r = edge_content E)
       \<and> (\<forall>i. i \<noteq> edge_ident E scan s t rel \<longrightarrow> find_row ed_id i (gb_edges D') = find_row ed_id i (gb_edges D)))"
proof -
  let ?i = "edge_ident E scan s t rel"
  show ?thesis
  proof (cases "find_row ed_id ?i (gb_edges D)")
    case None
    with assms show ?thesis
      by (auto simp: put_edge_def Let_def graph_event_Inr find_row_append split: if_splits option.splits) (auto simp: find_row_def)
  next
    case (Some r)
    show ?thesis
    proof (cases "ed_content r = edge_content E")
      case True
      with Some assms show ?thesis by (auto simp: put_edge_def Let_def)
    next
      case False
      with Some assms show ?thesis
        by (auto simp: put_edge_def Let_def graph_event_Inr find_row_update_key split: if_splits)
    qed
  qed
qed

text \<open>What drawing leaves alone, and what it records.\<close>

definition same_evidence :: "graph_db \<Rightarrow> graph_db \<Rightarrow> bool" where
  "same_evidence D D' \<longleftrightarrow> D' = D\<lparr>gb_nodes := gb_nodes D', gb_edges := gb_edges D', gb_events := gb_events D', gb_revisions := gb_revisions D'\<rparr>"

lemma same_evidence_refl: "same_evidence D D"
  by (simp add: same_evidence_def)

lemma same_evidence_trans: "same_evidence A B \<Longrightarrow> same_evidence B C \<Longrightarrow> same_evidence A C"
  unfolding same_evidence_def by (cases A; cases B; cases C) simp

lemma draw_keeps_evidence:
  assumes "draw E scan run ts c D = Inr D'"
  shows "same_evidence D D' \<and> gb_revisions D' = gb_revisions D"
proof (cases c)
  case (DrawNode n)
  with put_node_Inr [of E scan run ts n D D'] assms
  have "D' = D \<or> D' = D\<lparr>gb_nodes := gb_nodes D', gb_events := gb_events D'\<rparr>" by auto
  then show ?thesis unfolding same_evidence_def by (cases D; cases D') auto
next
  case (DrawEdge s t rel)
  with put_edge_Inr [of E scan run s t rel D D'] assms
  have "D' = D \<or> D' = D\<lparr>gb_edges := gb_edges D', gb_events := gb_events D'\<rparr>" by auto
  then show ?thesis unfolding same_evidence_def by (cases D; cases D') auto
qed

lemma draw_draws: assumes "draw E scan run ts c D = Inr D'" shows "drawn E scan c D'"
proof (cases c)
  case (DrawNode n)
  with put_node_Inr [of E scan run ts n D D'] assms show ?thesis by auto
next
  case (DrawEdge s t rel)
  with put_edge_Inr [of E scan run s t rel D D'] assms show ?thesis by auto
qed

lemma draw_keeps_drawn:
  assumes "draw E scan run ts c D = Inr D'" "drawn E scan c' D" "agree E scan c c'"
  shows "drawn E scan c' D'"
proof (cases c)
  case (DrawNode n)
  then have put: "put_node E scan run ts n D = Inr D'" using assms(1) by simp
  show ?thesis
  proof (cases c')
    case node: (DrawNode n')
    show ?thesis
    proof (cases "node_ident E scan (nc_kind n') (nc_key n') = node_ident E scan (nc_kind n) (nc_key n)")
      case True
      with assms(3) DrawNode node have "node_content E n = node_content E n'" by simp
      with True draw_draws [OF assms(1)] DrawNode node show ?thesis by simp
    next
      case False
      with put_node_Inr [OF put] assms(2) node show ?thesis by auto
    qed
  next
    case (DrawEdge s t rel)
    from put_node_Inr [OF put] have "gb_edges D' = gb_edges D" by (cases D; cases D') auto
    with assms(2) DrawEdge show ?thesis by simp
  qed
next
  case (DrawEdge s t rel)
  then have put: "put_edge E scan run s t rel D = Inr D'" using assms(1) by simp
  show ?thesis
  proof (cases c')
    case (DrawNode n')
    from put_edge_Inr [OF put] have "gb_nodes D' = gb_nodes D" by (cases D; cases D') auto
    with assms(2) DrawNode show ?thesis by simp
  next
    case edge: (DrawEdge s' t' rel')
    show ?thesis
    proof (cases "edge_ident E scan s' t' rel' = edge_ident E scan s t rel")
      case True
      with draw_draws [OF assms(1)] DrawEdge edge show ?thesis by simp
    next
      case False
      with put_edge_Inr [OF put] assms(2) edge show ?thesis by auto
    qed
  qed
qed

lemma draw_all_draws:
  assumes "foldR (draw E scan run ts) cs D = Inr D'" "\<forall>c\<in>set cs. \<forall>c'\<in>set cs. agree E scan c c'"
  shows "\<forall>c\<in>set cs. drawn E scan c D'"
proof -
  have "\<forall>c'\<in>set cs \<union> K. drawn E scan c' D'"
    if "foldR (draw E scan run ts) cs D = Inr D'" "\<forall>c\<in>set cs. \<forall>c'\<in>set cs \<union> K. agree E scan c c'" "\<forall>c\<in>K. drawn E scan c D" for K
    using that
  proof (induction cs arbitrary: D K)
    case (Cons c cs)
    then obtain D1 where d1: "draw E scan run ts c D = Inr D1" and rest: "foldR (draw E scan run ts) cs D1 = Inr D'"
      by (auto elim: bindR_InrE)
    have "\<forall>c'\<in>insert c K. drawn E scan c' D1"
      using draw_keeps_drawn [OF d1] draw_draws [OF d1] Cons.prems by auto
    with Cons.IH [OF rest, of "insert c K"] Cons.prems(2) show ?case by auto
  qed simp
  from this [of "{}"] assms show ?thesis by simp
qed

lemma drawn_all_skip:
  "\<forall>c\<in>set cs. drawn E scan c D \<Longrightarrow> foldR (draw E scan run ts) cs D = Inr D"
  by (induction cs) (auto simp: drawn_skips)

lemma draw_all_evidence:
  assumes "foldR (draw E scan run ts) cs D = Inr D'"
  shows "same_evidence D D' \<and> gb_revisions D' = gb_revisions D"
  using assms by (rule foldR_invariant [where P = "\<lambda>X. same_evidence D X \<and> gb_revisions X = gb_revisions D"])
    (auto simp: same_evidence_refl dest: draw_keeps_evidence same_evidence_trans)

lemma project_evidence: assumes "same_evidence D D'" shows "project E scan D' = project E scan D"
proof -
  obtain n e v r where D': "D' = D\<lparr>gb_nodes := n, gb_edges := e, gb_events := v, gb_revisions := r\<rparr>"
    using assms unfolding same_evidence_def by blast
  show ?thesis
    by (simp add: D' project_def site_cmds_def param_cmds_def item_cmds_def need_cmds_def need_node_def [abs_def] finding_cmds_def
        chain_cmds_def tool_cmds_def checkpoint_cmds_def lead_cmds_def fact_cmds_def credential_cmds_def
        known_endpoint_def [abs_def] known_item_def known_finding_def)
qed

text \<open>No two commands of a projection give one node two contents.\<close>

definition evidence_keys :: "graph_db \<Rightarrow> bool" where
  "evidence_keys D \<longleftrightarrow> distinct (map st_id (gb_sites D)) \<and> distinct (map pm_id (gb_params D))
     \<and> distinct (map cv_id (cb_items (gb_cov D))) \<and> distinct (map pr_id (pd_rows (gb_pre D)))
     \<and> distinct (map fi_id (gb_findings D)) \<and> distinct (map ch_id (gb_chains D)) \<and> distinct (map tr_id (gb_tools D))
     \<and> distinct (map checkpoint_key (cb_checkpoints (gb_cov D))) \<and> distinct (map aa_id (cb_attempts (gb_cov D)))
     \<and> distinct (map af_id (pd_facts (gb_pre D))) \<and> distinct (map cr_id (d_credentials (gb_pipe D)))
     \<and> checkpoint_key ` set (cb_checkpoints (gb_cov D)) \<inter> af_id ` set (pd_facts (gb_pre D)) = {}"

definition node_names_apart :: "graph_env \<Rightarrow> bool" where
  "node_names_apart E \<longleftrightarrow> (\<forall>s k x k' x'. node_ident E s k x = node_ident E s k' x' \<longrightarrow> k = k' \<and> x = x')"

definition node_of :: "graph_db \<Rightarrow> string \<Rightarrow> string \<Rightarrow> node_cmd option" where
  "node_of D kind key =
     (if kind = ''endpoint'' then map_option site_node (find_row st_id key (gb_sites D))
      else if kind = ''parameter'' then map_option param_node (find_row pm_id key (gb_params D))
      else if kind = ''coverage'' then map_option item_node (find_row cv_id key (cb_items (gb_cov D)))
      else if kind = ''precondition'' then map_option (need_node D) (find_row pr_id key (pd_rows (gb_pre D)))
      else if kind = ''finding'' then map_option finding_node (find_row fi_id key (gb_findings D))
      else if kind = ''chain'' then map_option chain_node (find_row ch_id key (gb_chains D))
      else if kind = ''tool_run'' then map_option tool_node (find_row tr_id key (gb_tools D))
      else if kind = ''lead'' then map_option lead_node (find_row aa_id key (cb_attempts (gb_cov D)))
      else if kind = ''credential'' then map_option credential_node (find_row cr_id key (d_credentials (gb_pipe D)))
      else if kind = ''role'' then Some (role_node key)
      else if key \<in> checkpoint_key ` set (cb_checkpoints (gb_cov D))
      then map_option checkpoint_node (find_row checkpoint_key key (cb_checkpoints (gb_cov D)))
      else map_option fact_node (find_row af_id key (pd_facts (gb_pre D))))"

lemma in_link_if: "DrawNode c \<notin> set (link_if b s t rel)"
  by (simp add: link_if_def)

lemma project_nodes:
  assumes "DrawNode c \<in> set (project E scan D)"
  shows "c \<in> site_node ` set (gb_sites D) \<union> param_node ` set (gb_params D) \<union> item_node ` set (cb_items (gb_cov D))
    \<union> need_node D ` set (pd_rows (gb_pre D)) \<union> finding_node ` set (gb_findings D) \<union> chain_node ` set (gb_chains D)
    \<union> tool_node ` set (gb_tools D) \<union> checkpoint_node ` set (cb_checkpoints (gb_cov D)) \<union> lead_node ` set (cb_attempts (gb_cov D))
    \<union> fact_node ` set (pd_facts (gb_pre D)) \<union> credential_node ` set (d_credentials (gb_pipe D)) \<union> range role_node"
proof -
  have "c \<in> tool_node ` set (gb_tools D)" if "DrawNode c \<in> set (tool_cmds E scan D)"
    using that by (auto simp: tool_cmds_def Let_def split: if_splits)
  moreover have "c \<in> credential_node ` set (d_credentials (gb_pipe D)) \<union> range role_node"
    if "DrawNode c \<in> set (credential_cmds E scan D)"
    using that by (auto simp: credential_cmds_def)
  moreover have "c \<in> site_node ` set (gb_sites D)" if "DrawNode c \<in> set (site_cmds scan D)"
    using that by (auto simp: site_cmds_def)
  moreover have "c \<in> param_node ` set (gb_params D)" if "DrawNode c \<in> set (param_cmds E scan D)"
    using that by (auto simp: param_cmds_def)
  moreover have "c \<in> item_node ` set (cb_items (gb_cov D))" if "DrawNode c \<in> set (item_cmds E scan D)"
    using that by (auto simp: item_cmds_def in_link_if)
  moreover have "c \<in> need_node D ` set (pd_rows (gb_pre D))" if "DrawNode c \<in> set (need_cmds E scan D)"
    using that by (auto simp: need_cmds_def in_link_if)
  moreover have "c \<in> finding_node ` set (gb_findings D)" if "DrawNode c \<in> set (finding_cmds E scan D)"
    using that by (auto simp: finding_cmds_def in_link_if)
  moreover have "c \<in> chain_node ` set (gb_chains D)" if "DrawNode c \<in> set (chain_cmds E scan D)"
    using that by (auto simp: chain_cmds_def in_link_if)
  moreover have "c \<in> checkpoint_node ` set (cb_checkpoints (gb_cov D))" if "DrawNode c \<in> set (checkpoint_cmds E scan D)"
    using that by (auto simp: checkpoint_cmds_def in_link_if)
  moreover have "c \<in> lead_node ` set (cb_attempts (gb_cov D))" if "DrawNode c \<in> set (lead_cmds E scan D)"
    using that by (auto simp: lead_cmds_def in_link_if)
  moreover have "c \<in> fact_node ` set (pd_facts (gb_pre D))" if "DrawNode c \<in> set (fact_cmds E scan D)"
    using that by (auto simp: fact_cmds_def in_link_if)
  ultimately show ?thesis using assms unfolding project_def set_append by blast
qed

lemma node_kinds:
  "nc_kind (site_node s) = ''endpoint''" "nc_key (site_node s) = st_id s"
  "nc_kind (param_node p) = ''parameter''" "nc_key (param_node p) = pm_id p"
  "nc_kind (item_node c) = ''coverage''" "nc_key (item_node c) = cv_id c"
  "nc_kind (need_node D w) = ''precondition''" "nc_key (need_node D w) = pr_id w"
  "nc_kind (finding_node f) = ''finding''" "nc_key (finding_node f) = fi_id f"
  "nc_kind (chain_node l) = ''chain''" "nc_key (chain_node l) = ch_id l"
  "nc_kind (tool_node r) = ''tool_run''" "nc_key (tool_node r) = tr_id r"
  "nc_kind (checkpoint_node k) = ''fact''" "nc_key (checkpoint_node k) = checkpoint_key k"
  "nc_kind (lead_node a) = ''lead''" "nc_key (lead_node a) = aa_id a"
  "nc_kind (fact_node g) = fact_kind g" "nc_key (fact_node g) = af_id g"
  "nc_kind (credential_node x) = ''credential''" "nc_key (credential_node x) = cr_id x"
  "nc_kind (role_node y) = ''role''" "nc_key (role_node y) = y"
  by (simp_all add: site_node_def param_node_def item_node_def need_node_def finding_node_def chain_node_def tool_node_def
      checkpoint_node_def lead_node_def fact_node_def credential_node_def role_node_def Let_def)

lemma fact_kinds: "fact_kind g = ''object'' \<or> fact_kind g = ''identity'' \<or> fact_kind g = ''fact''"
  by (simp add: fact_kind_def)

lemma node_of_fact:
  assumes "key \<notin> checkpoint_key ` set (cb_checkpoints (gb_cov D))"
  shows "node_of D (fact_kind g) key = map_option fact_node (find_row af_id key (pd_facts (gb_pre D)))"
  using fact_kinds [of g] assms by (elim disjE) (simp_all add: node_of_def)

lemma node_of_kinds:
  "node_of D ''endpoint'' key = map_option site_node (find_row st_id key (gb_sites D))"
  "node_of D ''parameter'' key = map_option param_node (find_row pm_id key (gb_params D))"
  "node_of D ''coverage'' key = map_option item_node (find_row cv_id key (cb_items (gb_cov D)))"
  "node_of D ''precondition'' key = map_option (need_node D) (find_row pr_id key (pd_rows (gb_pre D)))"
  "node_of D ''finding'' key = map_option finding_node (find_row fi_id key (gb_findings D))"
  "node_of D ''chain'' key = map_option chain_node (find_row ch_id key (gb_chains D))"
  "node_of D ''tool_run'' key = map_option tool_node (find_row tr_id key (gb_tools D))"
  "node_of D ''lead'' key = map_option lead_node (find_row aa_id key (cb_attempts (gb_cov D)))"
  "node_of D ''credential'' key = map_option credential_node (find_row cr_id key (d_credentials (gb_pipe D)))"
  "node_of D ''role'' key = Some (role_node key)"
  by (simp_all add: node_of_def)

lemma node_of_checkpoint:
  "key \<in> checkpoint_key ` set (cb_checkpoints (gb_cov D)) \<Longrightarrow> node_of D ''fact'' key
     = map_option checkpoint_node (find_row checkpoint_key key (cb_checkpoints (gb_cov D)))"
  by (simp add: node_of_def)

lemma project_node_of:
  assumes "evidence_keys D" "DrawNode c \<in> set (project E scan D)"
  shows "node_of D (nc_kind c) (nc_key c) = Some c"
proof -
  note keys = assms(1) [unfolded evidence_keys_def]
  show ?thesis using project_nodes [OF assms(2)] unfolding Un_iff
  proof (elim disjE imageE, goal_cases)
    case (1 x) with keys show ?case by (simp add: node_kinds node_of_kinds find_row_unique)
  next
    case (2 x) with keys show ?case by (simp add: node_kinds node_of_kinds find_row_unique)
  next
    case (3 x) with keys show ?case by (simp add: node_kinds node_of_kinds find_row_unique)
  next
    case (4 x) with keys show ?case by (simp add: node_kinds node_of_kinds find_row_unique)
  next
    case (5 x) with keys show ?case by (simp add: node_kinds node_of_kinds find_row_unique)
  next
    case (6 x) with keys show ?case by (simp add: node_kinds node_of_kinds find_row_unique)
  next
    case (7 x) with keys show ?case by (simp add: node_kinds node_of_kinds find_row_unique)
  next
    case (8 x) with keys show ?case by (simp add: node_kinds node_of_checkpoint find_row_unique)
  next
    case (9 x) with keys show ?case by (simp add: node_kinds node_of_kinds find_row_unique)
  next
    case (10 x)
    with keys have "af_id x \<notin> checkpoint_key ` set (cb_checkpoints (gb_cov D))" by blast
    with 10 keys show ?case by (simp add: node_kinds node_of_fact find_row_unique)
  next
    case (11 x) with keys show ?case by (simp add: node_kinds node_of_kinds find_row_unique)
  next
    case (12 x) then show ?case by (simp add: node_kinds node_of_kinds)
  qed
qed

lemma project_agrees:
  assumes "evidence_keys D" "node_names_apart E" "x \<in> set (project E scan D)" "y \<in> set (project E scan D)"
  shows "agree E scan x y"
proof (cases x; cases y)
  fix c c' assume x: "x = DrawNode c" and y: "y = DrawNode c'"
  show ?thesis
  proof (cases "node_ident E scan (nc_kind c) (nc_key c) = node_ident E scan (nc_kind c') (nc_key c')")
    case True
    then have "nc_kind c = nc_kind c'" "nc_key c = nc_key c'" using assms(2) unfolding node_names_apart_def by blast+
    with project_node_of [OF assms(1)] assms(3,4) x y have "c = c'" by (metis option.inject)
    with x y show ?thesis by simp
  qed (simp add: x y)
qed simp_all

lemma record_revision_Inr:
  assumes "record_revision E scan run tr D = Inr (D', s)"
  shows "same_evidence D D' \<and> gb_nodes D' = gb_nodes D \<and> gb_edges D' = gb_edges D \<and> sy_sha s = graph_sha E scan D
    \<and> (\<exists>r\<in>set (gb_revisions D'). rv_scan r = scan \<and> rv_sha r = sy_sha s)"
  using assms unfolding record_revision_def Let_def
  by (auto simp: graph_event_Inr bindR_eq_Inr same_evidence_def split: if_splits)

lemma record_revision_again:
  assumes "\<exists>r\<in>set (gb_revisions D). rv_scan r = scan \<and> rv_sha r = graph_sha E scan D"
  shows "record_revision E scan run tr D = Inr (D, \<lparr>sy_revision = None, sy_sha = graph_sha E scan D\<rparr>)"
  using assms by (simp add: record_revision_def Let_def)

text \<open>
  C37: synchronizing the graph is idempotent.  When a synchronization has succeeded, a second one over
  the same evidence, whatever its run, its trigger and its time, changes nothing: no node, no edge,
  no event and no planner revision, and it reports the same digest.  (The identifiers of nodes are
  collision free, and the evidence tables have their keys.)
\<close>

theorem graph_sync_idempotent:
  assumes "node_names_apart E" and "evidence_keys D"
    and "synchronize_attack_graph E ts run trigger scan D = Inr (D', s)"
  shows "synchronize_attack_graph E ts' run' trigger' scan D' = Inr (D', \<lparr>sy_revision = None, sy_sha = sy_sha s\<rparr>)"
proof -
  obtain D1 where draw: "foldR (draw E scan run ts) (project E scan D) D = Inr D1"
    and rev: "record_revision E scan run trigger D1 = Inr (D', s)"
    using assms(3) unfolding synchronize_attack_graph_def by (auto elim: bindR_InrE)
  note r = record_revision_Inr [OF rev]
  have same: "project E scan D' = project E scan D"
    using draw_all_evidence [OF draw] r by (blast intro: project_evidence same_evidence_trans)
  have "\<forall>c\<in>set (project E scan D). drawn E scan c D1"
    using draw_all_draws [OF draw] project_agrees [OF assms(2,1)] by blast
  moreover have "drawn E scan c D' = drawn E scan c D1" for c using r by (cases c) simp_all
  ultimately have skip: "foldR (draw E scan run' ts') (project E scan D') D' = Inr D'"
    unfolding same by (blast intro: drawn_all_skip)
  have sha: "graph_sha E scan D' = sy_sha s" using r by (simp add: graph_sha_def)
  have "record_revision E scan run' trigger' D' = Inr (D', \<lparr>sy_revision = None, sy_sha = graph_sha E scan D'\<rparr>)"
    by (rule record_revision_again) (use r in \<open>unfold sha, blast\<close>)
  then show ?thesis by (simp add: synchronize_attack_graph_def skip sha)
qed

section \<open>What the graph may reveal\<close>

text \<open>The columns the graph must not show: credential locations, values of facts and parameters, free text.\<close>

definition redact ::
  "(string \<Rightarrow> string) \<Rightarrow> (string option \<Rightarrow> string option) \<Rightarrow> graph_db \<Rightarrow> graph_db" where
  "redact f g D = D\<lparr>
     gb_pre := (gb_pre D)\<lparr>
       pd_cov := (gb_cov D)\<lparr>cb_pipe := (gb_pipe D)\<lparr>d_credentials := map (\<lambda>c. c\<lparr>cr_uri := f (cr_uri c)\<rparr>) (d_credentials (gb_pipe D))\<rparr>\<rparr>,
       pd_facts := map (\<lambda>x. x\<lparr>af_value := g (af_value x)\<rparr>) (pd_facts (gb_pre D))\<rparr>,
     gb_params := map (\<lambda>p. p\<lparr>pm_example := g (pm_example p)\<rparr>) (gb_params D),
     gb_findings := map (\<lambda>x. x\<lparr>fi_description := g (fi_description x)\<rparr>) (gb_findings D)\<rparr>"

lemma insort_key_map: "(\<And>x. k (h x) = k x) \<Longrightarrow> insort_key k (h x) (map h xs) = map h (insort_key k x xs)"
  by (induction xs) simp_all

lemma sort_key_map: "(\<And>x. k (h x) = k x) \<Longrightarrow> sort_key k (map h xs) = map h (sort_key k xs)"
  by (induction xs) (simp_all add: insort_key_map)

lemma filter_map_same: "(\<And>x. P (h x) = P x) \<Longrightarrow> filter P (map h xs) = map h (filter P xs)"
  by (induction xs) simp_all

lemma project_redact: "project E scan (redact f g D) = project E scan D"
proof -
  have known: "known_endpoint scan (redact f g D) = known_endpoint scan D" "known_item scan (redact f g D) = known_item scan D"
    "known_finding scan (redact f g D) = known_finding scan D"
    by (auto simp: known_endpoint_def [abs_def] known_item_def [abs_def] known_finding_def [abs_def] redact_def)
  have nodes: "need_node (redact f g D) = need_node D" by (simp add: need_node_def [abs_def] redact_def)
  have "site_cmds scan (redact f g D) = site_cmds scan D" by (simp add: site_cmds_def redact_def)
  moreover have "param_cmds E scan (redact f g D) = param_cmds E scan D"
    unfolding param_cmds_def known
    by (simp add: redact_def filter_map_same sort_key_map comp_def param_node_def)
  moreover have "item_cmds E scan (redact f g D) = item_cmds E scan D"
    unfolding item_cmds_def known by (simp add: redact_def)
  moreover have "need_cmds E scan (redact f g D) = need_cmds E scan D"
    unfolding need_cmds_def known nodes by (simp add: redact_def)
  moreover have "finding_cmds E scan (redact f g D) = finding_cmds E scan D"
    unfolding finding_cmds_def known
    by (simp add: redact_def filter_map_same sort_key_map comp_def finding_node_def)
  moreover have "chain_cmds E scan (redact f g D) = chain_cmds E scan D"
    unfolding chain_cmds_def known by (simp add: redact_def)
  moreover have "tool_cmds E scan (redact f g D) = tool_cmds E scan D"
    unfolding tool_cmds_def by (simp add: redact_def)
  moreover have "checkpoint_cmds E scan (redact f g D) = checkpoint_cmds E scan D"
    unfolding checkpoint_cmds_def known by (simp add: redact_def)
  moreover have "lead_cmds E scan (redact f g D) = lead_cmds E scan D"
    unfolding lead_cmds_def known by (simp add: redact_def)
  moreover have "fact_cmds E scan (redact f g D) = fact_cmds E scan D"
    unfolding fact_cmds_def known
    by (simp add: redact_def filter_map_same sort_key_map comp_def fact_node_def fact_kind_def cong: if_cong)
  moreover have "credential_cmds E scan (redact f g D) = credential_cmds E scan D"
    unfolding credential_cmds_def
    by (simp add: redact_def filter_map_same sort_key_map comp_def credential_node_def)
  ultimately show ?thesis unfolding project_def by simp
qed

lemma redact_graph_event:
  "add_graph_event scan run ch (redact f g D) = map_sum id (redact f g) (add_graph_event scan run ch D)"
proof -
  have "graph_keys_ok (redact f g D) scan run = graph_keys_ok D scan run"
    by (cases run) (simp_all add: graph_keys_ok_def redact_def)
  then show ?thesis by (simp add: add_graph_event_def) (simp add: redact_def)
qed

lemma redact_update:
  "redact f g (D\<lparr>gb_nodes := n\<rparr>) = redact f g D\<lparr>gb_nodes := n\<rparr>"
  "redact f g (D\<lparr>gb_edges := e\<rparr>) = redact f g D\<lparr>gb_edges := e\<rparr>"
  "redact f g (D\<lparr>gb_revisions := v\<rparr>) = redact f g D\<lparr>gb_revisions := v\<rparr>"
  by (simp_all add: redact_def)

lemma redact_put:
  "gb_nodes (redact f g D) = gb_nodes D" "gb_edges (redact f g D) = gb_edges D" "gb_revisions (redact f g D) = gb_revisions D"
  "d_scans (gb_pipe (redact f g D)) = d_scans (gb_pipe D)"
  by (simp_all add: redact_def)

lemma redact_draw: "draw E scan run ts c (redact f g D) = map_sum id (redact f g) (draw E scan run ts c D)"
proof (cases c)
  case (DrawNode n)
  then show ?thesis
    by (auto simp: put_node_def Let_def redact_put redact_update [symmetric] redact_graph_event split: option.split)
next
  case (DrawEdge s t rel)
  then show ?thesis
    by (auto simp: put_edge_def Let_def redact_put redact_update [symmetric] redact_graph_event split: option.split)
qed

lemma redact_draws: "foldR (draw E scan run ts) cs (redact f g D) = map_sum id (redact f g) (foldR (draw E scan run ts) cs D)"
proof (induction cs arbitrary: D)
  case (Cons c cs)
  then show ?case by (cases "draw E scan run ts c D") (simp_all add: redact_draw)
qed simp

lemma redact_revision:
  "record_revision E scan run tr (redact f g D) = map_sum id (map_prod (redact f g) id) (record_revision E scan run tr D)"
proof -
  have "graph_sha E scan (redact f g D) = graph_sha E scan D" by (simp add: graph_sha_def redact_put)
  then show ?thesis
    by (simp add: record_revision_def Let_def redact_put redact_update [symmetric] redact_graph_event bindR_def split: sum.split)
qed

text \<open>
  C38: the graph shows no secret.  Whatever the locations of the credentials, the values of facts and
  parameters and the descriptions of findings are replaced with, synchronizing writes the same
  nodes, edges, events and revisions: the graph, which the attack agents read, does not depend on
  these columns.
\<close>

theorem graph_hides_secrets:
  "synchronize_attack_graph E ts run trigger scan (redact f g D)
     = map_sum id (map_prod (redact f g) id) (synchronize_attack_graph E ts run trigger scan D)"
proof (cases "foldR (draw E scan run ts) (project E scan D) D")
  case (Inl e)
  then show ?thesis by (simp add: synchronize_attack_graph_def project_redact redact_draws)
next
  case (Inr D1)
  then show ?thesis by (simp add: synchronize_attack_graph_def project_redact redact_draws redact_revision)
qed

section \<open>The log of the graph\<close>

definition told_of :: "string \<Rightarrow> string option \<Rightarrow> graph_change set \<Rightarrow> graph_event list \<Rightarrow> bool" where
  "told_of scan run changes es \<longleftrightarrow> (\<exists>e\<in>set es. ge_scan e = scan \<and> ge_run e = run \<and> ge_change e \<in> changes)"

definition logged :: "string \<Rightarrow> string option \<Rightarrow> graph_db \<Rightarrow> graph_db \<Rightarrow> bool" where
  "logged scan run D D' \<longleftrightarrow> (\<exists>new. gb_events D' = gb_events D @ new
     \<and> (\<forall>i. find_row nd_id i (gb_nodes D') \<noteq> find_row nd_id i (gb_nodes D) \<longrightarrow> told_of scan run {NodeAdded i, NodeChanged i} new)
     \<and> (\<forall>i. find_row ed_id i (gb_edges D') \<noteq> find_row ed_id i (gb_edges D) \<longrightarrow> told_of scan run {EdgeAdded i, EdgeChanged i} new)
     \<and> (\<forall>r\<in>set (gb_revisions D'). r \<notin> set (gb_revisions D) \<longrightarrow> told_of scan run {PlannerRevision (rv_ident r)} new))"

lemma told_of_append: "told_of scan run A (xs @ ys) \<longleftrightarrow> told_of scan run A xs \<or> told_of scan run A ys"
  by (auto simp: told_of_def)

lemma told_of_one: "told_of scan run A [\<lparr>ge_scan = scan, ge_run = run, ge_change = ch\<rparr>] \<longleftrightarrow> ch \<in> A"
  by (simp add: told_of_def)

lemma logged_refl: "logged scan run D D"
  by (simp add: logged_def)

lemma logged_trans:
  assumes "logged scan run A B" "logged scan run B C"
  shows "logged scan run A C"
proof -
  obtain xs ys where xs: "gb_events B = gb_events A @ xs" and ys: "gb_events C = gb_events B @ ys"
    and nx: "\<And>i. find_row nd_id i (gb_nodes B) \<noteq> find_row nd_id i (gb_nodes A) \<Longrightarrow> told_of scan run {NodeAdded i, NodeChanged i} xs"
    and ny: "\<And>i. find_row nd_id i (gb_nodes C) \<noteq> find_row nd_id i (gb_nodes B) \<Longrightarrow> told_of scan run {NodeAdded i, NodeChanged i} ys"
    and ex: "\<And>i. find_row ed_id i (gb_edges B) \<noteq> find_row ed_id i (gb_edges A) \<Longrightarrow> told_of scan run {EdgeAdded i, EdgeChanged i} xs"
    and ey: "\<And>i. find_row ed_id i (gb_edges C) \<noteq> find_row ed_id i (gb_edges B) \<Longrightarrow> told_of scan run {EdgeAdded i, EdgeChanged i} ys"
    and rx: "\<And>r. r \<in> set (gb_revisions B) \<Longrightarrow> r \<notin> set (gb_revisions A) \<Longrightarrow> told_of scan run {PlannerRevision (rv_ident r)} xs"
    and ry: "\<And>r. r \<in> set (gb_revisions C) \<Longrightarrow> r \<notin> set (gb_revisions B) \<Longrightarrow> told_of scan run {PlannerRevision (rv_ident r)} ys"
    using assms unfolding logged_def by blast
  show ?thesis unfolding logged_def
  proof (intro exI [of _ "xs @ ys"] conjI allI ballI impI)
    show "told_of scan run {NodeAdded i, NodeChanged i} (xs @ ys)"
      if "find_row nd_id i (gb_nodes C) \<noteq> find_row nd_id i (gb_nodes A)" for i
      using nx [of i] ny [of i] that unfolding told_of_append by metis
    show "told_of scan run {EdgeAdded i, EdgeChanged i} (xs @ ys)"
      if "find_row ed_id i (gb_edges C) \<noteq> find_row ed_id i (gb_edges A)" for i
      using ex [of i] ey [of i] that unfolding told_of_append by metis
    show "told_of scan run {PlannerRevision (rv_ident r)} (xs @ ys)"
      if "r \<in> set (gb_revisions C)" "r \<notin> set (gb_revisions A)" for r
      using rx [of r] ry [of r] that unfolding told_of_append by metis
  qed (simp add: xs ys)
qed

lemma draw_logged: assumes "draw E scan run ts c D = Inr D'" shows "logged scan run D D'"
proof (cases c)
  case (DrawNode n)
  with assms have put: "put_node E scan run ts n D = Inr D'" by simp
  show ?thesis
  proof (cases "D' = D")
    case False
    then have frame: "D' = D\<lparr>gb_nodes := gb_nodes D', gb_events := gb_events D'\<rparr>"
      and new: "\<exists>ch. gb_events D' = gb_events D @ [\<lparr>ge_scan = scan, ge_run = run, ge_change = ch\<rparr>]
        \<and> ch \<in> {NodeAdded (node_ident E scan (nc_kind n) (nc_key n)), NodeChanged (node_ident E scan (nc_kind n) (nc_key n))}"
      and same: "\<And>i. find_row nd_id i (gb_nodes D') \<noteq> find_row nd_id i (gb_nodes D) \<Longrightarrow> i = node_ident E scan (nc_kind n) (nc_key n)"
      using put_node_Inr [OF put] by auto
    from frame have "gb_edges D' = gb_edges D" "gb_revisions D' = gb_revisions D" by (cases D; cases D'; simp)+
    with new show ?thesis unfolding logged_def by (auto simp: told_of_one dest!: same)
  qed (simp add: logged_refl)
next
  case (DrawEdge s t rel)
  with assms have put: "put_edge E scan run s t rel D = Inr D'" by simp
  show ?thesis
  proof (cases "D' = D")
    case False
    then have frame: "D' = D\<lparr>gb_edges := gb_edges D', gb_events := gb_events D'\<rparr>"
      and new: "\<exists>ch. gb_events D' = gb_events D @ [\<lparr>ge_scan = scan, ge_run = run, ge_change = ch\<rparr>]
        \<and> ch \<in> {EdgeAdded (edge_ident E scan s t rel), EdgeChanged (edge_ident E scan s t rel)}"
      and same: "\<And>i. find_row ed_id i (gb_edges D') \<noteq> find_row ed_id i (gb_edges D) \<Longrightarrow> i = edge_ident E scan s t rel"
      using put_edge_Inr [OF put] by auto
    from frame have "gb_nodes D' = gb_nodes D" "gb_revisions D' = gb_revisions D" by (cases D; cases D'; simp)+
    with new show ?thesis unfolding logged_def by (auto simp: told_of_one dest!: same)
  qed (simp add: logged_refl)
qed

lemma revision_logged: assumes "record_revision E scan run tr D = Inr (D', s)" shows "logged scan run D D'"
  using assms unfolding record_revision_def Let_def
  by (auto simp: graph_event_Inr bindR_eq_Inr logged_def told_of_one split: if_splits)

text \<open>
  Nothing happens to the graph in silence.  A synchronization only appends to the event log, and
  for every node and every edge whose row it adds or changes, and for every revision it records,
  there is a new event of this scan and run that names it.
\<close>

theorem graph_changes_are_logged:
  assumes "synchronize_attack_graph E ts run trigger scan D = Inr (D', s)"
  shows "logged scan run D D'"
proof -
  obtain D1 where draw: "foldR (draw E scan run ts) (project E scan D) D = Inr D1"
    and rev: "record_revision E scan run trigger D1 = Inr (D', s)"
    using assms unfolding synchronize_attack_graph_def by (auto elim: bindR_InrE)
  have "logged scan run D D1"
    using draw by (rule foldR_invariant [where P = "logged scan run D"]) (auto simp: logged_refl dest: draw_logged logged_trans)
  then show ?thesis using revision_logged [OF rev] by (rule logged_trans)
qed

section \<open>The context of a task\<close>

definition beside :: "string \<Rightarrow> graph_db \<Rightarrow> string \<Rightarrow> string \<Rightarrow> bool" where
  "beside scan D here n \<longleftrightarrow> n = here \<or> (\<exists>e\<in>set (gb_edges D). ed_scan e = scan \<and> {n, here} \<subseteq> {ed_from e, ed_to e})"

text \<open>
  The context of a task is bounded and local.  What an agent is shown of the graph is at most
  \<open>limit\<close> nodes and twice as many edges, all of its own scan; every node is the endpoint or joined to it
  by an edge, every edge ends at a shown node, and no neighbour that is left out has a higher
  priority than one that is shown.
\<close>

theorem graph_context_bounded:
  assumes "graph_context_for_endpoint scan endpoint limit D = Inr c"
  shows "length (gc_nodes c) \<le> limit \<and> length (gc_edges c) \<le> 2 * limit
    \<and> (\<forall>n\<in>set (gc_nodes c). n \<in> set (gb_nodes D) \<and> nd_scan n = scan)
    \<and> (\<forall>e\<in>set (gc_edges c). e \<in> set (gb_edges D) \<and> ed_scan e = scan \<and> {ed_from e, ed_to e} \<inter> nd_id ` set (gc_nodes c) \<noteq> {})
    \<and> (gc_nodes c \<noteq> [] \<longrightarrow> (\<exists>r\<in>set (gb_nodes D). nd_scan r = scan \<and> nd_kind r = ''endpoint'' \<and> nd_key r = endpoint
        \<and> (\<forall>n\<in>set (gc_nodes c). beside scan D (nd_id r) (nd_id n))
        \<and> (\<forall>n\<in>set (gb_nodes D). nd_scan n = scan \<and> beside scan D (nd_id r) (nd_id n) \<and> n \<notin> set (gc_nodes c)
             \<longrightarrow> (\<forall>m\<in>set (gc_nodes c). nd_priority n \<le> nd_priority m))))"
proof (cases "find (\<lambda>r. nd_scan r = scan \<and> nd_kind r = ''endpoint'' \<and> nd_key r = endpoint) (gb_nodes D)")
  case None
  with assms show ?thesis by (auto simp: graph_context_for_endpoint_def split: if_splits)
next
  case (Some r)
  then have r: "r \<in> set (gb_nodes D)" "nd_scan r = scan" "nd_kind r = ''endpoint''" "nd_key r = endpoint"
    by (auto simp: find_Some_iff)
  define near where "near = (\<lambda>n. n = nd_id r \<or> (\<exists>e\<in>set (gb_edges D). ed_scan e = scan \<and> (ed_from e = n \<or> ed_to e = n)
     \<and> (ed_from e = nd_id r \<or> ed_to e = nd_id r)))"
  define key where "key = (\<lambda>n :: node_row. (- nd_priority n, nd_kind n, nd_id n))"
  define all where "all = sort_key key (filter (\<lambda>n. nd_scan n = scan \<and> near (nd_id n)) (gb_nodes D))"
  from assms Some have nodes: "gc_nodes c = take limit all"
    and edges: "gc_edges c = take (2 * limit) (sort_key (\<lambda>e. (ed_relationship e, ed_id e))
       (filter (\<lambda>e. ed_scan e = scan \<and> (ed_from e \<in> nd_id ` set (take limit all) \<or> ed_to e \<in> nd_id ` set (take limit all))) (gb_edges D)))"
    unfolding graph_context_for_endpoint_def Let_def all_def key_def near_def by (auto split: if_splits)
  have near: "near n \<longleftrightarrow> beside scan D (nd_id r) n" for n by (auto simp: near_def beside_def)
  have "sorted (map key (take limit all @ drop limit all))" by (simp add: all_def)
  then have order: "key m \<le> key n" if "m \<in> set (take limit all)" "n \<in> set (drop limit all)" for m n
    using that unfolding map_append sorted_append by auto
  have lower: "nd_priority n \<le> nd_priority m" if "m \<in> set (take limit all)" "n \<in> set all" "n \<notin> set (take limit all)" for m n
  proof -
    have "n \<in> set (drop limit all)" using that(2,3) by (metis Un_iff append_take_drop_id set_append)
    from order [OF that(1) this] show ?thesis by (auto simp: key_def)
  qed
  have all: "set all = {n \<in> set (gb_nodes D). nd_scan n = scan \<and> beside scan D (nd_id r) (nd_id n)}"
    by (auto simp: all_def near)
  have "\<forall>n\<in>set (take limit all). n \<in> set all" by (blast dest: in_set_takeD)
  moreover have "\<forall>e\<in>set (gc_edges c). e \<in> set (gb_edges D) \<and> ed_scan e = scan \<and> {ed_from e, ed_to e} \<inter> nd_id ` set (take limit all) \<noteq> {}"
    unfolding edges by (auto dest!: in_set_takeD)
  moreover have "length (gc_edges c) \<le> 2 * limit" unfolding edges by simp
  ultimately show ?thesis using r lower all unfolding nodes by (auto intro!: bexI [of _ r])
qed

section \<open>An example\<close>

fun shape :: "pyval \<Rightarrow> string" where
  "shape (PStr s) = s"
| "shape (PInt n) = replicate (nat n) CHR ''i''"
| "shape (PList vs) = concat (map shape vs)"
| "shape (PDict d) = concat (map (\<lambda>(k, v). k @ shape v) d)"
| "shape _ = ''null''"

definition sample_graph_env :: graph_env where
  "sample_graph_env = \<lparr>gr_id = (\<lambda>p xs. foldr (\<lambda>x acc. unary (length x) (x @ acc)) xs p), gr_digest = shape, gr_json = shape\<rparr>"

definition sample_graph :: "node_row list \<Rightarrow> graph_db" where
  "sample_graph nodes = \<lparr>gb_pre = (sample_pre (sample_item ''a'' CPending) PreRetired)\<lparr>pd_rows := []\<rparr>,
     gb_sites = [\<lparr>st_id = ''e'', st_scan = ''s'', st_origin = ''o'', st_method = Some ''GET'', st_path = ''/q'', st_auth = False,
       st_verification = None, st_excluded = False\<rparr>],
     gb_params = [], gb_findings = [], gb_chains = [], gb_tools = [], gb_nodes = nodes, gb_edges = [], gb_events = [],
     gb_revisions = [], gb_leads = []\<rparr>"

lemma sample_names_apart: "node_names_apart sample_graph_env"
  by (auto simp: node_names_apart_def node_ident_def sample_graph_env_def unary_eq append_eq_append_conv)

lemma sample_graph_keys: "evidence_keys (sample_graph [])"
  by (simp add: evidence_keys_def sample_graph_def sample_pre_def sample_cov_def sample_item_def fresh_db_def)

lemma sample_project:
  "project sample_graph_env ''s'' (sample_graph [])
     = [DrawNode (site_node (hd (gb_sites (sample_graph [])))), DrawNode (item_node (sample_item ''a'' CPending)),
        DrawEdge (node_ident sample_graph_env ''s'' ''endpoint'' ''e'') (node_ident sample_graph_env ''s'' ''coverage'' ''a'') ''has_coverage_hypothesis'']"
proof -
  let ?D = "sample_graph []" and ?c = "sample_item ''a'' CPending"
  have c: "cv_scan ?c = ''s''" "cv_id ?c = ''a''" "cv_endpoint ?c = ''e''" by (simp_all add: sample_item_def)
  have tables: "cb_items (gb_cov ?D) = [?c]" "pd_rows (gb_pre ?D) = []" "gb_findings ?D = []" "gb_chains ?D = []" "gb_tools ?D = []"
    "cb_checkpoints (gb_cov ?D) = []" "cb_attempts (gb_cov ?D) = []" "pd_facts (gb_pre ?D) = []" "d_credentials (gb_pipe ?D) = []"
    "gb_params ?D = []"
    by (simp_all add: sample_graph_def sample_pre_def sample_cov_def fresh_db_def)
  have "known_endpoint ''s'' ?D (Some ''e'')" by (simp add: known_endpoint_def sample_graph_def)
  then have "item_cmds sample_graph_env ''s'' ?D = [DrawNode (item_node ?c),
      DrawEdge (node_ident sample_graph_env ''s'' ''endpoint'' ''e'') (node_ident sample_graph_env ''s'' ''coverage'' ''a'') ''has_coverage_hypothesis'']"
    by (simp add: item_cmds_def tables c link_if_def)
  moreover have "site_cmds ''s'' ?D = [DrawNode (site_node (hd (gb_sites ?D)))]"
    by (simp add: site_cmds_def sample_graph_def)
  ultimately show ?thesis
    by (simp add: project_def param_cmds_def need_cmds_def finding_cmds_def chain_cmds_def tool_cmds_def checkpoint_cmds_def
        lead_cmds_def fact_cmds_def credential_cmds_def tables)
qed

lemma sample_fits: "node_fits sample_graph_env (site_node (hd (gb_sites (sample_graph []))))"
  "node_fits sample_graph_env (item_node (sample_item ''a'' CPending))"
  by (simp_all add: node_fits_def sample_graph_env_def site_node_def item_node_def sample_graph_def sample_item_def sql_blank_def
     text_or_null_def item_state_def)

lemma sample_synchronizes:
  "\<exists>D' s. synchronize_attack_graph sample_graph_env ''t0'' None ''evidence.changed'' ''s'' (sample_graph []) = Inr (D', s)"
proof -
  let ?E = sample_graph_env
  define n where "n = site_node (hd (gb_sites (sample_graph [])))"
  define m where "m = item_node (sample_item ''a'' CPending)"
  have kinds: "nc_kind n = ''endpoint''" "nc_key n = ''e''" "nc_kind m = ''coverage''" "nc_key m = ''a''"
    by (simp_all add: n_def m_def node_kinds sample_graph_def sample_item_def)
  have apart: "node_ident ?E ''s'' ''endpoint'' ''e'' \<noteq> node_ident ?E ''s'' ''coverage'' ''a''"
    using sample_names_apart [unfolded node_names_apart_def, rule_format, of "''s''" "''endpoint''" "''e''" "''coverage''" "''a''"]
    by auto
  have fits: "node_fits ?E n" "node_fits ?E m" unfolding n_def m_def by (rule sample_fits)+
  have ok: "graph_keys_ok D ''s'' None" if "gb_pre D = gb_pre (sample_graph [])" for D
    using that by (simp add: graph_keys_ok_def sample_graph_def sample_pre_def sample_cov_def fresh_db_def)
  have scan: "''s'' \<in> set (d_scans (gb_pipe D))" if "gb_pre D = gb_pre (sample_graph [])" for D
    using ok [OF that] by (simp add: graph_keys_ok_def)
  have start: "gb_nodes (sample_graph []) = []" "gb_edges (sample_graph []) = []" "gb_revisions (sample_graph []) = []"
    by (simp_all add: sample_graph_def)
  have "\<exists>D1. foldR (draw ?E ''s'' None ''t0'') (project ?E ''s'' (sample_graph [])) (sample_graph []) = Inr D1
      \<and> gb_pre D1 = gb_pre (sample_graph []) \<and> gb_revisions D1 = []"
    unfolding sample_project n_def [symmetric] m_def [symmetric]
    using apart apart [symmetric] by (simp add: put_node_def put_edge_def Let_def kinds start fits scan add_graph_event_def ok find_row_def)
  then obtain D1 where d1: "foldR (draw ?E ''s'' None ''t0'') (project ?E ''s'' (sample_graph [])) (sample_graph []) = Inr D1"
    "gb_pre D1 = gb_pre (sample_graph [])" "gb_revisions D1 = []" by blast
  have "\<exists>D' s. record_revision ?E ''s'' None ''evidence.changed'' D1 = Inr (D', s)"
    using d1(2,3) by (simp add: record_revision_def Let_def sql_blank_def add_graph_event_def ok)
  then show ?thesis using d1(1) by (simp add: synchronize_attack_graph_def)
qed

lemma graph_sync_idempotent_witness:
  "\<exists>D' s. synchronize_attack_graph sample_graph_env ''t0'' None ''evidence.changed'' ''s'' (sample_graph []) = Inr (D', s)
     \<and> synchronize_attack_graph sample_graph_env ''t1'' None ''batch.claimed'' ''s'' D' = Inr (D', \<lparr>sy_revision = None, sy_sha = sy_sha s\<rparr>)"
  using sample_synchronizes graph_sync_idempotent [OF sample_names_apart sample_graph_keys] by blast

lemma graph_changes_are_logged_witness:
  "\<exists>D' s. synchronize_attack_graph sample_graph_env ''t0'' None ''evidence.changed'' ''s'' (sample_graph []) = Inr (D', s)
     \<and> logged ''s'' None (sample_graph []) D'"
  using sample_synchronizes graph_changes_are_logged by blast

definition sample_endpoint_node :: node_row where
  "sample_endpoint_node = \<lparr>nd_id = ''n'', nd_scan = ''s'', nd_kind = ''endpoint'', nd_key = ''e'', nd_state = ''active'', nd_priority = 60,
     nd_meta = [], nd_content = ''c'', nd_updated = ''t0''\<rparr>"

lemma graph_context_bounded_witness:
  "\<exists>c. graph_context_for_endpoint ''s'' ''e'' 32 (sample_graph [sample_endpoint_node]) = Inr c \<and> gc_nodes c = [sample_endpoint_node]
     \<and> length (gc_edges c) \<le> 2 * 32"
proof -
  have "\<exists>c. graph_context_for_endpoint ''s'' ''e'' 32 (sample_graph [sample_endpoint_node]) = Inr c \<and> gc_nodes c = [sample_endpoint_node]"
    by (simp add: graph_context_for_endpoint_def sample_graph_def sample_endpoint_node_def)
  then show ?thesis using graph_context_bounded by blast
qed

end
