(* ===== verification/Online_Chaining.thy ===== *)
theory Online_Chaining
  imports Attack_Graph
begin

text \<open>
  \<open>src/src/aidast/attack/online_chaining.py\<close>: as soon as a finding is proven, the coverage items it
  makes promising are linked to it as chain leads and pushed to the front of the lead queue.  The
  items themselves come from Recon; no evidence is invented.  \<open>chain_id\<close> and \<open>lead_id\<close> are the two uses
  of the digest \<open>_id\<close>.
\<close>

section \<open>Ranking follow-ups\<close>

definition boundary_classes :: "string set" where
  "boundary_classes = {''auth_bypass'', ''idor'', ''jwt_crypto'', ''session'', ''business_logic''}"

definition identifier_classes :: "string set" where
  "identifier_classes = {''idor'', ''business_logic'', ''race_condition''}"

definition confirmed_attempt :: "graph_db \<Rightarrow> graph_finding \<Rightarrow> attempt_row \<Rightarrow> bool" where
  "confirmed_attempt D f a \<longleftrightarrow> a \<in> set (cb_attempts (gb_cov D)) \<and> aa_finding a = Some (fi_id f) \<and> aa_outcome a = ''confirmed''"

definition site_of :: "graph_db \<Rightarrow> string option \<Rightarrow> site_row option" where
  "site_of D i = Option.bind i (\<lambda>i. find_row st_id i (gb_sites D))"

text \<open>The findings that open chains: not rejected, with an endpoint and a confirmed attempt.\<close>

definition chain_findings :: "string \<Rightarrow> graph_db \<Rightarrow> graph_finding list" where
  "chain_findings scan D = sort_key (\<lambda>f. (fi_created f, fi_id f))
     (filter (\<lambda>f. fi_scan f = scan \<and> fi_status f \<in> {''unreviewed'', ''confirmed''} \<and> site_of D (fi_endpoint f) \<noteq> None
        \<and> (\<exists>a\<in>set (cb_attempts (gb_cov D)). confirmed_attempt D f a)) (gb_findings D))"

text \<open>The stage run of the newest confirmed attempt; the sort is stable, so the last row is the first of the descending order.\<close>

definition source_stage :: "graph_db \<Rightarrow> graph_finding \<Rightarrow> string option" where
  "source_stage D f =
     (case rev (sort_key (\<lambda>a. (aa_created a, aa_id a)) (filter (confirmed_attempt D f) (cb_attempts (gb_cov D)))) of
        [] \<Rightarrow> None
      | a # _ \<Rightarrow> Option.bind (aa_task a) (\<lambda>t. map_option at_run (find_row at_id t (d_tasks (gb_pipe D)))))"

definition has_identifier :: "graph_db \<Rightarrow> cov_item \<Rightarrow> bool" where
  "has_identifier D c \<longleftrightarrow> (\<exists>p\<in>set (gb_params D). pm_endpoint p = cv_endpoint c \<and> pm_identifier p)"

definition chain_candidate :: "string \<Rightarrow> graph_db \<Rightarrow> graph_finding \<Rightarrow> cov_item \<Rightarrow> bool" where
  "chain_candidate scan D f c \<longleftrightarrow> cv_scan c = scan \<and> claimable_status c
     \<and> (case (site_of D (fi_endpoint f), site_of D (Some (cv_endpoint c))) of
          (Some s, Some s') \<Rightarrow> st_origin s' = st_origin s | _ \<Rightarrow> False)
     \<and> \<not> (Some (cv_endpoint c) = fi_endpoint f \<and> cv_vuln c = fi_vuln f)"

definition rank_followup :: "graph_db \<Rightarrow> graph_finding \<Rightarrow> cov_item \<Rightarrow> (int \<times> string) option" where
  "rank_followup D f c =
     (if Some (cv_endpoint c) = fi_endpoint f then Some (100, ''same_endpoint_followup'')
      else if fi_vuln f \<in> boundary_classes \<and> cv_vuln c \<in> boundary_classes then Some (96, ''credential_boundary_followup'')
      else if has_identifier D c \<and> cv_vuln c \<in> identifier_classes then Some (90, ''same_origin_identifier_followup'')
      else None)"

definition ranked_followups :: "nat \<Rightarrow> string \<Rightarrow> graph_db \<Rightarrow> graph_finding \<Rightarrow> (int \<times> string \<times> cov_item) list" where
  "ranked_followups limit scan D f = take limit (sort_key (\<lambda>(p, _, c). (- p, cv_id c))
     (List.map_filter (\<lambda>c. map_option (\<lambda>(p, r). (p, r, c)) (rank_followup D f c))
       (filter (chain_candidate scan D f) (cb_items (gb_cov D)))))"

section \<open>Recording chain leads\<close>

definition insert_chain :: "chain_lead \<Rightarrow> graph_db \<Rightarrow> (db_error, graph_db) result" where
  "insert_chain l D =
     (if (\<exists>r\<in>set (gb_chains D). ch_id r = ch_id l \<or> (ch_scan r, ch_finding r, ch_item r) = (ch_scan l, ch_finding l, ch_item l))
      then Inr D
      else if ch_scan l \<in> set (d_scans (gb_pipe D)) \<and> (case ch_run l of None \<Rightarrow> True | Some r \<Rightarrow> r \<in> sr_id ` set (d_stages (gb_pipe D)))
      then Inr (D\<lparr>gb_chains := gb_chains D @ [l]\<rparr>)
      else Inl (IntegrityErr ''FOREIGN KEY constraint failed''))"

definition or_run :: "string option \<Rightarrow> string option \<Rightarrow> string option" where
  "or_run a b = (if a \<in> {None, Some []} then b else a)"

definition new_chain ::
  "(string \<Rightarrow> string \<Rightarrow> string \<Rightarrow> string) \<Rightarrow> string option \<Rightarrow> string \<Rightarrow> graph_db \<Rightarrow> graph_finding \<Rightarrow> int \<times> string \<times> cov_item \<Rightarrow> chain_lead" where
  "new_chain chain_id run scan D f followup = (case followup of (p, rel, c) \<Rightarrow>
     \<lparr>ch_id = chain_id scan (fi_id f) (cv_id c), ch_scan = scan, ch_finding = fi_id f, ch_item = cv_id c,
      ch_relationship = rel, ch_state = ChQueued, ch_priority = p, ch_run = or_run (source_stage D f) run\<rparr>)"

text \<open>The queries of one finding read tables that the insertions do not change.\<close>

definition chain_jobs :: "(string \<Rightarrow> string \<Rightarrow> string \<Rightarrow> string) \<Rightarrow> nat \<Rightarrow> string option \<Rightarrow> string \<Rightarrow> graph_db \<Rightarrow> chain_lead list" where
  "chain_jobs chain_id limit run scan D =
     concat (map (\<lambda>f. map (new_chain chain_id run scan D f) (ranked_followups limit scan D f)) (chain_findings scan D))"

section \<open>Following the coverage\<close>

definition next_chain_state :: "cov_status \<Rightarrow> chain_state" where
  "next_chain_state s = (if s \<in> cov_terminal then ChCompleted else if s = CRunning then ChRunning else ChQueued)"

definition finding_node_id :: "graph_db \<Rightarrow> chain_lead \<Rightarrow> string option" where
  "finding_node_id D l = map_option nd_id
     (find (\<lambda>n. nd_scan n = ch_scan l \<and> nd_kind n = ''finding'' \<and> nd_key n = ch_finding l) (gb_nodes D))"

definition chain_reason :: "chain_lead \<Rightarrow> string" where
  "chain_reason l = ''during-Attack chain: '' @ ch_relationship l"

definition push_lead ::
  "(string \<Rightarrow> string \<Rightarrow> string \<Rightarrow> string) \<Rightarrow> string \<Rightarrow> string \<Rightarrow> chain_lead \<Rightarrow> cov_item \<Rightarrow> string \<Rightarrow> lead_row list \<Rightarrow> lead_row list" where
  "push_lead lead_id ts scan l c node leads =
     (let q = \<lparr>lq_id = lead_id scan node (ch_item l), lq_scan = scan, lq_source = node, lq_item = ch_item l,
               lq_endpoint = cv_endpoint c, lq_vuln = cv_vuln c, lq_skill = cv_skill c, lq_priority = ch_priority l,
               lq_state = LeadQueued, lq_reason = chain_reason l, lq_revision = None, lq_run = None, lq_task = None, lq_created = ts\<rparr>;
          leads = (if (\<exists>r\<in>set leads. lq_id r = lq_id q \<or> (lq_scan r, lq_source r, lq_item r) = (lq_scan q, lq_source q, lq_item q))
                      \<or> sql_blank (lq_vuln q) \<or> sql_blank (lq_skill q) then leads else leads @ [q])
      in update_where (\<lambda>r. lq_scan r = scan \<and> lq_source r = node \<and> lq_item r = ch_item l \<and> lq_state r \<in> {LeadQueued, LeadDeferred})
           (\<lambda>r. r\<lparr>lq_priority := max (lq_priority r) (ch_priority l), lq_reason := chain_reason l\<rparr>) leads)"

definition follow_chain ::
  "(string \<Rightarrow> string \<Rightarrow> string \<Rightarrow> string) \<Rightarrow> string \<Rightarrow> string \<Rightarrow> chain_lead \<Rightarrow> graph_db \<Rightarrow> graph_db" where
  "follow_chain lead_id ts scan l D =
     (case item_of (ch_item l) (gb_cov D) of
        None \<Rightarrow> D
      | Some c \<Rightarrow>
          let nxt = next_chain_state (cv_status c);
              D = (if nxt \<noteq> ch_state l
                   then D\<lparr>gb_chains := update_where (\<lambda>r. ch_id r = ch_id l) (\<lambda>r. r\<lparr>ch_state := nxt\<rparr>) (gb_chains D)\<rparr> else D)
          in if nxt \<noteq> ChQueued \<or> finding_node_id D l \<in> {None, Some []} then D
             else D\<lparr>gb_leads := push_lead lead_id ts scan l c (the (finding_node_id D l)) (gb_leads D)\<rparr>)"

record chain_refresh =
  cf_inserted :: nat
  cf_queued :: nat
  cf_completed :: nat

definition completed_now :: "graph_db \<Rightarrow> chain_lead \<Rightarrow> bool" where
  "completed_now D l \<longleftrightarrow> (case item_of (ch_item l) (gb_cov D) of
     None \<Rightarrow> False | Some c \<Rightarrow> next_chain_state (cv_status c) = ChCompleted \<and> ch_state l \<noteq> ChCompleted)"

definition refresh_online_chain_leads ::
  "(string \<Rightarrow> string \<Rightarrow> string \<Rightarrow> string) \<Rightarrow> (string \<Rightarrow> string \<Rightarrow> string \<Rightarrow> string) \<Rightarrow> string \<Rightarrow> nat \<Rightarrow> string option \<Rightarrow> string \<Rightarrow> graph_db
     \<Rightarrow> (db_error, graph_db \<times> chain_refresh) result" where
  "refresh_online_chain_leads chain_id lead_id ts limit run scan D =
     (if \<not> (1 \<le> limit \<and> limit \<le> 32) then Inl (ValueErr ''online chain follow-up limit must be between 1 and 32'')
      else bindR (foldR insert_chain (chain_jobs chain_id limit run scan D) D) (\<lambda>D1.
        let rows = sort_key (\<lambda>l. (- ch_priority l, ch_id l)) (filter (\<lambda>l. ch_scan l = scan) (gb_chains D1));
            D2 = fold (follow_chain lead_id ts scan) rows D1
        in Inr (D2, \<lparr>cf_inserted = length (gb_chains D1) - length (gb_chains D),
                     cf_queued = length (gb_leads D2) - length (gb_leads D1),
                     cf_completed = length (filter (completed_now D1) rows)\<rparr>)))"

section \<open>Where chain leads point\<close>

lemma insert_chain_Inr:
  "insert_chain l D = Inr D' \<Longrightarrow> D' = D \<or> D' = D\<lparr>gb_chains := gb_chains D @ [l]\<rparr> \<and> ch_id l \<notin> ch_id ` set (gb_chains D)"
  by (auto simp: insert_chain_def split: if_splits)

lemma insert_chains_Inr:
  assumes "foldR insert_chain ls D = Inr D'"
  shows "\<exists>new. D' = D\<lparr>gb_chains := gb_chains D @ new\<rparr> \<and> set new \<subseteq> set ls \<and> (\<forall>P. length (filter P new) \<le> length (filter P ls))
    \<and> (distinct (map ch_id (gb_chains D)) \<longrightarrow> distinct (map ch_id (gb_chains D @ new)))"
  using assms
proof (induction ls arbitrary: D)
  case Nil
  then show ?case by (intro exI [of _ "[]"]) simp
next
  case (Cons l ls)
  then obtain D1 where one: "insert_chain l D = Inr D1" and rest: "foldR insert_chain ls D1 = Inr D'"
    by (auto elim: bindR_InrE)
  obtain new where new: "D' = D1\<lparr>gb_chains := gb_chains D1 @ new\<rparr>" "set new \<subseteq> set ls"
    "\<forall>P. length (filter P new) \<le> length (filter P ls)" "distinct (map ch_id (gb_chains D1)) \<longrightarrow> distinct (map ch_id (gb_chains D1 @ new))"
    using Cons.IH [OF rest] by blast
  from insert_chain_Inr [OF one] show ?case
  proof
    assume "D1 = D"
    with new show ?thesis by (intro exI [of _ new]) (auto simp: le_SucI)
  next
    assume d1: "D1 = D\<lparr>gb_chains := gb_chains D @ [l]\<rparr> \<and> ch_id l \<notin> ch_id ` set (gb_chains D)"
    with new show ?thesis by (intro exI [of _ "l # new"]) auto
  qed
qed

text \<open>
  What a chain lead may link, in the fields of the rows: a finding of the scan that is not rejected
  and has a confirmed attempt, to an item of the scan that can still be claimed, on an endpoint of
  the same origin, but not the hypothesis the finding settled; and the three relationships in their
  order, with their priorities.
\<close>

definition boundary_vuln :: "string \<Rightarrow> bool" where
  "boundary_vuln v \<longleftrightarrow> v \<in> {''auth_bypass'', ''idor'', ''jwt_crypto'', ''session'', ''business_logic''}"

definition proper_followup :: "string \<Rightarrow> graph_db \<Rightarrow> chain_lead \<Rightarrow> bool" where
  "proper_followup scan D l \<longleftrightarrow>
     (\<exists>f\<in>set (gb_findings D). \<exists>c\<in>set (cb_items (gb_cov D)). \<exists>e\<in>set (gb_sites D). \<exists>e'\<in>set (gb_sites D).
        ch_scan l = scan \<and> fi_scan f = scan \<and> cv_scan c = scan \<and> ch_finding l = fi_id f \<and> ch_item l = cv_id c
        \<and> fi_status f \<in> {''unreviewed'', ''confirmed''}
        \<and> (\<exists>a\<in>set (cb_attempts (gb_cov D)). aa_finding a = Some (fi_id f) \<and> aa_outcome a = ''confirmed'')
        \<and> cv_status c \<in> {CPending, CErrorRetryable}
        \<and> fi_endpoint f = Some (st_id e) \<and> cv_endpoint c = st_id e' \<and> st_origin e' = st_origin e
        \<and> (st_id e' = st_id e \<longrightarrow> cv_vuln c \<noteq> fi_vuln f)
        \<and> (st_id e' = st_id e \<and> ch_priority l = 100 \<and> ch_relationship l = ''same_endpoint_followup''
           \<or> st_id e' \<noteq> st_id e \<and> boundary_vuln (fi_vuln f) \<and> boundary_vuln (cv_vuln c)
             \<and> ch_priority l = 96 \<and> ch_relationship l = ''credential_boundary_followup''
           \<or> st_id e' \<noteq> st_id e \<and> \<not> (boundary_vuln (fi_vuln f) \<and> boundary_vuln (cv_vuln c))
             \<and> cv_vuln c \<in> {''idor'', ''business_logic'', ''race_condition''}
             \<and> (\<exists>p\<in>set (gb_params D). pm_endpoint p = st_id e' \<and> pm_identifier p)
             \<and> ch_priority l = 90 \<and> ch_relationship l = ''same_origin_identifier_followup''))"

lemma site_of_Some: "site_of D i = Some s \<Longrightarrow> s \<in> set (gb_sites D) \<and> i = Some (st_id s)"
  by (auto simp: site_of_def bind_eq_Some_conv dest: find_row_Some)

lemma chain_jobs_in:
  assumes "l \<in> set (chain_jobs chain_id limit run scan D)"
  shows "proper_followup scan D l"
proof -
  obtain f p rel c where f: "f \<in> set (chain_findings scan D)" and x: "(p, rel, c) \<in> set (ranked_followups limit scan D f)"
    and l: "l = new_chain chain_id run scan D f (p, rel, c)"
    using assms by (auto simp: chain_jobs_def)
  from x have c: "c \<in> set (cb_items (gb_cov D))" and cand: "chain_candidate scan D f c"
    and rank: "rank_followup D f c = Some (p, rel)"
    by (auto simp: ranked_followups_def List.map_filter_def dest!: in_set_takeD)
  obtain e e' where "site_of D (fi_endpoint f) = Some e" "site_of D (Some (cv_endpoint c)) = Some e'"
    and o: "st_origin e' = st_origin e" and scan: "cv_scan c = scan" and claim: "cv_status c \<in> {CPending, CErrorRetryable}"
    and other: "\<not> (Some (cv_endpoint c) = fi_endpoint f \<and> cv_vuln c = fi_vuln f)"
    using cand unfolding chain_candidate_def claimable_status_def by (auto split: option.splits)
  then have e: "e \<in> set (gb_sites D)" "fi_endpoint f = Some (st_id e)" "e' \<in> set (gb_sites D)" "cv_endpoint c = st_id e'"
    using site_of_Some by auto
  have fs: "f \<in> set (gb_findings D)" "fi_scan f = scan" "fi_status f \<in> {''unreviewed'', ''confirmed''}"
    "\<exists>a\<in>set (cb_attempts (gb_cov D)). aa_finding a = Some (fi_id f) \<and> aa_outcome a = ''confirmed''"
    using f by (auto simp: chain_findings_def confirmed_attempt_def)
  have ls: "ch_scan l = scan" "ch_finding l = fi_id f" "ch_item l = cv_id c" "ch_priority l = p" "ch_relationship l = rel"
    by (simp_all add: l new_chain_def)
  have b: "boundary_vuln v \<longleftrightarrow> v \<in> boundary_classes" for v by (simp add: boundary_vuln_def boundary_classes_def)
  have r: "st_id e' = st_id e \<and> p = 100 \<and> rel = ''same_endpoint_followup''
      \<or> st_id e' \<noteq> st_id e \<and> boundary_vuln (fi_vuln f) \<and> boundary_vuln (cv_vuln c)
        \<and> p = 96 \<and> rel = ''credential_boundary_followup''
      \<or> st_id e' \<noteq> st_id e \<and> \<not> (boundary_vuln (fi_vuln f) \<and> boundary_vuln (cv_vuln c))
        \<and> cv_vuln c \<in> {''idor'', ''business_logic'', ''race_condition''}
        \<and> (\<exists>q\<in>set (gb_params D). pm_endpoint q = st_id e' \<and> pm_identifier q)
        \<and> p = 90 \<and> rel = ''same_origin_identifier_followup''"
    using rank unfolding rank_followup_def e(2,4) has_identifier_def identifier_classes_def b
    by (simp only: option.inject split: if_splits) auto
  have d: "st_id e' = st_id e \<longrightarrow> cv_vuln c \<noteq> fi_vuln f" using other e by simp
  show ?thesis unfolding proper_followup_def ls
    using fs c e scan claim o d r by (intro bexI [of _ f] bexI [of _ c] bexI [of _ e] bexI [of _ e'] conjI) simp_all
qed

lemma chain_jobs_each:
  assumes "distinct (map fi_id (gb_findings D))"
  shows "length (filter (\<lambda>l. ch_finding l = x) (chain_jobs chain_id limit run scan D)) \<le> limit"
proof -
  let ?js = "\<lambda>f. map (new_chain chain_id run scan D f) (ranked_followups limit scan D f)"
  have len: "length (?js f) \<le> limit" for f by (simp add: ranked_followups_def)
  have hit: "filter (\<lambda>l. ch_finding l = x) (?js f) = (if fi_id f = x then ?js f else [])" for f
    by (auto simp: new_chain_def filter_empty_conv split: prod.splits)
  have none: "x \<notin> fi_id ` set fs \<Longrightarrow> filter (\<lambda>l. ch_finding l = x) (concat (map ?js fs)) = []" for fs
    by (induction fs) (auto simp: hit)
  have "distinct (map fi_id fs) \<Longrightarrow> length (filter (\<lambda>l. ch_finding l = x) (concat (map ?js fs))) \<le> limit" for fs
  proof (induction fs)
    case (Cons f fs)
    then show ?case using len [of f] none [of fs] by (cases "fi_id f = x") (simp_all add: hit)
  qed simp
  moreover have "distinct (map fi_id (chain_findings scan D))"
    unfolding chain_findings_def using assms by (intro distinct_map_sort distinct_map_filter)
  ultimately show ?thesis by (simp add: chain_jobs_def)
qed

definition chain_step :: "cov_db \<Rightarrow> chain_lead \<Rightarrow> chain_lead \<Rightarrow> chain_lead" where
  "chain_step C l r = (case item_of (ch_item l) C of None \<Rightarrow> r
     | Some c \<Rightarrow> if next_chain_state (cv_status c) \<noteq> ch_state l then r\<lparr>ch_state := next_chain_state (cv_status c)\<rparr> else r)"

lemma update_where_same: "update_where p (\<lambda>r. r) t = t"
  by (induction t) simp_all

lemma follow_chain_effect:
  "\<exists>L. follow_chain lead_id ts scan l D
     = D\<lparr>gb_chains := update_where (\<lambda>r. ch_id r = ch_id l) (chain_step (gb_cov D) l) (gb_chains D), gb_leads := L\<rparr>"
proof (cases "item_of (ch_item l) (gb_cov D)")
  case None
  then show ?thesis by (intro exI [of _ "gb_leads D"]) (simp add: follow_chain_def chain_step_def [abs_def] update_where_same)
next
  case (Some c)
  then show ?thesis
    by (cases "next_chain_state (cv_status c) \<noteq> ChQueued \<or> finding_node_id D l \<in> {None, Some []}";
        intro exI [of _ "gb_leads (follow_chain lead_id ts scan l D)"])
      (auto simp: follow_chain_def chain_step_def [abs_def] update_where_same Let_def finding_node_id_def)
qed

lemma follow_chains_effect:
  "\<exists>L. fold (follow_chain lead_id ts scan) rows D
     = D\<lparr>gb_chains := fold (\<lambda>l. update_where (\<lambda>r. ch_id r = ch_id l) (chain_step (gb_cov D) l)) rows (gb_chains D), gb_leads := L\<rparr>"
proof (induction rows arbitrary: D)
  case Nil
  show ?case by (intro exI [of _ "gb_leads D"]) simp
next
  case (Cons l rows)
  obtain L where one: "follow_chain lead_id ts scan l D
     = D\<lparr>gb_chains := update_where (\<lambda>r. ch_id r = ch_id l) (chain_step (gb_cov D) l) (gb_chains D), gb_leads := L\<rparr>"
    using follow_chain_effect by blast
  from Cons.IH [of "follow_chain lead_id ts scan l D"] show ?case by (simp add: one)
qed

lemma refresh_chains_Inr:
  assumes "refresh_online_chain_leads chain_id lead_id ts limit run scan D = Inr (D', s)"
  shows "\<exists>new L. set new \<subseteq> set (chain_jobs chain_id limit run scan D) \<and> (\<forall>P. length (filter P new) \<le> length (filter P (chain_jobs chain_id limit run scan D)))
    \<and> cf_inserted s = length new
    \<and> (distinct (map ch_id (gb_chains D)) \<longrightarrow> distinct (map ch_id (gb_chains D @ new)))
    \<and> D' = D\<lparr>gb_chains := fold (\<lambda>l. update_where (\<lambda>r. ch_id r = ch_id l) (chain_step (gb_cov D) l))
         (sort_key (\<lambda>l. (- ch_priority l, ch_id l)) (filter (\<lambda>l. ch_scan l = scan) (gb_chains D @ new))) (gb_chains D @ new), gb_leads := L\<rparr>"
proof -
  obtain D1 where ins: "foldR insert_chain (chain_jobs chain_id limit run scan D) D = Inr D1"
    and D': "D' = fold (follow_chain lead_id ts scan) (sort_key (\<lambda>l. (- ch_priority l, ch_id l)) (filter (\<lambda>l. ch_scan l = scan) (gb_chains D1))) D1"
    and s: "cf_inserted s = length (gb_chains D1) - length (gb_chains D)"
    using assms unfolding refresh_online_chain_leads_def Let_def by (auto simp: bindR_eq_Inr split: if_splits)
  from insert_chains_Inr [OF ins] obtain new where new: "D1 = D\<lparr>gb_chains := gb_chains D @ new\<rparr>"
    "set new \<subseteq> set (chain_jobs chain_id limit run scan D)" "\<forall>P. length (filter P new) \<le> length (filter P (chain_jobs chain_id limit run scan D))"
    "distinct (map ch_id (gb_chains D)) \<longrightarrow> distinct (map ch_id (gb_chains D @ new))" by blast
  obtain L where L: "D' = D1\<lparr>gb_chains := fold (\<lambda>l. update_where (\<lambda>r. ch_id r = ch_id l) (chain_step (gb_cov D1) l))
     (sort_key (\<lambda>l. (- ch_priority l, ch_id l)) (filter (\<lambda>l. ch_scan l = scan) (gb_chains D1))) (gb_chains D1), gb_leads := L\<rparr>"
    unfolding D' using follow_chains_effect by blast
  show ?thesis using new s L by (intro exI [of _ new] exI [of _ L]) simp
qed

lemma refresh_chains_rows:
  assumes "refresh_online_chain_leads chain_id lead_id ts limit run scan D = Inr (D', s)" and "distinct (map ch_id (gb_chains D))"
  shows "\<exists>new. set new \<subseteq> set (chain_jobs chain_id limit run scan D) \<and> (\<forall>P. length (filter P new) \<le> length (filter P (chain_jobs chain_id limit run scan D)))
    \<and> cf_inserted s = length new \<and> gb_cov D' = gb_cov D \<and> distinct (map ch_id (gb_chains D @ new))
    \<and> gb_chains D' = map (\<lambda>l. if ch_scan l = scan then chain_step (gb_cov D) l l else l) (gb_chains D @ new)"
proof -
  from refresh_chains_Inr [OF assms(1)] obtain new L where new: "set new \<subseteq> set (chain_jobs chain_id limit run scan D)"
      "\<forall>P. length (filter P new) \<le> length (filter P (chain_jobs chain_id limit run scan D))" "cf_inserted s = length new"
    and d: "distinct (map ch_id (gb_chains D @ new))"
    and D': "D' = D\<lparr>gb_chains := fold (\<lambda>l. update_where (\<lambda>r. ch_id r = ch_id l) (chain_step (gb_cov D) l))
         (sort_key (\<lambda>l. (- ch_priority l, ch_id l)) (filter (\<lambda>l. ch_scan l = scan) (gb_chains D @ new))) (gb_chains D @ new), gb_leads := L\<rparr>"
    using assms(2) by blast
  let ?all = "gb_chains D @ new"
  let ?rows = "sort_key (\<lambda>l. (- ch_priority l, ch_id l)) (filter (\<lambda>l. ch_scan l = scan) ?all)"
  have "distinct (map ch_id (filter (\<lambda>l. ch_scan l = scan) ?all))" using d by (rule distinct_map_filter)
  then have rd: "distinct (map ch_id ?rows)" by (rule distinct_map_sort)
  have step: "ch_id (chain_step C q r) = ch_id r" for C q r
    by (simp add: chain_step_def split: option.split)
  have "find_row ch_id (ch_id r) ?rows = (if ch_scan r = scan then Some r else None)" if "r \<in> set ?all" for r
  proof (cases "ch_scan r = scan")
    case True
    with that have "r \<in> set ?rows" by simp
    from find_row_unique [OF rd this] True show ?thesis by simp
  next
    case False
    have "ch_id r \<notin> ch_id ` set ?rows"
    proof
      assume "ch_id r \<in> ch_id ` set ?rows"
      then obtain q where q: "ch_id r = ch_id q" "q \<in> set ?rows" by (rule imageE)
      then have "q \<in> set ?all" "ch_scan q = scan" by auto
      with d that False q(1) show False unfolding distinct_map by (blast dest: inj_onD)
    qed
    with False show ?thesis by (simp add: find_row_None)
  qed
  then have "fold (\<lambda>l. update_where (\<lambda>r. ch_id r = ch_id l) (chain_step (gb_cov D) l)) ?rows ?all
      = map (\<lambda>l. if ch_scan l = scan then chain_step (gb_cov D) l l else l) ?all"
    unfolding fold_update_by_key [where key = ch_id and f = "chain_step (gb_cov D)", OF step rd]
    by (intro map_cong [OF refl]) auto
  with new d D' show ?thesis by (intro exI [of _ new]) simp
qed

text \<open>
  C39: chain leads stay local and follow the coverage.  A refresh keeps every chain lead with its
  link and appends new ones, as many as it reports, at most \<open>limit\<close> for any one finding.  Each new
  one links a finding of the scan that is not rejected and has a confirmed attempt to a coverage item
  of the scan that is pending or retryable, on an endpoint of the same origin and not the hypothesis
  the finding settled, with the relationship and priority that the two call for.  Afterwards the
  state of each chain lead of the scan is the one its coverage item calls for.
\<close>

theorem chain_leads_stay_local:
  assumes "refresh_online_chain_leads chain_id lead_id ts limit run scan D = Inr (D', s)"
    and "distinct (map ch_id (gb_chains D))" and "distinct (map fi_id (gb_findings D))"
  shows "\<exists>old new. gb_chains D' = old @ new
    \<and> list_all2 (\<lambda>l0 l. l = l0\<lparr>ch_state := ch_state l\<rparr>) (gb_chains D) old
    \<and> cf_inserted s = length new
    \<and> (\<forall>l\<in>set new. proper_followup scan D l)
    \<and> (\<forall>x. length (filter (\<lambda>l. ch_finding l = x) new) \<le> limit)
    \<and> (\<forall>l\<in>set (old @ new). \<forall>c. ch_scan l = scan \<and> item_of (ch_item l) (gb_cov D') = Some c \<longrightarrow>
         (ch_state l = ChQueued \<longleftrightarrow> cv_status c \<in> {CPending, CErrorRetryable})
         \<and> (ch_state l = ChRunning \<longleftrightarrow> cv_status c = CRunning))"
proof -
  obtain new where new: "set new \<subseteq> set (chain_jobs chain_id limit run scan D)"
      "\<forall>P. length (filter P new) \<le> length (filter P (chain_jobs chain_id limit run scan D))"
      "cf_inserted s = length new" "gb_cov D' = gb_cov D"
    and rows: "gb_chains D' = map (\<lambda>l. if ch_scan l = scan then chain_step (gb_cov D) l l else l) (gb_chains D @ new)"
    using refresh_chains_rows [OF assms(1,2)] by blast
  define g where "g = (\<lambda>l. if ch_scan l = scan then chain_step (gb_cov D) l l else l)"
  have form: "g l = l\<lparr>ch_state := ch_state (g l)\<rparr>" for l
    by (simp add: g_def chain_step_def split: option.split)
  have link: "ch_scan (g l) = ch_scan l" "ch_finding (g l) = ch_finding l" "ch_item (g l) = ch_item l" for l
    by (simp_all add: g_def chain_step_def split: option.split)
  have fresh: "proper_followup scan D (g l)" if "l \<in> set new" for l
  proof -
    have "proper_followup scan D l" using chain_jobs_in that new(1) by blast
    then show ?thesis by (subst form) (simp add: proper_followup_def)
  qed
  have few: "length (filter (\<lambda>l. ch_finding l = x) (map g new)) \<le> limit" for x
  proof -
    have "length (filter (\<lambda>l. ch_finding l = x) (map g new)) = length (filter (\<lambda>l. ch_finding l = x) new)"
      by (simp add: filter_map comp_def link)
    also have "\<dots> \<le> limit" using new(2) chain_jobs_each [OF assms(3)] order_trans by blast
    finally show ?thesis .
  qed
  have state: "(ch_state l = ChQueued \<longleftrightarrow> cv_status c \<in> {CPending, CErrorRetryable})
      \<and> (ch_state l = ChRunning \<longleftrightarrow> cv_status c = CRunning)"
    if "l \<in> g ` set (gb_chains D @ new)" "ch_scan l = scan" "item_of (ch_item l) (gb_cov D) = Some c" for l c
  proof -
    from that(1) obtain l1 where l: "l = g l1" by auto
    have "ch_state l = next_chain_state (cv_status c)"
      using link [of l1] that(2,3) unfolding l by (simp add: g_def chain_step_def split: if_splits)
    then show ?thesis by (cases "cv_status c") (simp_all add: next_chain_state_def cov_terminal_def)
  qed
  have all2: "list_all2 (\<lambda>l0 l. l = l0\<lparr>ch_state := ch_state l\<rparr>) (gb_chains D) (map g (gb_chains D))"
    unfolding list_all2_map2 using form by (simp add: list_all2_same)
  show ?thesis
  proof (intro exI conjI)
    show "gb_chains D' = map g (gb_chains D) @ map g new" using rows by (simp add: g_def)
    show "cf_inserted s = length (map g new)" using new(3) by simp
  qed (use all2 fresh few state new(4) in auto)
qed

section \<open>Shelved leads never return\<close>

text \<open>The queue reads the nodes of the graph; a metadata entry that is not a string never matches an identifier.\<close>

definition node_view :: "node_row \<Rightarrow> graph_node" where
  "node_view n = \<lparr>gn_id = nd_id n, gn_scan = nd_scan n, gn_kind = nd_kind n, gn_priority = nd_priority n,
     gn_active = (nd_state n = ''active''), gn_updated = nd_updated n,
     gn_meta = List.map_filter (\<lambda>(k, v). case v of PStr s \<Rightarrow> Some (k, s) | _ \<Rightarrow> None) (nd_meta n)\<rparr>"

definition queue_view :: "graph_db \<Rightarrow> queue_db" where
  "queue_view D = \<lparr>wq_cov = gb_cov D, wq_nodes = map node_view (gb_nodes D),
     wq_revisions = map (\<lambda>r. (rv_scan r, rv_ident r)) (gb_revisions D), wq_leads = gb_leads D\<rparr>"

definition on_queue :: "(queue_db \<Rightarrow> queue_db) \<Rightarrow> graph_db \<Rightarrow> graph_db" where
  "on_queue f D = D\<lparr>gb_leads := wq_leads (f (queue_view D))\<rparr>"

text \<open>Everything that may happen to the lead queue, and anything at all that happens to the other tables.\<close>

datatype attack_op =
    RefreshLeads string string
  | MarkLeads string string "(string \<times> string) list" queue_selection
  | ReconcileLeads string string
  | RefreshChains string nat "string option" string
  | Elsewhere graph_db

fun attack_after ::
  "(string \<Rightarrow> string \<Rightarrow> string \<Rightarrow> string) \<Rightarrow> (string \<Rightarrow> string \<Rightarrow> string \<Rightarrow> string) \<Rightarrow> attack_op \<Rightarrow> graph_db \<Rightarrow> graph_db" where
  "attack_after chain_id lead_id (RefreshLeads ts scan) D = on_queue (refresh_lead_queue lead_id ts scan) D"
| "attack_after chain_id lead_id (MarkLeads scan run tasks sel) D = on_queue (mark_claimed_leads scan run tasks sel) D"
| "attack_after chain_id lead_id (ReconcileLeads scan run) D = on_queue (reconcile_lead_queue scan run) D"
| "attack_after chain_id lead_id (RefreshChains ts limit run scan) D =
     attempt (\<lambda>D. map_sum id fst (refresh_online_chain_leads chain_id lead_id ts limit run scan D)) D"
| "attack_after chain_id lead_id (Elsewhere X) D = X\<lparr>gb_leads := gb_leads D\<rparr>"

lemma shelved_push:
  assumes "shelved i st leads"
  shows "shelved i st (push_lead lead_id ts scan l c node leads)"
  unfolding push_lead_def Let_def
proof (rule shelved_update, goal_cases)
  case 1
  let ?q = "\<lparr>lq_id = lead_id scan node (ch_item l), lq_scan = scan, lq_source = node, lq_item = ch_item l,
     lq_endpoint = cv_endpoint c, lq_vuln = cv_vuln c, lq_skill = cv_skill c, lq_priority = ch_priority l,
     lq_state = LeadQueued, lq_reason = chain_reason l, lq_revision = None, lq_run = None, lq_task = None, lq_created = ts\<rparr>"
  show ?case
  proof (cases "lead_id scan node (ch_item l) \<in> lq_id ` set leads")
    case True
    then have "\<exists>r\<in>set leads. lq_id r = lead_id scan node (ch_item l)" by auto
    with assms show ?thesis by auto
  next
    case False
    then have "shelved i st (leads @ [?q])" using assms by (intro shelved_append) simp_all
    with assms show ?thesis by simp
  qed
qed (simp_all add: shelved_row_def)

lemma shelved_follow: "shelved i st (gb_leads D) \<Longrightarrow> shelved i st (gb_leads (follow_chain lead_id ts scan l D))"
  by (auto simp: follow_chain_def Let_def shelved_push split: option.split)

lemma shelved_follows: "shelved i st (gb_leads D) \<Longrightarrow> shelved i st (gb_leads (fold (follow_chain lead_id ts scan) ls D))"
  by (induction ls arbitrary: D) (simp_all add: shelved_follow)

lemma shelved_chains:
  assumes "shelved i st (gb_leads D)" "refresh_online_chain_leads chain_id lead_id ts limit run scan D = Inr (D', s)"
  shows "shelved i st (gb_leads D')"
proof -
  obtain D1 where ins: "foldR insert_chain (chain_jobs chain_id limit run scan D) D = Inr D1"
    and D': "D' = fold (follow_chain lead_id ts scan) (sort_key (\<lambda>l. (- ch_priority l, ch_id l)) (filter (\<lambda>l. ch_scan l = scan) (gb_chains D1))) D1"
    using assms(2) unfolding refresh_online_chain_leads_def Let_def by (auto simp: bindR_eq_Inr split: if_splits)
  from insert_chains_Inr [OF ins] have "gb_leads D1 = gb_leads D" by auto
  with assms(1) show ?thesis unfolding D' by (intro shelved_follows) simp
qed

lemma shelved_after: "shelved i st (gb_leads D) \<Longrightarrow> shelved i st (gb_leads (attack_after chain_id lead_id x D))"
proof (cases x)
  case (RefreshChains ts limit run scan)
  then show "shelved i st (gb_leads D) \<Longrightarrow> ?thesis"
    using shelved_chains [of i st D chain_id lead_id ts limit run scan]
    by (cases "refresh_online_chain_leads chain_id lead_id ts limit run scan D") (auto simp: attempt_def)
qed (simp_all add: on_queue_def queue_view_def shelved_refresh shelved_marks shelved_reconcile)

text \<open>
  C40: a shelved lead never returns.  Once a lead is deferred, completed or cancelled, or claimed by no
  run (as reconciliation leaves the lead of an item that is still running), then after any sequence
  of queue refreshes, claims, reconciliations and chain refreshes, whatever happens to the other
  tables in between, the lead still has that state and is never selected for a batch; so the lead of
  an item that was blocked stays deferred after the item is pending again.
\<close>

theorem shelved_leads_never_return:
  assumes "distinct (map lq_id (gb_leads D))" and "q \<in> set (gb_leads D)"
    and "lq_state q \<in> {LeadDeferred, LeadCompleted, LeadCancelled} \<or> lq_state q = LeadClaimed \<and> lq_run q = None"
  shows "(\<exists>q'\<in>set (gb_leads (fold (attack_after chain_id lead_id) ops D)). lq_id q' = lq_id q \<and> lq_state q' = lq_state q)
    \<and> lq_id q \<notin> lq_id ` set (selectable scan (queue_view (fold (attack_after chain_id lead_id) ops D)))"
proof -
  have "shelved (lq_id q) (lq_state q) (gb_leads D)"
    using assms by (auto simp: shelved_def shelved_row_def)
  then have all: "shelved (lq_id q) (lq_state q) (gb_leads (fold (attack_after chain_id lead_id) ops D))"
    by (induction ops arbitrary: D) (simp_all add: shelved_after)
  then have "shelved (lq_id q) (lq_state q) (wq_leads (queue_view (fold (attack_after chain_id lead_id) ops D)))"
    by (simp add: queue_view_def)
  from shelved_not_selectable [OF this, of scan]
  have "lq_id q \<notin> lq_id ` set (selectable scan (queue_view (fold (attack_after chain_id lead_id) ops D)))" by fastforce
  moreover from all have "\<exists>q'\<in>set (gb_leads (fold (attack_after chain_id lead_id) ops D)). lq_id q' = lq_id q \<and> lq_state q' = lq_state q"
    unfolding shelved_def shelved_row_def by blast
  ultimately show ?thesis by blast
qed

section \<open>Examples\<close>

definition sample_proven :: graph_finding where
  "sample_proven = \<lparr>fi_id = ''f'', fi_scan = ''s'', fi_endpoint = Some ''e'', fi_vuln = ''sqli'', fi_severity = ''HIGH'', fi_title = ''t'',
     fi_description = None, fi_status = ''confirmed'', fi_created = ''t0''\<rparr>"

definition sample_proof :: attempt_row where
  "sample_proof = \<lparr>aa_id = ''p'', aa_scan = ''s'', aa_task = None, aa_skill = ''hunt-sqli'', aa_outcome = ''confirmed'',
     aa_finding = Some ''f'', aa_endpoint = ''e'', aa_fingerprint = ''fp'', aa_response = Some 200, aa_identity = ''unauthenticated'',
     aa_variant = ''v'', aa_resolution = None, aa_resolved = None, aa_created = ''t0''\<rparr>"

definition sample_chain_graph :: graph_db where
  "sample_chain_graph = (sample_graph [])\<lparr>
     gb_pre := (gb_pre (sample_graph []))\<lparr>pd_cov := (gb_cov (sample_graph []))\<lparr>cb_attempts := [sample_proof]\<rparr>\<rparr>,
     gb_findings := [sample_proven], gb_leads := [sample_lead\<lparr>lq_state := LeadDeferred\<rparr>]\<rparr>"

lemma sample_chain_job:
  "chain_jobs (\<lambda>s f c. f @ c) 8 None ''s'' sample_chain_graph
     = [\<lparr>ch_id = ''fa'', ch_scan = ''s'', ch_finding = ''f'', ch_item = ''a'', ch_relationship = ''same_endpoint_followup'',
         ch_state = ChQueued, ch_priority = 100, ch_run = None\<rparr>]"
proof -
  let ?D = sample_chain_graph and ?c = "sample_item ''a'' CPending" and ?f = sample_proven
  have tables: "cb_items (gb_cov ?D) = [?c]" "gb_findings ?D = [?f]" "cb_attempts (gb_cov ?D) = [sample_proof]"
    by (simp_all add: sample_chain_graph_def sample_graph_def sample_pre_def sample_cov_def)
  have site: "\<exists>s. site_of ?D (Some ''e'') = Some s"
    by (simp add: site_of_def find_row_def sample_chain_graph_def sample_graph_def)
  have f: "fi_scan ?f = ''s''" "fi_id ?f = ''f''" "fi_endpoint ?f = Some ''e''" "fi_status ?f = ''confirmed''" "fi_vuln ?f = ''sqli''"
    by (simp_all add: sample_proven_def)
  have c: "cv_scan ?c = ''s''" "cv_id ?c = ''a''" "cv_endpoint ?c = ''e''" "cv_vuln ?c = ''xss''" "claimable_status ?c"
    by (simp_all add: sample_item_def claimable_status_def)
  have "confirmed_attempt ?D ?f sample_proof" by (simp add: confirmed_attempt_def tables f) (simp add: sample_proof_def)
  then have findings: "chain_findings ''s'' ?D = [?f]" using site by (auto simp: chain_findings_def tables f)
  have "chain_candidate ''s'' ?D ?f ?c" using site by (auto simp: chain_candidate_def f c)
  then have "ranked_followups 8 ''s'' ?D ?f = [(100, ''same_endpoint_followup'', ?c)]"
    by (simp add: ranked_followups_def tables rank_followup_def f c List.map_filter_def)
  moreover have "source_stage ?D ?f = None"
    using \<open>confirmed_attempt ?D ?f sample_proof\<close> by (simp add: source_stage_def tables) (simp add: sample_proof_def)
  ultimately show ?thesis by (simp add: chain_jobs_def findings new_chain_def f c or_run_def)
qed

lemma sample_refreshes:
  "\<exists>D' s. refresh_online_chain_leads (\<lambda>s f c. f @ c) (\<lambda>s n c. n @ c) ''t0'' 8 None ''s'' sample_chain_graph = Inr (D', s) \<and> cf_inserted s = 1"
proof -
  let ?D = sample_chain_graph
  have tables: "gb_chains ?D = []" "d_scans (gb_pipe ?D) = [''s'']"
    by (simp_all add: sample_chain_graph_def sample_graph_def sample_pre_def sample_cov_def fresh_db_def)
  show ?thesis
    by (simp add: refresh_online_chain_leads_def sample_chain_job insert_chain_def tables Let_def)
qed

lemma chain_leads_stay_local_witness:
  "\<exists>D' s. refresh_online_chain_leads (\<lambda>s f c. f @ c) (\<lambda>s n c. n @ c) ''t0'' 8 None ''s'' sample_chain_graph = Inr (D', s)
     \<and> (\<exists>l. gb_chains D' = [l] \<and> proper_followup ''s'' sample_chain_graph l)"
proof -
  have d: "distinct (map ch_id (gb_chains sample_chain_graph))" "distinct (map fi_id (gb_findings sample_chain_graph))"
    and none: "gb_chains sample_chain_graph = []" by (simp_all add: sample_chain_graph_def sample_graph_def)
  obtain D' s where r: "refresh_online_chain_leads (\<lambda>s f c. f @ c) (\<lambda>s n c. n @ c) ''t0'' 8 None ''s'' sample_chain_graph = Inr (D', s)"
    and one: "cf_inserted s = 1" using sample_refreshes by blast
  from chain_leads_stay_local [OF r d] obtain new :: "chain_lead list" where "gb_chains D' = new" "length new = 1"
    "list_all (proper_followup ''s'' sample_chain_graph) new" unfolding none one list_all_iff by auto
  then show ?thesis using r by (auto simp: length_Suc_conv)
qed

lemma shelved_leads_never_return_witness:
  "''l'' \<notin> lq_id ` set (selectable ''s'' (queue_view (fold (attack_after (\<lambda>s f c. f @ c) (\<lambda>s n c. n @ c))
      [RefreshLeads ''t0'' ''s'', RefreshChains ''t0'' 8 None ''s'', ReconcileLeads ''s'' ''r''] sample_chain_graph)))"
proof -
  have d: "distinct (map lq_id (gb_leads sample_chain_graph))" by (simp add: sample_chain_graph_def)
  have q: "sample_lead\<lparr>lq_state := LeadDeferred\<rparr> \<in> set (gb_leads sample_chain_graph)" by (simp add: sample_chain_graph_def)
  have s: "lq_state (sample_lead\<lparr>lq_state := LeadDeferred\<rparr>) \<in> {LeadDeferred, LeadCompleted, LeadCancelled}
     \<or> lq_state (sample_lead\<lparr>lq_state := LeadDeferred\<rparr>) = LeadClaimed \<and> lq_run (sample_lead\<lparr>lq_state := LeadDeferred\<rparr>) = None" by simp
  have "lq_id (sample_lead\<lparr>lq_state := LeadDeferred\<rparr>) = ''l''" by (simp add: sample_lead_def)
  with shelved_leads_never_return [OF d q s] show ?thesis by metis
qed

end
