(* ===== verification/Attack_Batch.thy ===== *)
theory Attack_Batch
  imports Online_Chaining
begin

text \<open>
  \<open>src/src/aidast/orchestration/coverage_attack.py\<close>: the batches of an exhaustive Attack run.
  \<open>start_batch\<close> opens a stage run and claims its tasks, \<open>complete_batch\<close> closes a batch that
  succeeded, \<open>recover_failed_batch\<close> one that failed, and \<open>finish_result\<close> ends the run.
  The native agents, the deterministic probes and the switch to a fallback model act outside the
  database and are not modelled.  \<open>ts\<close> stands for the clock.
\<close>

section \<open>Transactions that are committed on the way\<close>

text \<open>
  Every operation runs in one \<open>with conn\<close> block, but \<open>start_stage_run\<close>, \<open>create_task\<close>,
  \<open>transition_task\<close> and \<open>finish_stage_run\<close> open a \<open>with conn\<close> block of their own, whose end
  commits everything written so far.  A transaction therefore carries the committed database beside
  the working one, and an error carries the database that is left.
\<close>

type_synonym tx = "graph_db \<times> graph_db"

type_synonym 'a outcome = "(db_error \<times> graph_db, 'a) result"

definition plain :: "(graph_db \<Rightarrow> (db_error, graph_db) result) \<Rightarrow> tx \<Rightarrow> tx outcome" where
  "plain f S = (case f (snd S) of Inl e \<Rightarrow> Inl (e, fst S) | Inr W \<Rightarrow> Inr (fst S, W))"

definition saved :: "(graph_db \<Rightarrow> (db_error, graph_db) result) \<Rightarrow> tx \<Rightarrow> tx outcome" where
  "saved f S = (case f (snd S) of Inl e \<Rightarrow> Inl (e, fst S) | Inr W \<Rightarrow> Inr (W, W))"

definition transaction :: "(tx \<Rightarrow> (tx \<times> 'a) outcome) \<Rightarrow> graph_db \<Rightarrow> (graph_db \<times> 'a) outcome" where
  "transaction f D = bindR (f (D, D)) (\<lambda>(S, x). Inr (snd S, x))"

text \<open>The database after an operation, whether it returned or raised.\<close>

definition left_by :: "(graph_db \<times> 'a) outcome \<Rightarrow> graph_db" where
  "left_by r = (case r of Inl (e, D) \<Rightarrow> D | Inr (D, x) \<Rightarrow> D)"

definition on_pre :: "(pre_db \<Rightarrow> (db_error, pre_db) result) \<Rightarrow> graph_db \<Rightarrow> (db_error, graph_db) result" where
  "on_pre f D = map_sum id (\<lambda>A. D\<lparr>gb_pre := A\<rparr>) (f (gb_pre D))"

definition on_cov :: "(cov_db \<Rightarrow> (db_error, cov_db) result) \<Rightarrow> graph_db \<Rightarrow> (db_error, graph_db) result" where
  "on_cov f = on_pre (\<lambda>A. map_sum id (\<lambda>C. A\<lparr>pd_cov := C\<rparr>) (f (pd_cov A)))"

definition on_pipe :: "(pipe_db \<Rightarrow> (db_error, pipe_db) result) \<Rightarrow> graph_db \<Rightarrow> (db_error, graph_db) result" where
  "on_pipe f = on_cov (\<lambda>C. map_sum id (\<lambda>P. C\<lparr>cb_pipe := P\<rparr>) (f (cb_pipe C)))"

text \<open>
  The settings of the coordinator (\<open>batch_size\<close>, \<open>retry_limit\<close>) and the identifiers, digests and
  credential checks that the components underneath take as arguments.
\<close>

record batch_env =
  be_batch :: nat
  be_retry :: nat
  be_graph :: graph_env
  be_chain :: "string \<Rightarrow> string \<Rightarrow> string \<Rightarrow> string"
  be_lead :: "string \<Rightarrow> string \<Rightarrow> string \<Rightarrow> string"
  be_pre :: pre_env
  be_context :: claim_context
  be_task :: "string \<Rightarrow> string"
  be_shown :: "nat \<Rightarrow> string"
  be_epoch :: "rat option"

section \<open>Why a batch failed\<close>

datatype failure_class = CoordinatorError | BatchFailure | UnresolvedLead | OtherFailure

record failure =
  fl_class :: failure_class
  fl_code :: "string option"
  fl_attempts :: "string list"
  fl_text :: string

definition is_batch_failure :: "failure \<Rightarrow> bool" where
  "is_batch_failure x \<longleftrightarrow> fl_class x \<in> {BatchFailure, UnresolvedLead}"

definition unresolved_failure :: "string list \<Rightarrow> string \<Rightarrow> failure" where
  "unresolved_failure attempts shown = \<lparr>fl_class = UnresolvedLead, fl_code = Some ''unresolved_lead'',
     fl_attempts = attempts, fl_text = ''Attack Agent left '' @ shown @ '' unresolved lead(s)''\<rparr>"

definition model_stopped :: "failure \<Rightarrow> bool" where
  "model_stopped x \<longleftrightarrow> fl_code x \<in> {Some ''model_capacity'', Some ''timeout''}"

definition model_refused :: "failure \<Rightarrow> bool" where
  "model_refused x \<longleftrightarrow> fl_code x = Some ''model_policy_refusal''"

section \<open>What a batch left open\<close>

definition open_lead :: "attempt_row \<Rightarrow> bool" where
  "open_lead a \<longleftrightarrow> aa_outcome a = ''lead'' \<and> aa_finding a = None \<and> aa_resolved a = None"

definition task_in :: "cov_db \<Rightarrow> string \<Rightarrow> string option \<Rightarrow> bool" where
  "task_in C run task \<longleftrightarrow> (\<exists>t\<in>set (d_tasks (cb_pipe C)). task = Some (at_id t) \<and> at_run t = run)"

definition open_leads :: "string \<Rightarrow> cov_db \<Rightarrow> attempt_row list" where
  "open_leads run C = filter (\<lambda>a. open_lead a \<and> task_in C run (aa_task a)) (cb_attempts C)"

definition named_leads :: "string list \<Rightarrow> cov_db \<Rightarrow> attempt_row list" where
  "named_leads ids C = filter (\<lambda>a. open_lead a \<and> aa_id a \<in> set ids) (cb_attempts C)"

definition unknown_requests :: "string \<Rightarrow> cov_db \<Rightarrow> request_row list" where
  "unknown_requests run C = filter (\<lambda>r. hr_run r = run
     \<and> hr_status r \<in> {''reserved'', ''running'', ''outcome_unknown''}) (cb_requests C)"

definition open_tasks :: "string \<Rightarrow> pipe_db \<Rightarrow> attack_task list" where
  "open_tasks run P = filter (\<lambda>t. at_status t \<in> {JPending, JRunning}) (stage_tasks run P)"

definition leased :: "string \<Rightarrow> cov_item \<Rightarrow> bool" where
  "leased run c \<longleftrightarrow> cv_run c = Some run \<and> cv_status c = CRunning"

section \<open>Recovering from the cause\<close>

definition end_task :: "string \<Rightarrow> string \<Rightarrow> job_status \<Rightarrow> attack_task \<Rightarrow> tx \<Rightarrow> tx outcome" where
  "end_task ts reason status t = saved (on_pipe (transition_task (at_id t) status (Some reason) ts))"

definition cancel_open :: "string \<Rightarrow> string \<Rightarrow> string \<Rightarrow> tx \<Rightarrow> tx outcome" where
  "cancel_open ts run reason S = foldR (end_task ts reason JCancelled) (open_tasks run (gb_pipe (snd S))) S"

definition resolve_leads :: "string \<Rightarrow> string \<Rightarrow> string \<Rightarrow> tx \<Rightarrow> tx outcome" where
  "resolve_leads ts run reason =
     plain (on_cov (\<lambda>C. map_sum id fst (resolve_interrupted_stage_leads ts run reason C)))"

definition move_item :: "string \<Rightarrow> string \<Rightarrow> cov_item \<Rightarrow> cov_status \<Rightarrow> string \<Rightarrow> tx \<Rightarrow> tx outcome" where
  "move_item ts run c nxt reason =
     plain (on_cov (transition_coverage ts (cv_id c) nxt reason (Some run) (cv_task c) None))"

definition stop_reason :: "bool \<Rightarrow> string" where
  "stop_reason capacity =
     (if capacity then ''Attack model capacity was temporarily unavailable; ''
      else ''Attack model stopped after the bounded no-progress deadline; '')
     @ ''retry this coverage item in a fresh bounded batch.''"

definition interrupted_reason :: string where
  "interrupted_reason = ''bounded Attack model invocation ended before this lead was promoted; fresh coverage retry must reproduce it''"

definition recover_stopped :: "string \<Rightarrow> string \<Rightarrow> bool \<Rightarrow> tx \<Rightarrow> tx outcome" where
  "recover_stopped ts run capacity S =
     bindR (cancel_open ts run (stop_reason capacity) S) (\<lambda>S.
     bindR (plain (on_cov (release_unattempted_coverage ts run (stop_reason capacity))) S)
           (resolve_leads ts run interrupted_reason))"

definition lead_coverage :: "string \<Rightarrow> string list \<Rightarrow> cov_db \<Rightarrow> cov_item list" where
  "lead_coverage run ids C = filter (\<lambda>c. leased run c
     \<and> (\<exists>a\<in>set (named_leads ids C). aa_task a = cv_task c \<and> task_in C run (aa_task a))) (cb_items C)"

definition provisional_reason :: string where
  "provisional_reason = ''Attack batch returned before resolving a provisional lead; fresh coverage retry must reproduce or reject it.''"

definition retry_reason :: string where
  "retry_reason = ''retry limit reached after unresolved provisional lead''"

definition recover_unresolved :: "nat \<Rightarrow> string \<Rightarrow> string \<Rightarrow> string list \<Rightarrow> tx \<Rightarrow> tx outcome" where
  "recover_unresolved limit ts run ids S =
     (let rows = lead_coverage run ids (gb_cov (snd S))
      in bindR (resolve_leads ts run provisional_reason S) (\<lambda>S.
         bindR (cancel_open ts run provisional_reason S)
               (foldR (\<lambda>c. if limit \<le> cv_attempts c then move_item ts run c CErrorTerminal retry_reason
                           else move_item ts run c CErrorRetryable provisional_reason) rows)))"

definition refusal_reason :: "bool \<Rightarrow> string" where
  "refusal_reason isolate =
     (if isolate
      then ''Attack model policy refused a multi-task batch before producing HTTP evidence; retry each task independently.''
      else ''Attack model policy refused this bounded task; no HTTP request or unresolved lead was produced, so the task was not tested.'')"

definition recover_refused :: "string \<Rightarrow> string \<Rightarrow> tx \<Rightarrow> tx outcome" where
  "recover_refused ts run S =
     (let C = gb_cov (snd S); tasks = open_tasks run (cb_pipe C); isolate = 1 < length tasks
      in if open_leads run C \<noteq> [] \<or> unknown_requests run C \<noteq> [] then Inr S
         else bindR (foldR (\<lambda>t. end_task ts (refusal_reason isolate)
                       (if isolate \<or> at_status t = JRunning then JCancelled else JSkipped) t) tasks S) (\<lambda>S.
              if isolate then Inr S
              else foldR (\<lambda>c. move_item ts run c CUnsupported (refusal_reason isolate))
                     (select_items (leased run) (gb_cov (snd S))) S))"

definition recover_cause :: "nat \<Rightarrow> string \<Rightarrow> string \<Rightarrow> failure \<Rightarrow> tx \<Rightarrow> tx outcome" where
  "recover_cause limit ts run x S =
     bindR (if model_stopped x then recover_stopped ts run (fl_code x = Some ''model_capacity'') S else Inr S) (\<lambda>S.
     bindR (if fl_class x = UnresolvedLead \<and> fl_attempts x \<noteq> []
            then recover_unresolved limit ts run (fl_attempts x) S else Inr S) (\<lambda>S.
     if model_refused x then recover_refused ts run S else Inr S))"

section \<open>Probes that were stopped\<close>

definition stopped_probe :: "cov_db \<Rightarrow> string \<Rightarrow> request_row \<Rightarrow> cov_item \<Rightarrow> bool" where
  "stopped_probe C run r c \<longleftrightarrow> hr_run r = run \<and> hr_status r = ''outcome_unknown'' \<and> hr_finished r \<noteq> None
     \<and> hr_risk r = ''http_probe'' \<and> hr_method r \<in> {''GET'', ''HEAD'', ''OPTIONS''}
     \<and> (\<exists>t\<in>set (d_tasks (cb_pipe C)). at_id t = hr_task r \<and> at_run t = run \<and> at_scan t = hr_scan r
          \<and> at_status t = JFailed \<and> cv_task c = Some (at_id t) \<and> cv_run c = Some run \<and> cv_scan c = at_scan t)
     \<and> cv_status c \<in> {CErrorRetryable, CErrorTerminal}"

definition stopped_probes :: "cov_db \<Rightarrow> string \<Rightarrow> (request_row \<times> cov_item) list" where
  "stopped_probes C run = concat (map (\<lambda>r. map (Pair r) (filter (stopped_probe C run r) (cb_items C))) (cb_requests C))"

definition probe_reason :: "request_row \<Rightarrow> string" where
  "probe_reason r = ''Stopped HTTP probe '' @ hr_id r @ '' has an unknown response (''
     @ (if truthy (hr_error r) then or_blank (hr_error r) else ''transport failure'')
     @ ''); not tested, automatic retry disabled.''"

definition close_probe :: "string \<Rightarrow> string \<Rightarrow> request_row \<times> cov_item \<Rightarrow> cov_db \<Rightarrow> (db_error, cov_db) result" where
  "close_probe ts run p C = (case p of (r, c) \<Rightarrow>
     if cov_state C (cv_id c) = Some CErrorRetryable
     then transition_coverage ts (cv_id c) CErrorTerminal (probe_reason r) (Some run) (Some (hr_task r)) None C
     else if cov_state C (cv_id c) = Some CErrorTerminal
     then Inr (set_item (cv_id c) (\<lambda>k. k\<lparr>cv_reason := Some (probe_reason r), cv_updated := ts\<rparr>) C)
     else Inr C)"

definition record_stopped_probes :: "string \<Rightarrow> string \<Rightarrow> tx \<Rightarrow> (tx \<times> string set) outcome" where
  "record_stopped_probes ts run S =
     (let rows = stopped_probes (gb_cov (snd S)) run
      in bindR (plain (on_cov (foldR (close_probe ts run) rows)) S) (\<lambda>S. Inr (S, set (map (hr_id \<circ> fst) rows))))"

section \<open>Closing a batch\<close>

definition reconcile_items :: "batch_env \<Rightarrow> string \<Rightarrow> string \<Rightarrow> tx \<Rightarrow> tx outcome" where
  "reconcile_items B ts run = plain (on_cov (reconcile_coverage_batch ts run (be_retry B)))"

definition reconcile_leads :: "string \<Rightarrow> string \<Rightarrow> tx \<Rightarrow> tx outcome" where
  "reconcile_leads scan run = plain (\<lambda>D. Inr (on_queue (reconcile_lead_queue scan run) D))"

definition sync_graph :: "batch_env \<Rightarrow> string \<Rightarrow> string \<Rightarrow> string option \<Rightarrow> string \<Rightarrow> tx \<Rightarrow> tx outcome" where
  "sync_graph B ts scan run trigger =
     plain (\<lambda>D. map_sum id fst (synchronize_attack_graph (be_graph B) ts run trigger scan D))"

definition refresh_graph ::
  "batch_env \<Rightarrow> string \<Rightarrow> string \<Rightarrow> string option \<Rightarrow> string \<Rightarrow> string \<Rightarrow> tx \<Rightarrow> tx outcome" where
  "refresh_graph B ts scan run before after S =
     bindR (sync_graph B ts scan run before S) (\<lambda>S.
     bindR (plain (\<lambda>D. map_sum id fst (refresh_online_chain_leads (be_chain B) (be_lead B) ts 8 run scan D)) S)
           (sync_graph B ts scan run after))"

definition end_stage :: "batch_env \<Rightarrow> string \<Rightarrow> string \<Rightarrow> job_status \<Rightarrow> string option \<Rightarrow> bool \<Rightarrow> tx \<Rightarrow> tx outcome" where
  "end_stage B ts run status err allow = saved (on_pipe (finish_stage_run run status err allow ts (be_epoch B)))"

text \<open>
  The two success branches of \<open>run\<close>: a batch that the deterministic probes finished alone may
  complete over failed tasks, a batch of native agents may not.
\<close>

definition complete_batch :: "batch_env \<Rightarrow> string \<Rightarrow> string \<Rightarrow> string \<Rightarrow> bool \<Rightarrow> graph_db \<Rightarrow> (graph_db \<times> unit) outcome" where
  "complete_batch B ts scan run deterministic = transaction (\<lambda>S.
     bindR (reconcile_items B ts run S) (\<lambda>S.
     bindR (reconcile_leads scan run S) (\<lambda>S.
     bindR (end_stage B ts run JCompleted None deterministic S) (\<lambda>S.
     bindR (refresh_graph B ts scan (Some run)
        (if deterministic then ''deterministic.batch.completed'' else ''agent.batch.completed'')
        ''online.chains.changed'' S) (\<lambda>S. Inr (S, ()))))))"

text \<open>What \<open>_recover_failed_batch\<close> decides once the causes are dealt with and the items reconciled.\<close>

definition no_leads :: "string \<Rightarrow> string list \<Rightarrow> cov_db \<Rightarrow> bool" where
  "no_leads run named C \<longleftrightarrow> open_leads run C = [] \<and> named_leads named C = []"

definition all_settled :: "string \<Rightarrow> string set \<Rightarrow> cov_db \<Rightarrow> bool" where
  "all_settled run stopped C \<longleftrightarrow> set (map hr_id (unknown_requests run C)) \<subseteq> stopped \<and> open_tasks run (cb_pipe C) = []"

definition recoverable :: "failure \<Rightarrow> bool \<Rightarrow> bool" where
  "recoverable x can \<longleftrightarrow> (is_batch_failure x \<or> model_refused x \<or> model_stopped x) \<and> can"

definition close_failed :: "batch_env \<Rightarrow> string \<Rightarrow> string \<Rightarrow> failure \<Rightarrow> bool \<Rightarrow> tx \<Rightarrow> tx outcome" where
  "close_failed B ts run x can S =
     (case find_row sr_id run (d_stages (gb_pipe (snd S))) of
        None \<Rightarrow> Inl (ValueErr ''unknown stage run'', fst S)
      | Some s \<Rightarrow>
          bindR (if sr_status s = JRunning
                 then end_stage B ts run (if recoverable x can then JCompleted else JFailed)
                        (if recoverable x can then None else Some (fl_text x)) (recoverable x can) S
                 else Inr S) (\<lambda>S.
          bindR (reconcile_leads (sr_scan s) run S)
                (refresh_graph B ts (sr_scan s) (Some run) ''agent.batch.recovered'' ''online.chains.changed'')))"

definition recover_failed_batch :: "batch_env \<Rightarrow> string \<Rightarrow> string \<Rightarrow> failure \<Rightarrow> graph_db \<Rightarrow> (graph_db \<times> bool) outcome" where
  "recover_failed_batch B ts run x = transaction (\<lambda>S.
     bindR (recover_cause (be_retry B) ts run x S) (\<lambda>S.
     bindR (reconcile_items B ts run S) (\<lambda>S.
     let quiet = no_leads run (fl_attempts x) (gb_cov (snd S))
     in bindR (if is_batch_failure x then record_stopped_probes ts run S else Inr (S, {})) (\<lambda>(S, stopped).
        let can = (quiet \<and> all_settled run stopped (gb_cov (snd S)))
        in bindR (close_failed B ts run x can S) (\<lambda>S. Inr (S, can))))))"

text \<open>Which failures let \<open>run\<close> go on with the next batch; every other one is raised again.\<close>

definition goes_on :: "failure \<Rightarrow> bool \<Rightarrow> bool" where
  "goes_on x can \<longleftrightarrow> can \<and> (if fl_class x = OtherFailure then model_refused x \<or> model_stopped x else is_batch_failure x)"

section \<open>Starting a batch\<close>

definition claim_saved :: "batch_env \<Rightarrow> string \<Rightarrow> string \<Rightarrow> string \<Rightarrow> cov_item
     \<Rightarrow> tx \<times> (string \<times> string \<times> string) list \<Rightarrow> (tx \<times> (string \<times> string \<times> string) list) outcome" where
  "claim_saved B ts scan run c X = (case X of (S, claimed) \<Rightarrow>
     (case endpoint_of (gb_cov (snd S)) c of
        None \<Rightarrow> Inr (S, claimed)
      | Some e \<Rightarrow>
          (case claim_task (pe_net (be_pre B)) (pe_usable (be_pre B)) (be_context B) (be_task B) scan run c e (gb_cov (snd S)) of
             Inl err \<Rightarrow> Inl (err, fst S)
           | Inr (P, role) \<Rightarrow>
               bindR (saved (on_pipe (\<lambda>_. Inr P)) S) (\<lambda>S.
               bindR (plain (on_cov (claim_lease (be_task B) ts run c)) S) (\<lambda>S.
               Inr (S, claimed @ [(be_task B (cv_id c), cv_id c, role)]))))))"

definition claim_batch :: "batch_env \<Rightarrow> string \<Rightarrow> string \<Rightarrow> string \<Rightarrow> string list \<Rightarrow> tx
     \<Rightarrow> (tx \<times> (string \<times> string \<times> string) list) outcome" where
  "claim_batch B ts scan run wanted S =
     (if be_batch B < 1 \<or> 50 < be_batch B
      then Inl (ValueErr ''coverage batch size must be between 1 and 50'', fst S)
      else bindR (plain (on_cov (block_unavailable_authenticated_coverage (pe_net (be_pre B)) (pe_usable (be_pre B)) ts scan run)) S) (\<lambda>S.
           bindR (plain (on_cov (requeue_oversized_policy_refusals ts scan (int (be_batch B)) (be_shown B (be_batch B)))) S) (\<lambda>S.
           foldR (claim_saved B ts scan run)
             (claim_rows (be_context B) scan (int (be_batch B)) (be_retry B) wanted (gb_cov (snd S))) (S, []))))"

text \<open>
  A task as it is handed to the agents.  The texts that explain the selection and the template
  identifiers of the skill are left out.
\<close>

record batch_task =
  bt_task :: string
  bt_item :: string
  bt_role :: string
  bt_leads :: "string list"
  bt_context :: graph_context

definition leads_of_task :: "string \<Rightarrow> string \<Rightarrow> string \<Rightarrow> lead_row list \<Rightarrow> string list" where
  "leads_of_task scan run task leads = map lq_id (sort_key (\<lambda>q. (- lq_priority q, lq_id q))
     (filter (\<lambda>q. lq_scan q = scan \<and> lq_run q = Some run \<and> lq_task q = Some task) leads))"

definition batch_task_of :: "string \<Rightarrow> string \<Rightarrow> graph_db \<Rightarrow> string \<times> string \<times> string \<Rightarrow> (db_error, batch_task) result" where
  "batch_task_of scan run D claim = (case claim of (task, item, role) \<Rightarrow>
     bindR (graph_context_for_endpoint scan (case item_of item (gb_cov D) of None \<Rightarrow> [] | Some c \<Rightarrow> cv_endpoint c) 32 D) (\<lambda>context.
     Inr \<lparr>bt_task = task, bt_item = item, bt_role = role,
          bt_leads = leads_of_task scan run task (gb_leads D), bt_context = context\<rparr>))"

definition start_batch :: "batch_env \<Rightarrow> string \<Rightarrow> string \<Rightarrow> string \<Rightarrow> graph_db \<Rightarrow> (graph_db \<times> batch_task list) outcome" where
  "start_batch B ts scan run = transaction (\<lambda>S.
     bindR (saved (on_pipe (start_stage_run run [] scan ''attack'' None ts)) S) (\<lambda>S.
     bindR (plain (on_pre (\<lambda>A. map_sum id fst (resolve_attack_preconditions (be_pre B) ts scan A))) S) (\<lambda>S.
     bindR (plain (on_cov (requeue_credential_blocked_coverage (pe_net (be_pre B)) (pe_usable (be_pre B)) (be_shown B) ts scan)) S) (\<lambda>S.
     bindR (refresh_graph B ts scan (Some run) ''batch.preflight'' ''online.chains.preflight'' S) (\<lambda>S.
     bindR (plain (\<lambda>D. Inr (on_queue (refresh_lead_queue (be_lead B) ts scan) D)) S) (\<lambda>S.
     case select_dual_queue scan (be_batch B) (queue_view (snd S)) of
       Inl err \<Rightarrow> Inl (err, fst S)
     | Inr sel \<Rightarrow>
         bindR (claim_batch B ts scan run (qs_preferred sel) S) (\<lambda>(S, claimed).
         bindR (plain (\<lambda>D. Inr (on_queue (mark_claimed_leads scan run (map (\<lambda>(task, item, _). (item, task)) claimed) sel) D)) S) (\<lambda>S.
         bindR (sync_graph B ts scan (Some run) ''batch.claimed'' S) (\<lambda>S.
         case mapR (batch_task_of scan run (snd S)) claimed of
           Inl err \<Rightarrow> Inl (err, fst S) | Inr tasks \<Rightarrow> Inr (S, tasks))))))))))"

section \<open>The run\<close>

text \<open>
  The loop of \<open>run\<close>, from the manifest on.  \<open>ag_local\<close> is what the deterministic probes do to the
  database and the tasks they leave, \<open>ag_native\<close> what the native agents do, with the failure they or
  the verification of their result raise.  \<open>rounds\<close> holds the clock and the new stage identifier of
  every batch the run may start: \<open>max_batches\<close> of them.
\<close>

record batch_agents =
  ag_local :: "string \<Rightarrow> batch_task list \<Rightarrow> graph_db \<Rightarrow> (graph_db \<times> batch_task list) outcome"
  ag_native :: "string \<Rightarrow> batch_task list \<Rightarrow> graph_db \<Rightarrow> graph_db \<times> failure option"

definition read_coverage :: "string \<Rightarrow> string \<Rightarrow> graph_db \<Rightarrow> (graph_db \<times> cov_summary) outcome" where
  "read_coverage ts scan D =
     (case coverage_status ts scan (gb_cov D) of
        Inl e \<Rightarrow> Inl (e, D)
      | Inr (C, s) \<Rightarrow> Inr (D\<lparr>gb_pre := (gb_pre D)\<lparr>pd_cov := C\<rparr>\<rparr>, s))"

definition unplanned :: "db_error \<Rightarrow> failure" where
  "unplanned e = \<lparr>fl_class = OtherFailure, fl_code = None, fl_attempts = [],
     fl_text = (case e of ValueErr t \<Rightarrow> t | IntegrityErr t \<Rightarrow> t)\<rparr>"

text \<open>A stage that is still unfinished without a task it could schedule.\<close>

definition close_empty_batch :: "batch_env \<Rightarrow> string \<Rightarrow> string \<Rightarrow> string \<Rightarrow> graph_db \<Rightarrow> (graph_db \<times> unit) outcome" where
  "close_empty_batch B ts scan run D =
     bindR (read_coverage ts scan D) (\<lambda>(D, s).
     if cs_unfinished s = 0
     then transaction (\<lambda>S. bindR (end_stage B ts run JCompleted None False S) (\<lambda>S. Inr (S, ()))) D
     else bindR (transaction (\<lambda>S. bindR (end_stage B ts run JFailed
              (Some ''unfinished coverage items are not schedulable'') False S) (\<lambda>S. Inr (S, ()))) D) (\<lambda>(D, _).
          Inl (ValueErr ''unfinished coverage items remain but none are schedulable'', D)))"

text \<open>One batch with its tasks: whether the run goes on is the result, everything else raises.\<close>

definition run_native :: "batch_env \<Rightarrow> batch_agents \<Rightarrow> string \<Rightarrow> string \<Rightarrow> string \<Rightarrow> batch_task list \<Rightarrow> graph_db \<Rightarrow> (graph_db \<times> unit) outcome" where
  "run_native B A ts scan run tasks D =
     (case ag_native A run tasks D of
        (D, Some x) \<Rightarrow> bindR (recover_failed_batch B ts run x D) (\<lambda>(D, can).
          if goes_on x can then Inr (D, ()) else Inl (ValueErr (fl_text x), D))
      | (D, None) \<Rightarrow>
          (case complete_batch B ts scan run False D of
             Inr r \<Rightarrow> Inr r
           | Inl (e, D) \<Rightarrow> bindR (recover_failed_batch B ts run (unplanned e) D) (\<lambda>(D, can). Inl (e, D))))"

definition run_batch :: "batch_env \<Rightarrow> batch_agents \<Rightarrow> string \<Rightarrow> string \<Rightarrow> string \<Rightarrow> batch_task list \<Rightarrow> graph_db \<Rightarrow> (graph_db \<times> unit) outcome" where
  "run_batch B A ts scan run tasks D =
     bindR (ag_local A run tasks D) (\<lambda>(D, tasks).
     if tasks = [] then complete_batch B ts scan run True D else run_native B A ts scan run tasks D)"

fun attack_rounds ::
  "batch_env \<Rightarrow> batch_agents \<Rightarrow> string \<Rightarrow> (string \<times> string) list \<Rightarrow> string list \<Rightarrow> graph_db \<Rightarrow> (graph_db \<times> string list) outcome" where
  "attack_rounds B A scan [] stages D = Inr (D, stages)"
| "attack_rounds B A scan ((ts, run) # rounds) stages D =
     bindR (read_coverage ts scan D) (\<lambda>(D, s).
     if cs_unfinished s = 0 then Inr (D, stages)
     else bindR (start_batch B ts scan run D) (\<lambda>(D, tasks).
          if tasks = [] then bindR (close_empty_batch B ts scan run D) (\<lambda>(D, _). Inr (D, stages @ [run]))
          else bindR (run_batch B A ts scan run tasks D) (\<lambda>(D, _).
               attack_rounds B A scan rounds (stages @ [run]) D)))"

section \<open>The end of the run\<close>

record attack_result =
  ar_batches :: nat
  ar_stages :: "string list"
  ar_findings :: "string list"
  ar_coverage :: cov_summary

definition finish_result :: "string \<Rightarrow> string \<Rightarrow> string list \<Rightarrow> graph_db \<Rightarrow> (graph_db \<times> attack_result) outcome" where
  "finish_result ts scan stages D =
     bindR (read_coverage ts scan D) (\<lambda>(D, final).
     if cs_unfinished final \<noteq> 0 then Inl (ValueErr ''exhaustive Attack stopped with unfinished coverage'', D)
     else Inr (D, \<lparr>ar_batches = length stages, ar_stages = stages,
            ar_findings = map fi_id (sort_key (\<lambda>f. (fi_created f, fi_id f)) (filter (\<lambda>f. fi_scan f = scan) (gb_findings D))),
            ar_coverage = final\<rparr>))"

definition run_exhaustive ::
  "batch_env \<Rightarrow> batch_agents \<Rightarrow> string \<Rightarrow> string \<Rightarrow> (string \<times> string) list \<Rightarrow> graph_db \<Rightarrow> (graph_db \<times> attack_result) outcome" where
  "run_exhaustive B A scan ts rounds D =
     bindR (attack_rounds B A scan rounds [] D) (\<lambda>(D, stages). finish_result ts scan stages D)"

section \<open>Reasoning about transactions\<close>

text \<open>
  \<open>ends Q P r\<close>: if the step raised, the database that is left satisfies \<open>Q\<close>; if it returned,
  the result satisfies \<open>P\<close>.
\<close>

definition ends :: "(graph_db \<Rightarrow> bool) \<Rightarrow> ('a \<Rightarrow> bool) \<Rightarrow> 'a outcome \<Rightarrow> bool" where
  "ends Q P r \<longleftrightarrow> (case r of Inl (e, D) \<Rightarrow> Q D | Inr x \<Rightarrow> P x)"

lemma ends_Inr [simp]: "ends Q P (Inr x) \<longleftrightarrow> P x"
  by (simp add: ends_def)

lemma ends_Inl [simp]: "ends Q P (Inl (e, D)) \<longleftrightarrow> Q D"
  by (simp add: ends_def)

lemma ends_bind:
  assumes "ends Q P r" and "\<And>x. P x \<Longrightarrow> ends Q R (f x)"
  shows "ends Q R (bindR r f)"
  using assms by (cases r) (auto simp: ends_def)

lemma ends_weaken:
  assumes "ends Q P r" and "\<And>D. Q D \<Longrightarrow> Q' D" and "\<And>x. P x \<Longrightarrow> P' x"
  shows "ends Q' P' r"
  using assms by (auto simp: ends_def split: sum.splits)

lemma ends_fold:
  assumes "I S" and "\<And>x S. x \<in> set xs \<Longrightarrow> I S \<Longrightarrow> ends Q I (f x S)"
  shows "ends Q I (foldR f xs S)"
  using assms
proof (induction xs arbitrary: S)
  case (Cons x xs)
  have "ends Q I (f x S)" using Cons.prems by simp
  then show ?case by (auto intro!: ends_bind Cons.IH Cons.prems(2))
qed simp

lemma ends_plain:
  assumes "Q (fst S)" and "\<And>W. f (snd S) = Inr W \<Longrightarrow> P (fst S, W)"
  shows "ends Q P (plain f S)"
  using assms by (cases "f (snd S)") (simp_all add: plain_def)

lemma ends_saved:
  assumes "Q (fst S)" and "\<And>W. f (snd S) = Inr W \<Longrightarrow> P (W, W)"
  shows "ends Q P (saved f S)"
  using assms by (cases "f (snd S)") (simp_all add: saved_def)

lemma ends_transaction:
  assumes "ends Q (\<lambda>(S, x). P (snd S, x)) (f (D, D))"
  shows "ends Q P (transaction f D)"
  unfolding transaction_def using assms by (rule ends_bind) auto

lemma ends_Inr_D: "r = Inr x \<Longrightarrow> ends Q P r \<Longrightarrow> P x"
  by simp

lemma ends_Inl_D: "r = Inl (e, D) \<Longrightarrow> ends Q P r \<Longrightarrow> Q D"
  by simp

text \<open>A relation that every step keeps holds of both databases at every point.\<close>

abbreviation both :: "(graph_db \<Rightarrow> bool) \<Rightarrow> tx \<Rightarrow> bool" where
  "both Q S \<equiv> Q (fst S) \<and> Q (snd S)"

lemma both_plain:
  assumes "both Q S" and "\<And>W W'. Q W \<Longrightarrow> f W = Inr W' \<Longrightarrow> Q W'"
  shows "ends Q (both Q) (plain f S)"
  using assms by (intro ends_plain) auto

lemma both_saved:
  assumes "both Q S" and "\<And>W W'. Q W \<Longrightarrow> f W = Inr W' \<Longrightarrow> Q W'"
  shows "ends Q (both Q) (saved f S)"
  using assms by (intro ends_saved) auto

lemma on_cov_Inr:
  "on_cov f D = Inr D' \<longleftrightarrow> (\<exists>C. f (gb_cov D) = Inr C \<and> D' = D\<lparr>gb_pre := (gb_pre D)\<lparr>pd_cov := C\<rparr>\<rparr>)"
  by (cases "f (gb_cov D)") (auto simp: on_cov_def on_pre_def)

lemma on_pipe_Inr:
  "on_pipe f D = Inr D' \<longleftrightarrow> (\<exists>P. f (gb_pipe D) = Inr P
     \<and> D' = D\<lparr>gb_pre := (gb_pre D)\<lparr>pd_cov := (gb_cov D)\<lparr>cb_pipe := P\<rparr>\<rparr>\<rparr>)"
  by (cases "f (gb_pipe D)") (auto simp: on_pipe_def on_cov_def on_pre_def)

section \<open>Releasing the leases\<close>

text \<open>Until the items are reconciled, no step takes a lease, touches a stage or loses a row.\<close>

definition eases :: "cov_db \<Rightarrow> cov_db \<Rightarrow> bool" where
  "eases C C' \<longleftrightarrow> cb_annotations C' = cb_annotations C \<and> cb_endpoints C' = cb_endpoints C
     \<and> cb_requests C' = cb_requests C
     \<and> d_stages (cb_pipe C') = d_stages (cb_pipe C)
     \<and> map at_id (d_tasks (cb_pipe C')) = map at_id (d_tasks (cb_pipe C))
     \<and> map cv_id (cb_items C') = map cv_id (cb_items C)
     \<and> (\<forall>c\<in>set (cb_items C'). cv_status c = CRunning \<longrightarrow> c \<in> set (cb_items C))"

lemma eases_refl [simp]: "eases C C"
  by (simp add: eases_def)

lemma eases_trans: "eases A B \<Longrightarrow> eases B C \<Longrightarrow> eases A C"
  by (auto simp: eases_def)

lemma eases_set_item:
  assumes "\<And>c. cv_id (f c) = cv_id c" and "\<And>c. cv_status (f c) \<noteq> CRunning"
  shows "eases C (set_item i f C)"
  using assms by (auto simp: eases_def set_item_def map_update_where in_update_where split: if_splits)

lemma eases_event: "put_event row nxt reason run task C = Inr C' \<Longrightarrow> eases C C'"
  by (auto simp: put_event_def eases_def split: if_splits)

lemma transition_eases:
  assumes "transition_coverage ts i nxt reason run task finding C = Inr C'" and "nxt \<noteq> CRunning"
  shows "eases C C'"
  using assms(1)
proof (rule transition_Inr)
  fix row D1 f
  assume "put_event row nxt reason run task C = Inr D1" "C' = set_item i f D1"
    "\<And>c. cv_id (f c) = cv_id c" "\<And>c. cv_status (f c) = nxt"
  with assms(2) show ?thesis by (auto intro!: eases_trans [OF eases_event eases_set_item])
qed

lemma requeue_eases: "requeue_row ts reason n run task row C = Inr C' \<Longrightarrow> eases C C'"
  by (auto simp: requeue_row_def bindR_eq_Inr intro!: eases_trans [OF eases_event eases_set_item])

lemma release_eases: "release_unattempted_coverage ts run reason C = Inr C' \<Longrightarrow> eases C C'"
  unfolding release_unattempted_coverage_def
  by (erule foldR_invariant [where P = "eases C"]) (auto intro: eases_trans requeue_eases)

lemma resolve_eases: "resolve_interrupted_stage_leads ts run reason C = Inr (C', n) \<Longrightarrow> eases C C'"
  by (auto simp: resolve_interrupted_stage_leads_def Let_def eases_def split: if_splits)

lemma task_eases:
  assumes "transition_task task status err ts P = Inr P'"
  shows "d_stages P' = d_stages P \<and> map at_id (d_tasks P') = map at_id (d_tasks P)"
  using assms
  by (auto simp: transition_task_def audit_def map_update_where split: option.splits if_splits)

lemma map_sum_Inr: "map_sum id f r = Inr y \<longleftrightarrow> (\<exists>x. r = Inr x \<and> y = f x)"
  by (cases r) auto

definition eased :: "graph_db \<Rightarrow> graph_db \<Rightarrow> bool" where
  "eased D W \<longleftrightarrow> eases (gb_cov D) (gb_cov W) \<and> gb_leads W = gb_leads D"

lemma cov_eased:
  assumes "both (eased D) S" and "\<And>C C'. f C = Inr C' \<Longrightarrow> eases C C'"
  shows "ends (eased D) (both (eased D)) (plain (on_cov f) S)"
  using assms by (intro both_plain) (auto simp: on_cov_Inr eased_def intro: eases_trans)

lemma end_task_eased:
  assumes "both (eased D) S"
  shows "ends (eased D) (both (eased D)) (end_task ts reason status t S)"
  unfolding end_task_def using assms
proof (rule both_saved)
  fix W W' assume "eased D W" "on_pipe (transition_task (at_id t) status (Some reason) ts) W = Inr W'"
  then show "eased D W'" by (auto simp: on_pipe_Inr eased_def eases_def dest!: task_eases)
qed

lemma cancel_open_eased:
  "both (eased D) S \<Longrightarrow> ends (eased D) (both (eased D)) (cancel_open ts run reason S)"
  unfolding cancel_open_def by (rule ends_fold) (auto intro: end_task_eased)

lemma resolve_leads_eased:
  "both (eased D) S \<Longrightarrow> ends (eased D) (both (eased D)) (resolve_leads ts run reason S)"
  unfolding resolve_leads_def by (erule cov_eased) (auto simp: map_sum_Inr dest: resolve_eases)

lemma move_item_eased:
  "both (eased D) S \<Longrightarrow> nxt \<noteq> CRunning \<Longrightarrow> ends (eased D) (both (eased D)) (move_item ts run c nxt reason S)"
  unfolding move_item_def by (erule cov_eased) (auto dest: transition_eases)

lemma recover_stopped_eased:
  "both (eased D) S \<Longrightarrow> ends (eased D) (both (eased D)) (recover_stopped ts run capacity S)"
  unfolding recover_stopped_def
  by (blast intro: ends_bind cancel_open_eased resolve_leads_eased cov_eased release_eases)

lemma recover_unresolved_eased:
  "both (eased D) S \<Longrightarrow> ends (eased D) (both (eased D)) (recover_unresolved limit ts run ids S)"
  unfolding recover_unresolved_def Let_def
  by (rule ends_bind [OF resolve_leads_eased], assumption, rule ends_bind [OF cancel_open_eased], assumption,
      rule ends_fold) (auto intro!: move_item_eased split: if_split)

lemma recover_refused_eased:
  assumes "both (eased D) S"
  shows "ends (eased D) (both (eased D)) (recover_refused ts run S)"
proof -
  have tasks: "ends (eased D) (both (eased D)) (foldR (\<lambda>t. end_task ts reason (st t) t) tasks S)" for reason st tasks
    using assms by (rule ends_fold) (rule end_task_eased)
  have items: "ends (eased D) (both (eased D)) (foldR (\<lambda>c. move_item ts run c CUnsupported reason) rows S')"
    if "both (eased D) S'" for reason rows S'
    using that by (rule ends_fold) (simp add: move_item_eased)
  show ?thesis
    unfolding recover_refused_def Let_def using assms
    by (auto intro!: ends_bind [OF tasks] items)
qed

lemma recover_cause_eased:
  assumes "both (eased D) S"
  shows "ends (eased D) (both (eased D)) (recover_cause limit ts run x S)"
proof -
  have 1: "ends (eased D) (both (eased D)) (if model_stopped x
      then recover_stopped ts run (fl_code x = Some ''model_capacity'') S else Inr S)"
    using assms by (simp add: recover_stopped_eased)
  have 2: "ends (eased D) (both (eased D)) (if fl_class x = UnresolvedLead \<and> fl_attempts x \<noteq> []
      then recover_unresolved limit ts run (fl_attempts x) S' else Inr S')" if "both (eased D) S'" for S'
    using that by (simp add: recover_unresolved_eased)
  have 3: "ends (eased D) (both (eased D)) (if model_refused x then recover_refused ts run S' else Inr S')"
    if "both (eased D) S'" for S'
    using that by (simp add: recover_refused_eased)
  show ?thesis unfolding recover_cause_def by (rule ends_bind [OF 1], rule ends_bind [OF 2], assumption, erule 3)
qed

text \<open>Reconciling releases every lease of the run, and nothing takes one afterwards.\<close>

definition free :: "string \<Rightarrow> graph_db \<Rightarrow> bool" where
  "free run D \<longleftrightarrow> (\<forall>c\<in>set (cb_items (gb_cov D)). \<not> leased run c)"

definition joined :: "string \<Rightarrow> graph_db \<Rightarrow> bool" where
  "joined run D \<longleftrightarrow> distinct (map cv_id (cb_items (gb_cov D)))
     \<and> (\<forall>c\<in>set (cb_items (gb_cov D)). leased run c \<longrightarrow> joinable (gb_cov D) c)"

lemma find_row_keys: "map key t' = map key t \<Longrightarrow> find_row key k t' = None \<longleftrightarrow> find_row key k t = None"
  unfolding find_row_None by (metis list.set_map)

lemma eases_joined: assumes "joined run D" "eases (gb_cov D) (gb_cov W)" shows "joined run W"
  unfolding joined_def
proof (intro conjI ballI impI)
  show "distinct (map cv_id (cb_items (gb_cov W)))" using assms by (simp add: joined_def eases_def)
next
  fix c assume c: "c \<in> set (cb_items (gb_cov W))" "leased run c"
  then have "joinable (gb_cov D) c" using assms by (auto simp: joined_def eases_def leased_def)
  moreover have "map at_id (d_tasks (gb_pipe W)) = map at_id (d_tasks (gb_pipe D))" using assms(2) by (simp add: eases_def)
  note find_row_keys [OF this]
  ultimately show "joinable (gb_cov W) c"
    using assms(2) by (auto simp: joinable_def task_of_def endpoint_of_def eases_def bind_eq_None_conv)
qed

text \<open>Only the items and their events change.\<close>

definition ledger_only :: "cov_db \<Rightarrow> cov_db \<Rightarrow> bool" where
  "ledger_only C C' \<longleftrightarrow> C' = C\<lparr>cb_items := cb_items C', cb_events := cb_events C'\<rparr>
     \<and> map cv_id (cb_items C') = map cv_id (cb_items C)"

lemma ledger_only_refl [simp]: "ledger_only C C"
  by (simp add: ledger_only_def)

lemma ledger_only_trans: "ledger_only A B \<Longrightarrow> ledger_only B C \<Longrightarrow> ledger_only A C"
  unfolding ledger_only_def by (cases A; cases B; cases C) simp

lemma transition_ledger:
  "transition_coverage ts i nxt reason run task finding C = Inr C' \<Longrightarrow> ledger_only C C'"
  by (auto simp: transition_coverage_def put_event_def set_item_def bindR_eq_Inr map_update_where ledger_only_def
      split: option.splits if_splits)

lemma reconcile_row_ledger: "reconcile_row ts run limit c C = Inr C' \<Longrightarrow> ledger_only C C'"
  unfolding reconcile_row_def by (auto split: option.splits prod.splits dest: transition_ledger)

lemma reconcile_ledger: "reconcile_coverage_batch ts run limit C = Inr C' \<Longrightarrow> ledger_only C C'"
  unfolding reconcile_coverage_batch_def
  by (erule foldR_invariant [where P = "ledger_only C"]) (auto intro: ledger_only_trans reconcile_row_ledger)

lemma reconciled_free:
  assumes "reconcile_coverage_batch ts run limit (gb_cov D) = Inr C" and "joined run D"
  shows "free run (D\<lparr>gb_pre := (gb_pre D)\<lparr>pd_cov := C\<rparr>\<rparr>)"
  using reconcile_leaves_nothing_running [OF assms(1)] assms(2)
  by (auto simp: free_def joined_def leased_def)

section \<open>Closing the stopped probes\<close>

definition probe_item :: "string \<Rightarrow> cov_status set \<Rightarrow> cov_db \<Rightarrow> request_row \<times> cov_item \<Rightarrow> bool" where
  "probe_item run ss C p \<longleftrightarrow> (\<exists>k. item_of (cv_id (snd p)) C = Some k \<and> cv_status k \<in> ss
     \<and> cv_task k = Some (hr_task (fst p)) \<and> cv_run k = Some run)"

lemma probe_item_mono: "probe_item run ss C p \<Longrightarrow> ss \<subseteq> tt \<Longrightarrow> probe_item run tt C p"
  by (auto simp: probe_item_def)

lemma close_probe_effect:
  assumes "close_probe ts run p C = Inr C'" and "probe_item run {CErrorRetryable, CErrorTerminal} C p"
  shows "probe_item run {CErrorTerminal} C' p \<and> (\<forall>j. j \<noteq> cv_id (snd p) \<longrightarrow> item_of j C' = item_of j C)"
proof -
  obtain r c where p: "p = (r, c)" by (cases p)
  with assms(2) obtain k where k: "item_of (cv_id c) C = Some k" "cv_status k \<in> {CErrorRetryable, CErrorTerminal}"
    "cv_task k = Some (hr_task r)" "cv_run k = Some run" by (auto simp: probe_item_def)
  show ?thesis
  proof (cases "cv_status k = CErrorRetryable")
    case True
    then obtain D1 f where "put_event k CErrorTerminal (probe_reason r) (Some run) (Some (hr_task r)) C = Inr D1"
        and C': "C' = set_item (cv_id c) f D1"
        and f: "\<And>c. cv_id (f c) = cv_id c" "\<And>c. cv_status (f c) = CErrorTerminal"
          "\<And>c. cv_task (f c) = Some (hr_task r)" "\<And>c. cv_run (f c) = Some run"
      using assms(1) k(1) by (auto simp: close_probe_def p cov_state_def transition_coverage_def bindR_eq_Inr coalesce_def split: if_splits)
    then have "item_of j D1 = item_of j C" for j by (simp add: item_of_def put_event_Inr(1))
    then show ?thesis using k f(2-4) by (simp add: p C' probe_item_def item_of_set_item [of f, OF f(1)])
  next
    case False
    then have "C' = set_item (cv_id c) (\<lambda>k. k\<lparr>cv_reason := Some (probe_reason r), cv_updated := ts\<rparr>) C"
      using assms(1) k(1,2) by (simp add: close_probe_def p cov_state_def)
    then show ?thesis using k False by (simp add: p probe_item_def item_of_set_item)
  qed
qed

lemma close_probe_items:
  assumes "close_probe ts run p C = Inr C'"
  shows "ledger_only C C' \<and> (\<forall>c'\<in>set (cb_items C'). leased run' c' \<longrightarrow> (\<exists>c\<in>set (cb_items C). leased run' c))"
proof -
  obtain r c where p: "p = (r, c)" by (cases p)
  show ?thesis
  proof (cases "cov_state C (cv_id c) = Some CErrorRetryable")
    case True
    then have "transition_coverage ts (cv_id c) CErrorTerminal (probe_reason r) (Some run) (Some (hr_task r)) None C = Inr C'"
      using assms by (simp add: close_probe_def p)
    from transition_ledger [OF this] transition_eases [OF this] show ?thesis by (auto simp: eases_def leased_def)
  next
    case False
    then have "C' = C \<or> C' = set_item (cv_id c) (\<lambda>k. k\<lparr>cv_reason := Some (probe_reason r), cv_updated := ts\<rparr>) C"
      using assms by (simp add: close_probe_def p split: if_splits)
    then show ?thesis
      by (auto simp: ledger_only_def set_item_def map_update_where in_update_where leased_def split: if_splits) blast+
  qed
qed

lemma close_probes_items:
  assumes "foldR (close_probe ts run) ps C = Inr C'"
  shows "ledger_only C C' \<and> (\<forall>c'\<in>set (cb_items C'). leased run' c' \<longrightarrow> (\<exists>c\<in>set (cb_items C). leased run' c))"
  using assms
proof (rule foldR_invariant, goal_cases)
  case (2 p A B)
  with close_probe_items [OF 2(3), of run'] show ?case by (blast intro: ledger_only_trans)
qed auto

lemma close_probes_effect:
  assumes "foldR (close_probe ts run) ps C = Inr C'" and "set ps \<subseteq> all"
    and "\<forall>p\<in>all. probe_item run {CErrorRetryable, CErrorTerminal} C p"
    and "\<forall>p\<in>all. \<forall>q\<in>all. cv_id (snd p) = cv_id (snd q) \<longrightarrow> hr_task (fst p) = hr_task (fst q)"
  shows "(\<forall>p\<in>set ps. probe_item run {CErrorTerminal} C' p)
    \<and> (\<forall>p\<in>all. probe_item run {CErrorTerminal} C p \<longrightarrow> probe_item run {CErrorTerminal} C' p)"
  using assms(1-3)
proof (induction ps arbitrary: C)
  case (Cons p ps)
  then obtain D where one: "close_probe ts run p C = Inr D" and rest: "foldR (close_probe ts run) ps D = Inr C'"
    by (auto elim: bindR_InrE)
  have p: "p \<in> all" using Cons.prems(2) by simp
  note eff = close_probe_effect [OF one] p Cons.prems(3)
  have step: "probe_item run ss D q" if q: "q \<in> all" "probe_item run ss C q" "CErrorTerminal \<in> ss" for q ss
  proof (cases "cv_id (snd q) = cv_id (snd p)")
    case True
    then have "hr_task (fst q) = hr_task (fst p)" using assms(4) q(1) p by blast
    with eff True q(3) show ?thesis by (auto simp: probe_item_def)
  next
    case False
    with eff q(2) show ?thesis by (auto simp: probe_item_def)
  qed
  have ready: "\<forall>q\<in>all. probe_item run {CErrorRetryable, CErrorTerminal} D q"
    using step Cons.prems(3) by blast
  from Cons.IH [OF rest _ this] Cons.prems(2) have IH: "\<forall>q\<in>set ps. probe_item run {CErrorTerminal} C' q"
    "\<forall>q\<in>all. probe_item run {CErrorTerminal} D q \<longrightarrow> probe_item run {CErrorTerminal} C' q" by auto
  have "probe_item run {CErrorTerminal} D p" using eff by blast
  with IH step p show ?case by auto
qed simp

lemma stopped_probes_ready:
  assumes "distinct (map cv_id (cb_items C))"
  shows "\<forall>p\<in>set (stopped_probes C run). probe_item run {CErrorRetryable, CErrorTerminal} C p"
    and "\<forall>p\<in>set (stopped_probes C run). \<forall>q\<in>set (stopped_probes C run). cv_id (snd p) = cv_id (snd q) \<longrightarrow> hr_task (fst p) = hr_task (fst q)"
proof -
  have mem: "snd p \<in> set (cb_items C) \<and> stopped_probe C run (fst p) (snd p)" if "p \<in> set (stopped_probes C run)" for p
    using that by (auto simp: stopped_probes_def)
  have cur: "item_of (cv_id c) C = Some c" if "c \<in> set (cb_items C)" for c
    using find_row_unique [OF assms that] by (simp add: item_of_def)
  have task: "cv_task (snd p) = Some (hr_task (fst p)) \<and> cv_run (snd p) = Some run
      \<and> cv_status (snd p) \<in> {CErrorRetryable, CErrorTerminal}" if "p \<in> set (stopped_probes C run)" for p
    using mem [OF that] by (auto simp: stopped_probe_def)
  show "\<forall>p\<in>set (stopped_probes C run). probe_item run {CErrorRetryable, CErrorTerminal} C p"
    using mem cur task by (auto simp: probe_item_def)
  show "\<forall>p\<in>set (stopped_probes C run). \<forall>q\<in>set (stopped_probes C run). cv_id (snd p) = cv_id (snd q) \<longrightarrow> hr_task (fst p) = hr_task (fst q)"
    using mem cur task by (metis option.sel)
qed

section \<open>Ending the stage\<close>

lemma finish_task_keys:
  assumes "finish_stage_run run status err allow ts epoch P = Inr P'"
  shows "map (\<lambda>t. (at_id t, at_run t)) (d_tasks P') = map (\<lambda>t. (at_id t, at_run t)) (d_tasks P)"
  using assms
proof (rule finish_stage_run_Inr)
  fix s D1 D2 f
  assume fold: "foldR (cancel_open_task (sr_scan s) run ts) (stage_tasks run P) P = Inr D1"
    and D2: "D2 = (if status \<in> {JFailed, JCancelled} \<and> sr_stage s = ''validation''
           then close_validation run ts epoch D1 else D1)"
    and au: "audit (sr_scan s) (StageMoved status) [] (Some run) None
       (D2\<lparr>d_stages := update_where (\<lambda>r. sr_id r = run) f (d_stages D2)\<rparr>) = Inr P'"
  have "map (\<lambda>t. (at_id t, at_run t)) (d_tasks D1) = map (\<lambda>t. (at_id t, at_run t)) (d_tasks P)"
    unfolding cancel_all_tasks [OF fold] by (simp add: map_update_where)
  then show ?thesis by (simp add: audit_Inr [OF au] close_if_keeps [OF D2])
qed

lemma finish_stage_row:
  assumes "finish_stage_run run status err allow ts epoch P = Inr P'"
  shows "\<exists>s s'. find_row sr_id run (d_stages P) = Some s \<and> sr_status s = JRunning \<and> status \<in> terminal_statuses
    \<and> find_row sr_id run (d_stages P') = Some s' \<and> sr_status s' = status \<and> sr_error s' = err"
  using assms
proof (rule finish_stage_run_Inr)
  fix s D1 D2 f
  assume s: "status \<in> terminal_statuses" "find_row sr_id run (d_stages P) = Some s" "sr_status s = JRunning"
    and fold: "foldR (cancel_open_task (sr_scan s) run ts) (stage_tasks run P) P = Inr D1"
    and D2: "D2 = (if status \<in> {JFailed, JCancelled} \<and> sr_stage s = ''validation''
           then close_validation run ts epoch D1 else D1)"
    and f: "f = (\<lambda>r. r\<lparr>sr_status := status, sr_finished := Some ts, sr_error := err\<rparr>)"
    and au: "audit (sr_scan s) (StageMoved status) [] (Some run) None
       (D2\<lparr>d_stages := update_where (\<lambda>r. sr_id r = run) f (d_stages D2)\<rparr>) = Inr P'"
  have "d_stages D1 = d_stages P"
    by (rule foldR_invariant [OF fold, where P = "\<lambda>X. d_stages X = d_stages P"]) (auto dest: cancel_stages)
  then have "d_stages P' = update_where (\<lambda>r. sr_id r = run) f (d_stages P)"
    by (simp add: audit_Inr [OF au] close_if_keeps [OF D2])
  then have "find_row sr_id run (d_stages P') = Some (f s)"
    using s(2) find_row_update_key [of sr_id f run run "d_stages P"] by (simp add: f)
  then show ?thesis using s by (simp add: f)
qed

lemma task_in_keys:
  assumes "map (\<lambda>t. (at_id t, at_run t)) (d_tasks (cb_pipe C')) = map (\<lambda>t. (at_id t, at_run t)) (d_tasks (cb_pipe C))"
  shows "task_in C' run x = task_in C run x"
proof -
  have "task_in X run x \<longleftrightarrow> (\<exists>k\<in>set (map (\<lambda>t. (at_id t, at_run t)) (d_tasks (cb_pipe X))). x = Some (fst k) \<and> snd k = run)" for X
    by (auto simp: task_in_def)
  then show ?thesis by (simp only: assms)
qed

text \<open>The graph and the chain leads come last; they only read the ledgers.\<close>

lemma sync_keeps:
  assumes "synchronize_attack_graph E ts run trigger scan D = Inr (D', s)"
  shows "same_evidence D D'"
proof -
  from assms obtain D1 where "foldR (draw E scan run ts) (project E scan D) D = Inr D1" "record_revision E scan run trigger D1 = Inr (D', s)"
    by (auto simp: synchronize_attack_graph_def elim: bindR_InrE)
  then show ?thesis using draw_all_evidence record_revision_Inr same_evidence_trans by metis
qed

lemma same_evidence_leads: "same_evidence D D' \<Longrightarrow> gb_pre D' = gb_pre D \<and> gb_leads D' = gb_leads D"
  by (metis same_evidence_def graph_db.select_convs(1,11) graph_db.surjective graph_db.update_convs(7-10))

definition unclaimed :: "string \<Rightarrow> string \<Rightarrow> cov_db \<Rightarrow> lead_row list \<Rightarrow> bool" where
  "unclaimed scan run C leads \<longleftrightarrow> (\<forall>q\<in>set leads. lq_scan q = scan \<and> lq_run q = Some run
     \<and> item_of (lq_item q) C \<noteq> None \<longrightarrow> lq_state q \<noteq> LeadClaimed)"

lemma push_unclaimed:
  assumes "unclaimed scan run C leads"
  shows "unclaimed scan run C (push_lead lead_id ts s l c node leads)"
proof -
  have "unclaimed scan run C (leads @ [q])" if "lq_run q = None" for q
    using assms that by (simp add: unclaimed_def)
  then show ?thesis
    using assms unfolding push_lead_def Let_def unclaimed_def ball_update_where by simp
qed

lemma follow_unclaimed:
  assumes "unclaimed scan run (gb_cov D) (gb_leads D)"
  shows "unclaimed scan run (gb_cov (follow_chain lead_id ts s l D)) (gb_leads (follow_chain lead_id ts s l D))"
  using assms by (auto simp: follow_chain_def Let_def push_unclaimed split: option.split)

lemma follows_unclaimed:
  "unclaimed scan run (gb_cov D) (gb_leads D)
     \<Longrightarrow> unclaimed scan run (gb_cov (fold (follow_chain lead_id ts s) ls D)) (gb_leads (fold (follow_chain lead_id ts s) ls D))"
  by (induction ls arbitrary: D) (simp_all add: follow_unclaimed)

lemma chains_keep:
  assumes "refresh_online_chain_leads chain_id lead_id ts limit run' scan' D = Inr (D', s)"
  shows "gb_pre D' = gb_pre D \<and> (unclaimed scan run (gb_cov D) (gb_leads D) \<longrightarrow> unclaimed scan run (gb_cov D') (gb_leads D'))"
proof -
  obtain D1 where ins: "foldR insert_chain (chain_jobs chain_id limit run' scan' D) D = Inr D1"
    and D': "D' = fold (follow_chain lead_id ts scan') (sort_key (\<lambda>l. (- ch_priority l, ch_id l)) (filter (\<lambda>l. ch_scan l = scan') (gb_chains D1))) D1"
    using assms unfolding refresh_online_chain_leads_def Let_def by (auto simp: bindR_eq_Inr split: if_splits)
  from insert_chains_Inr [OF ins] have "gb_pre D1 = gb_pre D" "gb_leads D1 = gb_leads D" by auto
  moreover from refresh_chains_Inr [OF assms] have pre: "gb_pre D' = gb_pre D" by auto
  ultimately have "unclaimed scan run (gb_cov D) (gb_leads D) \<longrightarrow> unclaimed scan run (gb_cov D') (gb_leads D')"
    unfolding D' using follows_unclaimed [of scan run D1 lead_id ts scan'] by metis
  with pre show ?thesis by blast
qed

lemma refresh_graph_keeps:
  assumes "Q (fst S)"
  shows "ends Q (\<lambda>S'. fst S' = fst S \<and> gb_pre (snd S') = gb_pre (snd S)
    \<and> (unclaimed scan' run' (gb_cov (snd S)) (gb_leads (snd S)) \<longrightarrow> unclaimed scan' run' (gb_cov (snd S')) (gb_leads (snd S'))))
    (refresh_graph B ts scan run before after S)" (is "ends Q (?K S) _")
proof -
  have sync: "ends Q (?K S) (sync_graph B ts scan run trigger X)" if "?K S X" for X trigger
    unfolding sync_graph_def using that assms
    by (intro ends_plain) (auto simp: map_sum_Inr dest!: sync_keeps same_evidence_leads)
  have chains: "ends Q (?K S) (plain (\<lambda>D. map_sum id fst (refresh_online_chain_leads (be_chain B) (be_lead B) ts 8 run scan D)) X)" if "?K S X" for X
    using that assms by (intro ends_plain) (auto simp: map_sum_Inr dest!: chains_keep [where scan = scan' and run = run'])
  show ?thesis unfolding refresh_graph_def
    by (rule ends_bind [OF sync], simp, rule ends_bind [OF chains], assumption, erule sync)
qed

section \<open>What closing a failed batch leaves\<close>

text \<open>
  \<open>steady\<close>: either the stage is as it was, or the run holds no lease; this is what an error leaves,
  because the stage is only committed after the items are reconciled.
\<close>

definition stage_row :: "string \<Rightarrow> graph_db \<Rightarrow> stage_run option" where
  "stage_row run D = find_row sr_id run (d_stages (gb_pipe D))"

definition steady :: "string \<Rightarrow> graph_db \<Rightarrow> graph_db \<Rightarrow> bool" where
  "steady run D W \<longleftrightarrow> stage_row run W = stage_row run D \<or> free run W"

definition same_evidence_rows :: "graph_db \<Rightarrow> graph_db \<Rightarrow> bool" where
  "same_evidence_rows W W' \<longleftrightarrow> cb_items (gb_cov W') = cb_items (gb_cov W) \<and> cb_attempts (gb_cov W') = cb_attempts (gb_cov W)
     \<and> cb_requests (gb_cov W') = cb_requests (gb_cov W)
     \<and> map (\<lambda>t. (at_id t, at_run t)) (d_tasks (gb_pipe W')) = map (\<lambda>t. (at_id t, at_run t)) (d_tasks (gb_pipe W))"

definition no_task_open :: "string \<Rightarrow> graph_db \<Rightarrow> bool" where
  "no_task_open run W \<longleftrightarrow> open_tasks run (gb_pipe W) = []"

lemma same_pre_rows [simp]: "gb_pre W' = gb_pre W \<Longrightarrow> same_evidence_rows W W'"
  by (simp add: same_evidence_rows_def)

lemma same_rows_trans: "same_evidence_rows A B \<Longrightarrow> same_evidence_rows B C \<Longrightarrow> same_evidence_rows A C"
  by (simp add: same_evidence_rows_def)

lemma same_rows_free: "same_evidence_rows W W' \<Longrightarrow> free run W \<Longrightarrow> free run W'"
  by (simp add: same_evidence_rows_def free_def)

lemma end_stage_ends:
  assumes "both (steady run D) S" and "free run (snd S)" and "stage_row run (snd S) = stage_row run D"
    and "distinct (map at_id (d_tasks (gb_pipe (snd S))))"
  shows "ends (steady run D) (\<lambda>S'. both (steady run D) S' \<and> free run (snd S') \<and> same_evidence_rows (snd S) (snd S')
      \<and> gb_leads (snd S') = gb_leads (snd S) \<and> no_task_open run (snd S')
      \<and> (\<exists>s. stage_row run (snd S') = Some s \<and> sr_status s = status \<and> status \<in> terminal_statuses))
    (end_stage B ts run status err allow S)"
  unfolding end_stage_def
proof (rule ends_saved)
  fix W assume "on_pipe (finish_stage_run run status err allow ts (be_epoch B)) (snd S) = Inr W"
  then obtain P where P: "finish_stage_run run status err allow ts (be_epoch B) (gb_pipe (snd S)) = Inr P"
    and W: "W = (snd S)\<lparr>gb_pre := (gb_pre (snd S))\<lparr>pd_cov := (gb_cov (snd S))\<lparr>cb_pipe := P\<rparr>\<rparr>\<rparr>"
    by (auto simp: on_pipe_Inr)
  have rows: "same_evidence_rows (snd S) W" using finish_task_keys [OF P] by (simp add: same_evidence_rows_def W)
  have free: "free run W" using same_rows_free [OF rows assms(2)] .
  from finish_tables [OF P assms(4)] have "no_task_open run W"
    by (auto simp: no_task_open_def open_tasks_def stage_tasks_def W filter_empty_conv terminal_statuses_def)
  moreover have "\<exists>s. stage_row run W = Some s \<and> sr_status s = status \<and> status \<in> terminal_statuses"
    using finish_stage_row [OF P] by (auto simp: stage_row_def W)
  ultimately show "both (steady run D) (W, W) \<and> free run (snd (W, W)) \<and> same_evidence_rows (snd S) (snd (W, W))
      \<and> gb_leads (snd (W, W)) = gb_leads (snd S) \<and> no_task_open run (snd (W, W))
      \<and> (\<exists>s. stage_row run (snd (W, W)) = Some s \<and> sr_status s = status \<and> status \<in> terminal_statuses)"
    using rows free by (simp add: steady_def W)
qed (use assms in simp)

lemma reconciled_unclaimed:
  assumes "distinct (map lq_id (gb_leads D))"
  shows "unclaimed scan run (gb_cov (on_queue (reconcile_lead_queue scan run) D)) (gb_leads (on_queue (reconcile_lead_queue scan run) D))"
proof -
  define g where "g = (\<lambda>q. if due_lead scan run (queue_view D) q
      then reconciled_lead (cv_status (the (item_of (lq_item q) (gb_cov D)))) q else q)"
  have d: "distinct (map lq_id (wq_leads (queue_view D)))" using assms by (simp add: queue_view_def)
  have "gb_leads (on_queue (reconcile_lead_queue scan run) D) = map (\<lambda>q. if due_lead scan run (queue_view D) q
      then reconciled_lead (cv_status (the (item_of (lq_item q) (gb_cov D)))) q else q) (gb_leads D)"
    using reconciled_leads [OF d, of scan run] by (simp add: on_queue_def queue_view_def)
  then have leads: "gb_leads (on_queue (reconcile_lead_queue scan run) D) = map g (gb_leads D)" by (simp add: g_def)
  have cov: "gb_cov (on_queue (reconcile_lead_queue scan run) D) = gb_cov D" by (simp add: on_queue_def)
  have one: "lq_state (g q) \<noteq> LeadClaimed"
    if "lq_scan (g q) = scan" "lq_run (g q) = Some run" "item_of (lq_item (g q)) (gb_cov D) \<noteq> None" for q
  proof (cases "due_lead scan run (queue_view D) q")
    case True
    with that(2) show ?thesis by (auto simp: g_def reconciled_lead_def split: if_splits)
  next
    case False
    then have "g q = q" by (simp add: g_def)
    with that False show ?thesis by (auto simp: due_lead_def queue_view_def)
  qed
  show ?thesis unfolding unclaimed_def leads cov using one by auto
qed

lemma close_failed_ends:
  assumes S: "both (steady run D) S" "free run (snd S)" "stage_row run (snd S) = stage_row run D"
    and d: "distinct (map at_id (d_tasks (gb_pipe (snd S))))" "distinct (map lq_id (gb_leads (snd S)))"
  shows "ends (steady run D) (\<lambda>S'. free run (snd S') \<and> same_evidence_rows (snd S) (snd S')
      \<and> (\<exists>s s0. stage_row run D = Some s0 \<and> stage_row run (snd S') = Some s \<and> sr_status s \<noteq> JRunning
           \<and> (sr_status s0 = JRunning \<longrightarrow> sr_status s = (if recoverable x can then JCompleted else JFailed) \<and> no_task_open run (snd S'))
           \<and> (sr_status s0 \<noteq> JRunning \<longrightarrow> gb_pre (snd S') = gb_pre (snd S))
           \<and> unclaimed (sr_scan s0) run (gb_cov (snd S')) (gb_leads (snd S'))))
    (close_failed B ts run x can S)"
proof (cases "stage_row run D")
  case None
  with S show ?thesis by (simp add: close_failed_def stage_row_def)
next
  case (Some s0)
  let ?st = "if recoverable x can then JCompleted else JFailed"
  let ?M = "\<lambda>X. both (steady run D) X \<and> free run (snd X) \<and> same_evidence_rows (snd S) (snd X) \<and> gb_leads (snd X) = gb_leads (snd S)
      \<and> (\<exists>s. stage_row run (snd X) = Some s \<and> sr_status s \<noteq> JRunning
           \<and> (sr_status s0 = JRunning \<longrightarrow> sr_status s = ?st \<and> no_task_open run (snd X)))
      \<and> (sr_status s0 \<noteq> JRunning \<longrightarrow> gb_pre (snd X) = gb_pre (snd S))"
  have end_it: "ends (steady run D) ?M (if sr_status s0 = JRunning then end_stage B ts run ?st
      (if recoverable x can then None else Some (fl_text x)) (recoverable x can) S else Inr S)"
  proof (cases "sr_status s0 = JRunning")
    case True
    then show ?thesis by (auto intro!: ends_weaken [OF end_stage_ends [OF S d(1)]])
  next
    case False
    with S Some show ?thesis by simp
  qed
  have row: "find_row sr_id run (d_stages (gb_pipe (snd S))) = Some s0" using S(3) Some by (simp add: stage_row_def)
  show ?thesis
    unfolding close_failed_def row option.case
  proof (rule ends_bind [OF end_it])
    fix X assume X: "?M X"
    let ?L = "\<lambda>Y. fst Y = fst X \<and> gb_pre (snd Y) = gb_pre (snd X) \<and> unclaimed (sr_scan s0) run (gb_cov (snd Y)) (gb_leads (snd Y))"
    have leads: "ends (steady run D) ?L (reconcile_leads (sr_scan s0) run X)"
      unfolding reconcile_leads_def
    proof (rule ends_plain)
      fix W assume "Inr (on_queue (reconcile_lead_queue (sr_scan s0) run) (snd X)) = (Inr W :: (db_error, graph_db) result)"
      moreover have "distinct (map lq_id (gb_leads (snd X)))" using X d(2) by simp
      ultimately show "?L (fst X, W)"
        using reconciled_unclaimed [of "snd X" "sr_scan s0" run] by (auto simp: on_queue_def)
    qed (use X in blast)
    show "ends (steady run D) (\<lambda>S'. free run (snd S') \<and> same_evidence_rows (snd S) (snd S')
      \<and> (\<exists>s s0. stage_row run D = Some s0 \<and> stage_row run (snd S') = Some s \<and> sr_status s \<noteq> JRunning
           \<and> (sr_status s0 = JRunning \<longrightarrow> sr_status s = ?st \<and> no_task_open run (snd S'))
           \<and> (sr_status s0 \<noteq> JRunning \<longrightarrow> gb_pre (snd S') = gb_pre (snd S))
           \<and> unclaimed (sr_scan s0) run (gb_cov (snd S')) (gb_leads (snd S'))))
      (bindR (reconcile_leads (sr_scan s0) run X) (refresh_graph B ts (sr_scan s0) (Some run) ''agent.batch.recovered'' ''online.chains.changed''))"
    proof (rule ends_bind [OF leads], rule ends_weaken [OF refresh_graph_keeps [where Q = "steady run D" and scan' = "sr_scan s0" and run' = run]], goal_cases)
      case (1 Y)
      then show ?case using X by simp
    next
      case (3 Y Z)
      then have pre: "gb_pre (snd Z) = gb_pre (snd X)" by simp
      then have "free run (snd Z)" "stage_row run (snd Z) = stage_row run (snd X)" "same_evidence_rows (snd S) (snd Z)"
        "no_task_open run (snd Z) = no_task_open run (snd X)"
        using X by (simp_all add: free_def stage_row_def same_evidence_rows_def no_task_open_def)
      moreover have "unclaimed (sr_scan s0) run (gb_cov (snd Z)) (gb_leads (snd Z))" using 3 by blast
      ultimately show ?case using X Some pre by auto
    qed
  qed
qed

text \<open>The rows a recovery relies on: unique keys, and a task, an endpoint and a hypothesis for each lease.\<close>

definition batch_ok :: "string \<Rightarrow> graph_db \<Rightarrow> bool" where
  "batch_ok run D \<longleftrightarrow> joined run D \<and> distinct (map at_id (d_tasks (gb_pipe D)))
     \<and> distinct (map lq_id (gb_leads D)) \<and> distinct (map hr_id (cb_requests (gb_cov D)))"

lemma batch_ok_eased:
  assumes "batch_ok run D" "eased D W" shows "batch_ok run W \<and> stage_row run W = stage_row run D"
  using assms eases_joined [of run D W] by (simp add: batch_ok_def eased_def eases_def stage_row_def)

text \<open>The state between reconciling and closing.\<close>

definition settled :: "string \<Rightarrow> graph_db \<Rightarrow> tx \<Rightarrow> bool" where
  "settled run D S \<longleftrightarrow> both (steady run D) S \<and> free run (snd S) \<and> stage_row run (snd S) = stage_row run D
     \<and> batch_ok run (snd S)"

lemma ledger_batch_ok:
  assumes "batch_ok run W" "ledger_only (gb_cov W) C" "free run W'" "W' = W\<lparr>gb_pre := (gb_pre W)\<lparr>pd_cov := C\<rparr>\<rparr>"
  shows "batch_ok run W' \<and> stage_row run W' = stage_row run W"
proof -
  obtain ks es where C: "C = (gb_cov W)\<lparr>cb_items := ks, cb_events := es\<rparr>" "map cv_id ks = map cv_id (cb_items (gb_cov W))"
    using assms(2) by (auto simp: ledger_only_def dest: sym)
  from assms(1,3) show ?thesis by (simp add: batch_ok_def joined_def free_def stage_row_def assms(4) C)
qed

lemma reconcile_items_ends:
  assumes "both (eased D) S" "batch_ok run D"
  shows "ends (steady run D) (settled run D) (reconcile_items B ts run S)"
  unfolding reconcile_items_def
proof (rule ends_plain)
  show "steady run D (fst S)" using batch_ok_eased [OF assms(2), of "fst S"] assms(1) by (simp add: steady_def)
  fix W assume "on_cov (reconcile_coverage_batch ts run (be_retry B)) (snd S) = Inr W"
  then obtain C where C: "reconcile_coverage_batch ts run (be_retry B) (gb_cov (snd S)) = Inr C"
    and W: "W = (snd S)\<lparr>gb_pre := (gb_pre (snd S))\<lparr>pd_cov := C\<rparr>\<rparr>" by (auto simp: on_cov_Inr)
  have ok: "batch_ok run (snd S)" "stage_row run (snd S) = stage_row run D"
    using batch_ok_eased [OF assms(2), of "snd S"] assms(1) by simp_all
  then have free: "free run W" unfolding W by (intro reconciled_free [OF C]) (simp add: batch_ok_def)
  from ledger_batch_ok [OF ok(1) reconcile_ledger [OF C] free W] ok(2) free \<open>steady run D (fst S)\<close>
  show "settled run D (fst S, W)" by (simp add: settled_def steady_def)
qed

definition settled_probe :: "string \<Rightarrow> cov_db \<Rightarrow> request_row \<Rightarrow> bool" where
  "settled_probe run C r \<longleftrightarrow> hr_risk r = ''http_probe'' \<and> hr_method r \<in> {''GET'', ''HEAD'', ''OPTIONS''} \<and> hr_finished r \<noteq> None
     \<and> (\<exists>c\<in>set (cb_items C). cv_run c = Some run \<and> cv_task c = Some (hr_task r) \<and> cv_status c = CErrorTerminal)"

lemma record_probes_ends:
  assumes "settled run D S"
  shows "ends (steady run D) (\<lambda>(S', stopped). settled run D S' \<and> ledger_only (gb_cov (snd S)) (gb_cov (snd S'))
      \<and> (\<forall>r\<in>set (cb_requests (gb_cov (snd S'))). hr_id r \<in> stopped \<longrightarrow> settled_probe run (gb_cov (snd S')) r))
    (record_stopped_probes ts run S)"
  unfolding record_stopped_probes_def Let_def
proof (rule ends_bind, rule ends_plain [where P = "\<lambda>S'. fst S' = fst S \<and> on_cov (foldR (close_probe ts run) (stopped_probes (gb_cov (snd S)) run)) (snd S) = Inr (snd S')"])
  show "steady run D (fst S)" using assms by (simp add: settled_def)
next
  fix W assume "on_cov (foldR (close_probe ts run) (stopped_probes (gb_cov (snd S)) run)) (snd S) = Inr W"
  then show "fst (fst S, W) = fst S \<and> on_cov (foldR (close_probe ts run) (stopped_probes (gb_cov (snd S)) run)) (snd S) = Inr (snd (fst S, W))" by simp
next
  fix S' assume S': "fst S' = fst S \<and> on_cov (foldR (close_probe ts run) (stopped_probes (gb_cov (snd S)) run)) (snd S) = Inr (snd S')"
  let ?rows = "stopped_probes (gb_cov (snd S)) run"
  from S' obtain C where C: "foldR (close_probe ts run) ?rows (gb_cov (snd S)) = Inr C"
    and W: "snd S' = (snd S)\<lparr>gb_pre := (gb_pre (snd S))\<lparr>pd_cov := C\<rparr>\<rparr>" by (auto simp: on_cov_Inr)
  have ok: "batch_ok run (snd S)" and d: "distinct (map cv_id (cb_items (gb_cov (snd S))))"
    using assms by (simp_all add: settled_def batch_ok_def joined_def)
  have led: "ledger_only (gb_cov (snd S)) C" using close_probes_items [OF C] by blast
  have free: "free run (snd S')"
    using close_probes_items [OF C, of run] assms by (auto simp: settled_def free_def W)
  have "settled run D S'"
    using ledger_batch_ok [OF ok led free W] free S' assms by (simp add: settled_def steady_def)
  moreover have "settled_probe run C r" if r: "r \<in> set (cb_requests C)" "hr_id r \<in> set (map (hr_id \<circ> fst) ?rows)" for r
  proof -
    obtain p where p: "p \<in> set ?rows" "hr_id r = hr_id (fst p)" using r(2) by auto
    then have probe: "stopped_probe (gb_cov (snd S)) run (fst p) (snd p)" "fst p \<in> set (cb_requests (gb_cov (snd S)))"
      by (auto simp: stopped_probes_def)
    obtain ks es where "C = (gb_cov (snd S))\<lparr>cb_items := ks, cb_events := es\<rparr>" using led by (auto simp: ledger_only_def)
    then have "r \<in> set (cb_requests (gb_cov (snd S)))" using r(1) by simp
    moreover have "distinct (map hr_id (cb_requests (gb_cov (snd S))))" using ok by (simp add: batch_ok_def)
    ultimately have same: "r = fst p" using p(2) probe(2) by (metis find_row_unique option.sel)
    from close_probes_effect [OF C subset_refl stopped_probes_ready [OF d]] p(1)
    have "probe_item run {CErrorTerminal} C p" by blast
    then show ?thesis using probe(1) by (auto simp: settled_probe_def stopped_probe_def probe_item_def item_of_def same dest!: find_row_Some)
  qed
  ultimately show "ends (steady run D) (\<lambda>(S', stopped). settled run D S' \<and> ledger_only (gb_cov (snd S)) (gb_cov (snd S'))
      \<and> (\<forall>r\<in>set (cb_requests (gb_cov (snd S'))). hr_id r \<in> stopped \<longrightarrow> settled_probe run (gb_cov (snd S')) r))
    (Inr (S', set (map (hr_id \<circ> fst) ?rows)))"
    using led by (simp add: W)
qed

lemma probe_phase_ends:
  assumes "settled run D S"
  shows "ends (steady run D) (\<lambda>(S', stopped). settled run D S' \<and> ledger_only (gb_cov (snd S)) (gb_cov (snd S'))
      \<and> (\<forall>r\<in>set (cb_requests (gb_cov (snd S'))). hr_id r \<in> stopped \<longrightarrow> is_batch_failure x \<and> settled_probe run (gb_cov (snd S')) r))
    (if is_batch_failure x then record_stopped_probes ts run S else Inr (S, {}))"
  using record_probes_ends [OF assms] assms by simp

definition closed_stage :: "string \<Rightarrow> bool \<Rightarrow> graph_db \<Rightarrow> graph_db \<Rightarrow> bool" where
  "closed_stage run success D D' \<longleftrightarrow> (\<exists>s s0. stage_row run D = Some s0 \<and> stage_row run D' = Some s \<and> sr_status s \<noteq> JRunning
     \<and> (sr_status s0 = JRunning \<longrightarrow> sr_status s = (if success then JCompleted else JFailed) \<and> no_task_open run D')
     \<and> unclaimed (sr_scan s0) run (gb_cov D') (gb_leads D'))"

definition nothing_open :: "string \<Rightarrow> failure \<Rightarrow> graph_db \<Rightarrow> bool" where
  "nothing_open run x D \<longleftrightarrow> no_leads run (fl_attempts x) (gb_cov D) \<and> no_task_open run D
     \<and> (\<forall>r\<in>set (unknown_requests run (gb_cov D)). is_batch_failure x \<and> settled_probe run (gb_cov D) r)"

lemma no_leads_same:
  assumes "cb_attempts C' = cb_attempts C"
    and "map (\<lambda>t. (at_id t, at_run t)) (d_tasks (cb_pipe C')) = map (\<lambda>t. (at_id t, at_run t)) (d_tasks (cb_pipe C))"
  shows "no_leads run ids C' = no_leads run ids C"
  by (simp add: no_leads_def open_leads_def named_leads_def assms(1) task_in_keys [OF assms(2)])

lemma recover_ends:
  assumes ok: "batch_ok run D"
  shows "ends (steady run D) (\<lambda>(D', can). free run D' \<and> closed_stage run (recoverable x can) D D'
      \<and> (can \<longrightarrow> nothing_open run x D')) (recover_failed_batch B ts run x D)"
  unfolding recover_failed_batch_def Let_def
proof (rule ends_transaction, rule ends_bind [where P = "both (eased D)"], goal_cases)
  case 1
  have "both (eased D) (D, D)" by (simp add: eased_def)
  from recover_cause_eased [OF this] show "ends (steady run D) (both (eased D)) (recover_cause (be_retry B) ts run x (D, D))"
    by (rule ends_weaken) (auto simp: steady_def dest: batch_ok_eased [OF ok])
next
  case (2 S1)
  show ?case
  proof (rule ends_bind [OF reconcile_items_ends [OF 2 ok]], rule ends_bind [OF probe_phase_ends [where x = x]], assumption, goal_cases)
    case (1 S2 y)
    obtain S3 stopped where y: "y = (S3, stopped)" by (cases y)
    let ?can = "no_leads run (fl_attempts x) (gb_cov (snd S2)) \<and> all_settled run stopped (gb_cov (snd S3))"
    have S3: "settled run D S3" "ledger_only (gb_cov (snd S2)) (gb_cov (snd S3))"
      "\<forall>r\<in>set (cb_requests (gb_cov (snd S3))). hr_id r \<in> stopped \<longrightarrow> is_batch_failure x \<and> settled_probe run (gb_cov (snd S3)) r"
      using 1(2) y by auto
    obtain ks es where led: "gb_cov (snd S3) = (gb_cov (snd S2))\<lparr>cb_items := ks, cb_events := es\<rparr>"
      using S3(2) by (auto simp: ledger_only_def)
    have leads: "no_leads run (fl_attempts x) (gb_cov (snd S2)) = no_leads run (fl_attempts x) (gb_cov (snd S3))"
      by (rule no_leads_same) (simp_all add: led)
    show ?case unfolding y prod.case
    proof (rule ends_bind [OF close_failed_ends], goal_cases)
      case (6 S4)
      then have rows: "same_evidence_rows (snd S3) (snd S4)" and free: "free run (snd S4)"
        and stage: "closed_stage run (recoverable x ?can) D (snd S4)"
        by (auto simp: closed_stage_def)
      have "nothing_open run x (snd S4)" if can: "?can"
      proof -
        have "no_leads run (fl_attempts x) (gb_cov (snd S4))"
          using can rows leads no_leads_same [of "gb_cov (snd S4)" "gb_cov (snd S3)"] by (simp add: same_evidence_rows_def)
        moreover have "no_task_open run (snd S4)"
          using 6 can by (auto simp: no_task_open_def all_settled_def)
        moreover have "is_batch_failure x \<and> settled_probe run (gb_cov (snd S4)) r"
          if "r \<in> set (unknown_requests run (gb_cov (snd S4)))" for r
        proof -
          have "r \<in> set (unknown_requests run (gb_cov (snd S3)))" using that rows by (simp add: same_evidence_rows_def unknown_requests_def)
          with can have "hr_id r \<in> stopped" "r \<in> set (cb_requests (gb_cov (snd S3)))"
            by (auto simp: all_settled_def unknown_requests_def)
          with S3(3) have "is_batch_failure x \<and> settled_probe run (gb_cov (snd S3)) r" by blast
          with rows show ?thesis by (simp add: settled_probe_def same_evidence_rows_def)
        qed
        ultimately show ?thesis by (simp add: nothing_open_def)
      qed
      with free stage show ?case by simp
    qed (use S3(1) in \<open>simp_all add: settled_def batch_ok_def\<close>)
  qed
qed

section \<open>A batch that cannot be prepared\<close>

definition with_pipe :: "pipe_db \<Rightarrow> graph_db \<Rightarrow> graph_db" where
  "with_pipe P D = D\<lparr>gb_pre := (gb_pre D)\<lparr>pd_cov := (gb_cov D)\<lparr>cb_pipe := P\<rparr>\<rparr>\<rparr>"

lemma start_stage_frame:
  assumes "start_stage_run run [] scan stage manifest ts P = Inr P'"
  shows "d_credentials P' = d_credentials P \<and> find_row sr_id run (d_stages P') = Some \<lparr>sr_id = run, sr_scan = scan,
     sr_stage = stage, sr_status = JRunning, sr_manifest = manifest, sr_error = None, sr_started = Some ts, sr_finished = None\<rparr>"
proof -
  let ?s = "\<lparr>sr_id = run, sr_scan = scan, sr_stage = stage, sr_status = JRunning, sr_manifest = manifest,
     sr_error = None, sr_started = Some ts, sr_finished = None\<rparr>"
  have new: "run \<notin> sr_id ` set (d_stages P)" and tables: "d_stages P' = d_stages P @ [?s]" "d_credentials P' = d_credentials P"
    using assms by (auto simp: start_stage_run_def Let_def audit_def split: if_splits)
  then show ?thesis using find_row_snoc_new [of sr_id ?s "d_stages P" run] by simp
qed

lemma pipe_credentials:
  assumes "d_credentials P = d_credentials (cb_pipe C)"
  shows "credential_references E usable scan required available origin (C\<lparr>cb_pipe := P\<rparr>)
     = credential_references E usable scan required available origin C"
proof -
  have base: "credential_base (C\<lparr>cb_pipe := P\<rparr>) = credential_base C" by (simp add: fun_eq_iff credential_base_def)
  show ?thesis unfolding credential_references_def base by (simp add: assms)
qed

lemma pipe_resolution:
  assumes "d_credentials P = d_credentials (cb_pipe (pd_cov A))"
  shows "need_resolution E scan origin c need (A\<lparr>pd_cov := (pd_cov A)\<lparr>cb_pipe := P\<rparr>\<rparr>) = need_resolution E scan origin c need A"
  by (cases need; cases "snd need") (simp_all add: need_resolution_def credential_resolution_def pipe_credentials [OF assms])

lemma pipe_needs:
  assumes "d_credentials P = d_credentials (gb_pipe D)"
  shows "need_met E scan (gb_pre (with_pipe P D)) c need = need_met E scan (gb_pre D) c need"
    and "pre_ok E (gb_pre (with_pipe P D)) = pre_ok E (gb_pre D)"
  by (cases "find_row ep_id (cv_endpoint c) (cb_endpoints (gb_cov D))",
      simp_all add: need_met_def pipe_resolution [OF assms] endpoint_of_def row_state_def pre_ok_def named_rows_def with_pipe_def)

lemma start_batch_fails:
  assumes "start_stage_run run [] scan ''attack'' None ts (gb_pipe D) = Inr P"
    and "resolve_attack_preconditions (be_pre B) ts scan (gb_pre (with_pipe P D)) = Inl e"
  shows "start_batch B ts scan run D = Inl (e, with_pipe P D)"
proof -
  have first: "saved (on_pipe (start_stage_run run [] scan ''attack'' None ts)) (D, D) = Inr (with_pipe P D, with_pipe P D)"
    by (simp add: saved_def on_pipe_def on_cov_def on_pre_def assms(1) with_pipe_def)
  have second: "plain (on_pre (\<lambda>A. map_sum id fst (resolve_attack_preconditions (be_pre B) ts scan A)))
      (with_pipe P D, with_pipe P D) = Inl (e, with_pipe P D)"
    by (simp add: plain_def on_pre_def assms(2))
  show ?thesis unfolding start_batch_def transaction_def first second bindR_simps ..
qed

section \<open>Claiming, row by row\<close>

text \<open>Without an error the claims committed one by one are the claims of the ledger in one transaction.\<close>

lemma claim_saved_row:
  assumes "claim_saved B ts scan run c (S, claimed) = Inr (S', claimed')"
  shows "claim_row (pe_net (be_pre B)) (pe_usable (be_pre B)) (be_context B) (be_task B) ts scan run c (gb_cov (snd S), claimed)
     = Inr (gb_cov (snd S'), claimed')"
proof (cases "endpoint_of (gb_cov (snd S)) c")
  case None
  with assms show ?thesis by (simp add: claim_saved_def claim_row_def)
next
  case (Some e)
  with assms obtain P role where task: "claim_task (pe_net (be_pre B)) (pe_usable (be_pre B)) (be_context B) (be_task B) scan run c e (gb_cov (snd S)) = Inr (P, role)"
    by (auto simp: claim_saved_def split: sum.splits)
  have "saved (on_pipe (\<lambda>_. Inr P)) S = Inr (with_pipe P (snd S), with_pipe P (snd S))"
    by (simp add: saved_def on_pipe_def on_cov_def on_pre_def with_pipe_def)
  with assms task Some obtain S2 where "plain (on_cov (claim_lease (be_task B) ts run c)) (with_pipe P (snd S), with_pipe P (snd S)) = Inr S2"
    and S': "S' = S2" "claimed' = claimed @ [(be_task B (cv_id c), cv_id c, role)]"
    by (auto simp: claim_saved_def bindR_eq_Inr)
  then have "claim_lease (be_task B) ts run c ((gb_cov (snd S))\<lparr>cb_pipe := P\<rparr>) = Inr (gb_cov (snd S2))"
    by (auto simp: plain_def on_cov_Inr with_pipe_def split: sum.splits)
  with task Some S' show ?thesis by (simp add: claim_row_def)
qed

lemma claim_saved_rows:
  assumes "foldR (claim_saved B ts scan run) rows (S, claimed) = Inr (S', claimed')"
  shows "foldR (claim_row (pe_net (be_pre B)) (pe_usable (be_pre B)) (be_context B) (be_task B) ts scan run) rows (gb_cov (snd S), claimed)
     = Inr (gb_cov (snd S'), claimed')"
  using assms
proof (induction rows arbitrary: S claimed)
  case (Cons c rows)
  then obtain S1 cl1 where "claim_saved B ts scan run c (S, claimed) = Inr (S1, cl1)" "foldR (claim_saved B ts scan run) rows (S1, cl1) = Inr (S', claimed')"
    by (auto elim: bindR_InrE)
  with Cons.IH show ?case using claim_saved_row by simp
qed simp

lemma plain_cov_Inr: "plain (on_cov f) S = Inr S' \<Longrightarrow> f (gb_cov (snd S)) = Inr (gb_cov (snd S'))"
  by (auto simp: plain_def on_cov_Inr split: sum.splits)

lemma claim_batch_agrees:
  assumes "claim_batch B ts scan run wanted S = Inr (S', claimed)"
  shows "claim_coverage_batch (pe_net (be_pre B)) (pe_usable (be_pre B)) (be_context B) (be_task B) ts scan run (int (be_batch B))
    (be_shown B (be_batch B)) (be_retry B) wanted (gb_cov (snd S)) = Inr (gb_cov (snd S'), claimed)"
proof -
  have size: "\<not> (be_batch B < 1 \<or> 50 < be_batch B)" using assms by (auto simp: claim_batch_def split: if_splits)
  then obtain S1 S2 where
    "plain (on_cov (block_unavailable_authenticated_coverage (pe_net (be_pre B)) (pe_usable (be_pre B)) ts scan run)) S = Inr S1"
    "plain (on_cov (requeue_oversized_policy_refusals ts scan (int (be_batch B)) (be_shown B (be_batch B)))) S1 = Inr S2"
    and rows: "foldR (claim_saved B ts scan run) (claim_rows (be_context B) scan (int (be_batch B)) (be_retry B) wanted (gb_cov (snd S2))) (S2, []) = Inr (S', claimed)"
    using assms unfolding claim_batch_def by (auto elim!: bindR_InrE)
  from plain_cov_Inr [OF this(1)] plain_cov_Inr [OF this(2)] claim_saved_rows [OF rows] size
  show ?thesis by (simp add: claim_coverage_batch_def)
qed

text \<open>A lease is only ever taken within the retry limit, and the ledger keeps its accounts.\<close>

lemma claimed_batch_moves_coverage:
  assumes "claim_batch B ts scan run wanted S = Inr (S', claimed)" and "distinct (map cv_id (cb_items (gb_cov (snd S))))"
  shows "cov_moved (be_retry B) (gb_cov (snd S)) (gb_cov (snd S'))"
  by (rule claim_moved [OF claim_batch_agrees [OF assms(1)] assms(2)])

section \<open>A model that stopped costs no attempt\<close>

lemma ends_conj: "ends Q P r \<Longrightarrow> ends Q' P' r \<Longrightarrow> ends (\<lambda>D. Q D \<and> Q' D) (\<lambda>x. P x \<and> P' x) r"
  by (cases r) auto

abbreviation anywhere :: "graph_db \<Rightarrow> bool" where
  "anywhere D \<equiv> True"

definition refunded :: "string \<Rightarrow> nat \<Rightarrow> cov_db \<Rightarrow> bool" where
  "refunded i n C \<longleftrightarrow> (\<exists>c. item_of i C = Some c \<and> cv_status c = CPending \<and> cv_attempts c = n \<and> cv_run c = None \<and> cv_task c = None)"

lemma requeue_item:
  assumes "requeue_row ts reason n run task row C = Inr C'"
  shows "item_of (cv_id row) C = Some row \<Longrightarrow> refunded (cv_id row) (n (cv_attempts row)) C'"
    and "j \<noteq> cv_id row \<Longrightarrow> item_of j C' = item_of j C"
proof -
  obtain D1 where ev: "put_event row CPending reason (run row) (task row) C = Inr D1"
    and C': "C' = set_item (cv_id row) (\<lambda>c. c\<lparr>cv_status := CPending, cv_reason := Some reason,
         cv_attempts := n (cv_attempts c), cv_run := None, cv_task := None, cv_updated := ts\<rparr>) D1"
    using assms by (auto simp: requeue_row_def bindR_eq_Inr)
  have same: "item_of k D1 = item_of k C" for k by (simp add: item_of_def put_event_Inr(1) [OF ev])
  show "item_of (cv_id row) C = Some row \<Longrightarrow> refunded (cv_id row) (n (cv_attempts row)) C'"
    by (simp add: C' refunded_def item_of_set_item same)
  show "j \<noteq> cv_id row \<Longrightarrow> item_of j C' = item_of j C" by (simp add: C' item_of_set_item same)
qed

lemma requeue_fold_keeps:
  assumes "foldR (requeue_row ts reason n run task) rows C = Inr C'" and "j \<notin> cv_id ` set rows"
  shows "item_of j C' = item_of j C"
  by (rule foldR_invariant [OF assms(1), where P = "\<lambda>X. item_of j X = item_of j C"])
    (use assms(2) requeue_item(2) in \<open>auto simp: image_iff\<close>)

lemma requeue_fold_refunds:
  assumes "foldR (requeue_row ts reason n run task) rows C = Inr C'" and "c \<in> set rows"
    and "distinct (map cv_id rows)" and "item_of (cv_id c) C = Some c"
  shows "refunded (cv_id c) (n (cv_attempts c)) C'"
proof -
  obtain us vs where rows: "rows = us @ c # vs" using assms(2) by (auto simp: in_set_conv_decomp)
  with assms(1) obtain A B where us: "foldR (requeue_row ts reason n run task) us C = Inr A"
    and one: "requeue_row ts reason n run task c A = Inr B" and rest: "foldR (requeue_row ts reason n run task) vs B = Inr C'"
    by (auto simp: foldR_append bindR_eq_Inr)
  have out: "cv_id c \<notin> cv_id ` set us" "cv_id c \<notin> cv_id ` set vs" using assms(3) by (auto simp: rows)
  have "item_of (cv_id c) A = Some c" using requeue_fold_keeps [OF us out(1)] assms(4) by simp
  then have "refunded (cv_id c) (n (cv_attempts c)) B" by (rule requeue_item(1) [OF one])
  then show ?thesis using requeue_fold_keeps [OF rest out(2)] by (simp add: refunded_def)
qed

definition untouched :: "cov_db \<Rightarrow> cov_db \<Rightarrow> bool" where
  "untouched C C' \<longleftrightarrow> cb_items C' = cb_items C \<and> cb_attempts C' = cb_attempts C \<and> cb_requests C' = cb_requests C"

lemma cancel_untouched: "ends anywhere (\<lambda>S'. untouched (gb_cov (snd S)) (gb_cov (snd S'))) (cancel_open ts run reason S)"
  unfolding cancel_open_def end_task_def
  by (rule ends_fold, simp add: untouched_def, rule ends_saved) (auto simp: on_pipe_Inr untouched_def)

lemma release_refunds:
  assumes "release_unattempted_coverage ts run reason C = Inr C'" and "distinct (map cv_id (cb_items C))"
    and "c \<in> set (cb_items C)" "leased run c" "no_evidence C (cv_task c)"
  shows "refunded (cv_id c) (cv_attempts c - 1) C'"
  using assms(1) unfolding release_unattempted_coverage_def
proof (rule requeue_fold_refunds)
  show "item_of (cv_id c) C = Some c" using find_row_unique [OF assms(2,3)] by (simp add: item_of_def)
qed (use assms(2-5) in \<open>simp_all add: select_items_def leased_def distinct_map_filter\<close>)

lemma recover_stopped_refunds:
  assumes "distinct (map cv_id (cb_items (gb_cov (snd S))))" and "c \<in> set (cb_items (gb_cov (snd S)))" "leased run c"
    and "no_evidence (gb_cov (snd S)) (cv_task c)"
  shows "ends anywhere (\<lambda>S'. refunded (cv_id c) (cv_attempts c - 1) (gb_cov (snd S'))) (recover_stopped ts run capacity S)"
  unfolding recover_stopped_def
proof (rule ends_bind [OF cancel_untouched], rule ends_bind [where P = "\<lambda>S'. refunded (cv_id c) (cv_attempts c - 1) (gb_cov (snd S'))"])
  fix X :: tx assume X: "untouched (gb_cov (snd S)) (gb_cov (snd X))"
  show "ends anywhere (\<lambda>S'. refunded (cv_id c) (cv_attempts c - 1) (gb_cov (snd S')))
    (plain (on_cov (release_unattempted_coverage ts run (stop_reason capacity))) X)"
  proof (rule ends_plain, simp)
    fix W assume "on_cov (release_unattempted_coverage ts run (stop_reason capacity)) (snd X) = Inr W"
    then obtain C where C: "release_unattempted_coverage ts run (stop_reason capacity) (gb_cov (snd X)) = Inr C"
      and W: "gb_cov W = C" by (auto simp: on_cov_Inr)
    have items: "cb_items (gb_cov (snd X)) = cb_items (gb_cov (snd S))" using X by (simp add: untouched_def)
    have "no_evidence (gb_cov (snd X)) (cv_task c)" using X assms(4) unfolding no_evidence_def untouched_def by metis
    from release_refunds [OF C _ _ assms(3) this] show "refunded (cv_id c) (cv_attempts c - 1) (gb_cov (snd (fst X, W)))"
      using assms(1,2) by (simp add: items W)
  qed
next
  fix X Y :: tx assume Y: "refunded (cv_id c) (cv_attempts c - 1) (gb_cov (snd Y))"
  show "ends anywhere (\<lambda>S'. refunded (cv_id c) (cv_attempts c - 1) (gb_cov (snd S'))) (resolve_leads ts run interrupted_reason Y)"
    unfolding resolve_leads_def
    by (rule ends_plain) (use Y in \<open>auto simp: on_cov_Inr map_sum_Inr resolve_interrupted_stage_leads_def Let_def refunded_def item_of_def split: if_splits\<close>)
qed

lemma refunded_not_listed:
  assumes "refunded i n C" "distinct (map cv_id (cb_items C))" "\<And>c. c \<in> set rows \<Longrightarrow> c \<in> set (cb_items C) \<and> cv_run c = Some run"
  shows "i \<notin> cv_id ` set rows"
proof
  assume "i \<in> cv_id ` set rows"
  then obtain c where c: "c \<in> set rows" "i = cv_id c" by blast
  with assms(3) have "item_of i C = Some c" using find_row_unique [OF assms(2), of c] by (simp add: item_of_def)
  with assms(1,3) c(1) show False by (auto simp: refunded_def)
qed

lemma reconcile_refunded:
  assumes "reconcile_coverage_batch ts run limit C = Inr C'" "refunded i n C" "distinct (map cv_id (cb_items C))"
  shows "refunded i n C'"
proof -
  let ?rows = "select_items (\<lambda>c. cv_run c = Some run \<and> cv_status c = CRunning) C"
  have out: "i \<notin> cv_id ` set ?rows"
    by (rule refunded_not_listed [OF assms(2,3), where run = run]) (simp add: select_items_def)
  have row: "item_of i B = item_of i A" if "reconcile_row ts run limit c A = Inr B" "i \<noteq> cv_id c" for c A B
    using that unfolding reconcile_row_def
    by (auto split: option.splits prod.splits dest!: transition_moved(2) [where j = i])
  have "item_of i C' = item_of i C"
    by (rule foldR_invariant [OF assms(1) [unfolded reconcile_coverage_batch_def], where P = "\<lambda>X. item_of i X = item_of i C"])
      (use out row in \<open>auto simp: image_iff\<close>)
  with assms(2) show ?thesis by (simp add: refunded_def)
qed

lemma close_probe_other:
  assumes "close_probe ts run p C = Inr C'" "i \<noteq> cv_id (snd p)"
  shows "item_of i C' = item_of i C"
proof -
  obtain r c where "p = (r, c)" by (cases p)
  with assms show ?thesis
    by (auto simp: close_probe_def item_of_set_item split: if_splits dest!: transition_moved(2) [where j = i])
qed

lemma probes_refunded:
  assumes "refunded i n (gb_cov (snd S))" "distinct (map cv_id (cb_items (gb_cov (snd S))))"
  shows "ends anywhere (\<lambda>(S', stopped). refunded i n (gb_cov (snd S')))
    (if is_batch_failure x then record_stopped_probes ts run S else Inr (S, {}))"
proof -
  let ?C = "gb_cov (snd S)"
  have out: "i \<notin> cv_id ` set (map snd (stopped_probes ?C run))"
    by (rule refunded_not_listed [OF assms, where run = run]) (auto simp: stopped_probes_def stopped_probe_def)
  have "item_of i C = item_of i ?C" if "foldR (close_probe ts run) (stopped_probes ?C run) ?C = Inr C" for C
    by (rule foldR_invariant [OF that, where P = "\<lambda>X. item_of i X = item_of i ?C"])
      (use out close_probe_other in \<open>auto simp: image_iff\<close>)
  then have "ends anywhere (\<lambda>S'. refunded i n (gb_cov (snd S'))) (plain (on_cov (foldR (close_probe ts run) (stopped_probes ?C run))) S)"
    using assms(1) by (intro ends_plain) (auto simp: on_cov_Inr refunded_def)
  then show ?thesis using assms(1) unfolding record_stopped_probes_def Let_def by (auto intro: ends_bind)
qed

lemma cause_refunds:
  assumes "distinct (map cv_id (cb_items (gb_cov D)))" "c \<in> set (cb_items (gb_cov D))" "leased run c"
    "no_evidence (gb_cov D) (cv_task c)" "model_stopped x" "fl_class x \<noteq> UnresolvedLead"
  shows "ends anywhere (\<lambda>S. refunded (cv_id c) (cv_attempts c - 1) (gb_cov (snd S))) (recover_cause limit ts run x (D, D))"
proof -
  have "\<not> model_refused x" using assms(5) by (auto simp: model_stopped_def model_refused_def)
  then have cause: "recover_cause limit ts run x S
      = bindR (recover_stopped ts run (fl_code x = Some ''model_capacity'') S) Inr" for S
    unfolding recover_cause_def using assms(5,6)
    by (cases "recover_stopped ts run (fl_code x = Some ''model_capacity'') S") simp_all
  show ?thesis unfolding cause
    by (rule ends_bind, rule recover_stopped_refunds) (simp_all add: assms)
qed

lemma recover_refunds:
  assumes ok: "batch_ok run D" and c: "c \<in> set (cb_items (gb_cov D))" "leased run c" "no_evidence (gb_cov D) (cv_task c)"
    and x: "model_stopped x" "fl_class x \<noteq> UnresolvedLead"
  shows "ends (\<lambda>D'. steady run D D' \<and> True) (\<lambda>(D', can). refunded (cv_id c) (cv_attempts c - 1) (gb_cov D')) (recover_failed_batch B ts run x D)"
  unfolding recover_failed_batch_def Let_def
proof (rule ends_transaction, rule ends_bind [where P = "\<lambda>S. both (eased D) S \<and> refunded (cv_id c) (cv_attempts c - 1) (gb_cov (snd S))"], goal_cases)
  case 1
  have d: "distinct (map cv_id (cb_items (gb_cov D)))" using ok by (simp add: batch_ok_def joined_def)
  have "both (eased D) (D, D)" by (simp add: eased_def)
  from ends_conj [OF recover_cause_eased [OF this] cause_refunds [OF d c x]] show ?case
    by (rule ends_weaken) (auto simp: steady_def dest: batch_ok_eased [OF ok])
next
  case (2 S1)
  then have d1: "distinct (map cv_id (cb_items (gb_cov (snd S1))))"
    using batch_ok_eased [OF ok, of "snd S1"] by (simp add: batch_ok_def joined_def)
  have "ends anywhere (\<lambda>S. refunded (cv_id c) (cv_attempts c - 1) (gb_cov (snd S))) (reconcile_items B ts run S1)"
    unfolding reconcile_items_def by (rule ends_plain) (use 2 d1 in \<open>auto simp: on_cov_Inr intro: reconcile_refunded\<close>)
  note first = ends_conj [OF reconcile_items_ends [OF conjunct1 [OF 2] ok] this]
  show ?case
  proof (rule ends_bind [OF first], goal_cases)
    case (1 S2)
    then have d2: "distinct (map cv_id (cb_items (gb_cov (snd S2))))" by (simp add: settled_def batch_ok_def joined_def)
    note second = ends_conj [OF probe_phase_ends [OF conjunct1 [OF 1], of x ts] probes_refunded [OF conjunct2 [OF 1] d2, of x ts run]]
    show ?case
    proof (rule ends_bind [OF second], goal_cases)
      case (1 y)
      obtain S3 stopped where y: "y = (S3, stopped)" by (cases y)
      have S3: "settled run D S3" "refunded (cv_id c) (cv_attempts c - 1) (gb_cov (snd S3))" using 1 y by auto
      show ?case unfolding y prod.case
        by (rule ends_bind, rule ends_weaken [OF close_failed_ends [where run = run and D = D], where P' = "\<lambda>S'. same_evidence_rows (snd S3) (snd S')"])
          (use S3 in \<open>auto simp: settled_def batch_ok_def same_evidence_rows_def refunded_def item_of_def\<close>)
    qed
  qed
qed

section \<open>A finished run\<close>

lemma filter_all: "length t \<le> length (filter p t) \<Longrightarrow> x \<in> set t \<Longrightarrow> p x"
  by (metis filter_True filter_id_conv length_filter_less linorder_not_less)

lemma read_coverage_terminal:
  assumes "read_coverage ts scan D = Inr (D', s)" "cs_unfinished s = 0"
  shows "\<forall>c\<in>set (cb_items (gb_cov D')). cv_scan c = scan \<longrightarrow> cv_status c \<in> cov_terminal"
proof (intro ballI impI)
  fix c assume c: "c \<in> set (cb_items (gb_cov D'))" "cv_scan c = scan"
  let ?rows = "filter (\<lambda>c. cv_scan c = scan) (cb_items (gb_cov D'))"
  have "s = coverage_summary ?rows"
    using assms(1) by (auto simp: read_coverage_def coverage_status_def bindR_eq_Inr Let_def select_items_def split: sum.splits)
  then have "length ?rows \<le> length (filter (\<lambda>c. cv_status c \<in> cov_terminal) ?rows)"
    using assms(2) by (simp add: coverage_summary_def Let_def count_status_def rowcount_def)
  from filter_all [OF this] c show "cv_status c \<in> cov_terminal" by auto
qed

lemma attack_rounds_stages:
  assumes "attack_rounds B A scan rounds stages D = Inr (D', stages')"
  shows "length stages' \<le> length stages + length rounds"
  using assms
proof (induction rounds arbitrary: stages D)
  case (Cons x rounds)
  obtain ts run where x: "x = (ts, run)" by (cases x)
  from Cons.prems show ?case unfolding x
    by (auto simp: bindR_eq_Inr split: if_splits dest!: Cons.IH)
qed simp

section \<open>Properties\<close>

text \<open>
  C17: a batch is always closed.  When \<open>_recover_failed_batch\<close> returns, no coverage item is leased to
  the stage run of the batch any more, the stage is not running - completed if the failure was
  recoverable, failed otherwise, with every task of the run terminal - and no lead of the scan is
  claimed by the run; when it raises, the database it leaves holds the stage as it was or holds no
  lease of the run, although the operations underneath commit on the way.
\<close>

theorem recovery_closes_batch:
  assumes "batch_ok run D"
  shows "case recover_failed_batch B ts run x D of
      Inl (e, D') \<Rightarrow> stage_row run D' = stage_row run D \<or> free run D'
    | Inr (D', can) \<Rightarrow> free run D' \<and> closed_stage run (recoverable x can) D D'"
  using recover_ends [OF assms, of x B ts] by (auto simp: ends_def steady_def split: sum.splits)

text \<open>
  C18: the run only goes on over settled evidence.  When it goes on with the next batch after a failure,
  the failed batch left no open lead, neither of its stage nor one the failure named, no open task, a
  stage that was running is completed, and every HTTP request whose outcome is unknown is a finished
  read-only probe whose coverage item is closed with a terminal error; such requests are only
  accepted from a failure the native batch itself reported.
\<close>

theorem continuing_is_safe:
  assumes "batch_ok run D" and "recover_failed_batch B ts run x D = Inr (D', can)" and "goes_on x can"
  shows "open_leads run (gb_cov D') = [] \<and> named_leads (fl_attempts x) (gb_cov D') = [] \<and> open_tasks run (gb_pipe D') = []
    \<and> (\<exists>s s0. stage_row run D = Some s0 \<and> stage_row run D' = Some s \<and> (sr_status s0 = JRunning \<longrightarrow> sr_status s = JCompleted))
    \<and> (\<forall>r\<in>set (unknown_requests run (gb_cov D')). is_batch_failure x \<and> settled_probe run (gb_cov D') r)"
proof -
  have can: "can" and rec: "recoverable x can"
    using assms(3) by (auto simp: goes_on_def recoverable_def is_batch_failure_def split: if_splits)
  from ends_Inr_D [OF assms(2) recover_ends [OF assms(1)]]
  have stage: "closed_stage run True D D'" and quiet: "nothing_open run x D'" using can rec by auto
  from stage have "\<exists>s s0. stage_row run D = Some s0 \<and> stage_row run D' = Some s \<and> (sr_status s0 = JRunning \<longrightarrow> sr_status s = JCompleted)"
    unfolding closed_stage_def by auto
  moreover from quiet have "open_leads run (gb_cov D') = []" "named_leads (fl_attempts x) (gb_cov D') = []" "open_tasks run (gb_pipe D') = []"
    "\<forall>r\<in>set (unknown_requests run (gb_cov D')). is_batch_failure x \<and> settled_probe run (gb_cov D') r"
    by (simp_all add: nothing_open_def no_leads_def no_task_open_def)
  ultimately show ?thesis by blast
qed

text \<open>
  C32: an unsupported item whose needs are met strands every batch.  Preparing the batch raises, and
  because \<open>start_stage_run\<close> has committed by then the database keeps the new stage run, running and
  without tasks; apart from that stage and its audit entry nothing has changed, so the next attempt
  fails the same way and strands another one.
\<close>

theorem unprepared_batch_strands_its_stage:
  assumes "start_stage_run run [] scan ''attack'' None ts (gb_pipe D) = Inr P"
    and "collision_free (be_pre B)" and "pre_ok (be_pre B) (gb_pre D)" and "c \<in> set (cb_items (gb_cov D))"
    and "cv_scan c = scan" and "cv_status c = CUnsupported" and "needed_preconditions c \<noteq> []"
    and "\<forall>need\<in>set (needed_preconditions c). need_met (be_pre B) scan (gb_pre D) c need"
  shows "(\<exists>e. start_batch B ts scan run D = Inl (e, with_pipe P D))
    \<and> (\<exists>s. stage_row run (with_pipe P D) = Some s \<and> sr_status s = JRunning)"
proof -
  note frame = start_stage_frame [OF assms(1)]
  note same = pipe_needs [OF frame [THEN conjunct1]]
  have "\<exists>e. resolve_attack_preconditions (be_pre B) ts scan (gb_pre (with_pipe P D)) = Inl e"
    by (rule settled_unsupported_item_raises [OF assms(2) _ _ assms(5-7)]) (use assms(3,4,8) in \<open>simp_all add: same, simp add: with_pipe_def\<close>)
  then show ?thesis using start_batch_fails [OF assms(1)] frame by (auto simp: stage_row_def with_pipe_def)
qed

text \<open>
  C31: a model that stopped costs no attempt.  When the model behind a batch ran out of capacity or
  time, a leased item for whose task no attempt and no request was recorded is pending again after
  the recovery, without run and task and with its attempt given back.
\<close>

theorem stopped_model_costs_no_attempt:
  assumes "batch_ok run D" and "recover_failed_batch B ts run x D = Inr (D', can)"
    and "c \<in> set (cb_items (gb_cov D))" and "leased run c" and "no_evidence (gb_cov D) (cv_task c)"
    and "model_stopped x" and "fl_class x \<noteq> UnresolvedLead"
  shows "\<exists>c'. item_of (cv_id c) (gb_cov D') = Some c' \<and> cv_status c' = CPending \<and> cv_attempts c' = cv_attempts c - 1
    \<and> cv_run c' = None \<and> cv_task c' = None"
  using ends_Inr_D [OF assms(2) recover_refunds [OF assms(1,3-7)]] by (simp add: refunded_def)

text \<open>
  C19: a finished run covers everything.  When the exhaustive run returns - whatever its agents did to
  the database - every coverage item of the scan has a terminal disposition, the summary it returns
  counts no unfinished item, and it used no more batches than it may start.
\<close>

theorem finished_run_covers_scan:
  assumes "run_exhaustive B A scan ts rounds D = Inr (D', r)"
  shows "(\<forall>c\<in>set (cb_items (gb_cov D')). cv_scan c = scan \<longrightarrow> cv_status c \<in> cov_terminal)
    \<and> cs_unfinished (ar_coverage r) = 0 \<and> ar_batches r = length (ar_stages r) \<and> ar_batches r \<le> length rounds"
proof -
  obtain D1 stages where rounds: "attack_rounds B A scan rounds [] D = Inr (D1, stages)"
    and fin: "finish_result ts scan stages D1 = Inr (D', r)"
    using assms by (auto simp: run_exhaustive_def bindR_eq_Inr)
  from fin obtain s where cov: "read_coverage ts scan D1 = Inr (D', s)" and "cs_unfinished s = 0"
    and r: "ar_batches r = length stages" "ar_stages r = stages" "ar_coverage r = s"
    by (auto simp: finish_result_def bindR_eq_Inr split: if_splits)
  then show ?thesis using read_coverage_terminal [OF cov] attack_rounds_stages [OF rounds] by simp
qed

section \<open>Examples\<close>

definition sample_batch_env :: batch_env where
  "sample_batch_env = \<lparr>be_batch = 4, be_retry = 3, be_graph = sample_graph_env, be_chain = (\<lambda>s f c. f @ c), be_lead = (\<lambda>s n c. n @ c),
     be_pre = sample_pre_env, be_context = ce_context sample_env, be_task = (\<lambda>c. c @ ''-task''), be_shown = ce_shown sample_env, be_epoch = None\<rparr>"

definition sample_timeout :: failure where
  "sample_timeout = \<lparr>fl_class = OtherFailure, fl_code = Some ''timeout'', fl_attempts = [], fl_text = ''stopped''\<rparr>"

definition sample_leased :: cov_item where
  "sample_leased = (sample_item ''a'' CRunning)\<lparr>cv_run := Some ''r'', cv_task := Some ''k'', cv_attempts := 1\<rparr>"

definition sample_released :: cov_item where
  "sample_released = (sample_item ''a'' CPending)\<lparr>cv_reason := Some (stop_reason False), cv_updated := ''t''\<rparr>"

definition sample_work :: "job_status \<Rightarrow> attack_task" where
  "sample_work st = \<lparr>at_id = ''k'', at_run = ''r'', at_scan = ''s'', at_skill = ''hunt-xss'', at_endpoint = Some ''e'', at_payload = [],
     at_status = st, at_error = None, at_started = Some ''t0'', at_finished = None\<rparr>"

definition sample_pipe :: "attack_task list \<Rightarrow> pipe_db" where
  "sample_pipe tasks = (fresh_db [''s''])\<lparr>d_tasks := tasks, d_stages := [\<lparr>sr_id = ''r'', sr_scan = ''s'', sr_stage = ''attack'',
     sr_status = JRunning, sr_manifest = None, sr_error = None, sr_started = Some ''t0'', sr_finished = None\<rparr>]\<rparr>"

definition sample_batch :: graph_db where
  "sample_batch = (sample_graph [])\<lparr>gb_sites := [], gb_pre := (gb_pre (sample_graph []))
     \<lparr>pd_cov := (sample_cov [sample_leased])\<lparr>cb_pipe := sample_pipe [sample_work JRunning]\<rparr>\<rparr>\<rparr>"

lemma stop_reason_text: "\<not> is_blank (stop_reason b)" "\<not> sql_blank (stop_reason b)"
  by (simp_all add: stop_reason_def is_blank_iff sql_blank_def is_space_def)

lemma interrupted_text: "\<not> is_blank interrupted_reason"
  by (simp add: interrupted_reason_def is_blank_iff is_space_def)

lemma sample_batch_ok: "batch_ok ''r'' sample_batch"
  by (simp add: batch_ok_def joined_def sample_batch_def sample_graph_def sample_cov_def sample_pipe_def sample_work_def
      sample_leased_def sample_item_def joinable_def task_of_def endpoint_of_def find_row_def)

text \<open>What the sample looks like when its lease is released.\<close>

definition sample_calm :: "graph_db \<Rightarrow> bool" where
  "sample_calm W \<longleftrightarrow> (\<exists>ev au. W = sample_batch\<lparr>gb_pre := (gb_pre sample_batch)\<lparr>pd_cov := (gb_cov sample_batch)
     \<lparr>cb_items := [sample_released], cb_events := ev, cb_pipe := (sample_pipe [(sample_work JCancelled)
        \<lparr>at_error := Some (stop_reason False), at_finished := Some ''t''\<rparr>])\<lparr>d_audit := au\<rparr>\<rparr>\<rparr>\<rparr>)"

lemma sample_cancel:
  "\<exists>au. transition_task ''k'' JCancelled (Some w) ''t'' (sample_pipe [sample_work JRunning])
     = Inr ((sample_pipe [(sample_work JCancelled)\<lparr>at_error := Some w, at_finished := Some ''t''\<rparr>])\<lparr>d_audit := au\<rparr>)"
  by (simp add: transition_task_def sample_pipe_def sample_work_def fresh_db_def find_row_def audit_def fk_stage_def fk_task_def sql_blank_def)

lemma sample_release:
  "\<exists>ev. release_unattempted_coverage ''t'' ''r'' (stop_reason False) ((sample_cov [sample_leased])\<lparr>cb_pipe := P\<rparr>)
     = Inr ((sample_cov [sample_released])\<lparr>cb_pipe := P, cb_events := ev\<rparr>)"
proof -
  let ?C = "(sample_cov [sample_leased])\<lparr>cb_pipe := P\<rparr>"
  have "select_items (\<lambda>c. cv_run c = Some ''r'' \<and> cv_status c = CRunning \<and> no_evidence ?C (cv_task c)) ?C = [sample_leased]"
    by (simp add: select_items_def sample_cov_def sample_leased_def sample_item_def no_evidence_def)
  then show ?thesis
    by (simp add: release_unattempted_coverage_def requeue_row_def put_event_def stop_reason_text)
      (simp add: set_item_def sample_cov_def sample_leased_def sample_released_def sample_item_def)
qed

lemma sample_cause: "\<exists>S. recover_cause 3 ''t'' ''r'' sample_timeout (sample_batch, sample_batch) = Inr S \<and> sample_calm (snd S)"
proof -
  have x: "model_stopped sample_timeout" "\<not> model_refused sample_timeout" "fl_class sample_timeout \<noteq> UnresolvedLead"
    "(fl_code sample_timeout = Some ''model_capacity'') = False"
    by (simp_all add: sample_timeout_def model_stopped_def model_refused_def)
  define P where "P au = (sample_pipe [(sample_work JCancelled)\<lparr>at_error := Some (stop_reason False), at_finished := Some ''t''\<rparr>])\<lparr>d_audit := au\<rparr>" for au
  have tasks: "open_tasks ''r'' (gb_pipe sample_batch) = [sample_work JRunning]"
    by (simp add: open_tasks_def stage_tasks_def sample_batch_def sample_pipe_def sample_work_def)
  obtain au where au: "transition_task ''k'' JCancelled (Some (stop_reason False)) ''t'' (gb_pipe sample_batch) = Inr (P au)"
    using sample_cancel unfolding P_def by (auto simp: sample_batch_def)
  have one: "cancel_open ''t'' ''r'' (stop_reason False) (sample_batch, sample_batch) = Inr (with_pipe (P au) sample_batch, with_pipe (P au) sample_batch)"
    using au by (simp add: cancel_open_def tasks end_task_def saved_def on_pipe_def on_cov_def on_pre_def sample_work_def with_pipe_def)
  obtain ev where ev: "release_unattempted_coverage ''t'' ''r'' (stop_reason False) ((sample_cov [sample_leased])\<lparr>cb_pipe := P au\<rparr>)
     = Inr ((sample_cov [sample_released])\<lparr>cb_pipe := P au, cb_events := ev\<rparr>)" using sample_release by blast
  define W where "W = sample_batch\<lparr>gb_pre := (gb_pre sample_batch)\<lparr>pd_cov := (sample_cov [sample_released])\<lparr>cb_pipe := P au, cb_events := ev\<rparr>\<rparr>\<rparr>"
  have two: "plain (on_cov (release_unattempted_coverage ''t'' ''r'' (stop_reason False))) (with_pipe (P au) sample_batch, with_pipe (P au) sample_batch)
      = Inr (with_pipe (P au) sample_batch, W)"
    using ev by (simp add: plain_def on_cov_def on_pre_def with_pipe_def W_def sample_batch_def)
  have three: "resolve_leads ''t'' ''r'' interrupted_reason (with_pipe (P au) sample_batch, W) = Inr (with_pipe (P au) sample_batch, W)"
    by (simp add: resolve_leads_def plain_def on_cov_def on_pre_def resolve_interrupted_stage_leads_def interrupted_text W_def sample_cov_def)
  have "sample_calm W"
    unfolding sample_calm_def by (rule exI [of _ ev], rule exI [of _ au]) (simp add: W_def P_def sample_batch_def sample_cov_def)
  then show ?thesis using x
    by (simp add: recover_cause_def recover_stopped_def one two three)
qed

definition sample_plain :: "graph_db \<Rightarrow> bool" where
  "sample_plain W \<longleftrightarrow> cb_items (gb_cov W) = [sample_released] \<and> gb_sites W = [] \<and> gb_params W = [] \<and> gb_findings W = []
     \<and> gb_chains W = [] \<and> gb_tools W = [] \<and> cb_attempts (gb_cov W) = [] \<and> cb_checkpoints (gb_cov W) = []
     \<and> pd_facts (gb_pre W) = [] \<and> d_credentials (gb_pipe W) = [] \<and> pd_rows (gb_pre W) = []
     \<and> graph_keys_ok W ''s'' (Some ''r'')"

lemma sample_plain_project: "sample_plain W \<Longrightarrow> project sample_graph_env ''s'' W = [DrawNode (item_node (sample_item ''a'' CPending))]"
proof -
  assume W: "sample_plain W"
  have node: "item_node sample_released = item_node (sample_item ''a'' CPending)"
    by (simp add: item_node_def sample_released_def)
  have "known_endpoint ''s'' W x = False" for x using W by (simp add: known_endpoint_def sample_plain_def split: option.split)
  moreover have "cv_scan sample_released = ''s''" by (simp add: sample_released_def sample_item_def)
  ultimately show ?thesis using W node
    by (simp add: project_def sample_plain_def site_cmds_def param_cmds_def item_cmds_def link_if_def need_cmds_def finding_cmds_def
        chain_cmds_def tool_cmds_def checkpoint_cmds_def lead_cmds_def fact_cmds_def credential_cmds_def)
qed

lemma sample_plain_same: "gb_pre W' = gb_pre W \<Longrightarrow> gb_sites W' = gb_sites W \<Longrightarrow> gb_params W' = gb_params W
  \<Longrightarrow> gb_findings W' = gb_findings W \<Longrightarrow> gb_chains W' = gb_chains W \<Longrightarrow> gb_tools W' = gb_tools W \<Longrightarrow> sample_plain W' = sample_plain W"
  by (simp add: sample_plain_def graph_keys_ok_def)

lemma sample_sync:
  assumes W: "sample_plain W" and nodes: "gb_nodes W = []" "gb_revisions W = []" and trigger: "\<not> sql_blank trigger"
  shows "\<exists>W' s. synchronize_attack_graph sample_graph_env ''t'' (Some ''r'') trigger ''s'' W = Inr (W', s) \<and> sample_plain W'
    \<and> drawn sample_graph_env ''s'' (DrawNode (item_node (sample_item ''a'' CPending))) W'
    \<and> (\<exists>r\<in>set (gb_revisions W'). rv_scan r = ''s'' \<and> rv_sha r = graph_sha sample_graph_env ''s'' W')"
proof -
  let ?E = sample_graph_env
  define m where "m = item_node (sample_item ''a'' CPending)"
  have fits: "node_fits ?E m" unfolding m_def by (rule sample_fits)
  have keys: "graph_keys_ok X ''s'' (Some ''r'')" if "gb_pre X = gb_pre W" for X
    using W that by (simp add: sample_plain_def graph_keys_ok_def)
  then have scan: "''s'' \<in> set (d_scans (gb_pipe W))" by (simp add: graph_keys_ok_def)
  define W1 where "W1 = W\<lparr>gb_nodes := [\<lparr>nd_id = node_ident ?E ''s'' (nc_kind m) (nc_key m), nd_scan = ''s'', nd_kind = nc_kind m,
     nd_key = nc_key m, nd_state = nc_state m, nd_priority = nc_priority m, nd_meta = nc_meta m,
     nd_content = node_content ?E m, nd_updated = ''t''\<rparr>],
     gb_events := gb_events W @ [\<lparr>ge_scan = ''s'', ge_run = Some ''r'', ge_change = NodeAdded (node_ident ?E ''s'' (nc_kind m) (nc_key m))\<rparr>]\<rparr>"
  have one: "foldR (draw ?E ''s'' (Some ''r'') ''t'') (project ?E ''s'' W) W = Inr W1"
    unfolding sample_plain_project [OF W] m_def [symmetric]
    by (simp add: put_node_def Let_def nodes find_row_def fits scan add_graph_event_def keys W1_def)
  define rev where "rev = gr_id ?E ''graph_revision'' [''s'', graph_sha ?E ''s'' W1]"
  define W2 where "W2 = W1\<lparr>gb_revisions := [\<lparr>rv_ident = rev, rv_scan = ''s'', rv_sha = graph_sha ?E ''s'' W1,
     rv_nodes = length (filter (\<lambda>r. nd_scan r = ''s'') (gb_nodes W1)), rv_edges = length (filter (\<lambda>r. ed_scan r = ''s'') (gb_edges W1)),
     rv_run = Some ''r'', rv_trigger = trigger\<rparr>], gb_events := gb_events W1 @ [\<lparr>ge_scan = ''s'', ge_run = Some ''r'', ge_change = PlannerRevision rev\<rparr>]\<rparr>"
  have "gb_revisions W1 = []" "gb_pre W1 = gb_pre W" by (simp_all add: W1_def nodes)
  then have two: "record_revision ?E ''s'' (Some ''r'') trigger W1 = Inr (W2, \<lparr>sy_revision = Some rev, sy_sha = graph_sha ?E ''s'' W1\<rparr>)"
    using trigger by (simp add: record_revision_def Let_def add_graph_event_def keys rev_def [symmetric] W2_def)
  have "sample_plain W2" using W by (subst sample_plain_same [of W2 W]) (simp_all add: W2_def W1_def)
  moreover have "drawn ?E ''s'' (DrawNode m) W2" by (simp add: W2_def W1_def find_row_def)
  moreover have "graph_sha ?E ''s'' W2 = graph_sha ?E ''s'' W1" by (simp add: graph_sha_def W2_def)
  then have "\<exists>r\<in>set (gb_revisions W2). rv_scan r = ''s'' \<and> rv_sha r = graph_sha ?E ''s'' W2" by (simp add: W2_def)
  ultimately show ?thesis using one two by (simp add: synchronize_attack_graph_def m_def)
qed

lemma sample_sync_again:
  assumes W: "sample_plain W" and "drawn sample_graph_env ''s'' (DrawNode (item_node (sample_item ''a'' CPending))) W"
    and "\<exists>r\<in>set (gb_revisions W). rv_scan r = ''s'' \<and> rv_sha r = graph_sha sample_graph_env ''s'' W"
  shows "\<exists>s. synchronize_attack_graph sample_graph_env ''t'' (Some ''r'') trigger ''s'' W = Inr (W, s)"
  using assms(3) drawn_skips [OF assms(2)]
  by (simp add: synchronize_attack_graph_def sample_plain_project [OF W] record_revision_def Let_def)

lemma sample_refresh:
  assumes W: "sample_plain W" and nodes: "gb_nodes W = []" "gb_revisions W = []" and trigger: "\<not> sql_blank before"
  shows "\<exists>S. refresh_graph sample_batch_env ''t'' ''s'' (Some ''r'') before after (C, W) = Inr S"
proof -
  obtain W1 s where one: "synchronize_attack_graph sample_graph_env ''t'' (Some ''r'') before ''s'' W = Inr (W1, s)" and W1: "sample_plain W1"
    and d: "drawn sample_graph_env ''s'' (DrawNode (item_node (sample_item ''a'' CPending))) W1"
    and r: "\<exists>r\<in>set (gb_revisions W1). rv_scan r = ''s'' \<and> rv_sha r = graph_sha sample_graph_env ''s'' W1"
    using sample_sync [OF assms] by blast
  have "\<exists>n. refresh_online_chain_leads f g ''t'' 8 (Some ''r'') ''s'' W1 = Inr (W1, n)" for f g
    using W1 by (simp add: refresh_online_chain_leads_def chain_jobs_def chain_findings_def sample_plain_def)
  then obtain n where two: "refresh_online_chain_leads (be_chain sample_batch_env) (be_lead sample_batch_env) ''t'' 8 (Some ''r'') ''s'' W1 = Inr (W1, n)" by blast
  obtain s' where three: "synchronize_attack_graph sample_graph_env ''t'' (Some ''r'') after ''s'' W1 = Inr (W1, s')"
    using sample_sync_again [OF W1 d r] by blast
  have "be_graph sample_batch_env = sample_graph_env" by (simp add: sample_batch_env_def)
  then show ?thesis by (simp add: refresh_graph_def sync_graph_def plain_def one two three)
qed

lemma sample_finish:
  "\<exists>au' st. finish_stage_run ''r'' JCompleted None True ''t'' None ((sample_pipe [(sample_work JCancelled)\<lparr>at_error := e, at_finished := Some ''t''\<rparr>])\<lparr>d_audit := au\<rparr>)
     = Inr ((sample_pipe [(sample_work JCancelled)\<lparr>at_error := e, at_finished := Some ''t''\<rparr>])\<lparr>d_audit := au', d_stages := [st]\<rparr>) \<and> sr_id st = ''r''"
proof -
  let ?P = "(sample_pipe [(sample_work JCancelled)\<lparr>at_error := e, at_finished := Some ''t''\<rparr>])\<lparr>d_audit := au\<rparr>"
  have row: "\<exists>s. find_row sr_id ''r'' (d_stages ?P) = Some s \<and> sr_status s = JRunning \<and> sr_stage s = ''attack'' \<and> sr_scan s = ''s''"
    by (simp add: find_row_def sample_pipe_def)
  have tasks: "stage_tasks ''r'' ?P = [(sample_work JCancelled)\<lparr>at_error := e, at_finished := Some ''t''\<rparr>]"
    by (simp add: stage_tasks_def sample_pipe_def sample_work_def)
  have st: "at_status ((sample_work JCancelled)\<lparr>at_error := e, at_finished := Some ''t''\<rparr>) = JCancelled" by (simp add: sample_work_def)
  from row show ?thesis
    by (auto simp: finish_stage_run_def may_complete_def tasks st cancel_open_task_def terminal_statuses_def audit_def)
      (simp_all add: sample_pipe_def fresh_db_def fk_stage_def fk_task_def sql_blank_def)
qed

lemma sample_recovers: "\<exists>D'. recover_failed_batch sample_batch_env ''t'' ''r'' sample_timeout sample_batch = Inr (D', True)"
proof -
  obtain C W where S: "recover_cause 3 ''t'' ''r'' sample_timeout (sample_batch, sample_batch) = Inr (C, W)" and "sample_calm W"
    using sample_cause by auto
  then obtain ev au where W: "W = sample_batch\<lparr>gb_pre := (gb_pre sample_batch)\<lparr>pd_cov := (gb_cov sample_batch)
     \<lparr>cb_items := [sample_released], cb_events := ev, cb_pipe := (sample_pipe [(sample_work JCancelled)
        \<lparr>at_error := Some (stop_reason False), at_finished := Some ''t''\<rparr>])\<lparr>d_audit := au\<rparr>\<rparr>\<rparr>\<rparr>"
    unfolding sample_calm_def by blast
  have tables: "cb_items (gb_cov W) = [sample_released]" "cb_attempts (gb_cov W) = []" "cb_requests (gb_cov W) = []"
    "gb_pipe W = (sample_pipe [(sample_work JCancelled)\<lparr>at_error := Some (stop_reason False), at_finished := Some ''t''\<rparr>])\<lparr>d_audit := au\<rparr>"
    by (simp_all add: W sample_batch_def sample_cov_def)
  have reconcile: "reconcile_items sample_batch_env ''t'' ''r'' (C, W) = Inr (C, W)"
    by (simp add: reconcile_items_def plain_def on_cov_def on_pre_def reconcile_coverage_batch_def select_items_def tables)
      (simp add: sample_released_def sample_item_def)
  have quiet: "no_leads ''r'' (fl_attempts sample_timeout) (gb_cov W)" "all_settled ''r'' {} (gb_cov W)" "\<not> is_batch_failure sample_timeout"
    by (simp_all add: no_leads_def open_leads_def named_leads_def all_settled_def unknown_requests_def open_tasks_def stage_tasks_def tables
        is_batch_failure_def sample_timeout_def) (simp add: sample_pipe_def sample_work_def)
  have rec: "recoverable sample_timeout True" by (simp add: recoverable_def sample_timeout_def model_stopped_def)
  obtain au' st where fin: "finish_stage_run ''r'' JCompleted None True ''t'' None (gb_pipe W)
      = Inr ((gb_pipe W)\<lparr>d_audit := au', d_stages := [st]\<rparr>)" and st: "sr_id st = ''r''"
    using sample_finish [where e = "Some (stop_reason False)" and au = au] by (auto simp: tables)
  define W1 where "W1 = with_pipe ((gb_pipe W)\<lparr>d_audit := au', d_stages := [st]\<rparr>) W"
  have ended: "end_stage sample_batch_env ''t'' ''r'' JCompleted None True (C, W) = Inr (W1, W1)"
    using fin by (simp add: end_stage_def saved_def on_pipe_def on_cov_def on_pre_def sample_batch_env_def W1_def with_pipe_def)
  have leads: "reconcile_leads ''s'' ''r'' (W1, W1) = Inr (W1, W1)"
    by (simp add: reconcile_leads_def plain_def on_queue_def reconcile_lead_queue_def queue_view_def W1_def with_pipe_def W sample_batch_def sample_graph_def)
  have "sample_plain W1"
    by (simp add: sample_plain_def W1_def with_pipe_def W sample_batch_def sample_graph_def sample_cov_def sample_pre_def sample_pipe_def
        fresh_db_def graph_keys_ok_def st)
  moreover have "gb_nodes W1 = []" "gb_revisions W1 = []" by (simp_all add: W1_def with_pipe_def W sample_batch_def sample_graph_def)
  moreover have "\<not> sql_blank ''agent.batch.recovered''" by (simp add: sql_blank_def)
  ultimately obtain S2 where S2: "refresh_graph sample_batch_env ''t'' ''s'' (Some ''r'') ''agent.batch.recovered'' ''online.chains.changed'' (W1, W1) = Inr S2"
    using sample_refresh by blast
  have row: "\<exists>s. find_row sr_id ''r'' (d_stages (gb_pipe W)) = Some s \<and> sr_status s = JRunning \<and> sr_scan s = ''s''"
    by (simp add: find_row_def tables sample_pipe_def)
  then have "close_failed sample_batch_env ''t'' ''r'' sample_timeout True (C, W) = Inr S2"
    using ended leads S2 rec by (auto simp: close_failed_def)
  then have "recover_failed_batch sample_batch_env ''t'' ''r'' sample_timeout sample_batch = Inr (snd S2, True)"
    using S reconcile quiet by (simp add: recover_failed_batch_def transaction_def sample_batch_env_def)
  then show ?thesis by blast
qed

lemma stopped_model_costs_no_attempt_witness:
  "\<exists>D'. recover_failed_batch sample_batch_env ''t'' ''r'' sample_timeout sample_batch = Inr (D', True)
     \<and> (\<exists>c. item_of ''a'' (gb_cov D') = Some c \<and> cv_status c = CPending \<and> cv_attempts c = 0)"
proof -
  obtain D' where D': "recover_failed_batch sample_batch_env ''t'' ''r'' sample_timeout sample_batch = Inr (D', True)"
    using sample_recovers by blast
  have c: "sample_leased \<in> set (cb_items (gb_cov sample_batch))" "leased ''r'' sample_leased"
    "no_evidence (gb_cov sample_batch) (cv_task sample_leased)"
    by (simp_all add: sample_batch_def sample_cov_def leased_def sample_leased_def no_evidence_def sample_item_def)
  have x: "model_stopped sample_timeout" "fl_class sample_timeout \<noteq> UnresolvedLead"
    by (simp_all add: model_stopped_def sample_timeout_def)
  have "cv_id sample_leased = ''a''" "cv_attempts sample_leased = 1" by (simp_all add: sample_leased_def sample_item_def)
  with stopped_model_costs_no_attempt [OF sample_batch_ok D' c x] D' show ?thesis by auto
qed

lemma recovery_closes_batch_witness:
  "\<exists>D'. recover_failed_batch sample_batch_env ''t'' ''r'' sample_timeout sample_batch = Inr (D', True)
     \<and> free ''r'' D' \<and> closed_stage ''r'' True sample_batch D'"
proof -
  have "recoverable sample_timeout True" by (simp add: recoverable_def sample_timeout_def model_stopped_def)
  with recovery_closes_batch [OF sample_batch_ok, where B = sample_batch_env and ts = "''t''" and x = sample_timeout] sample_recovers
  show ?thesis by auto
qed

lemma continuing_is_safe_witness:
  "\<exists>D'. recover_failed_batch sample_batch_env ''t'' ''r'' sample_timeout sample_batch = Inr (D', True)
     \<and> goes_on sample_timeout True \<and> open_tasks ''r'' (gb_pipe D') = []"
proof -
  have go: "goes_on sample_timeout True" by (simp add: goes_on_def sample_timeout_def model_stopped_def)
  from sample_recovers obtain D' where "recover_failed_batch sample_batch_env ''t'' ''r'' sample_timeout sample_batch = Inr (D', True)" by blast
  with continuing_is_safe [OF sample_batch_ok this go] go show ?thesis by blast
qed

lemma unprepared_batch_strands_its_stage_witness:
  "\<exists>e D'. start_batch sample_batch_env ''t'' ''s'' ''r2''
     (sample_batch\<lparr>gb_pre := sample_pre ((sample_item ''a'' CUnsupported)\<lparr>cv_role := ''authenticated''\<rparr>) PreSatisfied\<rparr>) = Inl (e, D')
     \<and> (\<exists>s. stage_row ''r2'' D' = Some s \<and> sr_status s = JRunning)"
proof -
  let ?c = "(sample_item ''a'' CUnsupported)\<lparr>cv_role := ''authenticated''\<rparr>"
  let ?D = "sample_batch\<lparr>gb_pre := sample_pre ?c PreSatisfied\<rparr>"
  have env: "be_pre sample_batch_env = sample_pre_env" by (simp add: sample_batch_env_def)
  obtain P where P: "start_stage_run ''r2'' [] ''s'' ''attack'' None ''t'' (gb_pipe ?D) = Inr P"
    by (simp add: sample_pre_def sample_cov_def fresh_db_def start_stage_run_def Let_def audit_def fk_stage_def fk_task_def sql_blank_def)
  have free: "collision_free (be_pre sample_batch_env)" unfolding env by (rule sample_collision_free)
  have ok: "pre_ok (be_pre sample_batch_env) (gb_pre ?D)" unfolding env by (simp, rule sample_pre_ok) (simp_all add: sample_item_def)
  have c: "?c \<in> set (cb_items (gb_cov ?D))" "cv_scan ?c = ''s''" "cv_status ?c = CUnsupported"
    by (simp_all add: sample_pre_def sample_cov_def sample_item_def)
  have needs: "needed_preconditions ?c = [(UsableSession, NeedReferences ''authenticated'' 1)]"
    using sample_needs [of ?c] by (simp add: sample_item_def)
  have "(\<exists>e. start_batch sample_batch_env ''t'' ''s'' ''r2'' ?D = Inl (e, with_pipe P ?D))
    \<and> (\<exists>s. stage_row ''r2'' (with_pipe P ?D) = Some s \<and> sr_status s = JRunning)"
    by (rule unprepared_batch_strands_its_stage [OF P free ok c]) (simp_all add: needs env sample_met)
  then show ?thesis by blast
qed

definition sample_finished :: graph_db where
  "sample_finished = sample_batch\<lparr>gb_pre := (gb_pre sample_batch)\<lparr>pd_cov := sample_cov [sample_item ''a'' CTestedNegative]\<rparr>\<rparr>"

lemma finished_run_covers_scan_witness:
  "\<exists>D' r. run_exhaustive sample_batch_env \<lparr>ag_local = (\<lambda>_ tasks D. Inr (D, tasks)), ag_native = (\<lambda>_ _ D. (D, None))\<rparr> ''s'' ''t''
       [(''t'', ''r2'')] sample_finished = Inr (D', r)
     \<and> map cv_status (cb_items (gb_cov D')) = [CTestedNegative] \<and> cs_unfinished (ar_coverage r) = 0 \<and> ar_batches r \<le> 1"
proof -
  let ?A = "\<lparr>ag_local = (\<lambda>_ tasks D. Inr (D, tasks)), ag_native = (\<lambda>_ _ D. (D, None))\<rparr>"
  have "coverage_status ''t'' ''s'' (gb_cov sample_finished) = Inr (gb_cov sample_finished, coverage_summary [sample_item ''a'' CTestedNegative])"
    by (simp add: coverage_status_def refresh_confirmed_coverage_def refresh_catalog_assessments_def select_items_def
        sample_finished_def sample_cov_def sample_item_def case_verdict_def)
  then have cov: "read_coverage ''t'' ''s'' sample_finished = Inr (sample_finished, coverage_summary [sample_item ''a'' CTestedNegative])"
    by (simp add: read_coverage_def)
  have zero: "cs_unfinished (coverage_summary [sample_item ''a'' CTestedNegative]) = 0"
    by (simp add: coverage_summary_def Let_def count_status_def rowcount_def cov_terminal_def sample_item_def)
  obtain r where run: "run_exhaustive sample_batch_env ?A ''s'' ''t'' [(''t'', ''r2'')] sample_finished = Inr (sample_finished, r)"
    using zero by (simp add: run_exhaustive_def cov finish_result_def)
  have "map cv_status (cb_items (gb_cov sample_finished)) = [CTestedNegative]"
    by (simp add: sample_finished_def sample_cov_def sample_item_def)
  with finished_run_covers_scan [OF run] run show ?thesis by auto
qed

end
