(* ===== verification/Spec2Isabelle.thy ===== *)
theory Spec2Isabelle
  imports Governor Shared_Ledger Lifecycle Coverage Decision Case_Invariants Request_Broker Budget_Ledger Work_Queue Preconditions Capture_Receipt Proxy_Rules Evidence_Gate Attack_Graph Online_Chaining Attack_Batch
begin

text \<open>
  AIDAST (\<open>src/src/aidast\<close>) scans web applications under a written bug bounty policy: Scope
  import turns the policy into an executable target policy, Recon explores the target, Attack
  works through a coverage ledger of endpoints and vulnerability classes, Validation replays
  every finding and decides it, Reporting publishes what is confirmed.  What makes such a program
  correct is that it never leaves its authorization and never loses track of its state.  The
  development models the parts that decide this.

  \<^bold>\<open>The request boundary.\<close>
  \<^item> \<open>Py_Url\<close>: the part of \<open>urllib.parse\<close> the boundary reads URLs with.
  \<^item> \<open>Target_Policy\<close> (\<open>recon/policy.py\<close>): the policy record, \<open>decide_url\<close> (\<open>_allows_url\<close>) and the
    decisions for Recon, Attack, Validation, browser support and GraphQL, start URLs, and
    \<open>validate_policy_for_target\<close>.  A validated policy stays on its target, with paths compared as they
    are written; state-changing methods need an authorization, but for the POST of a browser page and
    the GraphQL probe; normalizing a read-only policy changes no decision; a default start URL
    is valid; dot segments and an explicit port 0 pass (findings).
  \<^item> \<open>Exclusion_Guard\<close>, \<open>Exclusion_Soundness\<close> (\<open>core/exclusion_guard.py\<close>): exclusion rules, their
    validation, the disjointness of assets and the three-valued evaluation of a physical request.
    Continue is sound for every completion of the unknown predicates, a denial names true rules,
    a rule that is dropped statically shares no place with the target.
  \<^item> \<open>Http_Safety\<close> (\<open>core/http_safety.py\<close>): identity headers, credential headers, redaction, and
    the capabilities of the manual login, which authorize one POST each.
  \<^item> \<open>Governor\<close> (\<open>core/request_governor.py\<close>): the shared request ledger.  Its transactions are
    steps on the table of requests; budget, concurrency and pacing hold for every sequence of them, a
    permit is dispatched once, the admission loop returns: its time passes by the lag of the process
    and by its own sleeps, and every delay it sleeps is at least 1/100 second or ends the wait.
  \<^item> \<open>Shared_Ledger\<close> (\<open>core/request_governor.py\<close>): the same ledger under the governors of several
    scans.  Program and target quotas count over all of them, and no quota window is overfull.
  \<^item> \<open>Capture_Receipt\<close> (\<open>core/capture_receipt.py\<close>): the receipts of captured transactions, which
    validate against the transaction they were issued for.
  \<^item> \<open>Proxy_Rules\<close> (\<open>TargetPolicy.mitm_rules\<close>, \<open>validate_scope_rules\<close>): the rule file of the capturing
    proxy; a checked policy writes rules the proxy accepts unless one of its lists is empty.
  \<^item> \<open>Request_Broker\<close> (\<open>core/request_broker.py\<close>, \<open>core/capture_receipt.py\<close>): the redirect loop that
    puts policy, identity, exclusion guard, counter and permit together.  A permit whose completion
    raises is an event of its own (\<open>CompletionFailed\<close>) and ends the request.  \<open>hop_events\<close> says what
    one hop leaves behind, \<open>hops_chain\<close> what a request leaves; the theorems on authorization,
    permits, bounds and credentials are read off that chain.
  \<^item> \<open>Budget_Ledger\<close> (\<open>attack/authorization.py\<close>, \<open>core/policy_service.py\<close>): approvals, their
    durable ledger of reservations and the service that sends an approved observation through the
    broker.  Each transaction may fail in the database (\<open>sqlite_io\<close>), before or after its own checks.
    An approval is never overspent, never used after its revocation, and every dispatch has one
    reservation that records its outcome, or stays open when the receipt cannot be persisted.
  \<^item> This theory: what the composition gives for the wire.

  \<^bold>\<open>The stores.\<close>  SQLite tables are lists of rows in rowid order; a transaction is a function to a
  result whose \<open>Inl\<close> is the exception that rolls it back; CHECK, UNIQUE and FOREIGN KEY
  constraints are guards of the transaction that can meet them.
  \<^item> \<open>Lifecycle\<close> (\<open>pipeline/lifecycle.py\<close>): stage runs and tasks.
  \<^item> \<open>Coverage\<close> (\<open>attack/coverage.py\<close>): the coverage items, their claims, leases, reconciliation
    and the feedback of Validation.
  \<^item> \<open>Work_Queue\<close> (\<open>attack/work_queue.py\<close>): the leads that follow new evidence, their share of a
    batch and their reconciliation; a lead whose item is still running is stranded (finding).
  \<^item> \<open>Attack_Graph\<close> (\<open>attack/graph.py\<close>): the graph projected from the evidence tables.  A second
    synchronization changes nothing, every change is logged, and the graph does not depend on
    credential locations or on the values of facts and parameters.
  \<^item> \<open>Online_Chaining\<close> (\<open>attack/online_chaining.py\<close>): the follow-ups of a proven finding, on its own
    origin and bounded, pushed into the lead queue; a deferred lead never returns (finding).
  \<^item> \<open>Preconditions\<close> (\<open>attack/preconditions.py\<close>): what blocks an item, how it is resolved, and when
    the item goes back to the queue; a settled unsupported item stops the resolution (finding).
  \<^item> \<open>Attack_Batch\<close> (\<open>orchestration/coverage_attack.py\<close>): the exhaustive run over all of these.  Its
    transactions carry the database that the operations underneath commit on the way, and \<open>ends\<close>
    reasons about both what a step returns and what it leaves when it raises.  A recovered batch
    holds no lease and no lead, the run goes on only over settled evidence and returns only when the
    scan is covered; a batch that cannot be prepared strands its stage run (finding).
  \<^item> \<open>Decision\<close> (\<open>validation/core\<close>, \<open>validation/contracts/models.py\<close>): impact, the decision engine,
    gap analysis, known matching and the assembly of a verdict.
  \<^item> \<open>Eligibility\<close> (\<open>validation/core/scope_eligibility.py\<close>): the bounded agent loop that decides
    whether a finding may be reported, and the recheck of an assessment that was stored before.
  \<^item> \<open>Case_Repository\<close>, \<open>Case_Invariants\<close> (\<open>validation/persistence/repository.py\<close>): all transactions
    on Validation cases, and the invariants over every sequence of them.
  \<^item> \<open>Evidence_Gate\<close> (\<open>validation/core/integrity.py\<close>): which Attack evidence becomes the source of a
    Validation case; accepted evidence is durable, bound to its finding and authorized, and the
    search for an adopting resumption is exact.

  \<open>Prelude\<close> holds Python values, results, dictionaries, strings and tables; \<open>Interfaces\<close> the
  contracts that components share, as locales: \<open>spend_ledger\<close> (interpreted for the
  governor and for the requests and bytes of an approval),
  \<open>audited_machine\<close> (for tasks and for coverage items) and \<open>versioned_store\<close> (for cases).

  \<^bold>\<open>Bounds and fuel.\<close>  Loops of the code are structural recursions on what bounds them: the hops of
  a request on the redirect limit, the pointer walk on the pointer, the agent loop on its number of
  attempts.  The admission loop of the governor runs on rounds, and \<open>acquire_returns\<close> gives the
  number that is enough.  Times and rates are rationals, identifiers and clock readings are
  arguments.

  \<^bold>\<open>Parameters.\<close>  IDNA and address parsing, SHA-256, HMAC, base64, JSON text, \<open>urljoin\<close>, the
  transport and the clock are functions in \<open>net_env\<close>, \<open>guard_env\<close>, \<open>crypto_env\<close> and \<open>broker_env\<close>;
  language-model agents and random identifiers are arguments.  Strings are ASCII.

  \<^bold>\<open>Not modelled.\<close>  Crawlers, browsers, subprocess scanners, the vendored agent engine, the web
  dashboard, report rendering and the command lines: they are I/O without a contract of their own.
  The asyncio twins of the governor repeat its transactions.  The textual evidence checks of an
  active authorization only reject more policies.  The planner ranks skills for a language model
  and checks the shape of its answer; the deterministic probes of the coordinator and the replay of
  finding chains send requests through the command line around the broker; Validation profiles
  recognize evidence in response texts class by class.  They rest on the stores modelled here.
\<close>

section \<open>From the approved policy to the wire\<close>

lemma valid_target_decides:
  "valid_target B b url m \<Longrightarrow> \<exists>k paths meth. decide_url (net B) (bk_policy b) url k paths meth"
  by (auto simp: valid_target_def allows_url_def allows_validation_url_def allows_attack_url_def
      split: option.splits if_splits)

text \<open>
  C1: Recon and Validation only ever touch the approved target.  When the policy of the broker
  passed \<open>validate_policy_for_target\<close>, every physical request the broker sends, redirects included,
  is allowed by the policy for its method, and its host is the canonical host of the asset or
  matches its wildcard, and matches no excluded host.
\<close>

theorem sent_requests_stay_on_target:
  assumes "validate_policy_for_target (net B) (bk_policy b) t asset = Inr ()"
    and "broker_request B b url m headers data timeout capture s = (r, s')"
    and "w \<in> set (wires (new_events s s'))"
  shows "valid_target B b (w_url w) (w_method w)
    \<and> (\<exists>u c. urlsplit (net B) (w_url w) = Some u \<and> canonical_host_for_asset (net B) t asset = Some c
    \<and> on_target (bk_policy b) t asset c (norm_host (or_empty (u_hostname u)))
    \<and> filter (host_matches (norm_host (or_empty (u_hostname u)))) (tp_excluded_hosts (bk_policy b)) = [])"
proof -
  obtain k p e where "decide_url (net B) (bk_policy b) (w_url w) k p e"
    using sent_wire_checked [OF assms(2,3)] valid_target_decides by blast
  from validated_on_target [OF assms(1) this, unfolded within_target_def] show ?thesis
    using sent_wire_checked [OF assms(2,3)] unfolding filter_empty_conv by blast
qed

text \<open>
  C2: no excluded request is sent.  Under an exclusion snapshot, every physical request the broker
  sends was decided against a validated snapshot as the request it is on the wire, and no
  exclusion rule that concerns it can be true of it, however the predicates the guard could not
  evaluate turn out.
\<close>

theorem sent_requests_match_no_exclusion:
  assumes "broker_request B b url m headers data timeout capture s = (r, s')"
    and "w \<in> set (wires (new_events s s'))" and "bk_exclusions b = Some g"
  shows "\<exists>p. pq_url p = w_url w \<and> pq_method p = w_method w \<and> pq_headers p = w_headers w
    \<and> or_empty (pq_body p) = or_empty (w_body w) \<and> policy_ok (be_guard B) g
    \<and> (\<forall>x\<in>set (gp_rules g). concerns (be_guard B) g p x \<longrightarrow>
         (\<forall>t. refines t (valuation (be_guard B) g p (xr_key x)) \<longrightarrow> \<not> holds t (xr_condition x)))"
proof -
  obtain raw now where w: "w_body w = (if raw = [] then None else Some raw)"
    and a: "admitted B b (physical B (w_url w) (w_method w) (w_headers w) raw now)" (is "admitted B b ?p")
    using sent_wire_checked [OF assms(1,2)] by blast
  have e: "evaluate_exclusions (be_guard B) (Some g) ?p = Continue"
    using a assms(3) by (auto simp: admitted_def request_admitted_def check_request_exclusions_def split: if_splits)
  have "policy_ok (be_guard B) g" using e by (auto simp: evaluate_exclusions_def split: if_splits)
  moreover have "or_empty (pq_body ?p) = or_empty (w_body w)" using w by (simp add: physical_def or_empty_def)
  ultimately show ?thesis using continue_silences [OF e] by (intro exI [of _ ?p]) (simp add: physical_def)
qed

section \<open>Examples\<close>

lemma sample_single_run:
  assumes "identified b [(''Cookie'', ''s'')] = Some [(''Cookie'', ''s'')]" and "0 < request_limit b"
    and "bk_policy b = sample_policy\<lparr>tp_asset := a\<rparr>" and "bk_required b = []" and "bk_max_redirects b = 3"
    and "\<not> bk_validation b"
    and "\<And>now. admitted sample_world b (physical sample_world ''https://a.co/x'' ''GET'' (w_headers sample_first) [] now)"
  shows "\<exists>r. broker_request sample_world b ''https://a.co/x'' ''get'' [(''Cookie'', ''s'')] None None True \<lparr>bs_count = 0, bs_trace = []\<rparr>
    = (r, \<lparr>bs_count = 1, bs_trace = [Acquired ''https://a.co/x'', Sent sample_first, Closed, Completed]\<rparr>)"
proof -
  have g: "upper ''get'' = ''GET''" by (simp add: str_eval)
  have v: "valid_target sample_world b ''https://a.co/x'' ''GET''" "\<not> valid_target sample_world b ''https://b.co/x'' ''GET''"
    using assms(3,6) by (simp_all add: valid_target_def sample_world_def sample_policy_def truthy_text_def allows_url_def
        policy_eval str_eval)
  have "\<exists>r. one_hop sample_world b True (bk_timeout b) False
      \<lparr>hr_url = ''https://a.co/x'', hr_method = ''GET'', hr_headers = [(''Cookie'', ''s'')], hr_data = None\<rparr> \<lparr>bs_count = 0, bs_trace = []\<rparr>
      = (Finish r, \<lparr>bs_count = Suc 0, bs_trace = [Acquired ''https://a.co/x'', Sent sample_first, Closed, Completed]\<rparr>)"
    using assms v by (simp add: one_hop_def sample_prepared under_permit_def complete_def after_reply_def
        sample_reply_simps rewritten_def answer_def sample_first_def Let_def or_empty_def split: option.split)
  then show ?thesis using assms(5) by (auto simp: broker_request_def g hops.simps [of _ _ _ _ 3])
qed

definition target_broker :: broker where
  "target_broker = sample_broker\<lparr>bk_policy := sample_policy\<rparr>"

definition guarded_broker :: broker where
  "guarded_broker = sample_broker\<lparr>bk_policy := sample_policy\<lparr>tp_asset := ''a.co''\<rparr>, bk_exclusions := Some sample_snapshot\<rparr>"

lemma example_broker_simps:
  "identified target_broker hs = Some hs" "request_limit target_broker = 5"
  "identified guarded_broker hs = Some hs" "request_limit guarded_broker = 5"
  by (simp_all add: target_broker_def guarded_broker_def identified_def request_limit_def sample_broker_def
      truthy_text_def or_empty_def)

lemma target_run:
  "\<exists>r. broker_request sample_world target_broker ''https://a.co/x'' ''get'' [(''Cookie'', ''s'')] None None True \<lparr>bs_count = 0, bs_trace = []\<rparr>
    = (r, \<lparr>bs_count = 1, bs_trace = [Acquired ''https://a.co/x'', Sent sample_first, Closed, Completed]\<rparr>)"
  by (rule sample_single_run [where a = "''https://a.co/x''"])
    (simp_all add: example_broker_simps, simp_all add: target_broker_def sample_broker_def sample_policy_def
      admitted_def request_admitted_def check_request_exclusions_def evaluate_exclusions_def)

lemma sent_requests_stay_on_target_witness:
  "\<exists>u c. urlsplit plain_env ''https://a.co/x'' = Some u \<and> canonical_host_for_asset plain_env AURL ''https://a.co/x'' = Some c
    \<and> on_target sample_policy AURL ''https://a.co/x'' c (norm_host (or_empty (u_hostname u)))"
proof -
  obtain r where r: "broker_request sample_world target_broker ''https://a.co/x'' ''get'' [(''Cookie'', ''s'')] None None True \<lparr>bs_count = 0, bs_trace = []\<rparr>
    = (r, \<lparr>bs_count = 1, bs_trace = [Acquired ''https://a.co/x'', Sent sample_first, Closed, Completed]\<rparr>)"
    using target_run by blast
  have n: "net sample_world = plain_env" by (simp add: sample_world_def)
  have p: "bk_policy target_broker = sample_policy" by (simp add: target_broker_def)
  have v: "validate_policy_for_target (net sample_world) (bk_policy target_broker) AURL ''https://a.co/x'' = Inr ()"
    unfolding n p by (rule sample_policy_valid)
  have w: "sample_first \<in> set (wires (new_events \<lparr>bs_count = 0, bs_trace = []\<rparr>
      \<lparr>bs_count = 1, bs_trace = [Acquired ''https://a.co/x'', Sent sample_first, Closed, Completed]\<rparr>))"
    by (simp add: new_events_def)
  have u: "w_url sample_first = ''https://a.co/x''" by (simp add: sample_first_def)
  from sent_requests_stay_on_target [OF v r w] show ?thesis unfolding n p u by blast
qed

lemma guarded_admission:
  "evaluate_exclusions sample_guard_env (Some sample_snapshot)
     (physical sample_world ''https://a.co/x'' ''GET'' (w_headers sample_first) [] now) = Continue"
proof -
  have p: "guard_path sample_guard_env ''/x'' = Some ''/x''" by (simp add: guard_path_def guard_eval str_eval)
  have u: "guard_url sample_guard_env ''https://a.co/x'' = Some (''https'', ''a.co'', 443, ''/x'', [])"
    by (simp add: guard_url_def p guard_eval str_eval)
  have rules: "applicable_rules sample_guard_env sample_snapshot = [(sample_delete, Applies)]"
    by (simp add: applicable_rules_def sample_snapshot_def sample_applicability)
  obtain hs where h: "guard_headers (w_headers sample_first) = Some hs"
    by (simp add: guard_headers_def sample_first_def header_value_ok_def guard_eval str_eval)
  show ?thesis
    by (simp add: evaluate_exclusions_def sample_policy_ok rules physical_def u sample_methods h
        context_ok_def rule_says_def sample_delete_def predicate_value_def value_for_def
        is_dom_action_def compare_value_def sample_paths path_contains_def rstrip_by_def or_empty_def)
qed

lemma guarded_run:
  "\<exists>r. broker_request sample_world guarded_broker ''https://a.co/x'' ''get'' [(''Cookie'', ''s'')] None None True \<lparr>bs_count = 0, bs_trace = []\<rparr>
    = (r, \<lparr>bs_count = 1, bs_trace = [Acquired ''https://a.co/x'', Sent sample_first, Closed, Completed]\<rparr>)"
proof (rule sample_single_run [where a = "''a.co''"])
  have "be_guard sample_world = sample_guard_env" by (simp add: sample_world_def)
  then show "admitted sample_world guarded_broker (physical sample_world ''https://a.co/x'' ''GET'' (w_headers sample_first) [] now)" for now
    using guarded_admission
    by (simp add: admitted_def request_admitted_def check_request_exclusions_def guarded_broker_def)
      (simp add: sample_snapshot_def)
qed (simp_all add: example_broker_simps, simp_all add: guarded_broker_def sample_broker_def)

lemma sent_requests_match_no_exclusion_witness:
  "\<exists>p :: physical_request. pq_url p = ''https://a.co/x'' \<and> pq_method p = ''GET'' \<and> policy_ok sample_guard_env sample_snapshot"
proof -
  obtain r where r: "broker_request sample_world guarded_broker ''https://a.co/x'' ''get'' [(''Cookie'', ''s'')] None None True \<lparr>bs_count = 0, bs_trace = []\<rparr>
    = (r, \<lparr>bs_count = 1, bs_trace = [Acquired ''https://a.co/x'', Sent sample_first, Closed, Completed]\<rparr>)"
    using guarded_run by blast
  have w: "sample_first \<in> set (wires (new_events \<lparr>bs_count = 0, bs_trace = []\<rparr>
      \<lparr>bs_count = 1, bs_trace = [Acquired ''https://a.co/x'', Sent sample_first, Closed, Completed]\<rparr>))"
    by (simp add: new_events_def)
  have "bk_exclusions guarded_broker = Some sample_snapshot" by (simp add: guarded_broker_def)
  from sent_requests_match_no_exclusion [OF r w this]
  obtain p :: physical_request where "pq_url p = w_url sample_first" "pq_method p = w_method sample_first"
    "policy_ok (be_guard sample_world) sample_snapshot" by blast
  then have "pq_url p = ''https://a.co/x'' \<and> pq_method p = ''GET'' \<and> policy_ok sample_guard_env sample_snapshot"
    by (simp add: sample_first_def sample_world_def)
  then show ?thesis by blast
qed

end
